(* ===== verification/Prelude.thy ===== *)
theory Prelude
  imports Main "HOL-Library.Word"
begin

text \<open>
  The language layer shared by every component: Go's fixed-width integers, its
  maps and the unspecified order in which \<^verbatim>\<open>range\<close> visits them, and the generic
  facts about sums over a map on which the money-conservation proofs rest.

  \<^item> \<open>int64\<close> and \<open>uint64\<close> are both 64-bit words; arithmetic wraps as Go's does,
    comparisons of an \<open>int64\<close> are the signed ones (\<open><s\<close>, \<open>\<le>s\<close>).
  \<^item> Go's \<open>int\<close> (64 bits wide on the supported platforms) is \<open>int\<close>, brought back into
    range by \<open>go_int\<close> wherever the code computes with a value it did not bound.
  \<^item> A Go map is a partial function with a finite domain.
  \<^item> \<open>visits ks m\<close>: \<open>ks\<close> is one of the orders in which \<^verbatim>\<open>for k, v := range m\<close> may
    visit the map. A definition that ranges over a map takes that order as an argument,
    and its theorems hold for every order.
\<close>

named_theorems map_order \<open>facts that remove the order in which a map was visited\<close>
named_theorems funds_simps \<open>how map updates change the sum of the balances\<close>

section \<open>Integers\<close>

type_synonym int64 = "64 word"
type_synonym uint64 = "64 word"

text \<open>A value of Go's \<open>int\<close> after an operation: reduced to 64 bits, two's complement.\<close>

definition go_int :: "int \<Rightarrow> int" where
  "go_int i = signed_take_bit 63 i"

section \<open>Maps\<close>

text \<open>\<open>m[k] += d\<close>: a missing key reads as the zero value.\<close>

definition map_plus :: "('k \<rightharpoonup> 'v::{plus,zero}) \<Rightarrow> 'k \<Rightarrow> 'v \<Rightarrow> ('k \<rightharpoonup> 'v)" where
  "map_plus m k d = m(k \<mapsto> (case m k of None \<Rightarrow> 0 | Some v \<Rightarrow> v) + d)"

definition visits :: "'k list \<Rightarrow> ('k \<rightharpoonup> 'v) \<Rightarrow> bool" where
  "visits ks m \<longleftrightarrow> distinct ks \<and> set ks = dom m"

text \<open>The loop \<^verbatim>\<open>for k, v := range m { out[k] = v }\<close> that copies a map.\<close>

fun range_copy :: "'k list \<Rightarrow> ('k \<rightharpoonup> 'v) \<Rightarrow> ('k \<rightharpoonup> 'v) \<Rightarrow> ('k \<rightharpoonup> 'v)" where
  "range_copy [] m out = out"
| "range_copy (k # ks) m out = range_copy ks m (case m k of None \<Rightarrow> out | Some v \<Rightarrow> out(k \<mapsto> v))"

text \<open>The exact (unbounded) sum of the signed values of a map.\<close>

definition funds :: "('k \<rightharpoonup> int64) \<Rightarrow> int" where
  "funds m = (\<Sum>k\<in>dom m. sint (the (m k)))"

section \<open>Facts about signed words\<close>

lemma sint_bounds64:
  fixes a :: int64
  shows "- (2 ^ 63) \<le> sint a" "sint a < 2 ^ 63"
  using sint_ge [of a] sint_lt [of a] by simp_all

lemma sint_in_range: "- (2 ^ 63) \<le> i \<Longrightarrow> i < 2 ^ 63 \<Longrightarrow> sint (word_of_int i :: int64) = i"
  by (simp add: sint_sbintrunc' signed_take_bit_int_eq_self)

lemma sint_plus64:
  fixes a b :: int64
  assumes "- (2 ^ 63) \<le> sint a + sint b" "sint a + sint b < 2 ^ 63"
  shows "sint (a + b) = sint a + sint b"
  using assms by (simp add: sint_word_ariths signed_take_bit_int_eq_self)

lemma sint_minus64:
  fixes a b :: int64
  assumes "- (2 ^ 63) \<le> sint a - sint b" "sint a - sint b < 2 ^ 63"
  shows "sint (a - b) = sint a - sint b"
  using assms by (simp add: sint_word_ariths signed_take_bit_int_eq_self)

lemmas signed_order = word_sless_alt word_sle_eq

lemma go_int_id: "- (2 ^ 63) \<le> i \<Longrightarrow> i < 2 ^ 63 \<Longrightarrow> go_int i = i"
  by (simp add: go_int_def signed_take_bit_int_eq_self)

section \<open>Facts about maps and their visiting orders\<close>

lemma map_plus_apply: "map_plus m k d x = (if x = k then Some ((case m k of None \<Rightarrow> 0 | Some v \<Rightarrow> v) + d) else m x)"
  by (simp add: map_plus_def)

lemma dom_map_plus [simp]: "dom (map_plus m k d) = insert k (dom m)"
  by (simp add: map_plus_def)

lemma map_plus_hit: "m k = Some v \<Longrightarrow> map_plus m k d = m(k \<mapsto> v + d)"
  by (simp add: map_plus_def)

lemma visits_finite: "visits ks m \<Longrightarrow> finite (dom m)"
  by (metis visits_def List.finite_set)

lemma visits_exists: "finite (dom m) \<Longrightarrow> \<exists>ks. visits ks m"
  by (metis finite_distinct_list visits_def)

lemma range_copy_apply:
  "range_copy ks m out x = (if x \<in> set ks \<and> x \<in> dom m then m x else out x)"
  by (induction ks m out rule: range_copy.induct) (auto split: option.splits)

lemma range_copy_visits [map_order]: "visits ks m \<Longrightarrow> range_copy ks m Map.empty = m"
  by (rule ext) (auto simp: range_copy_apply visits_def domIff)

section \<open>Sums over maps\<close>

lemma funds_empty [simp, funds_simps]: "funds Map.empty = 0"
  by (simp add: funds_def)

lemma funds_insert [funds_simps]:
  assumes "finite (dom m)" "k \<notin> dom m"
  shows "funds (m(k \<mapsto> v)) = funds m + sint v"
proof -
  have "(\<Sum>x\<in>dom m. sint (the ((m(k \<mapsto> v)) x))) = (\<Sum>x\<in>dom m. sint (the (m x)))"
    using assms(2) by (intro sum.cong) auto
  then show ?thesis using assms by (simp add: funds_def)
qed

lemma funds_update [funds_simps]:
  assumes "finite (dom m)" "m k = Some w"
  shows "funds (m(k \<mapsto> v)) = funds m - sint w + sint v"
proof -
  have k: "k \<in> dom m" using assms(2) by blast
  have "(\<Sum>x\<in>dom m - {k}. sint (the ((m(k \<mapsto> v)) x))) = (\<Sum>x\<in>dom m - {k}. sint (the (m x)))"
    by (intro sum.cong) auto
  then show ?thesis
    using k assms by (simp add: funds_def sum.remove insert_absorb)
qed

lemma funds_member_le:
  assumes "finite (dom m)" "\<And>k v. m k = Some v \<Longrightarrow> 0 \<le> sint v" "m a = Some w"
  shows "sint w \<le> funds m"
proof -
  have "sint (the (m a)) \<le> (\<Sum>k\<in>dom m. sint (the (m k)))"
    using assms by (intro member_le_sum) auto
  then show ?thesis using assms(3) by (simp add: funds_def)
qed

lemma funds_two_le:
  assumes "finite (dom m)" "\<And>k v. m k = Some v \<Longrightarrow> 0 \<le> sint v"
    and "m a = Some v" "m b = Some w" "a \<noteq> b"
  shows "sint v + sint w \<le> funds m"
proof -
  have "sint v + sint w = (\<Sum>k\<in>{a, b}. sint (the (m k)))" using assms by simp
  also have "\<dots> \<le> (\<Sum>k\<in>dom m. sint (the (m k)))"
    using assms by (intro sum_mono2) auto
  finally show ?thesis by (simp add: funds_def)
qed

end
