(* ===== verification/Models.thy ===== *)
theory Models
  imports Prelude
begin

text \<open>
  The vocabulary of the system: \<^verbatim>\<open>shared/constants/states.go\<close> and
  \<^verbatim>\<open>shared/models/*.go\<close>. A Go string type with a fixed set of constants is a datatype
  with those constants; an operation type also reaches a shard from a decoded request
  body, where it can be any string, hence \<open>OpOther\<close>. Wall-clock fields (\<open>Timestamp\<close>,
  \<open>CreatedAt\<close>, \<open>LatencyMs\<close>) are left out of the records: no code reads them back.
\<close>

section \<open>Constants\<close>

datatype TransactionState = StatePending | StatePrepared | StateCommitted | StateAborted

datatype OperationType =
    OpDebit | OpCredit | OpPrepared | OpCommitted | OpAborted | OpCreateAccount | OpCheckpoint
  | OpOther string

definition RolePrimary :: string where
  "RolePrimary = ''PRIMARY''"

definition RoleFollower :: string where
  "RoleFollower = ''FOLLOWER''"

section \<open>Records\<close>

record Transaction =
  t_TxnID :: string
  t_Source :: string
  t_Destination :: string
  t_Amount :: int64
  t_State :: TransactionState

text \<open>
  The message of a result is prose for the client. It is kept as the error it was rendered
  from, so that the branch that produced it can be told.
\<close>

datatype 'e message = NoMessage | Text string | ErrorText 'e | ApplyFailedText 'e

record 'e TransactionResult =
  r_TxnID :: string
  r_State :: TransactionState
  r_Message :: "'e message"

record WALEntry =
  e_LogID :: uint64
  e_TxnID :: string
  e_OpType :: OperationType
  e_AccountID :: string
  e_Amount :: int64
  e_Committed :: bool
  e_CheckpointLogID :: uint64

record TxnSummary =
  sum_TxnID :: string
  sum_Source :: string
  sum_Destination :: string
  sum_Amount :: int64
  sum_Type :: string
  sum_State :: TransactionState
  sum_ShardID :: string

record ShardMetrics =
  m_ShardID :: string
  m_Role :: string
  m_QueueDepth :: int
  m_ReplicationLag :: int
  m_WALIndex :: uint64
  m_LastCheckpointLogID :: uint64
  m_FollowerCount :: int
  m_AccountCount :: int
  m_TotalBalance :: int64
  m_CommittedCount :: int64
  m_AbortedCount :: int64
  m_PreparedCount :: int64

section \<open>Requests over the network\<close>

text \<open>
  How one HTTP request fares: it is served and the reply arrives, it never reaches the server,
  or it is served but the caller sees an error (a lost reply or the client's timeout). The
  method of a request is only ever compared with GET and POST.
\<close>

datatype net = NetOk | RequestLost | ReplyLost

datatype http_method = MethodGet | MethodPost | MethodOther

abbreviation (input) StatusOK :: nat where "StatusOK \<equiv> 200"
abbreviation (input) StatusCreated :: nat where "StatusCreated \<equiv> 201"
abbreviation (input) StatusBadRequest :: nat where "StatusBadRequest \<equiv> 400"
abbreviation (input) StatusNotFound :: nat where "StatusNotFound \<equiv> 404"
abbreviation (input) StatusMethodNotAllowed :: nat where "StatusMethodNotAllowed \<equiv> 405"
abbreviation (input) StatusConflict :: nat where "StatusConflict \<equiv> 409"
abbreviation (input) StatusInternalServerError :: nat where "StatusInternalServerError \<equiv> 500"

section \<open>Recent-transaction rings\<close>

text \<open>
  The shard server (capacity 500) and the coordinator's consumer (capacity 1000) keep the
  same bounded history: when it is full the oldest entry is dropped before the new one is
  appended. What both promise their readers is stated once: after any number of additions
  the history is the last \<open>cap\<close> of them, oldest first.
\<close>

definition last_n :: "nat \<Rightarrow> 'a list \<Rightarrow> 'a list" where
  "last_n n xs = drop (length xs - n) xs"

lemma length_last_n [simp]: "length (last_n n xs) = min n (length xs)"
  by (simp add: last_n_def)

lemma last_n_all [simp]: "length xs \<le> n \<Longrightarrow> last_n n xs = xs"
  by (simp add: last_n_def)

lemma last_n_snoc:
  assumes "0 < n"
  shows "last_n n (xs @ [x]) = (if n \<le> length (last_n n xs) then tl (last_n n xs) else last_n n xs) @ [x]"
proof (cases "n \<le> length xs")
  case True
  then have "Suc (length xs) - n = Suc (length xs - n)" by simp
  with True assms show ?thesis
    by (simp add: last_n_def drop_Suc drop_tl)
next
  case False
  then show ?thesis by (simp add: last_n_def)
qed

locale recent_ring =
  fixes add :: "'t \<Rightarrow> 's \<Rightarrow> 's"
    and items :: "'s \<Rightarrow> 't list"
    and cap :: nat
  assumes cap_pos: "0 < cap"
    and items_add: "items (add t s) = (if cap \<le> length (items s) then tl (items s) else items s) @ [t]"
begin

lemma items_bounded: "length (items s) \<le> cap \<Longrightarrow> length (items (add t s)) \<le> cap"
  using cap_pos by (auto simp: items_add)

lemma history_is_last:
  assumes "items s = []"
  shows "items (fold add ts s) = last_n cap ts"
proof (induction ts rule: rev_induct)
  case Nil
  then show ?case using assms by simp
next
  case (snoc t ts)
  then show ?case using last_n_snoc [OF cap_pos, of ts t] by (simp add: items_add)
qed

end

end
