(* ===== verification/Ledger.thy ===== *)
theory Ledger
  imports Models
begin

text \<open>
  \<^verbatim>\<open>shard/ledger/ledger.go\<close>: the account balances of one shard. Every method runs under
  the ledger's own mutex, so each is one atomic state transformer: it takes the ledger and
  returns it updated together with the error it returned (\<open>None\<close> is Go's \<open>nil\<close>).

  The invariant \<open>ledger_ok\<close> is the one the package comment announces (no negative balance)
  strengthened until it is inductive in 64-bit arithmetic: the balances are finitely many,
  none is negative and their exact sum is below \<open>2^63\<close>, so that no credit can wrap around.
\<close>

section \<open>Model\<close>

record Ledger =
  l_balances :: "string \<rightharpoonup> int64"

datatype ledger_error =
    InitialNegative string int64
  | OpeningNegative
  | AlreadyExists string
  | TransferNotPositive int64
  | SourceNotFound string
  | DestinationNotFound string
  | InsufficientBalance string int64 int64
  | DebitNotPositive int64
  | CreditNotPositive int64
  | RollbackNotPositive
  | ValidateNotPositive
  | AccountNotFound string
  | RollbackNotFound string

definition NewLedger :: Ledger where
  "NewLedger = \<lparr>l_balances = Map.empty\<rparr>"

text \<open>The first loop looks for a negative balance, the second copies the map.\<close>

fun first_negative :: "string list \<Rightarrow> (string \<rightharpoonup> int64) \<Rightarrow> ledger_error option" where
  "first_negative [] m = None"
| "first_negative (k # ks) m =
     (case m k of
        Some bal \<Rightarrow> if bal <s 0 then Some (InitialNegative k bal) else first_negative ks m
      | None \<Rightarrow> first_negative ks m)"

definition NewLedgerWithAccounts ::
    "string list \<Rightarrow> string list \<Rightarrow> (string \<rightharpoonup> int64) \<Rightarrow> ledger_error + Ledger" where
  "NewLedgerWithAccounts ks ks' initial =
     (case first_negative ks initial of
        Some e \<Rightarrow> Inl e
      | None \<Rightarrow> Inr \<lparr>l_balances = range_copy ks' initial Map.empty\<rparr>)"

text \<open>Go returns \<open>(0, false)\<close> for a missing account.\<close>

definition Ledger_GetBalance :: "string \<Rightarrow> Ledger \<Rightarrow> int64 \<times> bool" where
  "Ledger_GetBalance a l = (case l_balances l a of None \<Rightarrow> (0, False) | Some b \<Rightarrow> (b, True))"

definition Ledger_CreateAccount :: "string \<Rightarrow> int64 \<Rightarrow> Ledger \<Rightarrow> Ledger \<times> ledger_error option" where
  "Ledger_CreateAccount a opening l =
     (if opening <s 0 then (l, Some OpeningNegative)
      else if l_balances l a \<noteq> None then (l, Some (AlreadyExists a))
      else (l\<lparr>l_balances := (l_balances l)(a \<mapsto> opening)\<rparr>, None))"

definition Ledger_ApplyTransfer ::
    "string \<Rightarrow> string \<Rightarrow> int64 \<Rightarrow> Ledger \<Rightarrow> Ledger \<times> ledger_error option" where
  "Ledger_ApplyTransfer src dst amount l =
     (if amount \<le>s 0 then (l, Some (TransferNotPositive amount))
      else case l_balances l src of
        None \<Rightarrow> (l, Some (SourceNotFound src))
      | Some srcBal \<Rightarrow>
          if l_balances l dst = None then (l, Some (DestinationNotFound dst))
          else if srcBal <s amount then (l, Some (InsufficientBalance src srcBal amount))
          else (l\<lparr>l_balances := map_plus (map_plus (l_balances l) src (- amount)) dst amount\<rparr>, None))"

definition Ledger_ApplyDebit :: "string \<Rightarrow> int64 \<Rightarrow> Ledger \<Rightarrow> Ledger \<times> ledger_error option" where
  "Ledger_ApplyDebit a amount l =
     (if amount \<le>s 0 then (l, Some (DebitNotPositive amount))
      else case l_balances l a of
        None \<Rightarrow> (l, Some (AccountNotFound a))
      | Some bal \<Rightarrow>
          if bal <s amount then (l, Some (InsufficientBalance a bal amount))
          else (l\<lparr>l_balances := map_plus (l_balances l) a (- amount)\<rparr>, None))"

definition Ledger_ApplyCredit :: "string \<Rightarrow> int64 \<Rightarrow> Ledger \<Rightarrow> Ledger \<times> ledger_error option" where
  "Ledger_ApplyCredit a amount l =
     (if amount \<le>s 0 then (l, Some (CreditNotPositive amount))
      else if l_balances l a = None then (l, Some (AccountNotFound a))
      else (l\<lparr>l_balances := map_plus (l_balances l) a amount\<rparr>, None))"

definition Ledger_RollbackDebit :: "string \<Rightarrow> int64 \<Rightarrow> Ledger \<Rightarrow> Ledger \<times> ledger_error option" where
  "Ledger_RollbackDebit a amount l =
     (if amount \<le>s 0 then (l, Some RollbackNotPositive)
      else if l_balances l a = None then (l, Some (RollbackNotFound a))
      else (l\<lparr>l_balances := map_plus (l_balances l) a amount\<rparr>, None))"

definition Ledger_ValidateDebit :: "string \<Rightarrow> int64 \<Rightarrow> Ledger \<Rightarrow> ledger_error option" where
  "Ledger_ValidateDebit a amount l =
     (if amount \<le>s 0 then Some ValidateNotPositive
      else case l_balances l a of
        None \<Rightarrow> Some (AccountNotFound a)
      | Some bal \<Rightarrow> if bal <s amount then Some (InsufficientBalance a bal amount) else None)"

text \<open>\<open>total += bal\<close> over the map, in the order the runtime visits it.\<close>

definition Ledger_TotalBalance :: "string list \<Rightarrow> Ledger \<Rightarrow> int64" where
  "Ledger_TotalBalance ks l =
     foldl (\<lambda>total k. case l_balances l k of None \<Rightarrow> total | Some bal \<Rightarrow> total + bal) 0 ks"

definition Ledger_Snapshot :: "string list \<Rightarrow> Ledger \<Rightarrow> (string \<rightharpoonup> int64)" where
  "Ledger_Snapshot ks l = range_copy ks (l_balances l) Map.empty"

definition Ledger_AccountExists :: "string \<Rightarrow> Ledger \<Rightarrow> bool" where
  "Ledger_AccountExists a l \<longleftrightarrow> l_balances l a \<noteq> None"

definition Ledger_SetBalance :: "string \<Rightarrow> int64 \<Rightarrow> Ledger \<Rightarrow> Ledger" where
  "Ledger_SetBalance a bal l = l\<lparr>l_balances := (l_balances l)(a \<mapsto> bal)\<rparr>"

definition Ledger_LoadBalances :: "string list \<Rightarrow> (string \<rightharpoonup> int64) \<Rightarrow> Ledger \<Rightarrow> Ledger" where
  "Ledger_LoadBalances ks balances l = l\<lparr>l_balances := range_copy ks balances Map.empty\<rparr>"

definition Ledger_AccountCount :: "Ledger \<Rightarrow> nat" where
  "Ledger_AccountCount l = card (dom (l_balances l))"

section \<open>The invariant\<close>

definition ledger_funds :: "Ledger \<Rightarrow> int" where
  "ledger_funds l = funds (l_balances l)"

definition ledger_ok :: "Ledger \<Rightarrow> bool" where
  "ledger_ok l \<longleftrightarrow> finite (dom (l_balances l)) \<and> (\<forall>a b. l_balances l a = Some b \<longrightarrow> 0 \<le> sint b)
     \<and> ledger_funds l < 2 ^ 63"


lemma ledger_okD:
  assumes "ledger_ok l"
  shows "finite (dom (l_balances l))"
    and "l_balances l a = Some b \<Longrightarrow> 0 \<le> sint b"
    and "ledger_funds l < 2 ^ 63"
  using assms by (auto simp: ledger_ok_def)

lemma ledger_okI:
  assumes "finite (dom (l_balances l))"
    and "\<And>a b. l_balances l a = Some b \<Longrightarrow> 0 \<le> sint b"
    and "ledger_funds l < 2 ^ 63"
  shows "ledger_ok l"
  using assms by (auto simp: ledger_ok_def)

lemma ledger_ok_balance_le:
  assumes "ledger_ok l" "l_balances l a = Some b"
  shows "sint b \<le> ledger_funds l"
  unfolding ledger_funds_def
  by (rule funds_member_le [where a = a]) (use assms in \<open>auto dest: ledger_okD\<close>)

lemma ledger_ok_New [simp]: "ledger_ok NewLedger"
  by (simp add: ledger_ok_def NewLedger_def ledger_funds_def)

text \<open>Setting one balance: the effect on the sum and on the invariant.\<close>

lemma ledger_ok_update:
  assumes ok: "ledger_ok l" and old: "l_balances l a = Some w"
    and new: "0 \<le> sint v" "ledger_funds l - sint w + sint v < 2 ^ 63"
  shows "ledger_ok (l\<lparr>l_balances := (l_balances l)(a \<mapsto> v)\<rparr>)"
    and "ledger_funds (l\<lparr>l_balances := (l_balances l)(a \<mapsto> v)\<rparr>) = ledger_funds l - sint w + sint v"
proof -
  show sum: "ledger_funds (l\<lparr>l_balances := (l_balances l)(a \<mapsto> v)\<rparr>) = ledger_funds l - sint w + sint v"
    using ledger_okD(1) [OF ok] old by (simp add: ledger_funds_def funds_update)
  show "ledger_ok (l\<lparr>l_balances := (l_balances l)(a \<mapsto> v)\<rparr>)"
    by (rule ledger_okI) (use ok new sum in \<open>auto simp: ledger_okD split: if_splits\<close>)
qed

section \<open>Functional behaviour of the operations\<close>

lemma ApplyDebit_success:
  "Ledger_ApplyDebit a amount l = (l', None) \<longleftrightarrow>
     (\<exists>b. 0 <s amount \<and> l_balances l a = Some b \<and> amount \<le>s b
        \<and> l' = l\<lparr>l_balances := (l_balances l)(a \<mapsto> b - amount)\<rparr>)"
  by (auto simp: Ledger_ApplyDebit_def map_plus_hit signed_order split: option.splits)

lemma ApplyCredit_success:
  "Ledger_ApplyCredit a amount l = (l', None) \<longleftrightarrow>
     (\<exists>b. 0 <s amount \<and> l_balances l a = Some b
        \<and> l' = l\<lparr>l_balances := (l_balances l)(a \<mapsto> b + amount)\<rparr>)"
  by (auto simp: Ledger_ApplyCredit_def map_plus_hit signed_order)

lemma RollbackDebit_success:
  "Ledger_RollbackDebit a amount l = (l', None) \<longleftrightarrow>
     (\<exists>b. 0 <s amount \<and> l_balances l a = Some b
        \<and> l' = l\<lparr>l_balances := (l_balances l)(a \<mapsto> b + amount)\<rparr>)"
  by (auto simp: Ledger_RollbackDebit_def map_plus_hit signed_order)

lemma ApplyTransfer_success:
  "Ledger_ApplyTransfer src dst amount l = (l', None) \<longleftrightarrow>
     (\<exists>b c. 0 <s amount \<and> l_balances l src = Some b \<and> l_balances l dst = Some c \<and> amount \<le>s b
        \<and> l' = l\<lparr>l_balances := (if src = dst then l_balances l
             else (l_balances l)(src \<mapsto> b - amount, dst \<mapsto> c + amount))\<rparr>)"
  by (auto simp: Ledger_ApplyTransfer_def map_plus_def signed_order fun_upd_idem
      split: option.splits)

lemma ValidateDebit_success:
  "Ledger_ValidateDebit a amount l = None \<longleftrightarrow>
     (\<exists>b. 0 <s amount \<and> l_balances l a = Some b \<and> amount \<le>s b)"
  by (auto simp: Ledger_ValidateDebit_def signed_order split: option.splits)

lemmas ledger_success = ApplyDebit_success ApplyCredit_success RollbackDebit_success
  ApplyTransfer_success ValidateDebit_success

text \<open>An operation that returns an error has not touched the ledger.\<close>

lemma ledger_error_frame:
  "Ledger_ApplyDebit a x l = (l', Some e) \<Longrightarrow> l' = l"
  "Ledger_ApplyCredit a x l = (l', Some e) \<Longrightarrow> l' = l"
  "Ledger_RollbackDebit a x l = (l', Some e) \<Longrightarrow> l' = l"
  "Ledger_ApplyTransfer a b x l = (l', Some e) \<Longrightarrow> l' = l"
  "Ledger_CreateAccount a x l = (l', Some e) \<Longrightarrow> l' = l"
  by (auto simp: Ledger_ApplyDebit_def Ledger_ApplyCredit_def Ledger_RollbackDebit_def
      Ledger_ApplyTransfer_def Ledger_CreateAccount_def split: option.splits if_splits)

section \<open>The contract of a balance operation\<close>

text \<open>
  What the shard server relies on: an operation that succeeds keeps the accounts, moves the
  exact sum by a known amount \<open>delta\<close> and keeps the invariant as long as the new sum fits;
  one that fails changes nothing.
\<close>

locale balance_op =
  fixes step :: "Ledger \<Rightarrow> Ledger \<times> ledger_error option" and delta :: int
  assumes step_error: "step l = (l', Some e) \<Longrightarrow> l' = l"
    and step_dom: "step l = (l', None) \<Longrightarrow> dom (l_balances l') = dom (l_balances l)"
    and step_ok: "ledger_ok l \<Longrightarrow> step l = (l', None) \<Longrightarrow> ledger_funds l + delta < 2 ^ 63
      \<Longrightarrow> ledger_ok l' \<and> ledger_funds l' = ledger_funds l + delta"
begin

lemma step_preserves:
  assumes "ledger_ok l" "step l = (l', r)" "ledger_funds l + max 0 delta < 2 ^ 63"
  shows "ledger_ok l' \<and> dom (l_balances l') = dom (l_balances l)
    \<and> ledger_funds l' = ledger_funds l + (if r = None then delta else 0)"
proof (cases r)
  case None
  with assms step_dom step_ok [of l l'] show ?thesis by simp
next
  case (Some e)
  with assms(2) have "l' = l" by (simp add: step_error)
  with Some assms(1) show ?thesis by simp
qed

end

interpretation debit: balance_op "Ledger_ApplyDebit a x" "- sint x" for a x
proof unfold_locales
  fix l l' assume ok: "ledger_ok l" and st: "Ledger_ApplyDebit a x l = (l', None)"
  from st obtain b where b: "0 < sint x" "l_balances l a = Some b" "sint x \<le> sint b"
      "l' = l\<lparr>l_balances := (l_balances l)(a \<mapsto> b - x)\<rparr>"
    by (auto simp: ledger_success signed_order)
  then have "sint (b - x) = sint b - sint x"
    using sint_bounds64 [of b] sint_bounds64 [of x] by (intro sint_minus64) auto
  with b ok ledger_okD(3) [OF ok] show "ledger_ok l' \<and> ledger_funds l' = ledger_funds l + - sint x"
    using ledger_ok_update [OF ok b(2), of "b - x"] by auto
qed (auto simp: ledger_success dest: ledger_error_frame split: if_splits)

interpretation credit: balance_op "Ledger_ApplyCredit a x" "sint x" for a x
proof unfold_locales
  fix l l' assume ok: "ledger_ok l" and st: "Ledger_ApplyCredit a x l = (l', None)"
    and fits: "ledger_funds l + sint x < 2 ^ 63"
  from st obtain b where b: "0 < sint x" "l_balances l a = Some b"
      "l' = l\<lparr>l_balances := (l_balances l)(a \<mapsto> b + x)\<rparr>"
    by (auto simp: ledger_success signed_order)
  have "0 \<le> sint b" "sint b \<le> ledger_funds l"
    using ok b(2) ledger_ok_balance_le by (auto dest: ledger_okD)
  then have "sint (b + x) = sint b + sint x"
    using b(1) fits by (intro sint_plus64) auto
  with b \<open>0 \<le> sint b\<close> fits show "ledger_ok l' \<and> ledger_funds l' = ledger_funds l + sint x"
    using ledger_ok_update [OF ok b(2), of "b + x"] by auto
qed (auto simp: ledger_success dest: ledger_error_frame split: if_splits)

lemma RollbackDebit_as_credit:
  "fst (Ledger_RollbackDebit a x l) = fst (Ledger_ApplyCredit a x l)"
  "snd (Ledger_RollbackDebit a x l) = None \<longleftrightarrow> snd (Ledger_ApplyCredit a x l) = None"
  by (auto simp: Ledger_RollbackDebit_def Ledger_ApplyCredit_def)

interpretation rollback: balance_op "Ledger_RollbackDebit a x" "sint x" for a x
proof unfold_locales
  fix l l' assume ok: "ledger_ok l" and st: "Ledger_RollbackDebit a x l = (l', None)"
    and fits: "ledger_funds l + sint x < 2 ^ 63"
  from st have "Ledger_ApplyCredit a x l = (l', None)" by (simp add: ledger_success)
  with ok fits show "ledger_ok l' \<and> ledger_funds l' = ledger_funds l + sint x"
    by (metis credit.step_ok)
qed (auto simp: ledger_success dest: ledger_error_frame split: if_splits)

text \<open>A transfer is a debit of the source followed by a credit of the destination.\<close>

lemma ApplyTransfer_debit_credit:
  assumes "Ledger_ApplyTransfer src dst x l = (l', None)"
  obtains m where "Ledger_ApplyDebit src x l = (m, None)" "Ledger_ApplyCredit dst x m = (l', None)"
proof -
  from assms obtain b c where bc: "0 <s x" "l_balances l src = Some b" "l_balances l dst = Some c" "x \<le>s b"
      "l' = l\<lparr>l_balances := (if src = dst then l_balances l
             else (l_balances l)(src \<mapsto> b - x, dst \<mapsto> c + x))\<rparr>"
    by (auto simp: ApplyTransfer_success)
  show ?thesis
  proof
    show "Ledger_ApplyDebit src x l = (l\<lparr>l_balances := (l_balances l)(src \<mapsto> b - x)\<rparr>, None)"
      using bc by (simp add: ApplyDebit_success)
    show "Ledger_ApplyCredit dst x (l\<lparr>l_balances := (l_balances l)(src \<mapsto> b - x)\<rparr>) = (l', None)"
      using bc by (cases "src = dst") (auto simp: ApplyCredit_success fun_upd_idem)
  qed
qed

interpretation transfer: balance_op "Ledger_ApplyTransfer src dst x" 0 for src dst x
proof unfold_locales
  fix l l' assume ok: "ledger_ok l" and st: "Ledger_ApplyTransfer src dst x l = (l', None)"
  from st obtain m where m: "Ledger_ApplyDebit src x l = (m, None)" "Ledger_ApplyCredit dst x m = (l', None)"
    by (rule ApplyTransfer_debit_credit)
  have "0 < sint x" using m(2) by (auto simp: ledger_success signed_order)
  then have "ledger_ok m" "ledger_funds m = ledger_funds l - sint x"
    using debit.step_ok [OF ok m(1)] ledger_okD(3) [OF ok] by auto
  then show "ledger_ok l' \<and> ledger_funds l' = ledger_funds l + 0"
    using credit.step_ok [OF _ m(2)] ledger_okD(3) [OF ok] by auto
qed (auto simp: ledger_success dest: ledger_error_frame split: if_splits)

text \<open>Opening an account adds the opening balance.\<close>

lemma CreateAccount_ok:
  assumes "ledger_ok l" "Ledger_CreateAccount a x l = (l', None)" "ledger_funds l + sint x < 2 ^ 63"
  shows "ledger_ok l' \<and> ledger_funds l' = ledger_funds l + sint x \<and> 0 \<le> sint x"
proof -
  have c: "0 \<le> sint x" "l_balances l a = None" "l' = l\<lparr>l_balances := (l_balances l)(a \<mapsto> x)\<rparr>"
    using assms(2) by (auto simp: Ledger_CreateAccount_def signed_order split: if_splits)
  then have "ledger_funds l' = ledger_funds l + sint x"
    using ledger_okD(1) [OF assms(1)] by (simp add: ledger_funds_def funds_insert domIff)
  moreover from this have "ledger_ok l'"
    by (intro ledger_okI) (use c assms in \<open>auto simp: ledger_okD split: if_splits\<close>)
  ultimately show ?thesis using c(1) by simp
qed

section \<open>Properties\<close>

definition example_ledger :: Ledger where
  "example_ledger = \<lparr>l_balances = [''alice'' \<mapsto> 100, ''bob'' \<mapsto> 50]\<rparr>"

lemma example_ledger_ok: "ledger_ok example_ledger" "ledger_funds example_ledger = 150"
  by (auto simp: ledger_ok_def ledger_funds_def example_ledger_def funds_insert split: if_splits)

text \<open>
  A transfer inside a ledger, accepted or rejected, keeps the exact total, keeps every
  balance non-negative in 64-bit arithmetic and neither opens nor closes an account.
\<close>

theorem transfer_conserves_ledger:
  assumes "ledger_ok l" "Ledger_ApplyTransfer src dst x l = (l', r)"
  shows "ledger_ok l' \<and> ledger_funds l' = ledger_funds l \<and> dom (l_balances l') = dom (l_balances l)
    \<and> (r \<noteq> None \<longrightarrow> l' = l)"
  using transfer.step_preserves [OF assms] ledger_okD(3) [OF assms(1)] ledger_error_frame(4) [of src dst x l l']
    assms(2) by auto

theorem transfer_conserves_ledger_witness:
  "ledger_funds (fst (Ledger_ApplyTransfer ''alice'' ''bob'' 70 example_ledger)) = 150"
  using transfer_conserves_ledger [OF example_ledger_ok(1) prod.collapse [symmetric]]
  by (simp add: example_ledger_ok(2))

text \<open>
  \<open>ValidateDebit\<close> is an exact forecast: it accepts precisely the debits that \<open>ApplyDebit\<close>
  then carries out, and both accept precisely a positive amount covered by an existing balance.
\<close>

theorem validate_debit_exact:
  "(Ledger_ValidateDebit a x l = None \<longleftrightarrow> (\<exists>l'. Ledger_ApplyDebit a x l = (l', None)))
   \<and> (Ledger_ValidateDebit a x l = None \<longleftrightarrow> 0 < sint x \<and> (\<exists>b. l_balances l a = Some b \<and> sint x \<le> sint b))"
  by (auto simp: ledger_success signed_order)

lemma total_foldl:
  "distinct ks \<Longrightarrow> set ks \<subseteq> dom m \<Longrightarrow>
   foldl (\<lambda>acc k. case m k of None \<Rightarrow> acc | Some bal \<Rightarrow> acc + bal) acc ks = acc + (\<Sum>k\<in>set ks. the (m k :: int64 option))"
  by (induction ks arbitrary: acc) (auto simp: add.assoc split: option.splits)

lemma sint_sum_word:
  fixes f :: "'a \<Rightarrow> int64"
  assumes "finite A" "\<And>k. k \<in> A \<Longrightarrow> 0 \<le> sint (f k)" "(\<Sum>k\<in>A. sint (f k)) < 2 ^ 63"
  shows "sint (\<Sum>k\<in>A. f k) = (\<Sum>k\<in>A. sint (f k))"
  using assms
proof (induction A rule: finite_induct)
  case (insert a A)
  have nonneg: "0 \<le> (\<Sum>k\<in>A. sint (f k))" "0 \<le> sint (f a)" using insert by (auto intro: sum_nonneg)
  have "sint (\<Sum>k\<in>A. f k) = (\<Sum>k\<in>A. sint (f k))"
    by (rule insert.IH) (use insert.prems insert.hyps nonneg(2) in \<open>force+\<close>)
  moreover have "sint (f a + (\<Sum>k\<in>A. f k)) = sint (f a) + sint (\<Sum>k\<in>A. f k)"
    by (rule sint_plus64) (use insert.prems(2) insert.hyps nonneg calculation in auto)
  ultimately show ?case using insert.hyps by simp
qed simp

lemma total_exact:
  assumes "ledger_ok l" "visits ks (l_balances l)"
  shows "sint (Ledger_TotalBalance ks l) = ledger_funds l"
proof -
  have "Ledger_TotalBalance ks l = (\<Sum>k\<in>dom (l_balances l). the (l_balances l k))"
    using assms(2) total_foldl [of ks "l_balances l" 0]
    by (simp add: Ledger_TotalBalance_def visits_def)
  moreover have "sint (\<Sum>k\<in>dom (l_balances l). the (l_balances l k)) = ledger_funds l"
    unfolding ledger_funds_def funds_def
    by (rule sint_sum_word) (use assms(1) in \<open>auto simp: ledger_ok_def ledger_funds_def funds_def\<close>)
  ultimately show ?thesis by simp
qed

text \<open>
  \<open>TotalBalance\<close> reports the exact sum of the balances, whatever order the runtime visits
  the map in: under the invariant the 64-bit accumulation does not wrap.
\<close>

theorem total_balance_exact:
  assumes "ledger_ok l" "visits ks (l_balances l)"
  shows "sint (Ledger_TotalBalance ks l) = ledger_funds l"
  by (rule total_exact [OF assms])

theorem total_balance_exact_witness:
  "sint (Ledger_TotalBalance [''bob'', ''alice''] example_ledger) = 150"
proof -
  have "visits [''bob'', ''alice''] (l_balances example_ledger)"
    by (simp add: visits_def example_ledger_def insert_commute)
  from total_balance_exact [OF example_ledger_ok(1) this] show ?thesis by (simp add: example_ledger_ok(2))
qed

end
