(* ===== verification/Wal.thy ===== *)
theory Wal
  imports Models
begin

text \<open>
  \<^verbatim>\<open>shard/wal/wal.go\<close>: the write-ahead log of one shard, a file with one JSON record per
  line. A line is kept as what \<^verbatim>\<open>json.Unmarshal\<close> makes of it: a record, nothing (a blank
  line), or text that does not decode (what an interrupted write leaves behind).

  The operating system's answers are part of the state, so that a theorem about a state is
  a theorem about every environment: \<open>w_faults\<close> is how it will answer the coming writes
  (an empty list: they all succeed), \<open>w_readable\<close> whether the file can be read back.
  A failed write leaves \<open>bufio.Writer\<close> in its sticky error state, a failed fsync does not,
  although the record has reached the file.

  The log is read back with a \<open>bufio.Scanner\<close>, which gives up with \<open>ErrTooLong\<close> at a line of
  64 KB or more. How long the JSON of a record is depends on its identifiers and on its timestamp, so the
  model takes it as one more answer for each write: \<open>IoLong\<close> (with whether the fsync succeeds) says that
  the line is written and is too long for the scanner, a \<open>LongLine\<close> of the file; the
  other answers say that it fits. Appending such a record succeeds, and \<open>findNextLogID\<close>, which collects the
  last line byte by byte, decodes it.
\<close>

section \<open>Model\<close>

datatype wal_line = Line WALEntry | LongLine WALEntry | BlankLine | TornLine

datatype io_outcome = IoOk | IoWriteErr bool | IoSyncErr | IoLong bool

datatype wal_error =
    WalOpenFailed | WalTailDecodeFailed | WalWriteFailed | WalSyncFailed
  | WalFlushFailed | WalSeekFailed | WalScanFailed | WalDecodeFailed
  | WalTruncateFailed | WalReopenFailed | WalCloseFailed

record WAL =
  w_lines :: "wal_line list"
  w_faults :: "io_outcome list"
  w_readable :: bool
  w_open :: bool
  w_writerErr :: bool
  w_nextLogID :: uint64

text \<open>
  \<open>findNextLogID\<close> walks back from the end of the file over line ends, collects the last
  line that has content and decodes it.
\<close>

fun find_tail :: "wal_line list \<Rightarrow> wal_error + uint64" where
  "find_tail [] = Inr 0"
| "find_tail (BlankLine # ls) = find_tail ls"
| "find_tail (TornLine # ls) = Inl WalTailDecodeFailed"
| "find_tail (Line e # ls) = Inr (e_LogID e + 1)"
| "find_tail (LongLine e # ls) = Inr (e_LogID e + 1)"

definition WAL_findNextLogID :: "wal_line list \<Rightarrow> wal_error + uint64" where
  "WAL_findNextLogID ls = find_tail (rev ls)"

definition WAL_Open :: "bool \<Rightarrow> wal_line list \<Rightarrow> io_outcome list \<Rightarrow> wal_error + WAL" where
  "WAL_Open os_ok ls faults =
     (if \<not> os_ok then Inl WalOpenFailed
      else case WAL_findNextLogID ls of
        Inl e \<Rightarrow> Inl e
      | Inr n \<Rightarrow> Inr \<lparr>w_lines = ls, w_faults = faults, w_readable = True, w_open = True,
                      w_writerErr = False, w_nextLogID = n\<rparr>)"

definition next_io :: "WAL \<Rightarrow> io_outcome" where
  "next_io w = (case w_faults w of [] \<Rightarrow> IoOk | f # _ \<Rightarrow> f)"

definition WAL_writeEntry :: "WALEntry \<Rightarrow> WAL \<Rightarrow> WAL \<times> wal_error option" where
  "WAL_writeEntry e w =
     (if w_writerErr w \<or> \<not> w_open w then (w\<lparr>w_writerErr := True\<rparr>, Some WalWriteFailed)
      else let w' = w\<lparr>w_faults := tl (w_faults w)\<rparr> in
        case next_io w of
          IoOk \<Rightarrow> (w'\<lparr>w_lines := w_lines w @ [Line e]\<rparr>, None)
        | IoWriteErr torn \<Rightarrow>
            (w'\<lparr>w_lines := w_lines w @ (if torn then [TornLine] else []), w_writerErr := True\<rparr>,
             Some WalWriteFailed)
        | IoSyncErr \<Rightarrow> (w'\<lparr>w_lines := w_lines w @ [Line e]\<rparr>, Some WalSyncFailed)
        | IoLong synced \<Rightarrow>
            (w'\<lparr>w_lines := w_lines w @ [LongLine e]\<rparr>, if synced then None else Some WalSyncFailed))"

definition WAL_Append ::
    "string \<Rightarrow> OperationType \<Rightarrow> string \<Rightarrow> int64 \<Rightarrow> WAL \<Rightarrow> WAL \<times> (wal_error + uint64)" where
  "WAL_Append txnID opType accountID amount w =
     (let entry = \<lparr>e_LogID = w_nextLogID w, e_TxnID = txnID, e_OpType = opType,
                   e_AccountID = accountID, e_Amount = amount, e_Committed = False,
                   e_CheckpointLogID = 0\<rparr>
      in case WAL_writeEntry entry w of
        (w', Some err) \<Rightarrow> (w', Inl err)
      | (w', None) \<Rightarrow> (w'\<lparr>w_nextLogID := w_nextLogID w' + 1\<rparr>, Inr (w_nextLogID w')))"

definition WAL_MarkCommitted :: "string \<Rightarrow> WAL \<Rightarrow> WAL \<times> wal_error option" where
  "WAL_MarkCommitted txnID w =
     (let entry = \<lparr>e_LogID = w_nextLogID w, e_TxnID = txnID, e_OpType = OpCommitted,
                   e_AccountID = '''', e_Amount = 0, e_Committed = True, e_CheckpointLogID = 0\<rparr>
      in case WAL_writeEntry entry w of
        (w', Some err) \<Rightarrow> (w', Some err)
      | (w', None) \<Rightarrow> (w'\<lparr>w_nextLogID := w_nextLogID w' + 1\<rparr>, None))"

definition WAL_MarkAborted :: "string \<Rightarrow> WAL \<Rightarrow> WAL \<times> wal_error option" where
  "WAL_MarkAborted txnID w =
     (let entry = \<lparr>e_LogID = w_nextLogID w, e_TxnID = txnID, e_OpType = OpAborted,
                   e_AccountID = '''', e_Amount = 0, e_Committed = False, e_CheckpointLogID = 0\<rparr>
      in case WAL_writeEntry entry w of
        (w', Some err) \<Rightarrow> (w', Some err)
      | (w', None) \<Rightarrow> (w'\<lparr>w_nextLogID := w_nextLogID w' + 1\<rparr>, None))"

definition WAL_WriteCheckpoint :: "uint64 \<Rightarrow> WAL \<Rightarrow> WAL \<times> wal_error option" where
  "WAL_WriteCheckpoint lastLogID w =
     (let entry = \<lparr>e_LogID = w_nextLogID w, e_TxnID = '''', e_OpType = OpCheckpoint,
                   e_AccountID = '''', e_Amount = 0, e_Committed = False,
                   e_CheckpointLogID = lastLogID\<rparr>
      in case WAL_writeEntry entry w of
        (w', Some err) \<Rightarrow> (w', Some err)
      | (w', None) \<Rightarrow> (w'\<lparr>w_nextLogID := w_nextLogID w' + 1\<rparr>, None))"

text \<open>The scanning loop shared by \<open>ReadAll\<close> and \<open>Truncate\<close>: blank lines are skipped, the first
  undecodable line is an error, and so is the first line that the scanner's buffer does not hold.\<close>

fun decode_lines :: "wal_line list \<Rightarrow> wal_error + WALEntry list" where
  "decode_lines [] = Inr []"
| "decode_lines (BlankLine # ls) = decode_lines ls"
| "decode_lines (TornLine # ls) = Inl WalDecodeFailed"
| "decode_lines (LongLine e # ls) = Inl WalScanFailed"
| "decode_lines (Line e # ls) =
     (case decode_lines ls of Inl err \<Rightarrow> Inl err | Inr es \<Rightarrow> Inr (e # es))"

definition WAL_ReadAll :: "WAL \<Rightarrow> wal_error + WALEntry list" where
  "WAL_ReadAll w =
     (if w_writerErr w then Inl WalFlushFailed
      else if \<not> w_open w then Inl WalSeekFailed
      else if \<not> w_readable w then Inl WalScanFailed
      else decode_lines (w_lines w))"

definition WAL_ReadFrom :: "uint64 \<Rightarrow> WAL \<Rightarrow> wal_error + WALEntry list" where
  "WAL_ReadFrom startLogID w =
     (case WAL_ReadAll w of
        Inl err \<Rightarrow> Inl err
      | Inr es \<Rightarrow> Inr (filter (\<lambda>e. startLogID \<le> e_LogID e) es))"

text \<open>
  \<open>Truncate\<close> rewrites the file through a temporary one. Once the old file is closed a failure
  before the rename leaves the old contents under a closed handle, a failure to reopen leaves
  the new contents under a closed handle. After success the writer is a fresh one.
\<close>

datatype truncate_outcome = TruncOk | TruncTmpFailed | TruncReopenFailed

definition WAL_Truncate :: "truncate_outcome \<Rightarrow> uint64 \<Rightarrow> WAL \<Rightarrow> WAL \<times> wal_error option" where
  "WAL_Truncate out beforeLogID w =
     (if w_writerErr w then (w, Some WalFlushFailed)
      else if \<not> w_open w then (w, Some WalSeekFailed)
      else if \<not> w_readable w then (w, Some WalScanFailed)
      else case decode_lines (w_lines w) of
        Inl err \<Rightarrow> (w, Some err)
      | Inr es \<Rightarrow>
          (let keep = map Line (filter (\<lambda>e. beforeLogID \<le> e_LogID e) es) in
           case out of
             TruncTmpFailed \<Rightarrow> (w\<lparr>w_open := False\<rparr>, Some WalTruncateFailed)
           | TruncReopenFailed \<Rightarrow> (w\<lparr>w_lines := keep, w_open := False\<rparr>, Some WalReopenFailed)
           | TruncOk \<Rightarrow> (w\<lparr>w_lines := keep, w_writerErr := False\<rparr>, None)))"

definition WAL_Close :: "WAL \<Rightarrow> WAL \<times> wal_error option" where
  "WAL_Close w =
     (if w_writerErr w then (w, Some WalFlushFailed)
      else if \<not> w_open w then (w, Some WalCloseFailed)
      else (w\<lparr>w_open := False\<rparr>, None))"

definition WAL_NextLogID :: "WAL \<Rightarrow> uint64" where
  "WAL_NextLogID w = w_nextLogID w"

section \<open>What the log holds\<close>

fun line_entries :: "wal_line list \<Rightarrow> WALEntry list" where
  "line_entries [] = []"
| "line_entries (Line e # ls) = e # line_entries ls"
| "line_entries (LongLine e # ls) = e # line_entries ls"
| "line_entries (BlankLine # ls) = line_entries ls"
| "line_entries (TornLine # ls) = line_entries ls"

definition wal_entries :: "WAL \<Rightarrow> WALEntry list" where
  "wal_entries w = line_entries (w_lines w)"

text \<open>A file of which every line can be read back.\<close>

definition readable_line :: "wal_line \<Rightarrow> bool" where
  "readable_line l = (case l of Line e \<Rightarrow> True | LongLine e \<Rightarrow> False | BlankLine \<Rightarrow> True | TornLine \<Rightarrow> False)"

abbreviation readable_lines :: "wal_line list \<Rightarrow> bool" where
  "readable_lines \<equiv> list_all readable_line"

text \<open>
  A log in working order whose environment answers every call: no write and no fsync fails, and every
  line, on file and to come, stays below the scanner's 64 KB.
\<close>

definition wal_healthy :: "WAL \<Rightarrow> bool" where
  "wal_healthy w \<longleftrightarrow> w_open w \<and> \<not> w_writerErr w \<and> w_readable w \<and> w_faults w = []
     \<and> readable_lines (w_lines w)"

text \<open>No write and no fsync fails, but lines may become too long for the scanner.\<close>

definition wal_working :: "WAL \<Rightarrow> bool" where
  "wal_working w \<longleftrightarrow> w_open w \<and> \<not> w_writerErr w \<and> w_readable w \<and> set (w_faults w) \<subseteq> {IoOk, IoLong True}"

text \<open>No fsync fails.\<close>

definition all_synced :: "io_outcome list \<Rightarrow> bool" where
  "all_synced fs \<longleftrightarrow> IoSyncErr \<notin> set fs \<and> IoLong False \<notin> set fs"

text \<open>Log identifiers increase along the file and the next one is larger than all of them.\<close>

definition wal_sorted :: "WAL \<Rightarrow> bool" where
  "wal_sorted w \<longleftrightarrow> sorted_wrt (<) (map e_LogID (wal_entries w))
     \<and> (\<forall>e \<in> set (wal_entries w). e_LogID e < w_nextLogID w)"

text \<open>The next identifier is the successor of the last one on file.\<close>

definition wal_contiguous :: "WAL \<Rightarrow> bool" where
  "wal_contiguous w \<longleftrightarrow>
     (wal_entries w = [] \<longrightarrow> w_nextLogID w = 0)
     \<and> (wal_entries w \<noteq> [] \<longrightarrow> w_nextLogID w = e_LogID (last (wal_entries w)) + 1)"

text \<open>The four operations that write, as data, and a run of them.\<close>

datatype wal_op =
    WAppend string OperationType string int64
  | WCommitted string
  | WAborted string
  | WCheckpoint uint64

fun wal_step :: "wal_op \<Rightarrow> WAL \<Rightarrow> WAL" where
  "wal_step (WAppend t op a x) w = fst (WAL_Append t op a x w)"
| "wal_step (WCommitted t) w = fst (WAL_MarkCommitted t w)"
| "wal_step (WAborted t) w = fst (WAL_MarkAborted t w)"
| "wal_step (WCheckpoint n) w = fst (WAL_WriteCheckpoint n w)"

lemma line_entries_append [simp]: "line_entries (xs @ ys) = line_entries xs @ line_entries ys"
  by (induction xs rule: line_entries.induct) auto

lemma decode_map_Line [simp]: "decode_lines (map Line es) = Inr es"
  by (induction es) auto

lemma line_entries_map_Line [simp]: "line_entries (map Line es) = es"
  by (induction es) auto

lemma readable_line_simps [simp]:
  "readable_line (Line e)" "\<not> readable_line (LongLine e)" "readable_line BlankLine" "\<not> readable_line TornLine"
  by (simp_all add: readable_line_def)

lemma decode_lines_ok: "readable_lines ls \<Longrightarrow> decode_lines ls = Inr (line_entries ls)"
  by (induction ls rule: decode_lines.induct) auto

lemma decode_lines_append_long:
  "readable_lines ls \<Longrightarrow> decode_lines (ls @ LongLine e # ls') = Inl WalScanFailed"
  by (induction ls rule: decode_lines.induct) auto

lemma find_tail_rev:
  "TornLine \<notin> set ls \<Longrightarrow>
     find_tail (rev ls) = Inr (if line_entries ls = [] then 0 else e_LogID (last (line_entries ls)) + 1)"
proof (induction ls rule: rev_induct)
  case (snoc l ls)
  then show ?case by (cases l) auto
qed simp

lemma wal_entries_simps [simp]:
  "wal_entries (w\<lparr>w_lines := ls\<rparr>) = line_entries ls"
  "wal_entries (w\<lparr>w_faults := fs\<rparr>) = wal_entries w"
  "wal_entries (w\<lparr>w_nextLogID := n\<rparr>) = wal_entries w"
  "wal_entries (w\<lparr>w_writerErr := b\<rparr>) = wal_entries w"
  "wal_entries (w\<lparr>w_open := b\<rparr>) = wal_entries w"
  by (simp_all add: wal_entries_def)

section \<open>The contract of a log write\<close>

text \<open>
  The four writing operations differ only in the record they make. \<open>rec n\<close> is the record an
  operation writes when the next identifier is \<open>n\<close>; the contract says that it is written
  through \<open>writeEntry\<close> and that the counter moves exactly when the write is acknowledged.
\<close>

locale wal_write =
  fixes run :: "WAL \<Rightarrow> WAL \<times> 'r" and failed :: "'r \<Rightarrow> bool" and mk :: "uint64 \<Rightarrow> WALEntry"
  assumes mk_id: "e_LogID (mk n) = n"
    and run_eq: "fst (run w) = (case WAL_writeEntry (mk (w_nextLogID w)) w of
        (w', Some err) \<Rightarrow> w' | (w', None) \<Rightarrow> w'\<lparr>w_nextLogID := w_nextLogID w' + 1\<rparr>)"
    and run_failed: "failed (snd (run w)) \<longleftrightarrow> snd (WAL_writeEntry (mk (w_nextLogID w)) w) \<noteq> None"
begin

lemma healthy_write:
  assumes "wal_healthy w"
  shows "wal_healthy (fst (run w))" "\<not> failed (snd (run w))"
    "wal_entries (fst (run w)) = wal_entries w @ [mk (w_nextLogID w)]"
    "w_nextLogID (fst (run w)) = w_nextLogID w + 1"
  using assms
  by (auto simp: run_eq run_failed WAL_writeEntry_def wal_healthy_def next_io_def wal_entries_def
      Let_def)

lemma entries_run:
  "wal_entries (fst (run w)) = wal_entries w
   \<or> wal_entries (fst (run w)) = wal_entries w @ [mk (w_nextLogID w)]"
  by (auto simp: run_eq WAL_writeEntry_def Let_def wal_entries_def split: io_outcome.splits)

lemma run_acknowledged:
  "\<not> failed (snd (run w)) \<Longrightarrow> wal_entries (fst (run w)) = wal_entries w @ [mk (w_nextLogID w)]"
  by (auto simp: run_eq run_failed WAL_writeEntry_def Let_def wal_entries_def split: io_outcome.splits
      if_splits)

lemma faults_run: "set (w_faults (fst (run w))) \<subseteq> set (w_faults w)"
  by (cases "w_faults w") (auto simp: run_eq WAL_writeEntry_def Let_def split: io_outcome.splits)

text \<open>When no write fails, the line reaches the file whether or not the scanner will hold it.\<close>

lemma working_write:
  assumes "wal_working w"
  shows "wal_working (fst (run w)) \<and> w_faults (fst (run w)) = tl (w_faults w)
    \<and> w_nextLogID (fst (run w)) = w_nextLogID w + 1
    \<and> w_lines (fst (run w)) = w_lines w @ [if next_io w = IoLong True then LongLine (mk (w_nextLogID w)) else Line (mk (w_nextLogID w))]"
  using assms by (cases "w_faults w") (auto simp: run_eq wal_working_def WAL_writeEntry_def next_io_def Let_def)

text \<open>Without fsync failures the counter moves exactly when the file grows.\<close>

lemma no_sync_failure:
  assumes "all_synced (w_faults w)"
  shows "wal_entries (fst (run w)) = wal_entries w \<and> w_nextLogID (fst (run w)) = w_nextLogID w
    \<or> wal_entries (fst (run w)) = wal_entries w @ [mk (w_nextLogID w)]
      \<and> w_nextLogID (fst (run w)) = w_nextLogID w + 1"
  using assms
  by (cases "w_faults w")
    (auto simp: all_synced_def run_eq WAL_writeEntry_def next_io_def Let_def wal_entries_def split: io_outcome.splits)

lemma sorted_run:
  assumes "wal_sorted w" "all_synced (w_faults w)" "unat (w_nextLogID w) + 1 < 2 ^ 64"
  shows "wal_sorted (fst (run w))" "unat (w_nextLogID (fst (run w))) \<le> unat (w_nextLogID w) + 1"
proof -
  have inc: "unat (w_nextLogID w + 1) = unat (w_nextLogID w) + 1"
    using assms(3) by (simp add: unat_word_ariths)
  then have less: "w_nextLogID w < w_nextLogID w + 1" by (simp add: word_less_nat_alt)
  have old: "e_LogID e < w_nextLogID w + 1" if "e \<in> set (wal_entries w)" for e
    using that assms(1) less by (auto simp: wal_sorted_def intro: less_trans)
  from no_sync_failure [OF assms(2)] assms(1) less old
  show "wal_sorted (fst (run w))"
    by (elim disjE) (simp_all add: wal_sorted_def sorted_wrt_append mk_id)
  from no_sync_failure [OF assms(2)] inc
  show "unat (w_nextLogID (fst (run w))) \<le> unat (w_nextLogID w) + 1" by auto
qed

lemma contiguous_run:
  assumes "wal_contiguous w" "all_synced (w_faults w)"
  shows "wal_contiguous (fst (run w))"
  using no_sync_failure [OF assms(2)] assms(1) by (auto simp: wal_contiguous_def mk_id)

end

definition mk_entry :: "string \<Rightarrow> OperationType \<Rightarrow> string \<Rightarrow> int64 \<Rightarrow> uint64 \<Rightarrow> WALEntry" where
  "mk_entry t op a x n = \<lparr>e_LogID = n, e_TxnID = t, e_OpType = op, e_AccountID = a, e_Amount = x,
     e_Committed = (op = OpCommitted), e_CheckpointLogID = 0\<rparr>"

interpretation app: wal_write "WAL_Append t op a x" "\<lambda>r. \<exists>e. r = Inl e"
  "\<lambda>n. (mk_entry t op a x n)\<lparr>e_Committed := False\<rparr>" for t op a x
  by unfold_locales (auto simp: WAL_Append_def mk_entry_def Let_def split: prod.splits option.splits)

interpretation com: wal_write "WAL_MarkCommitted t" "\<lambda>r. r \<noteq> None" "mk_entry t OpCommitted '''' 0" for t
  by unfold_locales (auto simp: WAL_MarkCommitted_def mk_entry_def Let_def split: prod.splits option.splits)

interpretation abo: wal_write "WAL_MarkAborted t" "\<lambda>r. r \<noteq> None" "mk_entry t OpAborted '''' 0" for t
  by unfold_locales (auto simp: WAL_MarkAborted_def mk_entry_def Let_def split: prod.splits option.splits)

interpretation chk: wal_write "WAL_WriteCheckpoint c" "\<lambda>r. r \<noteq> None"
  "\<lambda>n. (mk_entry '''' OpCheckpoint '''' 0 n)\<lparr>e_CheckpointLogID := c\<rparr>" for c
  by unfold_locales (auto simp: WAL_WriteCheckpoint_def mk_entry_def Let_def split: prod.splits option.splits)

section \<open>Runs of the log\<close>

fun op_entry :: "wal_op \<Rightarrow> uint64 \<Rightarrow> WALEntry" where
  "op_entry (WAppend t op a x) n = (mk_entry t op a x n)\<lparr>e_Committed := False\<rparr>"
| "op_entry (WCommitted t) n = mk_entry t OpCommitted '''' 0 n"
| "op_entry (WAborted t) n = mk_entry t OpAborted '''' 0 n"
| "op_entry (WCheckpoint c) n = (mk_entry '''' OpCheckpoint '''' 0 n)\<lparr>e_CheckpointLogID := c\<rparr>"

fun op_entries :: "wal_op list \<Rightarrow> uint64 \<Rightarrow> WALEntry list" where
  "op_entries [] n = []"
| "op_entries (p # ps) n = op_entry p n # op_entries ps (n + 1)"

lemma step_healthy:
  assumes "wal_healthy w"
  shows "wal_healthy (wal_step p w)" "wal_entries (wal_step p w) = wal_entries w @ [op_entry p (w_nextLogID w)]"
    "w_nextLogID (wal_step p w) = w_nextLogID w + 1"
  using assms app.healthy_write [OF assms] com.healthy_write [OF assms] abo.healthy_write [OF assms]
    chk.healthy_write [OF assms] by (cases p; simp)+

lemma run_healthy:
  "wal_healthy w \<Longrightarrow> wal_healthy (fold wal_step ps w)
     \<and> wal_entries (fold wal_step ps w) = wal_entries w @ op_entries ps (w_nextLogID w)
     \<and> w_nextLogID (fold wal_step ps w) = w_nextLogID w + of_nat (length ps)"
proof (induction ps arbitrary: w)
  case (Cons p ps)
  from Cons.IH [OF step_healthy(1) [OF Cons.prems]] step_healthy(2,3) [OF Cons.prems]
  show ?case by (simp add: algebra_simps)
qed simp

text \<open>The lines a run of writes leaves, each as the environment answers.\<close>

fun op_lines :: "wal_op list \<Rightarrow> io_outcome list \<Rightarrow> uint64 \<Rightarrow> wal_line list" where
  "op_lines [] fs n = []"
| "op_lines (p # ps) fs n =
     (if fs \<noteq> [] \<and> hd fs = IoLong True then LongLine (op_entry p n) else Line (op_entry p n)) # op_lines ps (tl fs) (n + 1)"

lemma step_working:
  assumes "wal_working w"
  shows "wal_working (wal_step p w) \<and> w_faults (wal_step p w) = tl (w_faults w) \<and> w_nextLogID (wal_step p w) = w_nextLogID w + 1
    \<and> w_lines (wal_step p w) = w_lines w @ op_lines [p] (w_faults w) (w_nextLogID w)"
  using assms app.working_write [OF assms] com.working_write [OF assms] abo.working_write [OF assms]
    chk.working_write [OF assms] by (cases p) (auto simp: next_io_def split: list.splits)

lemma run_working:
  "wal_working w \<Longrightarrow> wal_working (fold wal_step ps w)
     \<and> w_lines (fold wal_step ps w) = w_lines w @ op_lines ps (w_faults w) (w_nextLogID w)"
proof (induction ps arbitrary: w)
  case (Cons p ps)
  from Cons.IH [of "wal_step p w"] step_working [OF Cons.prems, of p] show ?case by simp
qed simp

lemma decode_op_lines:
  "readable_lines ls \<Longrightarrow> decode_lines (ls @ op_lines ps fs n) =
     (if IoLong True \<in> set (take (length ps) fs) then Inl WalScanFailed else Inr (line_entries ls @ op_entries ps n))"
proof (induction ps arbitrary: ls fs n)
  case (Cons p ps)
  show ?case
  proof (cases "fs \<noteq> [] \<and> hd fs = IoLong True")
    case True
    then show ?thesis by (cases fs) (simp_all add: decode_lines_append_long [OF Cons.prems])
  next
    case False
    with Cons.IH [of "ls @ [Line (op_entry p n)]" "tl fs" "n + 1"] Cons.prems show ?thesis
      by (cases fs) auto
  qed
qed (simp add: decode_lines_ok)

lemma ReadAll_healthy: "wal_healthy w \<Longrightarrow> WAL_ReadAll w = Inr (wal_entries w)"
  by (simp add: WAL_ReadAll_def wal_healthy_def wal_entries_def decode_lines_ok)

lemma faults_step: "set (w_faults (wal_step p w)) \<subseteq> set (w_faults w)"
  using app.faults_run com.faults_run abo.faults_run chk.faults_run by (cases p) auto

lemma synced_step: "all_synced (w_faults w) \<Longrightarrow> all_synced (w_faults (wal_step p w))"
  using faults_step [of p w] by (auto simp: all_synced_def)

lemma sorted_step:
  assumes "wal_sorted w" "all_synced (w_faults w)" "unat (w_nextLogID w) + 1 < 2 ^ 64"
  shows "wal_sorted (wal_step p w)" "unat (w_nextLogID (wal_step p w)) \<le> unat (w_nextLogID w) + 1"
  using app.sorted_run [OF assms] com.sorted_run [OF assms] abo.sorted_run [OF assms]
    chk.sorted_run [OF assms] by (cases p; simp)+

lemma contiguous_step:
  "wal_contiguous w \<Longrightarrow> all_synced (w_faults w) \<Longrightarrow> wal_contiguous (wal_step p w)"
  using app.contiguous_run com.contiguous_run abo.contiguous_run chk.contiguous_run by (cases p) auto

lemma contiguous_runs:
  "wal_contiguous w \<Longrightarrow> all_synced (w_faults w) \<Longrightarrow> wal_contiguous (fold wal_step ps w)"
proof (induction ps arbitrary: w)
  case (Cons p ps)
  then show ?case using contiguous_step synced_step by auto
qed simp

section \<open>Properties\<close>

definition empty_wal :: "io_outcome list \<Rightarrow> WAL" where
  "empty_wal faults = \<lparr>w_lines = [], w_faults = faults, w_readable = True, w_open = True,
     w_writerErr = False, w_nextLogID = 0\<rparr>"

lemma empty_wal_ok: "wal_healthy (empty_wal [])" "wal_contiguous (empty_wal fs)" "wal_sorted (empty_wal fs)"
    "wal_entries (empty_wal fs) = []"
  by (simp_all add: empty_wal_def wal_healthy_def wal_contiguous_def wal_sorted_def wal_entries_def)

text \<open>
  C19: what was logged is read back, unless a line is too long for the reader. On a log whose lines can all be
  read and on which no write and no fsync fails, after any sequence of appends, commit and abort markers and
  checkpoints: when every line written stays below the scanner's 64 KB, \<open>ReadAll\<close> returns the earlier records
  followed by exactly the records of the sequence, in order, numbered consecutively from the log's next
  identifier; when one of them does not, although its append was acknowledged, \<open>ReadAll\<close> returns the scan error.
\<close>

theorem wal_read_back:
  assumes "wal_working w" "readable_lines (w_lines w)"
  shows "WAL_ReadAll (fold wal_step ps w) =
    (if IoLong True \<in> set (take (length ps) (w_faults w)) then Inl WalScanFailed
     else Inr (wal_entries w @ op_entries ps (w_nextLogID w)))"
  using run_working [OF assms(1), of ps] decode_op_lines [OF assms(2)]
  by (simp add: WAL_ReadAll_def wal_working_def wal_entries_def)

theorem wal_read_back_witness:
  "WAL_ReadAll (fold wal_step [WAppend ''t1'' OpDebit ''alice'' 30, WCommitted ''t1''] (empty_wal [])) =
     Inr [\<lparr>e_LogID = 0, e_TxnID = ''t1'', e_OpType = OpDebit, e_AccountID = ''alice'', e_Amount = 30,
            e_Committed = False, e_CheckpointLogID = 0\<rparr>,
          \<lparr>e_LogID = 1, e_TxnID = ''t1'', e_OpType = OpCommitted, e_AccountID = '''', e_Amount = 0,
            e_Committed = True, e_CheckpointLogID = 0\<rparr>]
   \<and> WAL_ReadAll (fold wal_step [WAppend ''t1'' OpDebit ''alice'' 30, WCommitted ''t1''] (empty_wal [IoLong True])) =
     Inl WalScanFailed"
proof -
  have w: "wal_working (empty_wal fs)" if "set fs \<subseteq> {IoOk, IoLong True}" for fs
    using that by (simp add: wal_working_def empty_wal_def)
  have r: "readable_lines (w_lines (empty_wal fs))" for fs by (simp add: empty_wal_def)
  show ?thesis
    using wal_read_back [OF w r, of "[]" "[WAppend ''t1'' OpDebit ''alice'' 30, WCommitted ''t1'']"]
      wal_read_back [OF w r, of "[IoLong True]" "[WAppend ''t1'' OpDebit ''alice'' 30, WCommitted ''t1'']"]
    by (simp add: empty_wal_ok mk_entry_def) (simp add: empty_wal_def)
qed

text \<open>
  Log identifiers are strictly increasing along the file through any run of writes, failed
  ones included, as long as no fsync fails and the 64-bit counter does not run out.
\<close>

theorem wal_ids_increase:
  assumes "wal_sorted w" "all_synced (w_faults w)" "unat (w_nextLogID w) + length ps < 2 ^ 64"
  shows "wal_sorted (fold wal_step ps w)"
  using assms
proof (induction ps arbitrary: w)
  case (Cons p ps)
  have "unat (w_nextLogID w) + 1 < 2 ^ 64" using Cons.prems(3) by simp
  note step = sorted_step [OF Cons.prems(1,2) this, of p]
  have "wal_sorted (fold wal_step ps (wal_step p w))"
    by (rule Cons.IH) (use step Cons.prems synced_step in auto)
  then show ?case by simp
qed simp

theorem wal_ids_increase_witness:
  "wal_sorted (fold wal_step [WAppend ''t1'' OpDebit ''alice'' 30, WAborted ''t1'', WCheckpoint 1]
     (empty_wal [IoOk, IoWriteErr True]))"
  by (rule wal_ids_increase) (simp_all add: empty_wal_ok, simp_all add: empty_wal_def all_synced_def)

text \<open>
  Restart resumes the numbering. After any run of writes from a contiguous log without
  fsync failures and without a torn line, opening the file again yields the identifier the
  running log would have used next.
\<close>

theorem wal_reopen_resumes:
  assumes "wal_contiguous w" "all_synced (w_faults w)"
    and "TornLine \<notin> set (w_lines (fold wal_step ps w))"
  shows "\<exists>w'. WAL_Open True (w_lines (fold wal_step ps w)) fs = Inr w'
    \<and> w_nextLogID w' = w_nextLogID (fold wal_step ps w) \<and> wal_entries w' = wal_entries (fold wal_step ps w)"
  using contiguous_runs [OF assms(1,2), of ps] find_tail_rev [OF assms(3)]
  by (auto simp: WAL_Open_def WAL_findNextLogID_def wal_contiguous_def wal_entries_def)

theorem wal_reopen_resumes_witness:
  "\<exists>w'. WAL_Open True (w_lines (fold wal_step [WAppend ''t1'' OpDebit ''alice'' 30, WCommitted ''t1'']
      (empty_wal []))) [] = Inr w' \<and> w_nextLogID w' = 2"
proof -
  let ?ps = "[WAppend ''t1'' OpDebit ''alice'' 30, WCommitted ''t1'']"
  note run = run_healthy [OF empty_wal_ok(1), of ?ps]
  have "\<exists>w'. WAL_Open True (w_lines (fold wal_step ?ps (empty_wal []))) [] = Inr w'
      \<and> w_nextLogID w' = w_nextLogID (fold wal_step ?ps (empty_wal []))
      \<and> wal_entries w' = wal_entries (fold wal_step ?ps (empty_wal []))"
    by (rule wal_reopen_resumes [OF empty_wal_ok(2)])
      (use run in \<open>auto simp: wal_healthy_def empty_wal_def all_synced_def list_all_iff\<close>)
  moreover have "w_nextLogID (fold wal_step ?ps (empty_wal [])) = 2"
    using run by (simp add: empty_wal_def del: fold.simps fold_simps)
  ultimately show ?thesis by metis
qed

text \<open>
  A successful truncation removes exactly the records below the bound: reading the log
  afterwards gives what reading from the bound gave before, and the counter is kept.
\<close>

theorem wal_truncate_keeps_tail:
  assumes "WAL_Truncate out n w = (w', None)"
  shows "WAL_ReadAll w' = WAL_ReadFrom n w \<and> w_nextLogID w' = w_nextLogID w"
  using assms
  by (auto simp: WAL_Truncate_def WAL_ReadFrom_def WAL_ReadAll_def Let_def decode_lines_ok
      split: if_splits sum.splits truncate_outcome.splits)

theorem wal_truncate_keeps_tail_witness:
  "\<exists>w'. WAL_Truncate TruncOk 1 (empty_wal []) = (w', None) \<and> WAL_ReadAll w' = WAL_ReadFrom 1 (empty_wal [])"
proof -
  have "\<exists>w'. WAL_Truncate TruncOk 1 (empty_wal []) = (w', None)"
    by (simp add: WAL_Truncate_def empty_wal_def)
  with wal_truncate_keeps_tail show ?thesis by blast
qed

text \<open>
  After a failed fsync the record is in the file but the counter has not moved, so the next
  record is written under the same log identifier.
\<close>

theorem fsync_failure_reuses_log_id:
  assumes "w_open w" "\<not> w_writerErr w" "w_faults w = [IoSyncErr]"
  shows "snd (WAL_Append t op a x w) = Inl WalSyncFailed
    \<and> map e_LogID (wal_entries (wal_step p (wal_step (WAppend t op a x) w))) =
      map e_LogID (wal_entries w) @ [w_nextLogID w, w_nextLogID w]"
  using assms
  by (cases p; simp add: WAL_Append_def WAL_MarkCommitted_def WAL_MarkAborted_def WAL_WriteCheckpoint_def
      WAL_writeEntry_def next_io_def Let_def wal_entries_def)

theorem fsync_failure_reuses_log_id_witness:
  "map e_LogID (wal_entries (wal_step (WAborted ''t1'') (wal_step (WAppend ''t1'' OpDebit ''alice'' 30)
     (empty_wal [IoSyncErr])))) = [0, 0]"
  using fsync_failure_reuses_log_id [where w = "empty_wal [IoSyncErr]" and p = "WAborted ''t1''" and t = "''t1''"
      and op = OpDebit and a = "''alice''" and x = 30]
  by (simp add: empty_wal_ok del: wal_step.simps) (simp add: empty_wal_def del: wal_step.simps)

end
