(* ===== verification/Recovery.thy ===== *)
theory Recovery
  imports Ledger Wal
begin

text \<open>
  \<^verbatim>\<open>shard/recovery/recovery.go\<close>: rebuilding the ledger from the log after a restart. The code
  makes two passes: the first finds the final state of every transaction, the second sets the
  opening balance of each committed account creation and accumulates the committed debits and
  credits of each account as one delta, which it adds at the end.

  The reference is \<open>replay_ref\<close>: the committed entries applied one by one in log order.
  \<open>Recover_closed_form\<close> says what the accumulated result is for any log, and
  \<open>recover_replay\<close> that it is the reference whenever each account is created before it is
  used.
\<close>

section \<open>Model\<close>

record RecoveryResult =
  rr_AppliedCount :: int
  rr_SkippedCount :: int
  rr_PendingTxns :: "string list"
  rr_CommittedTxns :: "string list"
  rr_AbortedTxns :: "string list"

text \<open>One iteration of the loop of \<open>buildFinalStateMap\<close>.\<close>

definition final_step ::
    "(string \<rightharpoonup> TransactionState) \<Rightarrow> WALEntry \<Rightarrow> (string \<rightharpoonup> TransactionState)" where
  "final_step states e =
     (let t = e_TxnID e;
          if_absent = (\<lambda>st. if states t = None then states(t \<mapsto> st) else states)
      in case e_OpType e of
        OpCommitted \<Rightarrow> states(t \<mapsto> StateCommitted)
      | OpAborted \<Rightarrow> if states t \<noteq> Some StateCommitted then states(t \<mapsto> StateAborted) else states
      | OpPrepared \<Rightarrow> if_absent StatePrepared
      | OpDebit \<Rightarrow> if_absent StatePending
      | OpCredit \<Rightarrow> if_absent StatePending
      | OpCreateAccount \<Rightarrow> if_absent StatePending
      | OpCheckpoint \<Rightarrow> states
      | OpOther _ \<Rightarrow> states)"

definition buildFinalStateMap :: "WALEntry list \<Rightarrow> (string \<rightharpoonup> TransactionState)" where
  "buildFinalStateMap es = foldl final_step Map.empty es"

text \<open>The variables the second pass updates.\<close>

record replay =
  rp_ledger :: Ledger
  rp_deltas :: "string \<rightharpoonup> int64"
  rp_applied :: int
  rp_skipped :: int
  rp_pending :: "string list"

definition replay_step :: "(string \<rightharpoonup> TransactionState) \<Rightarrow> replay \<Rightarrow> WALEntry \<Rightarrow> replay" where
  "replay_step finalState p e =
     (let st = finalState (e_TxnID e);
          skip = p\<lparr>rp_skipped := rp_skipped p + 1\<rparr>;
          p' = p\<lparr>rp_applied := rp_applied p + 1\<rparr>
      in case e_OpType e of
        OpCreateAccount \<Rightarrow>
          if st \<noteq> Some StateCommitted then skip
          else p'\<lparr>rp_ledger := Ledger_SetBalance (e_AccountID e) (e_Amount e) (rp_ledger p)\<rparr>
      | OpDebit \<Rightarrow>
          if st \<noteq> Some StateCommitted then skip
          else p'\<lparr>rp_deltas := map_plus (rp_deltas p) (e_AccountID e) (- e_Amount e)\<rparr>
      | OpCredit \<Rightarrow>
          if st \<noteq> Some StateCommitted then skip
          else p'\<lparr>rp_deltas := map_plus (rp_deltas p) (e_AccountID e) (e_Amount e)\<rparr>
      | OpPrepared \<Rightarrow>
          if st \<noteq> Some StateCommitted \<and> st \<noteq> Some StateAborted
          then p\<lparr>rp_pending := rp_pending p @ [e_TxnID e]\<rparr> else p
      | OpCommitted \<Rightarrow> p
      | OpAborted \<Rightarrow> p
      | OpCheckpoint \<Rightarrow> p
      | OpOther _ \<Rightarrow> skip)"

definition replay_entries :: "WALEntry list \<Rightarrow> Ledger \<Rightarrow> replay" where
  "replay_entries es l =
     foldl (replay_step (buildFinalStateMap es))
       \<lparr>rp_ledger = l, rp_deltas = Map.empty, rp_applied = 0, rp_skipped = 0, rp_pending = []\<rparr> es"

text \<open>The last loop: each accumulated delta is added to the balance, a missing account counting
  as zero.\<close>

fun apply_deltas :: "string list \<Rightarrow> (string \<rightharpoonup> int64) \<Rightarrow> Ledger \<Rightarrow> Ledger" where
  "apply_deltas [] deltas l = l"
| "apply_deltas (a # as) deltas l =
     (case deltas a of
        None \<Rightarrow> apply_deltas as deltas l
      | Some d \<Rightarrow>
          (case Ledger_GetBalance a l of
             (bal, ok) \<Rightarrow> apply_deltas as deltas (Ledger_SetBalance a ((if ok then bal else 0) + d) l)))"

text \<open>\<open>ks\<close> is the order in which the final states are visited, \<open>ks'\<close> that of the deltas.\<close>

definition Recover ::
    "string list \<Rightarrow> string list \<Rightarrow> WAL \<Rightarrow> Ledger \<Rightarrow> wal_error + RecoveryResult \<times> Ledger" where
  "Recover ks ks' w l =
     (case WAL_ReadAll w of
        Inl err \<Rightarrow> Inl err
      | Inr es \<Rightarrow>
          if es = [] then Inr (\<lparr>rr_AppliedCount = 0, rr_SkippedCount = 0, rr_PendingTxns = [],
                               rr_CommittedTxns = [], rr_AbortedTxns = []\<rparr>, l)
          else let finalState = buildFinalStateMap es;
                   p = replay_entries es l
               in Inr (\<lparr>rr_AppliedCount = rp_applied p, rr_SkippedCount = rp_skipped p,
                        rr_PendingTxns = rp_pending p,
                        rr_CommittedTxns = filter (\<lambda>t. finalState t = Some StateCommitted) ks,
                        rr_AbortedTxns = filter (\<lambda>t. finalState t = Some StateAborted) ks\<rparr>,
                       apply_deltas ks' (rp_deltas p) (rp_ledger p)))"

section \<open>Final states\<close>

definition marked :: "OperationType \<Rightarrow> WALEntry list \<Rightarrow> string \<Rightarrow> bool" where
  "marked op es t \<longleftrightarrow> (\<exists>e \<in> set es. e_OpType e = op \<and> e_TxnID e = t)"

abbreviation committed :: "WALEntry list \<Rightarrow> string \<Rightarrow> bool" where
  "committed \<equiv> marked OpCommitted"

lemma marked_simps [simp]:
  "\<not> marked op [] t"
  "marked op (es @ es') t \<longleftrightarrow> marked op es t \<or> marked op es' t"
  "marked op (e # es) t \<longleftrightarrow> e_OpType e = op \<and> e_TxnID e = t \<or> marked op es t"
  by (auto simp: marked_def)

lemma buildFinalStateMap_snoc:
  "buildFinalStateMap (es @ [e]) = final_step (buildFinalStateMap es) e"
  by (simp add: buildFinalStateMap_def)

lemma buildFinalStateMap_Nil [simp]: "buildFinalStateMap [] = Map.empty"
  by (simp add: buildFinalStateMap_def)

lemma final_state_committed: "buildFinalStateMap es t = Some StateCommitted \<longleftrightarrow> committed es t"
proof (induction es rule: rev_induct)
  case (snoc e es)
  then show ?case
    by (cases "e_OpType e") (auto simp: buildFinalStateMap_snoc final_step_def Let_def)
qed simp

lemma final_state_aborted:
  "buildFinalStateMap es t = Some StateAborted \<longleftrightarrow> marked OpAborted es t \<and> \<not> committed es t"
proof (induction es rule: rev_induct)
  case (snoc e es)
  then show ?case using final_state_committed [of es t]
    by (cases "e_OpType e") (auto simp: buildFinalStateMap_snoc final_step_def Let_def)
qed simp

section \<open>The second pass\<close>

definition creates :: "(string \<Rightarrow> bool) \<Rightarrow> string \<Rightarrow> WALEntry list \<Rightarrow> WALEntry list" where
  "creates c a es = filter (\<lambda>e. e_OpType e = OpCreateAccount \<and> e_AccountID e = a \<and> c (e_TxnID e)) es"

definition moves :: "(string \<Rightarrow> bool) \<Rightarrow> string \<Rightarrow> WALEntry list \<Rightarrow> WALEntry list" where
  "moves c a es =
     filter (\<lambda>e. (e_OpType e = OpDebit \<or> e_OpType e = OpCredit) \<and> e_AccountID e = a \<and> c (e_TxnID e)) es"

definition signed_amount :: "WALEntry \<Rightarrow> int64" where
  "signed_amount e = (if e_OpType e = OpDebit then - e_Amount e else e_Amount e)"

definition net_change :: "(string \<Rightarrow> bool) \<Rightarrow> string \<Rightarrow> WALEntry list \<Rightarrow> int64" where
  "net_change c a es = sum_list (map signed_amount (moves c a es))"

text \<open>The balance of an account after recovery into an empty ledger: its last committed opening
  balance plus the sum of its committed movements. \<open>c\<close> says which transactions count.\<close>

definition balance_under :: "(string \<Rightarrow> bool) \<Rightarrow> WALEntry list \<Rightarrow> string \<Rightarrow> int64 option" where
  "balance_under c es a =
     (if creates c a es = [] \<and> moves c a es = [] then None
      else Some ((if creates c a es = [] then 0 else e_Amount (last (creates c a es)))
                 + net_change c a es))"

definition recovered_balance :: "WALEntry list \<Rightarrow> string \<Rightarrow> int64 option" where
  "recovered_balance es = balance_under (committed es) es"

lemma net_change_none: "moves c a es = [] \<Longrightarrow> net_change c a es = 0"
  by (simp add: net_change_def)

lemma replay_fold:
  fixes fs es l
  defines "p \<equiv> foldl (replay_step fs) \<lparr>rp_ledger = l, rp_deltas = Map.empty, rp_applied = 0,
      rp_skipped = 0, rp_pending = []\<rparr> es"
  defines "c \<equiv> \<lambda>t. fs t = Some StateCommitted"
  shows "l_balances (rp_ledger p) a =
      (if creates c a es = [] then l_balances l a else Some (e_Amount (last (creates c a es))))"
    and "rp_deltas p a = (if moves c a es = [] then None else Some (net_change c a es))"
  unfolding p_def c_def
proof (induction es rule: rev_induct)
  case Nil
  { case 1 then show ?case by (simp add: creates_def) }
  { case 2 then show ?case by (simp add: moves_def) }
next
  case (snoc e es)
  { case 1 then show ?case using snoc.IH
      by (cases "e_OpType e") (auto simp: replay_step_def creates_def Let_def Ledger_SetBalance_def) }
  { case 2 then show ?case using snoc.IH
      by (cases "e_OpType e")
        (auto simp: replay_step_def moves_def net_change_def signed_amount_def Let_def map_plus_def) }
qed

lemma apply_deltas_Cons:
  "apply_deltas (b # as) deltas l =
     apply_deltas as deltas
       (case deltas b of None \<Rightarrow> l | Some d \<Rightarrow> l\<lparr>l_balances := map_plus (l_balances l) b d\<rparr>)"
  by (simp add: Ledger_GetBalance_def Ledger_SetBalance_def map_plus_def split: option.split)

lemma apply_deltas_balance:
  "distinct as \<Longrightarrow> l_balances (apply_deltas as deltas l) a =
     (if a \<in> set as \<and> deltas a \<noteq> None then map_plus (l_balances l) a (the (deltas a)) a
      else l_balances l a)"
proof (induction as arbitrary: l)
  case (Cons b as)
  then show ?case
    by (cases "a = b"; cases "deltas b")
      (auto simp add: apply_deltas_Cons map_plus_apply simp del: apply_deltas.simps)
qed simp

lemma Recover_closed_form:
  assumes "WAL_ReadAll w = Inr es" "visits ks' (rp_deltas (replay_entries es NewLedger))"
    and "Recover ks ks' w NewLedger = Inr (res, l)"
  shows "l_balances l = recovered_balance es"
proof
  fix a
  note fold = replay_fold [of "buildFinalStateMap es" NewLedger es a,
      folded replay_entries_def, unfolded final_state_committed]
  show "l_balances l a = recovered_balance es a"
  proof (cases "es = []")
    case True
    with assms show ?thesis
      by (auto simp: Recover_def recovered_balance_def balance_under_def creates_def moves_def
          NewLedger_def)
  next
    case False
    then have l: "l = apply_deltas ks' (rp_deltas (replay_entries es NewLedger))
        (rp_ledger (replay_entries es NewLedger))"
      using assms by (auto simp: Recover_def Let_def)
    have "a \<in> set ks' \<longleftrightarrow> rp_deltas (replay_entries es NewLedger) a \<noteq> None"
      using assms(2) by (auto simp: visits_def)
    then show ?thesis
      using assms(2) fold
      by (auto simp: l visits_def apply_deltas_balance recovered_balance_def balance_under_def
          NewLedger_def net_change_none map_plus_apply)
  qed
qed

lemma Recover_total:
  "WAL_ReadAll w = Inr es \<Longrightarrow> \<exists>res l'. Recover ks ks' w l = Inr (res, l')"
  by (simp add: Recover_def Let_def)

section \<open>How the recovered balances follow the log\<close>

lemma balance_under_cong:
  assumes "\<And>e. e \<in> set es \<Longrightarrow> c (e_TxnID e) = c' (e_TxnID e)"
  shows "balance_under c es = balance_under c' es"
proof -
  have "creates c a es = creates c' a es" "moves c a es = moves c' a es" for a
    using assms by (auto simp: creates_def moves_def intro!: filter_cong)
  then show ?thesis by (auto simp: balance_under_def net_change_def)
qed

lemma balance_under_Nil [simp]: "balance_under c [] = Map.empty"
  by (auto simp: balance_under_def creates_def moves_def)

lemma balance_under_skip:
  assumes "\<not> c (e_TxnID e) \<or> e_OpType e \<notin> {OpDebit, OpCredit, OpCreateAccount}"
  shows "balance_under c (es @ [e]) = balance_under c es"
proof -
  have "creates c a (es @ [e]) = creates c a es" "moves c a (es @ [e]) = moves c a es" for a
    using assms by (auto simp: creates_def moves_def)
  then show ?thesis by (auto simp: balance_under_def net_change_def)
qed

lemma balance_under_move:
  assumes "c (e_TxnID e)" "e_OpType e = OpDebit \<or> e_OpType e = OpCredit"
  shows "balance_under c (es @ [e]) = map_plus (balance_under c es) (e_AccountID e) (signed_amount e)"
proof
  fix a
  have "creates c a (es @ [e]) = creates c a es"
      "moves c a (es @ [e]) = moves c a es @ (if e_AccountID e = a then [e] else [])"
    using assms by (auto simp: creates_def moves_def)
  then show "balance_under c (es @ [e]) a = map_plus (balance_under c es) (e_AccountID e) (signed_amount e) a"
    by (auto simp: balance_under_def net_change_def map_plus_apply)
qed

lemma balance_under_create:
  assumes "c (e_TxnID e)" "e_OpType e = OpCreateAccount" "moves c (e_AccountID e) es = []"
  shows "balance_under c (es @ [e]) = (balance_under c es)(e_AccountID e \<mapsto> e_Amount e)"
proof
  fix a
  have "creates c a (es @ [e]) = creates c a es @ (if e_AccountID e = a then [e] else [])"
      "moves c a (es @ [e]) = moves c a es"
    using assms by (auto simp: creates_def moves_def)
  then show "balance_under c (es @ [e]) a = ((balance_under c es)(e_AccountID e \<mapsto> e_Amount e)) a"
    using assms(3) by (auto simp: balance_under_def net_change_def)
qed

text \<open>The reference: the committed entries applied one after the other.\<close>

definition replay_entry :: "(string \<Rightarrow> bool) \<Rightarrow> (string \<rightharpoonup> int64) \<Rightarrow> WALEntry \<Rightarrow> (string \<rightharpoonup> int64)" where
  "replay_entry c m e =
     (if \<not> c (e_TxnID e) then m
      else case e_OpType e of
        OpCreateAccount \<Rightarrow> m(e_AccountID e \<mapsto> e_Amount e)
      | OpDebit \<Rightarrow> map_plus m (e_AccountID e) (- e_Amount e)
      | OpCredit \<Rightarrow> map_plus m (e_AccountID e) (e_Amount e)
      | _ \<Rightarrow> m)"

definition replay_ref :: "WALEntry list \<Rightarrow> (string \<rightharpoonup> int64)" where
  "replay_ref es = foldl (replay_entry (committed es)) Map.empty es"

text \<open>No account is created after it has been moved.\<close>

definition creates_first :: "(string \<Rightarrow> bool) \<Rightarrow> WALEntry list \<Rightarrow> bool" where
  "creates_first c es \<longleftrightarrow>
     (\<forall>n < length es. e_OpType (es ! n) = OpCreateAccount \<and> c (e_TxnID (es ! n))
        \<longrightarrow> moves c (e_AccountID (es ! n)) (take n es) = [])"

lemma creates_first_snoc:
  "creates_first c (es @ [e]) \<longleftrightarrow> creates_first c es
     \<and> (e_OpType e = OpCreateAccount \<and> c (e_TxnID e) \<longrightarrow> moves c (e_AccountID e) es = [])"
  by (auto simp: creates_first_def nth_append less_Suc_eq)

lemma balance_under_snoc:
  assumes "e_OpType e = OpCreateAccount \<Longrightarrow> c (e_TxnID e) \<Longrightarrow> moves c (e_AccountID e) es = []"
  shows "balance_under c (es @ [e]) = replay_entry c (balance_under c es) e"
proof (cases "c (e_TxnID e) \<and> e_OpType e \<in> {OpDebit, OpCredit, OpCreateAccount}")
  case True
  with assms show ?thesis
    by (auto simp: balance_under_move balance_under_create replay_entry_def signed_amount_def)
next
  case False
  then show ?thesis
    by (auto simp: balance_under_skip replay_entry_def split: OperationType.splits)
qed

lemma balance_under_replay:
  "creates_first c es \<Longrightarrow> balance_under c es = foldl (replay_entry c) Map.empty es"
proof (induction es rule: rev_induct)
  case (snoc e es)
  then have "balance_under c es = foldl (replay_entry c) Map.empty es"
    by (simp add: creates_first_snoc)
  then show ?case
    using snoc.prems balance_under_snoc [of e c es] by (simp add: creates_first_snoc)
qed simp

lemma recover_replay: "creates_first (committed es) es \<Longrightarrow> recovered_balance es = replay_ref es"
  by (simp add: recovered_balance_def replay_ref_def balance_under_replay)

section \<open>Properties\<close>

lemma replay_pending:
  "rp_pending (foldl (replay_step fs) p es) = rp_pending p @
     map e_TxnID (filter (\<lambda>e. e_OpType e = OpPrepared \<and> fs (e_TxnID e) \<noteq> Some StateCommitted
       \<and> fs (e_TxnID e) \<noteq> Some StateAborted) es)"
proof (induction es arbitrary: p)
  case (Cons e es)
  then show ?case
    by (cases "e_OpType e") (auto simp: replay_step_def Let_def)
qed simp

lemma final_state_dom: "dom (buildFinalStateMap es) \<subseteq> e_TxnID ` set es"
proof (induction es rule: rev_induct)
  case (snoc e es)
  then show ?case
    by (cases "e_OpType e")
      (auto simp: buildFinalStateMap_snoc final_step_def Let_def subset_iff domIff split: if_splits)
qed simp

definition example_log :: WAL where
  "example_log = fold wal_step
     [WAppend ''__init__'' OpCreateAccount ''alice'' 100, WAppend ''__init__'' OpCreateAccount ''bob'' 50,
      WCommitted ''__init__'', WAppend ''t1'' OpDebit ''alice'' 30, WAppend ''t1'' OpCredit ''bob'' 30,
      WCommitted ''t1'', WAppend ''t2'' OpPrepared ''bob'' 10, WAppend ''t3'' OpDebit ''bob'' 5, WAborted ''t3'']
     (empty_wal [])"

lemma example_log_read: "\<exists>es. WAL_ReadAll example_log = Inr es
    \<and> committed es = (\<lambda>t. t \<in> {''__init__'', ''t1''}) \<and> creates_first (committed es) es
    \<and> replay_ref es ''alice'' = Some 70 \<and> replay_ref es ''bob'' = Some 80"
proof -
  let ?es = "op_entries [WAppend ''__init__'' OpCreateAccount ''alice'' 100, WAppend ''__init__'' OpCreateAccount ''bob'' 50,
      WCommitted ''__init__'', WAppend ''t1'' OpDebit ''alice'' 30, WAppend ''t1'' OpCredit ''bob'' 30,
      WCommitted ''t1'', WAppend ''t2'' OpPrepared ''bob'' 10, WAppend ''t3'' OpDebit ''bob'' 5, WAborted ''t3''] 0"
  have read: "WAL_ReadAll example_log = Inr ?es"
    using run_healthy [OF empty_wal_ok(1)] ReadAll_healthy
    by (simp add: example_log_def empty_wal_ok(4) del: fold_simps fold.simps) (simp add: empty_wal_def)
  have c: "committed ?es = (\<lambda>t. t \<in> {''__init__'', ''t1''})"
    by (auto simp: mk_entry_def fun_eq_iff)
  have "replay_ref ?es ''alice'' = Some 70" "replay_ref ?es ''bob'' = Some 80"
    unfolding replay_ref_def c by (simp_all add: mk_entry_def replay_entry_def map_plus_def)
  moreover have "creates_first (committed ?es) ?es"
    unfolding creates_first_def c
    by (auto simp: mk_entry_def moves_def less_Suc_eq numeral_nat)
  ultimately show ?thesis using read c by blast
qed

text \<open>
  C18: recovery rebuilds the ledger the log describes. The two-pass algorithm (opening balances
  set in place, movements accumulated in a delta map that is applied at the end) gives, for
  every visiting order of its maps, exactly the balances obtained by replaying the committed
  records one after the other, and it always terminates with a result on a readable log. The log
  is one in which no record opens an account after a committed movement on that account
  (creates_first): an opening balance is set when its record is met and movements are added only
  at the end, so a log that opens an account late is not replayed in its order.
\<close>

theorem recovery_replays_committed:
  assumes "WAL_ReadAll w = Inr es" "visits ks' (rp_deltas (replay_entries es NewLedger))"
    and "creates_first (committed es) es"
  shows "\<exists>res l. Recover ks ks' w NewLedger = Inr (res, l) \<and> l_balances l = replay_ref es"
proof -
  obtain res l where r: "Recover ks ks' w NewLedger = Inr (res, l)"
    using Recover_total [OF assms(1)] by blast
  from Recover_closed_form [OF assms(1,2) r] recover_replay [OF assms(3)] r show ?thesis by simp
qed

theorem recovery_replays_committed_witness:
  "\<exists>ks' res l. Recover [] ks' example_log NewLedger = Inr (res, l) \<and> l_balances l ''alice'' = Some 70"
proof -
  obtain es where es: "WAL_ReadAll example_log = Inr es" "creates_first (committed es) es"
      "replay_ref es ''alice'' = Some 70"
    using example_log_read by blast
  have "finite (dom (rp_deltas (replay_entries es NewLedger)))"
  proof (rule finite_subset)
    show "dom (rp_deltas (replay_entries es NewLedger)) \<subseteq> e_AccountID ` set es"
      using replay_fold(2) [of "buildFinalStateMap es" NewLedger es]
      by (force simp: replay_entries_def moves_def filter_empty_conv split: if_splits)
  qed simp
  then obtain ks' where "visits ks' (rp_deltas (replay_entries es NewLedger))"
    using visits_exists by blast
  from recovery_replays_committed [OF es(1) this es(2), of "[]"] es(3) show ?thesis by force
qed

text \<open>
  Recovery classifies every transaction of the log correctly: COMMITTED iff a commit marker
  is present (even next to an abort marker), ABORTED iff there is an abort marker and no commit
  marker, in doubt iff it was prepared and has neither.
\<close>

theorem recovery_classifies:
  assumes "WAL_ReadAll w = Inr es" "visits ks (buildFinalStateMap es)"
    and "Recover ks ks' w l = Inr (res, l')"
  shows "(t \<in> set (rr_CommittedTxns res) \<longleftrightarrow> marked OpCommitted es t)
    \<and> (t \<in> set (rr_AbortedTxns res) \<longleftrightarrow> marked OpAborted es t \<and> \<not> marked OpCommitted es t)
    \<and> (t \<in> set (rr_PendingTxns res) \<longleftrightarrow>
      marked OpPrepared es t \<and> \<not> marked OpAborted es t \<and> \<not> marked OpCommitted es t)"
proof (intro conjI)
  have ks: "set ks = dom (buildFinalStateMap es)" using assms(2) by (simp add: visits_def)
  have res: "if es = [] then rr_CommittedTxns res = [] \<and> rr_AbortedTxns res = [] \<and> rr_PendingTxns res = []
    else rr_CommittedTxns res = filter (\<lambda>t. buildFinalStateMap es t = Some StateCommitted) ks
      \<and> rr_AbortedTxns res = filter (\<lambda>t. buildFinalStateMap es t = Some StateAborted) ks
      \<and> rr_PendingTxns res = rp_pending (replay_entries es l)"
    using assms(1,3) by (auto simp: Recover_def Let_def)
  show "t \<in> set (rr_CommittedTxns res) \<longleftrightarrow> marked OpCommitted es t"
    "t \<in> set (rr_AbortedTxns res) \<longleftrightarrow> marked OpAborted es t \<and> \<not> marked OpCommitted es t"
    using res ks final_state_committed [of es t] final_state_aborted [of es t] by (auto split: if_splits)
  show "t \<in> set (rr_PendingTxns res) \<longleftrightarrow>
      marked OpPrepared es t \<and> \<not> marked OpAborted es t \<and> \<not> marked OpCommitted es t"
    using res by (auto simp: replay_entries_def replay_pending final_state_committed final_state_aborted
        marked_def split: if_splits)
qed

theorem recovery_classifies_witness:
  "\<exists>ks res l. Recover ks [] example_log NewLedger = Inr (res, l) \<and> ''t1'' \<in> set (rr_CommittedTxns res)
     \<and> ''t3'' \<notin> set (rr_CommittedTxns res)"
proof -
  obtain es where es: "WAL_ReadAll example_log = Inr es" "committed es = (\<lambda>t. t \<in> {''__init__'', ''t1''})"
    using example_log_read by blast
  have "finite (dom (buildFinalStateMap es))"
    by (rule finite_subset [OF final_state_dom]) simp
  then obtain ks where ks: "visits ks (buildFinalStateMap es)"
    using visits_exists by blast
  obtain res l where r: "Recover ks [] example_log NewLedger = Inr (res, l)"
    using Recover_total [OF es(1)] by blast
  have "''t1'' \<in> set (rr_CommittedTxns res)" "''t3'' \<notin> set (rr_CommittedTxns res)"
    using recovery_classifies [OF es(1) ks r] es(2) by auto
  with r show ?thesis by blast
qed

end
