(* ===== verification/Storage.thy ===== *)
theory Storage
  imports Prelude
begin

text \<open>
  \<^verbatim>\<open>storage/engine.go\<close> and \<^verbatim>\<open>storage/json_store.go\<close>. The Go interface \<open>Engine\<close> is the locale
  \<open>storage_engine\<close>; \<open>JSONStore\<close>, the implementation the shard uses, is modelled in full and
  interprets it. The store serves reads from memory and persists the whole state after every
  write by writing a temporary file and renaming it, so the file on disk always holds one
  complete state: the new one when \<open>persist\<close> succeeds, the previous one when it fails.
\<close>

section \<open>Model\<close>

record storeData =
  sd_Balances :: "string \<rightharpoonup> int64"
  sd_CheckpointLogID :: uint64

text \<open>The file as \<open>NewJSONStore\<close> finds it: its JSON may carry \<open>"balances": null\<close>.\<close>

datatype store_file =
    NoFile | UnreadableFile | EmptyFile | CorruptFile
  | JSONFile "(string \<rightharpoonup> int64) option" uint64

datatype store_error = StoreMkdirFailed | StoreReadFailed | StoreParseFailed | StorePersistFailed

record JSONStore =
  js_data :: storeData
  js_file :: store_file
  js_faults :: "bool list"

definition NewJSONStore :: "bool \<Rightarrow> store_file \<Rightarrow> bool list \<Rightarrow> store_error + JSONStore" where
  "NewJSONStore mkdir_ok file faults =
     (let store = (\<lambda>bals cp. Inr \<lparr>js_data = \<lparr>sd_Balances = bals, sd_CheckpointLogID = cp\<rparr>,
                                  js_file = file, js_faults = faults\<rparr>)
      in if \<not> mkdir_ok then Inl StoreMkdirFailed
         else case file of
           NoFile \<Rightarrow> store Map.empty 0
         | UnreadableFile \<Rightarrow> Inl StoreReadFailed
         | EmptyFile \<Rightarrow> store Map.empty 0
         | CorruptFile \<Rightarrow> Inl StoreParseFailed
         | JSONFile None cp \<Rightarrow> store Map.empty cp
         | JSONFile (Some bals) cp \<Rightarrow> store bals cp)"

text \<open>A fault is a failing write of the temporary file or a failing rename.\<close>

definition JSONStore_persist :: "JSONStore \<Rightarrow> JSONStore \<times> store_error option" where
  "JSONStore_persist s =
     (let s' = s\<lparr>js_faults := tl (js_faults s)\<rparr> in
      if js_faults s \<noteq> [] \<and> hd (js_faults s) then (s', Some StorePersistFailed)
      else (s'\<lparr>js_file := JSONFile (Some (sd_Balances (js_data s))) (sd_CheckpointLogID (js_data s))\<rparr>,
            None))"

definition JSONStore_GetBalance :: "string \<Rightarrow> JSONStore \<Rightarrow> int64 \<times> bool" where
  "JSONStore_GetBalance a s =
     (case sd_Balances (js_data s) a of None \<Rightarrow> (0, False) | Some b \<Rightarrow> (b, True))"

definition JSONStore_SetBalance :: "string \<Rightarrow> int64 \<Rightarrow> JSONStore \<Rightarrow> JSONStore \<times> store_error option" where
  "JSONStore_SetBalance a b s =
     JSONStore_persist
       (s\<lparr>js_data := (js_data s)\<lparr>sd_Balances := (sd_Balances (js_data s))(a \<mapsto> b)\<rparr>\<rparr>)"

definition JSONStore_GetAllBalances :: "string list \<Rightarrow> JSONStore \<Rightarrow> (string \<rightharpoonup> int64)" where
  "JSONStore_GetAllBalances ks s = range_copy ks (sd_Balances (js_data s)) Map.empty"

definition JSONStore_BatchSetBalances ::
    "string list \<Rightarrow> (string \<rightharpoonup> int64) \<Rightarrow> JSONStore \<Rightarrow> JSONStore \<times> store_error option" where
  "JSONStore_BatchSetBalances ks balances s =
     JSONStore_persist (s\<lparr>js_data := (js_data s)\<lparr>sd_Balances := range_copy ks balances Map.empty\<rparr>\<rparr>)"

definition JSONStore_GetCheckpointLogID :: "JSONStore \<Rightarrow> uint64" where
  "JSONStore_GetCheckpointLogID s = sd_CheckpointLogID (js_data s)"

definition JSONStore_SetCheckpointLogID :: "uint64 \<Rightarrow> JSONStore \<Rightarrow> JSONStore \<times> store_error option" where
  "JSONStore_SetCheckpointLogID n s =
     JSONStore_persist (s\<lparr>js_data := (js_data s)\<lparr>sd_CheckpointLogID := n\<rparr>\<rparr>)"

definition JSONStore_Close :: "JSONStore \<Rightarrow> JSONStore \<times> store_error option" where
  "JSONStore_Close s = JSONStore_persist s"

section \<open>The engine interface\<close>

text \<open>
  \<open>mem\<close> is what reads are served from, \<open>disk\<close> what a restart would load. A write that
  reports success has reached both; one that reports failure has not reached the disk.
\<close>

locale storage_engine =
  fixes setBal :: "string \<Rightarrow> int64 \<Rightarrow> 's \<Rightarrow> 's \<times> 'e option"
    and batchSet :: "string list \<Rightarrow> (string \<rightharpoonup> int64) \<Rightarrow> 's \<Rightarrow> 's \<times> 'e option"
    and setCp :: "uint64 \<Rightarrow> 's \<Rightarrow> 's \<times> 'e option"
    and mem :: "'s \<Rightarrow> (string \<rightharpoonup> int64) \<times> uint64"
    and disk :: "'s \<Rightarrow> ((string \<rightharpoonup> int64) \<times> uint64) option"
  assumes setBal_mem: "mem (fst (setBal a b s)) = ((fst (mem s))(a \<mapsto> b), snd (mem s))"
    and batchSet_mem: "visits ks m \<Longrightarrow> mem (fst (batchSet ks m s)) = (m, snd (mem s))"
    and setCp_mem: "mem (fst (setCp n s)) = (fst (mem s), n)"
    and setBal_disk: "disk (fst (setBal a b s)) =
      (if snd (setBal a b s) = None then Some (mem (fst (setBal a b s))) else disk s)"
    and batchSet_disk: "disk (fst (batchSet ks m s)) =
      (if snd (batchSet ks m s) = None then Some (mem (fst (batchSet ks m s))) else disk s)"
    and setCp_disk: "disk (fst (setCp n s)) =
      (if snd (setCp n s) = None then Some (mem (fst (setCp n s))) else disk s)"
begin

text \<open>The two writes of a checkpoint, in the order the shard server issues them.\<close>

lemma checkpoint_durable:
  assumes "visits ks m" "batchSet ks m s = (s1, None)" "setCp n s1 = (s2, None)"
  shows "disk s2 = Some (m, n)"
  using assms setCp_disk [of n s1] setCp_mem [of n s1] batchSet_mem [of ks m s] by simp

text \<open>A crash between them leaves the new balances under the old checkpoint identifier.\<close>

lemma checkpoint_torn:
  assumes "visits ks m" "batchSet ks m s = (s1, None)"
  shows "disk s1 = Some (m, snd (mem s))"
  using assms batchSet_disk [of ks m s] batchSet_mem [of ks m s] by simp

end

definition store_mem :: "JSONStore \<Rightarrow> (string \<rightharpoonup> int64) \<times> uint64" where
  "store_mem s = (sd_Balances (js_data s), sd_CheckpointLogID (js_data s))"

text \<open>What \<open>NewJSONStore\<close> would serve after a restart.\<close>

definition file_view :: "store_file \<Rightarrow> ((string \<rightharpoonup> int64) \<times> uint64) option" where
  "file_view f = (case NewJSONStore True f [] of Inl _ \<Rightarrow> None | Inr s \<Rightarrow> Some (store_mem s))"

definition store_disk :: "JSONStore \<Rightarrow> ((string \<rightharpoonup> int64) \<times> uint64) option" where
  "store_disk s = file_view (js_file s)"

lemma file_view_written: "file_view (JSONFile (Some m) n) = Some (m, n)"
  by (simp add: file_view_def NewJSONStore_def store_mem_def)

lemma persist_mem [simp]: "store_mem (fst (JSONStore_persist s)) = store_mem s"
  by (simp add: JSONStore_persist_def store_mem_def Let_def)

lemma persist_disk [simp]:
  "store_disk (fst (JSONStore_persist s)) =
     (if snd (JSONStore_persist s) = None then Some (store_mem s) else store_disk s)"
  by (simp add: JSONStore_persist_def store_mem_def store_disk_def file_view_written Let_def)

lemma store_data_simps [simp]:
  "store_mem (s\<lparr>js_data := d\<rparr>) = (sd_Balances d, sd_CheckpointLogID d)"
  "store_disk (s\<lparr>js_data := d\<rparr>) = store_disk s"
  "fst (store_mem s) = sd_Balances (js_data s)"
  "snd (store_mem s) = sd_CheckpointLogID (js_data s)"
  by (simp_all add: store_mem_def store_disk_def)

interpretation jstore: storage_engine JSONStore_SetBalance JSONStore_BatchSetBalances
    JSONStore_SetCheckpointLogID store_mem store_disk
  by unfold_locales
    (simp_all add: JSONStore_SetBalance_def JSONStore_BatchSetBalances_def
      JSONStore_SetCheckpointLogID_def map_order)

end
