(* ===== verification/Partition.thy ===== *)
theory Partition
  imports Prelude
begin

text \<open>
  \<^verbatim>\<open>shard/partition/partition.go\<close>: which logical partitions a shard owns and whether each is
  accepting transactions. Every method holds the manager's mutex, so each is one atomic
  transformer of the map from partition to state.
\<close>

section \<open>Model\<close>

datatype State = StateActive | StateHalted

record Manager =
  pm_shardID :: string
  pm_partitions :: "int \<rightharpoonup> State"

datatype partition_error = NotOwned int string

fun add_active :: "int list \<Rightarrow> (int \<rightharpoonup> State) \<Rightarrow> (int \<rightharpoonup> State)" where
  "add_active [] m = m"
| "add_active (i # is) m = add_active is (m(i \<mapsto> StateActive))"

definition NewManager :: "string \<Rightarrow> int list \<Rightarrow> Manager" where
  "NewManager shardID ids = \<lparr>pm_shardID = shardID, pm_partitions = add_active ids Map.empty\<rparr>"

definition Manager_OwnsPartition :: "int \<Rightarrow> Manager \<Rightarrow> bool" where
  "Manager_OwnsPartition i pm \<longleftrightarrow> pm_partitions pm i \<noteq> None"

definition Manager_IsActive :: "int \<Rightarrow> Manager \<Rightarrow> bool" where
  "Manager_IsActive i pm \<longleftrightarrow> pm_partitions pm i = Some StateActive"

definition Manager_AddPartition :: "int \<Rightarrow> Manager \<Rightarrow> Manager" where
  "Manager_AddPartition i pm = pm\<lparr>pm_partitions := (pm_partitions pm)(i \<mapsto> StateActive)\<rparr>"

definition Manager_RemovePartition :: "int \<Rightarrow> Manager \<Rightarrow> Manager" where
  "Manager_RemovePartition i pm = pm\<lparr>pm_partitions := (pm_partitions pm)(i := None)\<rparr>"

definition Manager_HaltPartition :: "int \<Rightarrow> Manager \<Rightarrow> Manager \<times> partition_error option" where
  "Manager_HaltPartition i pm =
     (if pm_partitions pm i = None then (pm, Some (NotOwned i (pm_shardID pm)))
      else (pm\<lparr>pm_partitions := (pm_partitions pm)(i \<mapsto> StateHalted)\<rparr>, None))"

definition Manager_ResumePartition :: "int \<Rightarrow> Manager \<Rightarrow> Manager \<times> partition_error option" where
  "Manager_ResumePartition i pm =
     (if pm_partitions pm i = None then (pm, Some (NotOwned i (pm_shardID pm)))
      else (pm\<lparr>pm_partitions := (pm_partitions pm)(i \<mapsto> StateActive)\<rparr>, None))"

text \<open>The listing loops visit the map in an unspecified order \<open>ks\<close>.\<close>

definition Manager_OwnedPartitions :: "int list \<Rightarrow> Manager \<Rightarrow> int list" where
  "Manager_OwnedPartitions ks pm = filter (\<lambda>i. pm_partitions pm i \<noteq> None) ks"

definition Manager_ActivePartitions :: "int list \<Rightarrow> Manager \<Rightarrow> int list" where
  "Manager_ActivePartitions ks pm = filter (\<lambda>i. pm_partitions pm i = Some StateActive) ks"

section \<open>Behaviour\<close>

lemma add_active_apply: "add_active is m i = (if i \<in> set is then Some StateActive else m i)"
  by (induction "is" arbitrary: m) simp_all

lemma NewManager_active: "Manager_IsActive i (NewManager sid ids) \<longleftrightarrow> i \<in> set ids"
  by (simp add: Manager_IsActive_def NewManager_def add_active_apply)

lemma active_owned: "Manager_IsActive i pm \<Longrightarrow> Manager_OwnsPartition i pm"
  by (simp add: Manager_IsActive_def Manager_OwnsPartition_def)

lemma Halt_ok:
  "Manager_HaltPartition i pm = (pm', None) \<longleftrightarrow>
     Manager_OwnsPartition i pm \<and> pm' = pm\<lparr>pm_partitions := (pm_partitions pm)(i \<mapsto> StateHalted)\<rparr>"
  by (auto simp: Manager_HaltPartition_def Manager_OwnsPartition_def)

lemma Resume_ok:
  "Manager_ResumePartition i pm = (pm', None) \<longleftrightarrow>
     Manager_OwnsPartition i pm \<and> pm' = pm\<lparr>pm_partitions := (pm_partitions pm)(i \<mapsto> StateActive)\<rparr>"
  by (auto simp: Manager_ResumePartition_def Manager_OwnsPartition_def)

lemma halt_frame:
  assumes "Manager_HaltPartition i pm = (pm', r)"
  shows "Manager_OwnsPartition j pm' \<longleftrightarrow> Manager_OwnsPartition j pm"
    and "j \<noteq> i \<Longrightarrow> Manager_IsActive j pm' \<longleftrightarrow> Manager_IsActive j pm"
    and "\<not> Manager_IsActive i pm'"
  using assms by (auto simp: Manager_HaltPartition_def Manager_OwnsPartition_def Manager_IsActive_def
      split: if_splits)

end
