(* ===== verification/Strconv.thy ===== *)
theory Strconv
  imports Prelude
begin

text \<open>
  The decimal conversions of Go's standard library that the program uses: \<^verbatim>\<open>fmt.Sprintf\<close> with
  \<open>%d\<close>, \<^verbatim>\<open>strconv.Atoi\<close> and \<^verbatim>\<open>fmt.Sscanf\<close> with \<open>%d\<close>, on 64-bit integers.
\<close>

section \<open>Printing\<close>

definition digit :: "nat \<Rightarrow> char" where
  "digit n = char_of (48 + n)"

fun dec_nat :: "nat \<Rightarrow> string" where
  "dec_nat n = (if n < 10 then [digit n] else dec_nat (n div 10) @ [digit (n mod 10)])"

declare dec_nat.simps [simp del]

definition fmt_d :: "int \<Rightarrow> string" where
  "fmt_d i = (if i < 0 then CHR ''-'' # dec_nat (nat (- i)) else dec_nat (nat i))"

section \<open>Parsing\<close>

definition digit_val :: "char \<Rightarrow> nat option" where
  "digit_val c = (let n = of_char c in if 48 \<le> n \<and> n \<le> 57 then Some (n - 48) else None)"

text \<open>The longest run of digits at the front, as a number, and what follows.\<close>

fun scan_digits :: "nat \<Rightarrow> string \<Rightarrow> nat \<times> string" where
  "scan_digits acc [] = (acc, [])"
| "scan_digits acc (c # cs) =
     (case digit_val c of None \<Rightarrow> (acc, c # cs) | Some d \<Rightarrow> scan_digits (10 * acc + d) cs)"

definition scan_sign :: "string \<Rightarrow> bool \<times> string" where
  "scan_sign s = (case s of
       [] \<Rightarrow> (False, [])
     | c # cs \<Rightarrow> if c = CHR ''-'' then (True, cs) else if c = CHR ''+'' then (False, cs) else (False, s))"

text \<open>A signed number at the front of the text, with the range check of \<^verbatim>\<open>ParseInt(_, 10, 64)\<close>.\<close>

definition scan_int :: "string \<Rightarrow> (int \<times> string) option" where
  "scan_int s =
     (case scan_sign s of (neg, cs) \<Rightarrow>
        if cs = [] \<or> digit_val (hd cs) = None then None
        else case scan_digits 0 cs of (n, rest) \<Rightarrow>
          let i = (if neg then - int n else int n)
          in if - (2 ^ 63) \<le> i \<and> i < 2 ^ 63 then Some (i, rest) else None)"

text \<open>\<open>Atoi\<close> takes the whole text; \<open>Sscanf\<close> skips leading blanks and ignores what follows.\<close>

definition Atoi :: "string \<Rightarrow> int option" where
  "Atoi s = (case scan_int s of Some (i, []) \<Rightarrow> Some i | _ \<Rightarrow> None)"

fun skip_blanks :: "string \<Rightarrow> string" where
  "skip_blanks [] = []"
| "skip_blanks (c # cs) = (if c = CHR '' '' \<or> c = CHR 0x09 then skip_blanks cs else c # cs)"

definition Sscanf_d :: "string \<Rightarrow> int option" where
  "Sscanf_d s = map_option fst (scan_int (skip_blanks s))"

section \<open>Round trips\<close>

lemma digit_cases: "d < 10 \<Longrightarrow> d \<in> {0, 1, 2, 3, 4, 5, 6, 7, 8, 9::nat}"
  by auto

lemma digit_val_digit [simp]: "d < 10 \<Longrightarrow> digit_val (digit d) = Some d"
  by (drule digit_cases) (auto simp: digit_val_def digit_def)

lemma digit_not_special:
  "d < 10 \<Longrightarrow> digit d \<noteq> CHR ''-'' \<and> digit d \<noteq> CHR ''+'' \<and> digit d \<noteq> CHR '' '' \<and> digit d \<noteq> CHR 0x09"
  by (drule digit_cases) (auto simp: digit_def char_of_def)

lemma scan_digits_append:
  "scan_digits acc s = (n, []) \<Longrightarrow> scan_digits acc (s @ t) = scan_digits n t"
  by (induction acc s rule: scan_digits.induct) (auto split: option.splits)

lemma scan_dec_nat: "scan_digits 0 (dec_nat n) = (n, [])"
proof (induction n rule: dec_nat.induct)
  case (1 n)
  show ?case
  proof (cases "n < 10")
    case True
    then show ?thesis by (simp add: dec_nat.simps [of n])
  next
    case False
    then have "scan_digits 0 (dec_nat n) = scan_digits (n div 10) [digit (n mod 10)]"
      by (simp add: dec_nat.simps [of n] scan_digits_append [OF 1])
    then show ?thesis by simp
  qed
qed

lemma dec_nat_hd: "\<exists>d cs. d < 10 \<and> dec_nat n = digit d # cs"
proof (induction n rule: dec_nat.induct)
  case (1 n)
  show ?case
  proof (cases "n < 10")
    case False
    with 1 obtain d cs where "d < 10" "dec_nat (n div 10) = digit d # cs" by blast
    with False show ?thesis by (auto simp: dec_nat.simps [of n])
  qed (auto simp: dec_nat.simps [of n])
qed

lemma scan_fmt: "- (2 ^ 63) \<le> i \<Longrightarrow> i < 2 ^ 63 \<Longrightarrow> scan_int (fmt_d i) = Some (i, [])"
  using dec_nat_hd [of "nat i"] dec_nat_hd [of "nat (- i)"] scan_dec_nat [of "nat i"]
    scan_dec_nat [of "nat (- i)"]
  by (auto simp: scan_int_def scan_sign_def fmt_d_def digit_not_special Let_def simp del: scan_digits.simps)

lemma skip_blanks_fmt [simp]: "skip_blanks (fmt_d i) = fmt_d i"
  using dec_nat_hd [of "nat i"] by (auto simp: fmt_d_def digit_not_special)

lemma Atoi_fmt: "- (2 ^ 63) \<le> i \<Longrightarrow> i < 2 ^ 63 \<Longrightarrow> Atoi (fmt_d i) = Some i"
  by (simp add: Atoi_def scan_fmt)

lemma Sscanf_fmt: "- (2 ^ 63) \<le> i \<Longrightarrow> i < 2 ^ 63 \<Longrightarrow> Sscanf_d (fmt_d i) = Some i"
  by (simp add: Sscanf_d_def scan_fmt)

lemma fmt_d_inj: "- (2 ^ 63) \<le> i \<Longrightarrow> i < 2 ^ 63 \<Longrightarrow> - (2 ^ 63) \<le> j \<Longrightarrow> j < 2 ^ 63 \<Longrightarrow> fmt_d i = fmt_d j \<Longrightarrow> i = j"
  by (metis Sscanf_fmt option.inject)

end
