(* ===== verification/Hash.thy ===== *)
theory Hash
  imports Models Strconv
begin

text \<open>
  \<^verbatim>\<open>shared/utils/hash.go\<close>: the deterministic assignment of an account to a logical partition,
  and the lock stripe of a transaction (\<open>txnMutex\<close> of \<^verbatim>\<open>shard/server/shard_server.go\<close>). Both hash
  a string with a function of Go's standard library, which is written out here: SHA-256
  (FIPS 180-4) and 32-bit FNV-1a.
\<close>

unbundle bit_operations_syntax

section \<open>SHA-256\<close>

type_synonym byte = "8 word"
type_synonym word32 = "32 word"

text \<open>\<open>[]byte(s)\<close>, and the big-endian view of a list of bytes.\<close>

definition bytes_of :: "string \<Rightarrow> byte list" where
  "bytes_of s = map of_char s"

definition be_word :: "byte list \<Rightarrow> 'a::len word" where
  "be_word bs = foldl (\<lambda>acc b. push_bit 8 acc + ucast b) 0 bs"

definition be_bytes :: "nat \<Rightarrow> 'a::len word \<Rightarrow> byte list" where
  "be_bytes n w = map (\<lambda>i. ucast (drop_bit (8 * i) w)) (rev [0..<n])"

text \<open>The round constants and the initial state, as the standard defines them: the first 32 bits of
  the fractional parts of the cube roots of the first 64 primes and of the square roots of the
  first 8. \<open>iroot\<close> computes an integer root bit by bit.\<close>

fun iroot :: "nat \<Rightarrow> nat \<Rightarrow> nat \<Rightarrow> nat \<Rightarrow> nat" where
  "iroot k 0 n acc = acc"
| "iroot k (Suc b) n acc = iroot k b n (if (acc + 2 ^ b) ^ k \<le> n then acc + 2 ^ b else acc)"

definition sha_primes :: "nat list" where
  "sha_primes = filter (\<lambda>p. list_all (\<lambda>d. p mod d \<noteq> 0) [2..<p]) [2..<312]"

definition sha_K :: "word32 list" where
  "sha_K = map (\<lambda>p. of_nat (iroot 3 36 (p * 2 ^ 96) 0)) sha_primes"

definition sha_H0 :: "word32 list" where
  "sha_H0 = map (\<lambda>p. of_nat (iroot 2 36 (p * 2 ^ 64) 0)) (take 8 sha_primes)"

definition sha_pad :: "byte list \<Rightarrow> byte list" where
  "sha_pad m = m @ [0x80] @ replicate ((119 - length m mod 64) mod 64) 0
     @ be_bytes 8 (of_nat (8 * length m) :: 64 word)"

fun chunks :: "nat \<Rightarrow> nat \<Rightarrow> 'a list \<Rightarrow> 'a list list" where
  "chunks 0 k xs = []"
| "chunks (Suc n) k xs = take k xs # chunks n k (drop k xs)"

definition sha_sched_step :: "word32 list \<Rightarrow> word32 list" where
  "sha_sched_step ws =
     (let t = length ws; a = ws ! (t - 15); b = ws ! (t - 2);
          s0 = word_rotr 7 a XOR word_rotr 18 a XOR drop_bit 3 a;
          s1 = word_rotr 17 b XOR word_rotr 19 b XOR drop_bit 10 b
      in ws @ [ws ! (t - 16) + s0 + ws ! (t - 7) + s1])"

definition sha_schedule :: "byte list \<Rightarrow> word32 list" where
  "sha_schedule block = (sha_sched_step ^^ 48) (map be_word (chunks 16 4 block))"

fun sha_round :: "word32 list \<Rightarrow> word32 \<times> word32 \<Rightarrow> word32 list" where
  "sha_round [a, b, c, d, e, f, g, h] (k, w) =
     (let s1 = word_rotr 6 e XOR word_rotr 11 e XOR word_rotr 25 e;
          ch = (e AND f) XOR (NOT e AND g);
          t1 = h + s1 + ch + k + w;
          s0 = word_rotr 2 a XOR word_rotr 13 a XOR word_rotr 22 a;
          maj = (a AND b) XOR (a AND c) XOR (b AND c);
          t2 = s0 + maj
      in [t1 + t2, a, b, c, d + t1, e, f, g])"
| "sha_round st kw = st"

definition sha_block :: "word32 list \<Rightarrow> byte list \<Rightarrow> word32 list" where
  "sha_block st block = map2 (+) st (foldl sha_round st (zip sha_K (sha_schedule block)))"

definition sha256_Sum256 :: "byte list \<Rightarrow> byte list" where
  "sha256_Sum256 m =
     (let p = sha_pad m
      in concat (map (be_bytes 4) (foldl sha_block sha_H0 (chunks (length p div 64) 64 p))))"

section \<open>The partition mapper\<close>

record PartitionMapper =
  mp_numPartitions :: int

text \<open>\<open>None\<close> is the panic on a partition count that is not positive.\<close>

definition NewPartitionMapper :: "int \<Rightarrow> PartitionMapper option" where
  "NewPartitionMapper n = (if n \<le> 0 then None else Some \<lparr>mp_numPartitions = n\<rparr>)"

definition PartitionMapper_GetPartition :: "string \<Rightarrow> PartitionMapper \<Rightarrow> int" where
  "PartitionMapper_GetPartition accountID p =
     (let h = sha256_Sum256 (bytes_of accountID);
          val = (be_word (take 8 h) :: uint64)
      in go_int (uint (val mod word_of_int (mp_numPartitions p))))"

definition PartitionMapper_PartitionKey :: "string \<Rightarrow> PartitionMapper \<Rightarrow> string" where
  "PartitionMapper_PartitionKey accountID p = ''partition-'' @ fmt_d (PartitionMapper_GetPartition accountID p)"

definition PartitionMapper_IsSamePartition :: "string \<Rightarrow> string \<Rightarrow> PartitionMapper \<Rightarrow> bool" where
  "PartitionMapper_IsSamePartition a b p \<longleftrightarrow>
     PartitionMapper_GetPartition a p = PartitionMapper_GetPartition b p"

definition PartitionMapper_NumPartitions :: "PartitionMapper \<Rightarrow> int" where
  "PartitionMapper_NumPartitions p = mp_numPartitions p"

section \<open>Lock stripes\<close>

definition fnv32a :: "byte list \<Rightarrow> word32" where
  "fnv32a bs = foldl (\<lambda>h b. (h XOR ucast b) * 16777619) 2166136261 bs"

text \<open>\<open>txnMutex\<close> picks one of the server's 256 mutexes; the model returns its index.\<close>

definition txnMutex :: "string \<Rightarrow> nat" where
  "txnMutex txnID = unat (fnv32a (bytes_of txnID) mod 256)"

section \<open>Facts\<close>

text \<open>A mapper's partition count is a positive Go \<open>int\<close>.\<close>

definition mapper_ok :: "PartitionMapper \<Rightarrow> bool" where
  "mapper_ok p \<longleftrightarrow> 0 < mp_numPartitions p \<and> mp_numPartitions p < 2 ^ 63"

lemma GetPartition_range:
  assumes "mapper_ok p"
  shows "0 \<le> PartitionMapper_GetPartition a p" "PartitionMapper_GetPartition a p < mp_numPartitions p"
proof -
  have n: "0 < mp_numPartitions p" "mp_numPartitions p < 2 ^ 63"
    using assms by (auto simp: mapper_ok_def)
  define val where "val = (be_word (take 8 (sha256_Sum256 (bytes_of a))) :: uint64)"
  have u: "uint (word_of_int (mp_numPartitions p) :: uint64) = mp_numPartitions p"
    using n by (simp add: uint_word_of_int)
  have "uint (val mod word_of_int (mp_numPartitions p)) = uint val mod mp_numPartitions p"
    using u by (simp add: uint_mod)
  then have "PartitionMapper_GetPartition a p = go_int (uint val mod mp_numPartitions p)"
    by (simp add: PartitionMapper_GetPartition_def Let_def val_def)
  moreover have rng: "0 \<le> uint val mod mp_numPartitions p"
      "uint val mod mp_numPartitions p < mp_numPartitions p"
    using n by simp_all
  moreover have "go_int (uint val mod mp_numPartitions p) = uint val mod mp_numPartitions p"
    using rng n(2) by (intro go_int_id) linarith+
  ultimately show "0 \<le> PartitionMapper_GetPartition a p"
      "PartitionMapper_GetPartition a p < mp_numPartitions p"
    by simp_all
qed

lemma txnMutex_less: "txnMutex t < 256"
proof -
  have "fnv32a (bytes_of t) mod 256 < 256" by (rule word_mod_less_divisor) simp
  then show ?thesis by (simp add: txnMutex_def word_less_nat_alt)
qed

section \<open>Properties\<close>

text \<open>
  Every account, whatever bytes its name holds, is mapped to a partition the system has:
  the partition number is at least zero and below the configured count, although the hash is
  reduced as an unsigned and returned as a signed integer.
\<close>

theorem partition_in_range:
  assumes "NewPartitionMapper n = Some mp" "n < 2 ^ 63"
  shows "0 \<le> PartitionMapper_GetPartition a mp \<and> PartitionMapper_GetPartition a mp < n"
proof -
  have "mapper_ok mp" "mp_numPartitions mp = n"
    using assms by (auto simp: NewPartitionMapper_def mapper_ok_def split: if_splits)
  then show ?thesis
    using GetPartition_range [of mp a] by auto
qed

theorem partition_in_range_witness:
  "PartitionMapper_GetPartition ''alice'' \<lparr>mp_numPartitions = 30\<rparr> < 30"
  using partition_in_range [of 30 "\<lparr>mp_numPartitions = 30\<rparr>" "''alice''"] by (simp add: NewPartitionMapper_def)

end
