(* ===== verification/Replication.thy ===== *)
theory Replication
  imports Wal "HOL-Library.Multiset"
begin

text \<open>
  \<^verbatim>\<open>shard/replication\<close>: the leader sends each log entry to its followers in parallel and waits
  for a quorum of acknowledgments (\<^verbatim>\<open>primary.go\<close>), over HTTP (\<^verbatim>\<open>client.go\<close>), to followers that
  append it to their own log before they answer (\<^verbatim>\<open>follower.go\<close>).

  The goroutines' results arrive on a channel in any order. \<open>pr_acks\<close> holds, for each coming
  call of \<open>Replicate\<close> that sends anything, the results in their order of arrival; the empty
  script stands for followers that all acknowledge. A channel that runs dry while the loop
  still waits is \<open>ChannelBlocked\<close>; \<open>await_not_blocked\<close> shows that it cannot happen, since
  every follower's goroutine sends exactly one result.
\<close>

section \<open>Model\<close>

subsection \<open>The leader\<close>

record FollowerConn =
  fc_FollowerID :: string
  fc_Address :: string

record PrimaryReplicator =
  pr_shardID :: string
  pr_followers :: "FollowerConn list"
  pr_quorumSize :: int
  pr_acks :: "bool list list"

datatype repl_error =
    NoFollowers int | QuorumImpossible int int int | QuorumNotMet int int | ChannelBlocked

definition NewPrimaryReplicator :: "string \<Rightarrow> int \<Rightarrow> PrimaryReplicator" where
  "NewPrimaryReplicator shardID quorumSize =
     \<lparr>pr_shardID = shardID, pr_followers = [], pr_quorumSize = quorumSize, pr_acks = []\<rparr>"

definition PrimaryReplicator_AddFollower ::
    "string \<Rightarrow> string \<Rightarrow> PrimaryReplicator \<Rightarrow> PrimaryReplicator" where
  "PrimaryReplicator_AddFollower followerID address p =
     p\<lparr>pr_followers := pr_followers p @ [\<lparr>fc_FollowerID = followerID, fc_Address = address\<rparr>]\<rparr>"

text \<open>The loop that waits for the quorum: \<open>n\<close> followers, \<open>ackCount\<close> and \<open>totalResponses\<close> so far.\<close>

fun await_quorum :: "int \<Rightarrow> nat \<Rightarrow> int \<Rightarrow> nat \<Rightarrow> bool list \<Rightarrow> repl_error option" where
  "await_quorum needed n ackCount totalResponses [] =
     (if totalResponses < n then Some ChannelBlocked
      else if needed \<le> ackCount then None else Some (QuorumNotMet needed ackCount))"
| "await_quorum needed n ackCount totalResponses (ok # chan) =
     (if totalResponses < n then
        (let total = totalResponses + 1;
             acks = (if ok then ackCount + 1 else ackCount);
             remaining = int n - int total
         in if needed \<le> acks then None
            else if acks + remaining < needed then Some (QuorumImpossible needed acks remaining)
            else await_quorum needed n acks total chan)
      else if needed \<le> ackCount then None else Some (QuorumNotMet needed ackCount))"

definition next_acks :: "PrimaryReplicator \<Rightarrow> bool list" where
  "next_acks p = (case pr_acks p of
     [] \<Rightarrow> replicate (length (pr_followers p)) True | acks # _ \<Rightarrow> acks)"

definition PrimaryReplicator_Replicate ::
    "WALEntry \<Rightarrow> PrimaryReplicator \<Rightarrow> PrimaryReplicator \<times> repl_error option" where
  "PrimaryReplicator_Replicate entry p =
     (let n = length (pr_followers p) in
      if n = 0 then
        (if pr_quorumSize p \<le> 1 then (p, None) else (p, Some (NoFollowers (pr_quorumSize p))))
      else let neededACKs = go_int (pr_quorumSize p - 1) in
        if neededACKs \<le> 0 then (p, None)
        else (p\<lparr>pr_acks := tl (pr_acks p)\<rparr>, await_quorum neededACKs n 0 0 (next_acks p)))"

definition PrimaryReplicator_FollowerCount :: "PrimaryReplicator \<Rightarrow> nat" where
  "PrimaryReplicator_FollowerCount p = length (pr_followers p)"

subsection \<open>A follower\<close>

record FollowerReceiver =
  f_shardID :: string
  f_walLog :: WAL
  f_lastLogID :: uint64

definition NewFollowerReceiver :: "string \<Rightarrow> WAL \<Rightarrow> FollowerReceiver" where
  "NewFollowerReceiver shardID w = \<lparr>f_shardID = shardID, f_walLog = w, f_lastLogID = 0\<rparr>"

definition FollowerReceiver_ReceiveEntry ::
    "WALEntry \<Rightarrow> FollowerReceiver \<Rightarrow> FollowerReceiver \<times> wal_error option" where
  "FollowerReceiver_ReceiveEntry entry f =
     (case WAL_Append (e_TxnID entry) (e_OpType entry) (e_AccountID entry) (e_Amount entry) (f_walLog f) of
        (w, Inl err) \<Rightarrow> (f\<lparr>f_walLog := w\<rparr>, Some err)
      | (w, Inr _) \<Rightarrow> (f\<lparr>f_walLog := w, f_lastLogID := e_LogID entry\<rparr>, None))"

definition FollowerReceiver_LastLogID :: "FollowerReceiver \<Rightarrow> uint64" where
  "FollowerReceiver_LastLogID f = f_lastLogID f"

text \<open>The handler of \<open>/log-index\<close>, which \<open>RegisterHTTPHandlers\<close> leaves unregistered: the status and the
  identifier in the body.\<close>

definition FollowerReceiver_handleLogIndex :: "FollowerReceiver \<Rightarrow> nat \<times> uint64" where
  "FollowerReceiver_handleLogIndex f = (StatusOK, f_lastLogID f)"

text \<open>The handler of \<open>POST /replicate\<close>; a body that does not decode is \<open>None\<close>.\<close>

definition FollowerReceiver_handleReplicate ::
    "http_method \<Rightarrow> WALEntry option \<Rightarrow> FollowerReceiver \<Rightarrow> FollowerReceiver \<times> nat" where
  "FollowerReceiver_handleReplicate m body f =
     (if m \<noteq> MethodPost then (f, StatusMethodNotAllowed)
      else case body of
        None \<Rightarrow> (f, StatusBadRequest)
      | Some entry \<Rightarrow>
          (case FollowerReceiver_ReceiveEntry entry f of
             (f', Some err) \<Rightarrow> (f', StatusInternalServerError)
           | (f', None) \<Rightarrow> (f', StatusOK)))"

subsection \<open>The transport\<close>

datatype send_error = SendRequestFailed | SendStatus nat

definition ReplicationClient_SendEntry ::
    "net \<Rightarrow> WALEntry \<Rightarrow> FollowerReceiver \<Rightarrow> FollowerReceiver \<times> send_error option" where
  "ReplicationClient_SendEntry nt entry f =
     (case nt of
        RequestLost \<Rightarrow> (f, Some SendRequestFailed)
      | ReplyLost \<Rightarrow> (fst (FollowerReceiver_handleReplicate MethodPost (Some entry) f), Some SendRequestFailed)
      | NetOk \<Rightarrow>
          (case FollowerReceiver_handleReplicate MethodPost (Some entry) f of
             (f', status) \<Rightarrow> (f', if status \<noteq> StatusOK then Some (SendStatus status) else None)))"

text \<open>The fan-out: one goroutine per follower, each against its own follower and connection.\<close>

definition send_all ::
    "WALEntry \<Rightarrow> (net \<times> FollowerReceiver) list \<Rightarrow> (FollowerReceiver \<times> bool) list" where
  "send_all entry fs =
     map (\<lambda>(nt, f). case ReplicationClient_SendEntry nt entry f of (f', r) \<Rightarrow> (f', r = None)) fs"

section \<open>Waiting for the quorum\<close>

text \<open>
  \<open>acks chan\<close> counts the acknowledgments of a channel. The loop returns early in both
  directions, yet its answer is the one of counting the whole channel.
\<close>

definition acks :: "bool list \<Rightarrow> int" where
  "acks chan = int (length (filter id chan))"

lemma acks_simps [simp]: "acks [] = 0" "acks (b # chan) = (if b then 1 else 0) + acks chan"
  by (auto simp: acks_def)

lemma acks_bounds: "0 \<le> acks chan" "acks chan \<le> int (length chan)"
  by (auto simp: acks_def)

lemma await_quorum_counts:
  assumes "tot + length chan = n" "ackCount < needed \<or> tot = n"
  shows "await_quorum needed n ackCount tot chan = None \<longleftrightarrow> needed \<le> ackCount + acks chan"
  using assms
proof (induction needed n ackCount tot chan rule: await_quorum.induct)
  case (2 needed n ackCount tot ok chan)
  define a' where "a' = (if ok then ackCount + 1 else ackCount)"
  have lt: "tot < n" using "2.prems" by simp
  have rem: "int n - int (tot + 1) = int (length chan)" using "2.prems"(1) by auto
  have sum: "ackCount + acks (ok # chan) = a' + acks chan" by (simp add: a'_def)
  consider "needed \<le> a'" | "a' < needed" "a' + int (length chan) < needed"
    | "a' < needed" "needed \<le> a' + int (length chan)" by linarith
  then show ?case
  proof cases
    case 1
    then show ?thesis using lt sum acks_bounds(1) [of chan] by (simp add: Let_def a'_def [symmetric])
  next
    case 2
    then show ?thesis using lt sum rem acks_bounds(2) [of chan]
      by (simp add: Let_def a'_def [symmetric])
  next
    case 3
    then have "await_quorum needed n a' (tot + 1) chan = None \<longleftrightarrow> needed \<le> a' + acks chan"
      using "2.IH" lt "2.prems"(1) rem by (simp add: a'_def)
    then show ?thesis using 3 lt sum rem
      by (auto simp: Let_def a'_def [symmetric] simp del: acks_simps)
  qed
qed auto

lemma await_not_blocked:
  "tot + length chan = n \<Longrightarrow> await_quorum needed n ackCount tot chan \<noteq> Some ChannelBlocked"
  by (induction needed n ackCount tot chan rule: await_quorum.induct) (auto simp: Let_def)

text \<open>The answer does not depend on the order in which the results arrive.\<close>

lemma acks_perm: "mset chan = mset chan' \<Longrightarrow> acks chan = acks chan'"
proof -
  assume "mset chan = mset chan'"
  then have "mset (filter id chan) = mset (filter id chan')" by simp
  then show ?thesis unfolding acks_def by (metis size_mset)
qed

section \<open>What an acknowledgment means\<close>

text \<open>The entry is in the follower's log, under the follower's own identifier.\<close>

definition holds_entry :: "WALEntry \<Rightarrow> FollowerReceiver \<Rightarrow> bool" where
  "holds_entry entry f \<longleftrightarrow>
     (\<exists>e \<in> set (wal_entries (f_walLog f)). e_TxnID e = e_TxnID entry \<and> e_OpType e = e_OpType entry
        \<and> e_AccountID e = e_AccountID entry \<and> e_Amount e = e_Amount entry)"

lemma ReceiveEntry_persists:
  assumes "FollowerReceiver_ReceiveEntry entry f = (f', None)"
  shows "holds_entry entry f'"
proof -
  let ?run = "WAL_Append (e_TxnID entry) (e_OpType entry) (e_AccountID entry) (e_Amount entry) (f_walLog f)"
  from assms have ok: "\<nexists>err. snd ?run = Inl err" and w: "f_walLog f' = fst ?run"
    by (auto simp: FollowerReceiver_ReceiveEntry_def split: prod.splits sum.splits)
  from app.run_acknowledged [OF ok] show ?thesis
    by (simp add: holds_entry_def w mk_entry_def)
qed

lemma SendEntry_acknowledged:
  "ReplicationClient_SendEntry nt entry f = (f', None) \<Longrightarrow> holds_entry entry f'"
  by (auto simp: ReplicationClient_SendEntry_def FollowerReceiver_handleReplicate_def
      intro: ReceiveEntry_persists split: net.splits prod.splits option.splits if_splits)

lemma acks_durable:
  "acks (map snd (send_all entry fs)) \<le> int (length (filter (\<lambda>(f, ok). holds_entry entry f) (send_all entry fs)))"
proof (induction fs)
  case (Cons nf fs)
  have "snd x \<Longrightarrow> holds_entry entry (fst x)"
    if "x = (case ReplicationClient_SendEntry (fst nf) entry (snd nf) of (f', r) \<Rightarrow> (f', r = None))" for x
    using that SendEntry_acknowledged [of "fst nf" entry "snd nf"] by (auto split: prod.splits)
  with Cons show ?case by (force simp: send_all_def split: prod.splits)
qed (simp add: send_all_def)

section \<open>Properties\<close>

text \<open>
  C22: the quorum loop, with its early exits in both directions, answers exactly the question
  whether enough followers acknowledged: it never blocks on the channel, it succeeds iff the
  acknowledgments among all results reach the quorum, and the order in which the results
  arrive does not change the answer.
\<close>

theorem quorum_wait_counts:
  assumes "length chan = n" "0 < needed"
  shows "await_quorum needed n 0 0 chan \<noteq> Some ChannelBlocked
    \<and> (await_quorum needed n 0 0 chan = None \<longleftrightarrow> needed \<le> acks chan)
    \<and> (mset chan' = mset chan \<longrightarrow>
        (await_quorum needed n 0 0 chan' = None \<longleftrightarrow> await_quorum needed n 0 0 chan = None))"
proof (intro conjI impI)
  show "await_quorum needed n 0 0 chan \<noteq> Some ChannelBlocked"
    using await_not_blocked [of 0 chan n] assms by simp
  have count: "await_quorum needed n 0 0 c = None \<longleftrightarrow> needed \<le> acks c" if "length c = n" for c
    using await_quorum_counts [of 0 c n 0 needed] that assms(2) by simp
  from count [OF assms(1)] show "await_quorum needed n 0 0 chan = None \<longleftrightarrow> needed \<le> acks chan" .
  assume "mset chan' = mset chan"
  then show "await_quorum needed n 0 0 chan' = None \<longleftrightarrow> await_quorum needed n 0 0 chan = None"
    using count assms(1) acks_perm [of chan' chan] by (metis size_mset)
qed

theorem quorum_wait_counts_witness:
  "await_quorum 1 2 0 0 [False, True] = None \<longleftrightarrow> await_quorum 1 2 0 0 [True, False] = None"
  using quorum_wait_counts [of "[True, False]" 2 1 "[False, True]"] by (simp add: add_mset_commute)

definition example_entry :: WALEntry where
  "example_entry = mk_entry ''t1'' OpDebit ''alice'' 30 0"

definition example_follower :: FollowerReceiver where
  "example_follower = NewFollowerReceiver ''shard1'' \<lparr>w_lines = [], w_faults = [], w_readable = True,
     w_open = True, w_writerErr = False, w_nextLogID = 0\<rparr>"

text \<open>
  C21: a successful replication is durable at a quorum. When \<open>Replicate\<close> returns without error
  after a fan-out, the entry is in the logs of at least \<open>quorumSize - 1\<close> followers, so with the
  leader's own log a quorum of replicas holds it.
\<close>

theorem replicate_durable:
  assumes "PrimaryReplicator_Replicate entry p = (p', None)"
    and "pr_acks p = chan # rest" "mset chan = mset (map snd (send_all entry fs))"
    and "length fs = length (pr_followers p)" "pr_followers p \<noteq> []"
    and "1 < pr_quorumSize p" "pr_quorumSize p < 2 ^ 63"
  shows "pr_quorumSize p - 1 \<le> int (length (filter (\<lambda>(f, ok). holds_entry entry f) (send_all entry fs)))"
proof -
  have needed: "go_int (pr_quorumSize p - 1) = pr_quorumSize p - 1"
    using assms(6,7) by (intro go_int_id) auto
  have len: "length chan = length (pr_followers p)"
    using assms(3,4) by (metis length_map send_all_def size_mset)
  have "await_quorum (pr_quorumSize p - 1) (length (pr_followers p)) 0 0 chan = None"
    using assms(1,2,5,6) needed by (simp add: PrimaryReplicator_Replicate_def next_acks_def Let_def)
  then have "pr_quorumSize p - 1 \<le> acks chan"
    using await_quorum_counts [of 0 chan "length (pr_followers p)" 0 "pr_quorumSize p - 1"] len assms(6) by simp
  also have "\<dots> = acks (map snd (send_all entry fs))" by (rule acks_perm [OF assms(3)])
  finally show ?thesis using acks_durable [of entry fs] by linarith
qed

theorem replicate_durable_witness:
  "1 \<le> int (length (filter (\<lambda>(f, ok). holds_entry example_entry f)
     (send_all example_entry [(RequestLost, example_follower), (NetOk, example_follower)])))"
proof -
  let ?p = "\<lparr>pr_shardID = ''shard1'', pr_followers = [\<lparr>fc_FollowerID = ''f1'', fc_Address = ''f1:1''\<rparr>,
      \<lparr>fc_FollowerID = ''f2'', fc_Address = ''f2:1''\<rparr>], pr_quorumSize = 2, pr_acks = [[True, False]]\<rparr>"
  have "\<exists>p'. PrimaryReplicator_Replicate example_entry ?p = (p', None)"
    by (simp add: PrimaryReplicator_Replicate_def next_acks_def go_int_def)
  moreover have "map snd (send_all example_entry [(RequestLost, example_follower), (NetOk, example_follower)]) = [False, True]"
    by (simp add: send_all_def ReplicationClient_SendEntry_def FollowerReceiver_handleReplicate_def
        FollowerReceiver_ReceiveEntry_def example_follower_def NewFollowerReceiver_def WAL_Append_def
        WAL_writeEntry_def next_io_def Let_def)
  ultimately show ?thesis
    using replicate_durable [of example_entry ?p _ "[True, False]" "[]"
        "[(RequestLost, example_follower), (NetOk, example_follower)]"]
    by (auto simp: add_mset_commute)
qed

end
