(* ===== verification/ShardServer.thy ===== *)
theory ShardServer
  imports Recovery Storage Partition Hash Replication
begin

text \<open>
  \<^verbatim>\<open>shard/server/shard_server.go\<close>: the shard node. It owns a log and a ledger and executes
  single-shard transfers (Algorithm 1) and the three participant operations of two-phase
  commit. A handler runs under the lock stripe of its transaction; here each is one state
  transformer that performs the handler's calls in the order of the code, every early return
  and the deferred removal of the transaction's state included.

  An operation returns the server together with what the Go method returns: an error option
  for \<open>error\<close>, a sum for a pair of a value and an error.
\<close>

section \<open>Model\<close>

record ShardServer =
  s_shardID :: string
  s_walLog :: WAL
  s_ledger :: Ledger
  s_store :: "JSONStore option"
  s_replicator :: "PrimaryReplicator option"
  s_partMgr :: "Manager option"
  s_mapper :: "PartitionMapper option"
  s_role :: string
  s_seenTxns :: "string \<rightharpoonup> TransactionState"
  s_committedCount :: int64
  s_abortedCount :: int64
  s_preparedCount :: int64
  s_followerCount :: int
  s_recentTxns :: "TxnSummary list"

datatype shard_error =
    OpenWalFailed wal_error | InitialLogFailed wal_error | InitialCommitFailed wal_error
  | RecoveryFailed wal_error
  | NoStorageEngine | CheckpointStoreFailed store_error | CheckpointWalFailed wal_error
  | CheckpointIDFailed store_error
  | WalDebitFailed wal_error | WalCreditFailed wal_error | ReplicationFailed repl_error
  | WalCommitFailed wal_error
  | AlreadyInState string TransactionState | PrepareRejected ledger_error
  | PrepareReserveFailed ledger_error | PrepareAccountNotFound string | WalPrepareFailed wal_error
  | CannotCommitAborted string | WalCommitOpFailed wal_error | CommitLedgerError ledger_error
  | WalCommittedMarkerFailed wal_error
  | WalAbortFailed wal_error
  | ErrAccountExists | WalCreateFailed wal_error | CreateLedgerError ledger_error
  | WalCommitCreateFailed wal_error
  | NoPartitionManager | PartitionError partition_error

subsection \<open>Transaction states and the recent history\<close>

definition ShardServer_beginTxn :: "string \<Rightarrow> ShardServer \<Rightarrow> ShardServer \<times> TransactionState \<times> bool" where
  "ShardServer_beginTxn t s =
     (case s_seenTxns s t of
        Some st \<Rightarrow> (s, st, False)
      | None \<Rightarrow> (s\<lparr>s_seenTxns := (s_seenTxns s)(t \<mapsto> StatePending)\<rparr>, StatePending, True))"

definition ShardServer_getTxnState :: "string \<Rightarrow> ShardServer \<Rightarrow> TransactionState option" where
  "ShardServer_getTxnState t s = s_seenTxns s t"

definition ShardServer_setTxnState :: "string \<Rightarrow> TransactionState \<Rightarrow> ShardServer \<Rightarrow> ShardServer" where
  "ShardServer_setTxnState t st s = s\<lparr>s_seenTxns := (s_seenTxns s)(t \<mapsto> st)\<rparr>"

definition ShardServer_deleteTxnState :: "string \<Rightarrow> ShardServer \<Rightarrow> ShardServer" where
  "ShardServer_deleteTxnState t s = s\<lparr>s_seenTxns := (s_seenTxns s)(t := None)\<rparr>"

definition ShardServer_addRecentTxn :: "TxnSummary \<Rightarrow> ShardServer \<Rightarrow> ShardServer" where
  "ShardServer_addRecentTxn x s =
     s\<lparr>s_recentTxns := (if 500 \<le> length (s_recentTxns s) then tl (s_recentTxns s)
                        else s_recentTxns s) @ [x]\<rparr>"

text \<open>\<open>None\<close> is the panic of \<open>make\<close> on a negative length.\<close>

definition ShardServer_GetRecentTxns :: "int \<Rightarrow> ShardServer \<Rightarrow> TxnSummary list option" where
  "ShardServer_GetRecentTxns limit s =
     (let n = length (s_recentTxns s); k = (if int n < limit then int n else limit)
      in if k < 0 then None else Some (drop (n - nat k) (s_recentTxns s)))"

text \<open>\<open>if s.replicator != nil { err = s.replicator.Replicate(...) }\<close>\<close>

definition ShardServer_replicate :: "WALEntry \<Rightarrow> ShardServer \<Rightarrow> ShardServer \<times> repl_error option" where
  "ShardServer_replicate e s =
     (case s_replicator s of
        None \<Rightarrow> (s, None)
      | Some p \<Rightarrow>
          (case PrimaryReplicator_Replicate e p of
             (p', r) \<Rightarrow> (s\<lparr>s_replicator := Some p'\<rparr>, r)))"

definition wire_entry :: "uint64 \<Rightarrow> string \<Rightarrow> OperationType \<Rightarrow> string \<Rightarrow> int64 \<Rightarrow> WALEntry" where
  "wire_entry n t op a x = \<lparr>e_LogID = n, e_TxnID = t, e_OpType = op, e_AccountID = a, e_Amount = x,
     e_Committed = False, e_CheckpointLogID = 0\<rparr>"

definition mark_aborted :: "string \<Rightarrow> ShardServer \<Rightarrow> ShardServer" where
  "mark_aborted t s = s\<lparr>s_walLog := fst (WAL_MarkAborted t (s_walLog s))\<rparr>"

subsection \<open>Single-shard execution\<close>

definition ShardServer_ExecuteSingleShard ::
    "Transaction \<Rightarrow> ShardServer \<Rightarrow> ShardServer \<times> (shard_error + ledger_error TransactionResult)" where
  "ShardServer_ExecuteSingleShard txn s =
     (let t = t_TxnID txn; src = t_Source txn; dst = t_Destination txn; x = t_Amount txn in
      case ShardServer_beginTxn t s of
        (s0, st, False) \<Rightarrow>
          (s0, Inr \<lparr>r_TxnID = t, r_State = st, r_Message = Text ''idempotent: already processed''\<rparr>)
      | (s0, _, True) \<Rightarrow>
        (case Ledger_ValidateDebit src x (s_ledger s0) of
           Some err \<Rightarrow>
             (let s1 = ShardServer_setTxnState t StateAborted s0;
                  s2 = s1\<lparr>s_abortedCount := s_abortedCount s1 + 1\<rparr>
              in (mark_aborted t s2,
                  Inr \<lparr>r_TxnID = t, r_State = StateAborted, r_Message = ErrorText err\<rparr>))
         | None \<Rightarrow>
        (case WAL_Append t OpDebit src x (s_walLog s0) of
           (w1, Inl err) \<Rightarrow>
             (ShardServer_deleteTxnState t (s0\<lparr>s_walLog := w1\<rparr>), Inl (WalDebitFailed err))
         | (w1, Inr debitLogID) \<Rightarrow>
        (case ShardServer_replicate (wire_entry debitLogID t OpDebit src x) (s0\<lparr>s_walLog := w1\<rparr>) of
           (s1, Some err) \<Rightarrow> (ShardServer_deleteTxnState t s1, Inl (ReplicationFailed err))
         | (s1, None) \<Rightarrow>
        (case WAL_Append t OpCredit dst x (s_walLog s1) of
           (w2, Inl err) \<Rightarrow>
             (ShardServer_deleteTxnState t (s1\<lparr>s_walLog := w2\<rparr>), Inl (WalCreditFailed err))
         | (w2, Inr creditLogID) \<Rightarrow>
        (case ShardServer_replicate (wire_entry creditLogID t OpCredit dst x) (s1\<lparr>s_walLog := w2\<rparr>) of
           (s2, Some err) \<Rightarrow> (ShardServer_deleteTxnState t s2, Inl (ReplicationFailed err))
         | (s2, None) \<Rightarrow>
        (case Ledger_ApplyTransfer src dst x (s_ledger s2) of
           (l, Some err) \<Rightarrow>
             (let s3 = ShardServer_setTxnState t StateAborted (mark_aborted t (s2\<lparr>s_ledger := l\<rparr>))
              in (s3\<lparr>s_abortedCount := s_abortedCount s3 + 1\<rparr>,
                  Inr \<lparr>r_TxnID = t, r_State = StateAborted, r_Message = ApplyFailedText err\<rparr>))
         | (l, None) \<Rightarrow>
        (case WAL_MarkCommitted t (s_walLog s2) of
           (w3, Some err) \<Rightarrow>
             (ShardServer_setTxnState t StateCommitted (s2\<lparr>s_ledger := l, s_walLog := w3\<rparr>),
              Inl (WalCommitFailed err))
         | (w3, None) \<Rightarrow>
             (let s3 = ShardServer_setTxnState t StateCommitted (s2\<lparr>s_ledger := l, s_walLog := w3\<rparr>);
                  s4 = s3\<lparr>s_committedCount := s_committedCount s3 + 1\<rparr>;
                  s5 = ShardServer_addRecentTxn
                         \<lparr>sum_TxnID = t, sum_Source = src, sum_Destination = dst, sum_Amount = x,
                          sum_Type = ''single'', sum_State = StateCommitted,
                          sum_ShardID = s_shardID s4\<rparr> s4
              in (s5, Inr \<lparr>r_TxnID = t, r_State = StateCommitted, r_Message = Text ''success''\<rparr>))))))))))"

subsection \<open>Two-phase commit\<close>

text \<open>The checks of \<open>PrepareTransaction\<close>: the new ledger, or the reason for the rejection.\<close>

definition prepare_check ::
    "OperationType \<Rightarrow> string \<Rightarrow> int64 \<Rightarrow> Ledger \<Rightarrow> shard_error + Ledger" where
  "prepare_check opType a x l =
     (if opType = OpDebit then
        (case Ledger_ValidateDebit a x l of
           Some err \<Rightarrow> Inl (PrepareRejected err)
         | None \<Rightarrow>
             (case Ledger_ApplyDebit a x l of
                (l', Some err) \<Rightarrow> Inl (PrepareReserveFailed err)
              | (l', None) \<Rightarrow> Inr l'))
      else if opType = OpCredit then
        (if Ledger_AccountExists a l then Inr l else Inl (PrepareAccountNotFound a))
      else Inr l)"

definition ShardServer_PrepareTransaction ::
    "string \<Rightarrow> OperationType \<Rightarrow> string \<Rightarrow> int64 \<Rightarrow> ShardServer \<Rightarrow> ShardServer \<times> shard_error option" where
  "ShardServer_PrepareTransaction t opType a x s =
     (case ShardServer_getTxnState t s of
        Some st \<Rightarrow>
          if st = StatePrepared \<or> st = StateCommitted then (s, None)
          else (s, Some (AlreadyInState t st))
      | None \<Rightarrow>
          (let s0 = ShardServer_setTxnState t StatePending s in
           case prepare_check opType a x (s_ledger s0) of
             Inl err \<Rightarrow> (ShardServer_setTxnState t StateAborted (mark_aborted t s0), Some err)
           | Inr l \<Rightarrow>
               (case WAL_Append t OpPrepared a x (s_walLog s0) of
                  (w, Inl err) \<Rightarrow>
                    (let s1 = s0\<lparr>s_ledger := (if opType = OpDebit then fst (Ledger_RollbackDebit a x l) else l),
                                 s_walLog := w\<rparr>
                     in (ShardServer_deleteTxnState t s1, Some (WalPrepareFailed err)))
                | (w, Inr _) \<Rightarrow>
                    (let s1 = ShardServer_setTxnState t StatePrepared (s0\<lparr>s_ledger := l, s_walLog := w\<rparr>)
                     in (s1\<lparr>s_preparedCount := s_preparedCount s1 + 1\<rparr>, None)))))"

definition ShardServer_CommitTransaction ::
    "string \<Rightarrow> OperationType \<Rightarrow> string \<Rightarrow> int64 \<Rightarrow> ShardServer \<Rightarrow> ShardServer \<times> shard_error option" where
  "ShardServer_CommitTransaction t opType a x s =
     (if ShardServer_getTxnState t s = Some StateCommitted then (s, None)
      else if ShardServer_getTxnState t s = Some StateAborted then (s, Some (CannotCommitAborted t))
      else
      case WAL_Append t opType a x (s_walLog s) of
        (w1, Inl err) \<Rightarrow> (s\<lparr>s_walLog := w1\<rparr>, Some (WalCommitOpFailed err))
      | (w1, Inr logID) \<Rightarrow>
        (let s1 = fst (ShardServer_replicate (wire_entry logID t opType a x) (s\<lparr>s_walLog := w1\<rparr>)) in
         case (if opType = OpCredit then Ledger_ApplyCredit a x (s_ledger s1) else (s_ledger s1, None)) of
           (l, Some err) \<Rightarrow> (s1\<lparr>s_ledger := l\<rparr>, Some (CommitLedgerError err))
         | (l, None) \<Rightarrow>
           (case WAL_MarkCommitted t (s_walLog s1) of
              (w2, Some err) \<Rightarrow>
                (ShardServer_setTxnState t StateCommitted (s1\<lparr>s_ledger := l, s_walLog := w2\<rparr>),
                 Some (WalCommittedMarkerFailed err))
            | (w2, None) \<Rightarrow>
                (let s2 = ShardServer_setTxnState t StateCommitted (s1\<lparr>s_ledger := l, s_walLog := w2\<rparr>);
                     s3 = s2\<lparr>s_committedCount := s_committedCount s2 + 1\<rparr>
                 in (ShardServer_addRecentTxn
                       \<lparr>sum_TxnID = t, sum_Source = a, sum_Destination = '''', sum_Amount = x,
                        sum_Type = ''cross'', sum_State = StateCommitted,
                        sum_ShardID = s_shardID s3\<rparr> s3, None)))))"

definition ShardServer_AbortTransaction ::
    "string \<Rightarrow> OperationType \<Rightarrow> string \<Rightarrow> int64 \<Rightarrow> ShardServer \<Rightarrow> ShardServer \<times> shard_error option" where
  "ShardServer_AbortTransaction t opType a x s =
     (let st = ShardServer_getTxnState t s in
      if st = Some StateAborted then (s, None)
      else
        (let l = (if opType = OpDebit \<and> st = Some StatePrepared \<and> Ledger_AccountExists a (s_ledger s)
                  then fst (Ledger_RollbackDebit a x (s_ledger s)) else s_ledger s)
         in case WAL_MarkAborted t (s_walLog s) of
              (w, Some err) \<Rightarrow> (s\<lparr>s_ledger := l, s_walLog := w\<rparr>, Some (WalAbortFailed err))
            | (w, None) \<Rightarrow>
                (let s1 = ShardServer_setTxnState t StateAborted (s\<lparr>s_ledger := l, s_walLog := w\<rparr>)
                 in (s1\<lparr>s_abortedCount := s_abortedCount s1 + 1\<rparr>, None))))"

subsection \<open>Accounts\<close>

definition ShardServer_GetBalance :: "string \<Rightarrow> ShardServer \<Rightarrow> int64 \<times> bool" where
  "ShardServer_GetBalance a s = Ledger_GetBalance a (s_ledger s)"

definition ShardServer_CreateAccount ::
    "string \<Rightarrow> int64 \<Rightarrow> ShardServer \<Rightarrow> ShardServer \<times> ledger_error option" where
  "ShardServer_CreateAccount a opening s =
     (case Ledger_CreateAccount a opening (s_ledger s) of (l, r) \<Rightarrow> (s\<lparr>s_ledger := l\<rparr>, r))"

definition create_txn :: "string \<Rightarrow> string" where
  "create_txn a = ''create-'' @ a"

definition ShardServer_CreateAccountWithWAL ::
    "string \<Rightarrow> int64 \<Rightarrow> ShardServer \<Rightarrow> ShardServer \<times> shard_error option" where
  "ShardServer_CreateAccountWithWAL a opening s =
     (if Ledger_AccountExists a (s_ledger s) then (s, Some ErrAccountExists)
      else let t = create_txn a in
      case WAL_Append t OpCreateAccount a opening (s_walLog s) of
        (w1, Inl err) \<Rightarrow> (s\<lparr>s_walLog := w1\<rparr>, Some (WalCreateFailed err))
      | (w1, Inr _) \<Rightarrow>
        (case Ledger_CreateAccount a opening (s_ledger s) of
           (l, Some err) \<Rightarrow>
             (let s1 = mark_aborted t (s\<lparr>s_walLog := w1, s_ledger := l\<rparr>)
              in (s1, Some (if Ledger_AccountExists a (s_ledger s1) then ErrAccountExists
                            else CreateLedgerError err)))
         | (l, None) \<Rightarrow>
           (case WAL_MarkCommitted t w1 of
              (w2, Some err) \<Rightarrow>
                (ShardServer_setTxnState t StateCommitted (s\<lparr>s_ledger := l, s_walLog := w2\<rparr>),
                 Some (WalCommitCreateFailed err))
            | (w2, None) \<Rightarrow>
                (ShardServer_setTxnState t StateCommitted (s\<lparr>s_ledger := l, s_walLog := w2\<rparr>), None))))"

definition ShardServer_TotalBalance :: "string list \<Rightarrow> ShardServer \<Rightarrow> int64" where
  "ShardServer_TotalBalance ks s = Ledger_TotalBalance ks (s_ledger s)"

definition ShardServer_Snapshot :: "string list \<Rightarrow> ShardServer \<Rightarrow> (string \<rightharpoonup> int64)" where
  "ShardServer_Snapshot ks s = Ledger_Snapshot ks (s_ledger s)"

subsection \<open>Start-up\<close>

text \<open>The loop that logs the initial balances on the first start.\<close>

fun log_initial :: "string list \<Rightarrow> (string \<rightharpoonup> int64) \<Rightarrow> WAL \<Rightarrow> WAL \<times> wal_error option" where
  "log_initial [] m w = (w, None)"
| "log_initial (a # as) m w =
     (case m a of
        None \<Rightarrow> log_initial as m w
      | Some bal \<Rightarrow>
          (case WAL_Append ''__init__'' OpCreateAccount a bal w of
             (w', Inl err) \<Rightarrow> (w', Some err)
           | (w', Inr _) \<Rightarrow> log_initial as m w'))"

fun mark_all :: "TransactionState \<Rightarrow> string list \<Rightarrow> (string \<rightharpoonup> TransactionState) \<Rightarrow> (string \<rightharpoonup> TransactionState)" where
  "mark_all st [] m = m"
| "mark_all st (t # ts) m = mark_all st ts (m(t \<mapsto> st))"

definition rebuild_seen :: "RecoveryResult \<Rightarrow> (string \<rightharpoonup> TransactionState)" where
  "rebuild_seen res =
     mark_all StateAborted (rr_AbortedTxns res)
       (mark_all StateCommitted (rr_CommittedTxns res)
         (mark_all StatePrepared (rr_PendingTxns res) Map.empty))"

text \<open>
  The log is given by its file and how the system answers: \<open>os_ok\<close>, \<open>ls\<close> and \<open>faults\<close> as for
  \<open>WAL_Open\<close>. \<open>ks0\<close>, \<open>ks1\<close> and \<open>ks2\<close> are the orders in which the initial balances, the final
  states and the deltas are visited; \<open>len(initialBalances) > 0\<close> is \<open>ks0 \<noteq> []\<close>.
\<close>

definition init_log :: "string list \<Rightarrow> (string \<rightharpoonup> int64) \<Rightarrow> WAL \<Rightarrow> shard_error + WAL" where
  "init_log ks0 initialBalances w =
     (if ks0 \<noteq> [] \<and> WAL_NextLogID w = 0 then
        (case log_initial ks0 initialBalances w of
           (w1, Some err) \<Rightarrow> Inl (InitialLogFailed err)
         | (w1, None) \<Rightarrow>
             (case WAL_MarkCommitted ''__init__'' w1 of
                (w2, Some err) \<Rightarrow> Inl (InitialCommitFailed err)
              | (w2, None) \<Rightarrow> Inr w2))
      else Inr w)"

definition NewShardServer ::
    "string list \<Rightarrow> string list \<Rightarrow> string list \<Rightarrow> string \<Rightarrow> bool \<Rightarrow> wal_line list \<Rightarrow> io_outcome list
     \<Rightarrow> (string \<rightharpoonup> int64) \<Rightarrow> shard_error + ShardServer" where
  "NewShardServer ks0 ks1 ks2 shardID os_ok ls faults initialBalances =
     (case WAL_Open os_ok ls faults of
        Inl err \<Rightarrow> Inl (OpenWalFailed err)
      | Inr w0 \<Rightarrow>
        (case init_log ks0 initialBalances w0 of
           Inl err \<Rightarrow> Inl err
         | Inr w \<Rightarrow>
           (case Recover ks1 ks2 w NewLedger of
              Inl err \<Rightarrow> Inl (RecoveryFailed err)
            | Inr (res, l) \<Rightarrow>
                Inr \<lparr>s_shardID = shardID, s_walLog = w, s_ledger = l, s_store = None,
                     s_replicator = None, s_partMgr = None, s_mapper = None, s_role = '''',
                     s_seenTxns = rebuild_seen res, s_committedCount = 0, s_abortedCount = 0,
                     s_preparedCount = 0, s_followerCount = 0, s_recentTxns = []\<rparr>)))"

definition ShardServer_SetStorage :: "JSONStore \<Rightarrow> ShardServer \<Rightarrow> ShardServer" where
  "ShardServer_SetStorage store s = s\<lparr>s_store := Some store\<rparr>"

definition ShardServer_SetPartitioning :: "Manager \<Rightarrow> PartitionMapper \<Rightarrow> ShardServer \<Rightarrow> ShardServer" where
  "ShardServer_SetPartitioning mgr mapper s = s\<lparr>s_partMgr := Some mgr, s_mapper := Some mapper\<rparr>"

definition ShardServer_SetReplicator :: "PrimaryReplicator \<Rightarrow> ShardServer \<Rightarrow> ShardServer" where
  "ShardServer_SetReplicator p s = s\<lparr>s_replicator := Some p\<rparr>"

definition ShardServer_SetFollowerCount :: "int \<Rightarrow> ShardServer \<Rightarrow> ShardServer" where
  "ShardServer_SetFollowerCount n s = s\<lparr>s_followerCount := n\<rparr>"

definition ShardServer_SetRole :: "string \<Rightarrow> ShardServer \<Rightarrow> ShardServer" where
  "ShardServer_SetRole r s = s\<lparr>s_role := r\<rparr>"

definition ShardServer_Promote :: "ShardServer \<Rightarrow> ShardServer" where
  "ShardServer_Promote s = s\<lparr>s_role := RolePrimary\<rparr>"

definition ShardServer_Close :: "ShardServer \<Rightarrow> ShardServer \<times> wal_error option" where
  "ShardServer_Close s = (case WAL_Close (s_walLog s) of (w, r) \<Rightarrow> (s\<lparr>s_walLog := w\<rparr>, r))"

subsection \<open>Checkpoints\<close>

definition ShardServer_Checkpoint ::
    "string list \<Rightarrow> string list \<Rightarrow> ShardServer \<Rightarrow> ShardServer \<times> shard_error option" where
  "ShardServer_Checkpoint ks ks' s =
     (case s_store s of
        None \<Rightarrow> (s, Some NoStorageEngine)
      | Some store \<Rightarrow>
        (case JSONStore_BatchSetBalances ks' (Ledger_Snapshot ks (s_ledger s)) store of
           (store1, Some err) \<Rightarrow> (s\<lparr>s_store := Some store1\<rparr>, Some (CheckpointStoreFailed err))
         | (store1, None) \<Rightarrow>
           (let lastLogID = WAL_NextLogID (s_walLog s) in
            case WAL_WriteCheckpoint lastLogID (s_walLog s) of
              (w, Some err) \<Rightarrow> (s\<lparr>s_store := Some store1, s_walLog := w\<rparr>, Some (CheckpointWalFailed err))
            | (w, None) \<Rightarrow>
              (case JSONStore_SetCheckpointLogID lastLogID store1 of
                 (store2, Some err) \<Rightarrow>
                   (s\<lparr>s_store := Some store2, s_walLog := w\<rparr>, Some (CheckpointIDFailed err))
               | (store2, None) \<Rightarrow> (s\<lparr>s_store := Some store2, s_walLog := w\<rparr>, None)))))"

subsection \<open>Partition migration\<close>

text \<open>\<open>for acc, bal := range balances\<close> keeping the accounts of one partition.\<close>

fun partition_balances ::
    "PartitionMapper \<Rightarrow> int \<Rightarrow> string list \<Rightarrow> (string \<rightharpoonup> int64) \<Rightarrow> (string \<rightharpoonup> int64) \<Rightarrow> (string \<rightharpoonup> int64)" where
  "partition_balances mp pid [] m out = out"
| "partition_balances mp pid (a # as) m out =
     partition_balances mp pid as m
       (case m a of
          Some bal \<Rightarrow> if PartitionMapper_GetPartition a mp = pid then out(a \<mapsto> bal) else out
        | None \<Rightarrow> out)"

definition ShardServer_HaltAndSnapshotPartition ::
    "string list \<Rightarrow> string list \<Rightarrow> int \<Rightarrow> ShardServer
     \<Rightarrow> ShardServer \<times> (shard_error + (string \<rightharpoonup> int64))" where
  "ShardServer_HaltAndSnapshotPartition ks ks' pid s =
     (case (s_partMgr s, s_mapper s) of
        (Some pm, Some mp) \<Rightarrow>
          (case Manager_HaltPartition pid pm of
             (pm', Some err) \<Rightarrow> (s\<lparr>s_partMgr := Some pm'\<rparr>, Inl (PartitionError err))
           | (pm', None) \<Rightarrow>
               (s\<lparr>s_partMgr := Some pm'\<rparr>,
                Inr (partition_balances mp pid ks' (Ledger_Snapshot ks (s_ledger s)) Map.empty)))
      | _ \<Rightarrow> (s, Inl NoPartitionManager))"

fun set_balances :: "string list \<Rightarrow> (string \<rightharpoonup> int64) \<Rightarrow> Ledger \<Rightarrow> Ledger" where
  "set_balances [] m l = l"
| "set_balances (a # as) m l =
     set_balances as m (case m a of None \<Rightarrow> l | Some bal \<Rightarrow> Ledger_SetBalance a bal l)"

definition ShardServer_ReceivePartition ::
    "string list \<Rightarrow> int \<Rightarrow> (string \<rightharpoonup> int64) \<Rightarrow> ShardServer \<Rightarrow> ShardServer \<times> shard_error option" where
  "ShardServer_ReceivePartition ks pid balances s =
     (case s_partMgr s of
        None \<Rightarrow> (s, Some NoPartitionManager)
      | Some pm \<Rightarrow>
          (s\<lparr>s_ledger := set_balances ks balances (s_ledger s),
             s_partMgr := Some (Manager_AddPartition pid pm)\<rparr>, None))"

definition ShardServer_ResumePartition :: "int \<Rightarrow> ShardServer \<Rightarrow> ShardServer \<times> shard_error option" where
  "ShardServer_ResumePartition pid s =
     (case s_partMgr s of
        None \<Rightarrow> (s, Some NoPartitionManager)
      | Some pm \<Rightarrow>
          (case Manager_ResumePartition pid pm of
             (pm', r) \<Rightarrow> (s\<lparr>s_partMgr := Some pm'\<rparr>, map_option PartitionError r)))"

subsection \<open>Observation\<close>

text \<open>
  The gauges of \<open>GetMetrics\<close>, without the ones computed from the clock in floating point. \<open>ts\<close>
  and \<open>ks\<close> are the orders in which the transaction states and the balances are visited.
\<close>

definition ShardServer_GetMetrics :: "string list \<Rightarrow> string list \<Rightarrow> ShardServer \<Rightarrow> ShardMetrics" where
  "ShardServer_GetMetrics ts ks s =
     \<lparr>m_ShardID = s_shardID s, m_Role = s_role s,
      m_QueueDepth = int (length (filter (\<lambda>t. s_seenTxns s t = Some StatePending
                                            \<or> s_seenTxns s t = Some StatePrepared) ts)),
      m_ReplicationLag = 0,
      m_WALIndex = WAL_NextLogID (s_walLog s),
      m_LastCheckpointLogID = 0,
      m_FollowerCount = (if s_replicator s \<noteq> None \<and> s_followerCount s = 0 then 2 else s_followerCount s),
      m_AccountCount = int (Ledger_AccountCount (s_ledger s)),
      m_TotalBalance = Ledger_TotalBalance ks (s_ledger s),
      m_CommittedCount = s_committedCount s,
      m_AbortedCount = s_abortedCount s,
      m_PreparedCount = s_preparedCount s\<rparr>"

text \<open>The loop over the entries from the last to the first.\<close>

fun last_checkpoint :: "WALEntry list \<Rightarrow> uint64" where
  "last_checkpoint [] = 0"
| "last_checkpoint (e # es) =
     (if 0 < e_CheckpointLogID e then e_CheckpointLogID e else last_checkpoint es)"

definition ShardServer_GetWALEntries ::
    "int \<Rightarrow> ShardServer \<Rightarrow> wal_error + WALEntry list \<times> uint64 \<times> uint64" where
  "ShardServer_GetWALEntries limit s =
     (case WAL_ReadAll (s_walLog s) of
        Inl err \<Rightarrow> Inl err
      | Inr es \<Rightarrow>
          Inr (if 0 < limit \<and> limit < int (length es) then drop (length es - nat limit) es else es,
               of_nat (length es), last_checkpoint (rev es)))"

end
