(* ===== verification/ShardBehaviour.thy ===== *)
theory ShardBehaviour
  imports ShardServer
begin

text \<open>
  What the operations of \<^verbatim>\<open>shard/server/shard_server.go\<close> do to a shard, for every way the disk
  and the followers may answer: the effect of each on the ledger and on the transaction table,
  the contract of a two-phase-commit participant that follows from the effects, the invariant
  of a shard, and the bounded history.
\<close>

section \<open>Replication leaves the shard alone\<close>

lemmas server_state_defs = ShardServer_beginTxn_def ShardServer_getTxnState_def
  ShardServer_setTxnState_def ShardServer_deleteTxnState_def ShardServer_addRecentTxn_def
  mark_aborted_def

definition repl_after ::
    "WALEntry \<Rightarrow> PrimaryReplicator option \<Rightarrow> PrimaryReplicator option \<times> repl_error option" where
  "repl_after e p = (case p of None \<Rightarrow> (None, None)
     | Some q \<Rightarrow> (Some (fst (PrimaryReplicator_Replicate e q)), snd (PrimaryReplicator_Replicate e q)))"

lemma replicate_eq:
  "ShardServer_replicate e s =
     (s\<lparr>s_replicator := fst (repl_after e (s_replicator s))\<rparr>, snd (repl_after e (s_replicator s)))"
  by (auto simp: ShardServer_replicate_def repl_after_def split: option.splits prod.splits)

section \<open>The effect of each operation\<close>

text \<open>A single-shard execution moves the money exactly when it leaves the transaction committed;
  whatever else happens, the balances stay as they were.\<close>

lemma Execute_effect:
  assumes "ShardServer_ExecuteSingleShard txn s = (s', r)"
  shows "s_ledger s' = s_ledger s \<or>
    s_seenTxns s (t_TxnID txn) = None \<and> s_seenTxns s' (t_TxnID txn) = Some StateCommitted
    \<and> Ledger_ApplyTransfer (t_Source txn) (t_Destination txn) (t_Amount txn) (s_ledger s) = (s_ledger s', None)"
  using assms
  by (auto simp: ShardServer_ExecuteSingleShard_def Let_def server_state_defs replicate_eq
      split: prod.splits option.splits sum.splits bool.splits
      dest: ledger_error_frame)

lemma Execute_seen:
  assumes "s_seenTxns s (t_TxnID txn) = Some st"
  shows "ShardServer_ExecuteSingleShard txn s =
    (s, Inr \<lparr>r_TxnID = t_TxnID txn, r_State = st, r_Message = Text ''idempotent: already processed''\<rparr>)"
  using assms by (simp add: ShardServer_ExecuteSingleShard_def server_state_defs Let_def)

lemma Execute_reply:
  assumes "ShardServer_ExecuteSingleShard txn s = (s', Inr res)"
  shows "r_TxnID res = t_TxnID txn" "s_seenTxns s' (t_TxnID txn) = Some (r_State res)"
    and "s_seenTxns s (t_TxnID txn) = None \<Longrightarrow> r_State res = StateCommitted \<Longrightarrow>
      Ledger_ApplyTransfer (t_Source txn) (t_Destination txn) (t_Amount txn) (s_ledger s) = (s_ledger s', None)"
    and "r_State res \<noteq> StateCommitted \<Longrightarrow> s_ledger s' = s_ledger s"
  using assms
  by (auto simp: ShardServer_ExecuteSingleShard_def Let_def server_state_defs replicate_eq
      split: prod.splits option.splits sum.splits bool.splits
      dest: ledger_error_frame)

lemma Execute_other:
  assumes "ShardServer_ExecuteSingleShard txn s = (s', r)" "u \<noteq> t_TxnID txn"
  shows "s_seenTxns s' u = s_seenTxns s u"
  using assms
  by (auto simp: ShardServer_ExecuteSingleShard_def Let_def server_state_defs replicate_eq
      split: prod.splits option.splits sum.splits bool.splits)

text \<open>A reservation that could not be logged is undone to the last bit.\<close>

lemma debit_rollback:
  assumes "Ledger_ApplyDebit a x l = (l', None)"
  shows "Ledger_RollbackDebit a x l' = (l, None)"
  using assms by (auto simp: ledger_success fun_upd_idem)

definition reserve :: "OperationType \<Rightarrow> string \<Rightarrow> int64 \<Rightarrow> Ledger \<Rightarrow> Ledger" where
  "reserve op a x l = (if op = OpDebit then fst (Ledger_ApplyDebit a x l) else l)"

definition reservable :: "OperationType \<Rightarrow> string \<Rightarrow> int64 \<Rightarrow> Ledger \<Rightarrow> bool" where
  "reservable op a x l \<longleftrightarrow>
     (if op = OpDebit then snd (Ledger_ApplyDebit a x l) = None
      else op = OpCredit \<longrightarrow> Ledger_AccountExists a l)"

definition deliver :: "OperationType \<Rightarrow> string \<Rightarrow> int64 \<Rightarrow> Ledger \<Rightarrow> Ledger" where
  "deliver op a x l = (if op = OpCredit then fst (Ledger_ApplyCredit a x l) else l)"

definition deliverable :: "OperationType \<Rightarrow> string \<Rightarrow> int64 \<Rightarrow> Ledger \<Rightarrow> bool" where
  "deliverable op a x l \<longleftrightarrow> (op = OpCredit \<longrightarrow> snd (Ledger_ApplyCredit a x l) = None)"

definition release :: "OperationType \<Rightarrow> string \<Rightarrow> int64 \<Rightarrow> Ledger \<Rightarrow> Ledger" where
  "release op a x l =
     (if op = OpDebit \<and> Ledger_AccountExists a l then fst (Ledger_RollbackDebit a x l) else l)"

lemma release_reserve: "reservable op a x l \<Longrightarrow> release op a x (reserve op a x l) = l"
  using debit_rollback [of a x l]
  by (cases "Ledger_ApplyDebit a x l")
    (force simp: reservable_def release_def reserve_def Ledger_AccountExists_def ApplyDebit_success)

text \<open>Validating a debit predicts whether applying it succeeds, so the second check of a
  prepare never fires.\<close>

lemma Validate_predicts_Apply:
  "Ledger_ValidateDebit a x l = None \<longleftrightarrow> snd (Ledger_ApplyDebit a x l) = None"
  by (auto simp: Ledger_ValidateDebit_def Ledger_ApplyDebit_def split: option.splits)

lemma prepare_check_Inr:
  "prepare_check op a x l = Inr l' \<longleftrightarrow> reservable op a x l \<and> l' = reserve op a x l"
  using Validate_predicts_Apply [of a x l]
  by (cases "Ledger_ApplyDebit a x l")
    (auto simp: prepare_check_def reservable_def reserve_def split: option.splits)

lemma Prepare_fresh:
  assumes "s_seenTxns s t = None" "ShardServer_PrepareTransaction t op a x s = (s', r)"
  shows "r = None \<Longrightarrow> reservable op a x (s_ledger s) \<and> s_ledger s' = reserve op a x (s_ledger s)
      \<and> s_seenTxns s' t = Some StatePrepared"
    and "r \<noteq> None \<Longrightarrow> s_ledger s' = s_ledger s \<and> s_seenTxns s' t \<in> {None, Some StateAborted}"
  using assms
  by (cases "Ledger_ApplyDebit a x (s_ledger s)"; force simp: ShardServer_PrepareTransaction_def Let_def server_state_defs
      prepare_check_Inr reservable_def reserve_def debit_rollback
      split: prod.splits option.splits sum.splits)+

lemma Prepare_seen:
  assumes "s_seenTxns s t = Some st"
  shows "fst (ShardServer_PrepareTransaction t op a x s) = s"
    and "snd (ShardServer_PrepareTransaction t op a x s) = None \<longleftrightarrow> st = StatePrepared \<or> st = StateCommitted"
  using assms by (auto simp: ShardServer_PrepareTransaction_def server_state_defs)

lemma Prepare_other:
  assumes "ShardServer_PrepareTransaction t op a x s = (s', r)" "u \<noteq> t"
  shows "s_seenTxns s' u = s_seenTxns s u"
  using assms
  by (auto simp: ShardServer_PrepareTransaction_def Let_def server_state_defs
      split: prod.splits option.splits sum.splits if_splits)

lemma Commit_effect:
  assumes "ShardServer_CommitTransaction t op a x s = (s', r)"
    and "s_seenTxns s t \<noteq> Some StateCommitted" "s_seenTxns s t \<noteq> Some StateAborted"
  shows "s_ledger s' = s_ledger s \<and> s_seenTxns s' = s_seenTxns s \<and> r \<noteq> None
    \<or> deliverable op a x (s_ledger s) \<and> s_ledger s' = deliver op a x (s_ledger s)
      \<and> s_seenTxns s' = (s_seenTxns s)(t \<mapsto> StateCommitted)"
  using assms
  by (auto simp: ShardServer_CommitTransaction_def Let_def server_state_defs replicate_eq
      deliver_def deliverable_def
      split: prod.splits option.splits sum.splits if_splits dest: ledger_error_frame)

lemma Commit_committed:
  "s_seenTxns s t = Some StateCommitted \<Longrightarrow> ShardServer_CommitTransaction t op a x s = (s, None)"
  by (simp add: ShardServer_CommitTransaction_def server_state_defs)

lemma Commit_aborted:
  "s_seenTxns s t = Some StateAborted \<Longrightarrow>
     ShardServer_CommitTransaction t op a x s = (s, Some (CannotCommitAborted t))"
  by (simp add: ShardServer_CommitTransaction_def server_state_defs)

lemma Commit_other:
  assumes "ShardServer_CommitTransaction t op a x s = (s', r)" "u \<noteq> t"
  shows "s_seenTxns s' u = s_seenTxns s u"
  using assms
  by (auto simp: ShardServer_CommitTransaction_def Let_def server_state_defs replicate_eq
      split: prod.splits option.splits sum.splits if_splits)

lemma Abort_effect:
  assumes "ShardServer_AbortTransaction t op a x s = (s', r)" "s_seenTxns s t \<noteq> Some StateAborted"
  shows "s_ledger s' = (if s_seenTxns s t = Some StatePrepared then release op a x (s_ledger s) else s_ledger s)"
    and "s_seenTxns s' = (if r = None then (s_seenTxns s)(t \<mapsto> StateAborted) else s_seenTxns s)"
  using assms
  by (auto simp: ShardServer_AbortTransaction_def Let_def server_state_defs release_def
      split: prod.splits option.splits)

lemma Abort_aborted:
  "s_seenTxns s t = Some StateAborted \<Longrightarrow> ShardServer_AbortTransaction t op a x s = (s, None)"
  by (simp add: ShardServer_AbortTransaction_def server_state_defs)

lemma Abort_other:
  assumes "ShardServer_AbortTransaction t op a x s = (s', r)" "u \<noteq> t"
  shows "s_seenTxns s' u = s_seenTxns s u"
  using assms
  by (auto simp: ShardServer_AbortTransaction_def Let_def server_state_defs
      split: prod.splits option.splits if_splits)


section \<open>The contract of a two-phase-commit participant\<close>

text \<open>
  What the coordinator relies on for one transaction at one shard. \<open>status\<close> is the shard's record
  of the transaction and \<open>view\<close> its balances. A first PREPARE either reserves and is answered yes, or
  changes no balance; a COMMIT of a prepared transaction delivers at most once; an ABORT of a
  prepared one releases what was reserved; repeated messages change nothing.
\<close>

locale participant =
  fixes prepare commit abort :: "'s \<Rightarrow> 's \<times> 'e option"
    and status :: "'s \<Rightarrow> TransactionState option"
    and view :: "'s \<Rightarrow> 'v"
    and can_reserve can_deliver :: "'v \<Rightarrow> bool"
    and reserving delivering releasing :: "'v \<Rightarrow> 'v"
  assumes prepare_yes: "status s = None \<Longrightarrow> prepare s = (s', None) \<Longrightarrow>
      status s' = Some StatePrepared \<and> can_reserve (view s) \<and> view s' = reserving (view s)"
    and prepare_no: "status s = None \<Longrightarrow> prepare s = (s', Some e) \<Longrightarrow>
      status s' \<in> {None, Some StateAborted} \<and> view s' = view s"
    and prepare_again: "status s \<noteq> None \<Longrightarrow> fst (prepare s) = s"
    and commit_prepared: "status s = Some StatePrepared \<Longrightarrow> commit s = (s', r) \<Longrightarrow>
      status s' = Some StatePrepared \<and> view s' = view s \<and> r \<noteq> None
      \<or> status s' = Some StateCommitted \<and> can_deliver (view s) \<and> view s' = delivering (view s)"
    and commit_again: "status s = Some StateCommitted \<Longrightarrow> commit s = (s, None)"
    and abort_prepared: "status s = Some StatePrepared \<Longrightarrow> abort s = (s', r) \<Longrightarrow>
      view s' = releasing (view s) \<and> status s' = Some (if r = None then StateAborted else StatePrepared)"
    and abort_again: "status s = Some StateAborted \<Longrightarrow> abort s = (s, None)"
    and releasing_reserving: "can_reserve v \<Longrightarrow> releasing (reserving v) = v"
begin

text \<open>Commits delivered to a prepared participant, however many: at most one of them delivers.\<close>

lemma commits_deliver_once:
  fixes n :: nat
  assumes "status s = Some StatePrepared"
  defines "s' \<equiv> ((\<lambda>s. fst (commit s)) ^^ n) s"
  shows "status s' = Some StatePrepared \<and> view s' = view s
    \<or> status s' = Some StateCommitted \<and> can_deliver (view s) \<and> view s' = delivering (view s)"
  unfolding s'_def
proof (induction n)
  case (Suc n)
  obtain u r where u: "commit (((\<lambda>s. fst (commit s)) ^^ n) s) = (u, r)" by force
  from Suc.IH show ?case
  proof
    assume "status (((\<lambda>s. fst (commit s)) ^^ n) s) = Some StatePrepared
      \<and> view (((\<lambda>s. fst (commit s)) ^^ n) s) = view s"
    with commit_prepared [OF _ u] show ?thesis by (auto simp: u)
  qed (auto simp: commit_again)
qed (simp add: assms(1))

text \<open>PREPARE answered yes, then an acknowledged ABORT: the balances are back.\<close>

lemma prepare_abort_restores:
  assumes "status s = None" "prepare s = (s1, None)" "abort s1 = (s2, r)"
  shows "view s2 = view s"
  using prepare_yes [OF assms(1,2)] abort_prepared [OF _ assms(3)] releasing_reserving by simp

text \<open>PREPARE, answered or not, repeated any number of times, reserves at most once.\<close>

lemma prepares_reserve_once:
  assumes "status s = None" "s' = fst (prepare s)" "status s' \<noteq> None"
  shows "((\<lambda>s. fst (prepare s)) ^^ Suc n) s = s'"
    and "view s' \<in> {view s, reserving (view s)}"
proof -
  show "((\<lambda>s. fst (prepare s)) ^^ Suc n) s = s'"
    by (induction n) (use assms prepare_again in auto)
  show "view s' \<in> {view s, reserving (view s)}"
    using assms prepare_yes [OF assms(1)] prepare_no [OF assms(1)]
    by (cases "prepare s"; cases "snd (prepare s)") auto
qed

end

interpretation tpc: participant
  "ShardServer_PrepareTransaction t op a x" "ShardServer_CommitTransaction t op a x"
  "ShardServer_AbortTransaction t op a x" "\<lambda>s. s_seenTxns s t" s_ledger
  "reservable op a x" "deliverable op a x" "reserve op a x" "deliver op a x" "release op a x"
  for t op a x
proof unfold_locales
  fix s s' r
  assume "s_seenTxns s t = Some StatePrepared" "ShardServer_CommitTransaction t op a x s = (s', r)"
  then show "s_seenTxns s' t = Some StatePrepared \<and> s_ledger s' = s_ledger s \<and> r \<noteq> None \<or>
      s_seenTxns s' t = Some StateCommitted \<and> deliverable op a x (s_ledger s)
      \<and> s_ledger s' = deliver op a x (s_ledger s)"
    using Commit_effect [of t op a x s s' r] by auto
next
  fix s s' r
  assume "s_seenTxns s t = Some StatePrepared" "ShardServer_AbortTransaction t op a x s = (s', r)"
  then show "s_ledger s' = release op a x (s_ledger s)
      \<and> s_seenTxns s' t = Some (if r = None then StateAborted else StatePrepared)"
    using Abort_effect [of t op a x s s' r] by auto
qed (auto dest: Prepare_fresh Prepare_seen(1) simp: Commit_committed Abort_aborted release_reserve)


section \<open>Money\<close>

definition shard_funds :: "ShardServer \<Rightarrow> int" where
  "shard_funds s = ledger_funds (s_ledger s)"

definition shard_ok :: "ShardServer \<Rightarrow> bool" where
  "shard_ok s \<longleftrightarrow> ledger_ok (s_ledger s)"

definition moved :: "OperationType \<Rightarrow> OperationType \<Rightarrow> int64 \<Rightarrow> int" where
  "moved op op' x = (if op = op' then sint x else 0)"

lemma reservable_debit_pos: "reservable OpDebit a x l \<Longrightarrow> 0 < sint x"
  by (cases "Ledger_ApplyDebit a x l") (auto simp: reservable_def ApplyDebit_success signed_order)

lemma reserve_funds:
  assumes "ledger_ok l" "reservable op a x l"
  shows "ledger_ok (reserve op a x l) \<and> ledger_funds (reserve op a x l) = ledger_funds l - moved op OpDebit x"
proof (cases "op = OpDebit")
  case True
  then obtain l' where "Ledger_ApplyDebit a x l = (l', None)" "0 < sint x"
    using assms(2) reservable_debit_pos [of a x l] by (cases "Ledger_ApplyDebit a x l") (auto simp: reservable_def)
  with debit.step_ok [OF assms(1)] ledger_okD(3) [OF assms(1)] True show ?thesis
    by (simp add: reserve_def moved_def)
qed (simp add: reserve_def moved_def assms(1))

lemma deliver_funds:
  assumes "ledger_ok l" "deliverable op a x l" "ledger_funds l + moved op OpCredit x < 2 ^ 63"
  shows "ledger_ok (deliver op a x l) \<and> ledger_funds (deliver op a x l) = ledger_funds l + moved op OpCredit x"
proof (cases "op = OpCredit")
  case True
  then obtain l' where "Ledger_ApplyCredit a x l = (l', None)"
    using assms(2) by (cases "Ledger_ApplyCredit a x l") (auto simp: deliverable_def)
  with credit.step_ok [OF assms(1)] assms(3) True show ?thesis by (simp add: deliver_def moved_def)
qed (simp add: deliver_def moved_def assms(1))

lemma Execute_funds:
  assumes "shard_ok s" "ShardServer_ExecuteSingleShard txn s = (s', r)"
  shows "shard_ok s' \<and> shard_funds s' = shard_funds s
    \<and> dom (l_balances (s_ledger s')) = dom (l_balances (s_ledger s))"
  using Execute_effect [OF assms(2)] assms(1)
    transfer.step_ok [of "s_ledger s" "t_Source txn" "t_Destination txn" "t_Amount txn" "s_ledger s'"]
    transfer.step_dom [of "t_Source txn" "t_Destination txn" "t_Amount txn" "s_ledger s" "s_ledger s'"]
  by (auto simp: shard_ok_def shard_funds_def dest: ledger_okD(3))

section \<open>An example\<close>

text \<open>A shard with two accounts, on a disk that answers the coming writes as \<open>faults\<close> says.\<close>

definition example_shard :: "io_outcome list \<Rightarrow> ShardServer" where
  "example_shard faults =
     \<lparr>s_shardID = ''shard1'',
      s_walLog = \<lparr>w_lines = [], w_faults = faults, w_readable = True, w_open = True,
                  w_writerErr = False, w_nextLogID = 0\<rparr>,
      s_ledger = \<lparr>l_balances = [''alice'' \<mapsto> 100, ''bob'' \<mapsto> 50]\<rparr>,
      s_store = None, s_replicator = None, s_partMgr = None, s_mapper = None,
      s_role = RolePrimary, s_seenTxns = Map.empty, s_committedCount = 0, s_abortedCount = 0,
      s_preparedCount = 0, s_followerCount = 0, s_recentTxns = []\<rparr>"

definition example_txn :: "int64 \<Rightarrow> Transaction" where
  "example_txn x = \<lparr>t_TxnID = ''t1'', t_Source = ''alice'', t_Destination = ''bob'', t_Amount = x,
     t_State = StatePending\<rparr>"

lemma example_funds: "shard_funds (example_shard faults) = 150"
  by (simp add: shard_funds_def ledger_funds_def example_shard_def funds_insert)

lemma example_ok: "shard_ok (example_shard faults)"
  using example_funds [of faults]
  by (auto simp: shard_ok_def shard_funds_def ledger_ok_def example_shard_def split: if_splits)

lemmas shard_eval = example_shard_def example_txn_def ShardServer_ExecuteSingleShard_def
  ShardServer_PrepareTransaction_def ShardServer_CommitTransaction_def
  ShardServer_AbortTransaction_def prepare_check_def server_state_defs replicate_eq repl_after_def
  Ledger_ValidateDebit_def Ledger_ApplyDebit_def Ledger_ApplyCredit_def Ledger_ApplyTransfer_def
  Ledger_RollbackDebit_def Ledger_AccountExists_def map_plus_def signed_order
  WAL_Append_def WAL_MarkCommitted_def WAL_MarkAborted_def WAL_writeEntry_def next_io_def Let_def

section \<open>Properties of a shard\<close>

text \<open>
  Single-shard execution never creates or destroys money. Whatever the disk and the
  followers answer, the exact sum of the balances is unchanged, no balance becomes negative, no
  account appears or disappears, and the balances change only when the transaction ends up
  committed.
\<close>

theorem execute_conserves_funds:
  assumes "shard_ok s" "ShardServer_ExecuteSingleShard txn s = (s', r)"
  shows "shard_ok s' \<and> shard_funds s' = shard_funds s
    \<and> dom (l_balances (s_ledger s')) = dom (l_balances (s_ledger s))
    \<and> (s_ledger s' \<noteq> s_ledger s \<longrightarrow> s_seenTxns s' (t_TxnID txn) = Some StateCommitted)"
  using Execute_funds [OF assms] Execute_effect [OF assms(2)] by auto

theorem execute_conserves_funds_witness:
  "shard_ok (example_shard []) \<and> shard_funds (fst (ShardServer_ExecuteSingleShard (example_txn 30) (example_shard []))) = 150
   \<and> s_seenTxns (fst (ShardServer_ExecuteSingleShard (example_txn 30) (example_shard []))) ''t1'' = Some StateCommitted"
  using execute_conserves_funds [OF example_ok prod.collapse [symmetric], of "example_txn 30" "[]"]
  by (simp add: example_ok example_funds) (simp add: shard_eval)

text \<open>
  A retried single-shard request is harmless. Once an execution has answered with a
  result, executing the same transaction again changes nothing at all and reports the same
  state.
\<close>

theorem execute_idempotent:
  assumes "ShardServer_ExecuteSingleShard txn s = (s', Inr res)"
  shows "ShardServer_ExecuteSingleShard txn s' =
    (s', Inr \<lparr>r_TxnID = r_TxnID res, r_State = r_State res, r_Message = Text ''idempotent: already processed''\<rparr>)"
  using Execute_reply(1,2) [OF assms] by (simp add: Execute_seen)

theorem execute_idempotent_witness:
  "s_ledger (fst (ShardServer_ExecuteSingleShard (example_txn 30)
     (fst (ShardServer_ExecuteSingleShard (example_txn 30) (example_shard [])))))
   = s_ledger (fst (ShardServer_ExecuteSingleShard (example_txn 30) (example_shard [])))"
proof -
  have "\<exists>s res. ShardServer_ExecuteSingleShard (example_txn 30) (example_shard []) = (s, Inr res)"
    by (simp add: shard_eval)
  then show ?thesis using execute_idempotent [of "example_txn 30" "example_shard []"] by auto
qed

text \<open>
  The reply of a single-shard execution tells the truth about the ledger: a first
  execution answered COMMITTED has applied exactly the transfer, one answered with any other
  state has left every balance alone.
\<close>

theorem execute_reply_truthful:
  assumes "ShardServer_ExecuteSingleShard txn s = (s', Inr res)" "s_seenTxns s (t_TxnID txn) = None"
  shows "if r_State res = StateCommitted
    then Ledger_ApplyTransfer (t_Source txn) (t_Destination txn) (t_Amount txn) (s_ledger s) = (s_ledger s', None)
    else s_ledger s' = s_ledger s"
  using Execute_reply(3,4) [OF assms(1)] assms(2) by simp

theorem execute_reply_truthful_witness:
  "l_balances (s_ledger (fst (ShardServer_ExecuteSingleShard (example_txn 30) (example_shard [])))) ''bob'' = Some 80"
proof -
  have "\<exists>s res. ShardServer_ExecuteSingleShard (example_txn 30) (example_shard []) = (s, Inr res)
      \<and> r_State res = StateCommitted"
    by (simp add: shard_eval)
  then obtain s res where s: "ShardServer_ExecuteSingleShard (example_txn 30) (example_shard []) = (s, Inr res)"
      "r_State res = StateCommitted"
    by blast
  have "s_seenTxns (example_shard []) (t_TxnID (example_txn 30)) = None"
    by (simp add: shard_eval)
  from execute_reply_truthful [OF s(1) this] s(2)
  have "Ledger_ApplyTransfer ''alice'' ''bob'' 30 (s_ledger (example_shard [])) = (s_ledger s, None)"
    by (simp add: example_txn_def)
  then show ?thesis unfolding s(1)
    by (auto simp: ApplyTransfer_success example_shard_def)
qed

text \<open>
  A PREPARE that is refused leaves every balance as it was, down to the case where
  the funds were already reserved and the log write failed; one that is accepted has reserved
  the funds.
\<close>

theorem prepare_all_or_nothing:
  assumes "s_seenTxns s t = None" "ShardServer_PrepareTransaction t op a x s = (s', r)"
  shows "if r = None
    then s_seenTxns s' t = Some StatePrepared
      \<and> (op = OpDebit \<longrightarrow> Ledger_ApplyDebit a x (s_ledger s) = (s_ledger s', None))
      \<and> (op \<noteq> OpDebit \<longrightarrow> s_ledger s' = s_ledger s)
    else s_ledger s' = s_ledger s \<and> s_seenTxns s' t \<in> {None, Some StateAborted}"
  using Prepare_fresh [OF assms]
  by (cases "Ledger_ApplyDebit a x (s_ledger s)") (auto simp: reservable_def reserve_def)

theorem prepare_all_or_nothing_witness:
  "l_balances (s_ledger (fst (ShardServer_PrepareTransaction ''t1'' OpDebit ''alice'' 30 (example_shard [])))) ''alice'' = Some 70
   \<and> s_ledger (fst (ShardServer_PrepareTransaction ''t1'' OpDebit ''alice'' 30 (example_shard [IoWriteErr True])))
     = s_ledger (example_shard [IoWriteErr True])"
proof -
  have fresh: "s_seenTxns (example_shard fs) ''t1'' = None" for fs by (simp add: example_shard_def)
  have r: "snd (ShardServer_PrepareTransaction ''t1'' OpDebit ''alice'' 30 (example_shard [])) = None"
      "snd (ShardServer_PrepareTransaction ''t1'' OpDebit ''alice'' 30 (example_shard [IoWriteErr True])) \<noteq> None"
    by (simp_all add: shard_eval)
  show ?thesis
    using prepare_all_or_nothing [OF fresh prod.collapse [symmetric], of OpDebit "''alice''" 30 "[]"]
      prepare_all_or_nothing [OF fresh prod.collapse [symmetric], of OpDebit "''alice''" 30 "[IoWriteErr True]"] r
    by (auto simp: ApplyDebit_success) (simp_all add: example_shard_def)
qed

text \<open>
  C20: at one participant a transaction takes effect at most once. After an accepted
  PREPARE, any number of COMMIT deliveries, in any disk and follower conditions, leave the ledger
  either with the reservation only or with the reservation and one delivery.
\<close>

theorem commit_delivers_once:
  assumes "s_seenTxns s t = None" "ShardServer_PrepareTransaction t op a x s = (s1, None)"
    and "s2 = ((\<lambda>s. fst (ShardServer_CommitTransaction t op a x s)) ^^ n) s1"
  shows "s_seenTxns s2 t = Some StatePrepared \<and> s_ledger s2 = reserve op a x (s_ledger s)
    \<or> s_seenTxns s2 t = Some StateCommitted
      \<and> s_ledger s2 = deliver op a x (reserve op a x (s_ledger s))"
proof -
  have "s_seenTxns s1 t = Some StatePrepared" "s_ledger s1 = reserve op a x (s_ledger s)"
    using Prepare_fresh(1) [OF assms(1,2)] by auto
  then show ?thesis
    using tpc.commits_deliver_once [where s = s1 and t = t and op = op and a = a and x = x and n = n]
      assms(3) by auto
qed

theorem commit_delivers_once_witness:
  "l_balances (s_ledger (((\<lambda>s. fst (ShardServer_CommitTransaction ''t1'' OpCredit ''bob'' 30 s)) ^^ 3)
     (fst (ShardServer_PrepareTransaction ''t1'' OpCredit ''bob'' 30 (example_shard []))))) ''bob'' \<in> {Some 50, Some 80}"
proof -
  have fresh: "s_seenTxns (example_shard []) ''t1'' = None" by (simp add: example_shard_def)
  have "snd (ShardServer_PrepareTransaction ''t1'' OpCredit ''bob'' 30 (example_shard [])) = None"
    by (simp add: shard_eval)
  then obtain s1 where s1: "ShardServer_PrepareTransaction ''t1'' OpCredit ''bob'' 30 (example_shard []) = (s1, None)"
    by (metis prod.collapse)
  show ?thesis
    using commit_delivers_once [OF fresh s1 refl, of 3] unfolding s1 fst_conv
    by (elim disjE) (simp_all add: reserve_def deliver_def Ledger_ApplyCredit_def map_plus_def
        example_shard_def signed_order)
qed

text \<open>
  PREPARE followed by ABORT is the identity on the balances, even when the log write of
  the abort fails.
\<close>

theorem prepare_abort_restores_balances:
  assumes "s_seenTxns s t = None" "ShardServer_PrepareTransaction t op a x s = (s1, None)"
    and "ShardServer_AbortTransaction t op a x s1 = (s2, r)"
  shows "s_ledger s2 = s_ledger s"
  by (rule tpc.prepare_abort_restores [OF assms])

theorem prepare_abort_restores_balances_witness:
  "s_ledger (fst (ShardServer_AbortTransaction ''t1'' OpDebit ''alice'' 30
      (fst (ShardServer_PrepareTransaction ''t1'' OpDebit ''alice'' 30 (example_shard [])))))
   = s_ledger (example_shard [])"
proof -
  have fresh: "s_seenTxns (example_shard []) ''t1'' = None" by (simp add: example_shard_def)
  have "snd (ShardServer_PrepareTransaction ''t1'' OpDebit ''alice'' 30 (example_shard [])) = None"
    by (simp add: shard_eval)
  then obtain s1 where s1: "ShardServer_PrepareTransaction ''t1'' OpDebit ''alice'' 30 (example_shard []) = (s1, None)"
    by (metis prod.collapse)
  show ?thesis
    using prepare_abort_restores_balances [OF fresh s1 prod.collapse [symmetric]] by (simp add: s1)
qed

text \<open>
  Transactions do not disturb one another's records: no operation on one transaction
  changes what the shard remembers of another.
\<close>

theorem transactions_isolated:
  assumes "u \<noteq> t_TxnID txn" "u \<noteq> t"
  shows "s_seenTxns (fst (ShardServer_ExecuteSingleShard txn s)) u = s_seenTxns s u
    \<and> s_seenTxns (fst (ShardServer_PrepareTransaction t op a x s)) u = s_seenTxns s u
    \<and> s_seenTxns (fst (ShardServer_CommitTransaction t op a x s)) u = s_seenTxns s u
    \<and> s_seenTxns (fst (ShardServer_AbortTransaction t op a x s)) u = s_seenTxns s u"
  using assms Execute_other Prepare_other Commit_other Abort_other
  by (intro conjI) (metis prod.collapse)+

theorem transactions_isolated_witness:
  "s_seenTxns (fst (ShardServer_ExecuteSingleShard (example_txn 30) (example_shard []))) ''t2'' = None"
  using transactions_isolated [of "''t2''" "example_txn 30" "''t1''" "example_shard []"]
  by (simp add: example_shard_def example_txn_def)

text \<open>
  An ABORT whose log write fails is answered with an error after the reserved amount has
  been given back, and the transaction stays PREPARED; the retry gives the amount back a
  second time.
\<close>

theorem abort_retry_credits_twice:
  assumes "s_seenTxns s t = Some StatePrepared" "ShardServer_AbortTransaction t OpDebit a x s = (s1, Some err)"
    and "l_balances (s_ledger s) a = Some b" "0 <s x"
  shows "l_balances (s_ledger (fst (ShardServer_AbortTransaction t OpDebit a x s1))) a = Some (b + x + x)"
proof -
  have 1: "s_ledger s1 = release OpDebit a x (s_ledger s)" "s_seenTxns s1 t = Some StatePrepared"
    using Abort_effect [OF assms(2)] assms(1) by auto
  obtain s2 r where 2: "ShardServer_AbortTransaction t OpDebit a x s1 = (s2, r)" by force
  then have "s_ledger s2 = release OpDebit a x (s_ledger s1)"
    using Abort_effect(1) [OF 2] 1(2) by simp
  with 1 2 assms(3,4) show ?thesis
    by (simp add: release_def Ledger_AccountExists_def Ledger_RollbackDebit_def map_plus_hit signed_order)
qed

theorem abort_retry_credits_twice_witness:
  "l_balances (s_ledger (fst (ShardServer_AbortTransaction ''t1'' OpDebit ''alice'' 30
     (fst (ShardServer_AbortTransaction ''t1'' OpDebit ''alice'' 30
       (fst (ShardServer_PrepareTransaction ''t1'' OpDebit ''alice'' 30
         (example_shard [IoOk, IoWriteErr False])))))))) ''alice'' = Some 130"
proof -
  let ?s = "fst (ShardServer_PrepareTransaction ''t1'' OpDebit ''alice'' 30 (example_shard [IoOk, IoWriteErr False]))"
  have s: "s_seenTxns ?s ''t1'' = Some StatePrepared" "l_balances (s_ledger ?s) ''alice'' = Some 70"
    by (simp_all add: shard_eval)
  have "\<exists>s1 e. ShardServer_AbortTransaction ''t1'' OpDebit ''alice'' 30 ?s = (s1, Some e)"
    by (simp add: shard_eval)
  then obtain s1 e where s1: "ShardServer_AbortTransaction ''t1'' OpDebit ''alice'' 30 ?s = (s1, Some e)"
    by blast
  show ?thesis
    using abort_retry_credits_twice [OF s(1) s1 s(2)] by (simp add: s1 signed_order)
qed

section \<open>The recent history\<close>

interpretation ring500: recent_ring ShardServer_addRecentTxn s_recentTxns 500
  by unfold_locales (auto simp: ShardServer_addRecentTxn_def)

section \<open>Accounts and checkpoints\<close>

text \<open>
  Opening an account through the log. An accepted request adds exactly one account with
  the opening balance, which is not negative; a request that is answered with an error leaves
  the ledger alone, except when only the final commit marker could not be written, where the
  account exists and is in use.
\<close>

theorem create_account_effect:
  assumes "ShardServer_CreateAccountWithWAL a x s = (s', r)"
  shows "if r = None \<or> (\<exists>e. r = Some (WalCommitCreateFailed e))
    then l_balances (s_ledger s) a = None \<and> 0 \<le> sint x
      \<and> l_balances (s_ledger s') = (l_balances (s_ledger s))(a \<mapsto> x)
    else s_ledger s' = s_ledger s"
  using assms
  by (auto simp: ShardServer_CreateAccountWithWAL_def Ledger_CreateAccount_def Ledger_AccountExists_def
      server_state_defs Let_def signed_order split: prod.splits option.splits sum.splits if_splits)

theorem create_account_effect_witness:
  "l_balances (s_ledger (fst (ShardServer_CreateAccountWithWAL ''carol'' 7 (example_shard [])))) ''carol'' = Some 7"
proof -
  have "snd (ShardServer_CreateAccountWithWAL ''carol'' 7 (example_shard [])) = None"
    by (simp add: shard_eval ShardServer_CreateAccountWithWAL_def Ledger_CreateAccount_def)
  with create_account_effect [OF prod.collapse [symmetric], of "''carol''" 7 "example_shard []"]
  show ?thesis by simp
qed

text \<open>
  A checkpoint that reports success is complete: a restart of the store finds exactly the
  balances of the ledger and the log identifier at which they were taken, the log ends with a
  checkpoint record naming that identifier, and the ledger is untouched.
\<close>

theorem checkpoint_persists_snapshot:
  assumes "ShardServer_Checkpoint ks ks' s = (s', None)"
    and "visits ks (l_balances (s_ledger s))" "visits ks' (l_balances (s_ledger s))"
  shows "(\<exists>st. s_store s' = Some st
      \<and> store_disk st = Some (l_balances (s_ledger s), WAL_NextLogID (s_walLog s)))
    \<and> s_ledger s' = s_ledger s
    \<and> wal_entries (s_walLog s') \<noteq> []
    \<and> e_CheckpointLogID (last (wal_entries (s_walLog s'))) = WAL_NextLogID (s_walLog s)"
proof -
  let ?n = "WAL_NextLogID (s_walLog s)"
  have snap: "Ledger_Snapshot ks (s_ledger s) = l_balances (s_ledger s)"
    using assms(2) by (simp add: Ledger_Snapshot_def map_order)
  from assms(1) obtain st st1 st2 w where p: "s_store s = Some st"
      "JSONStore_BatchSetBalances ks' (l_balances (s_ledger s)) st = (st1, None)"
      "WAL_WriteCheckpoint ?n (s_walLog s) = (w, None)" "JSONStore_SetCheckpointLogID ?n st1 = (st2, None)"
      "s' = s\<lparr>s_store := Some st2, s_walLog := w\<rparr>"
    by (auto simp: ShardServer_Checkpoint_def snap Let_def split: option.splits prod.splits)
  then show ?thesis
    using jstore.checkpoint_durable [OF assms(3) p(2,4)] chk.run_acknowledged [of ?n "s_walLog s"] by simp
qed

theorem checkpoint_persists_snapshot_witness:
  "s_ledger (fst (ShardServer_Checkpoint [''alice'', ''bob''] [''bob'', ''alice'']
     (ShardServer_SetStorage \<lparr>js_data = \<lparr>sd_Balances = Map.empty, sd_CheckpointLogID = 0\<rparr>,
        js_file = NoFile, js_faults = []\<rparr> (example_shard [])))) = s_ledger (example_shard [])"
proof -
  let ?s = "ShardServer_SetStorage \<lparr>js_data = \<lparr>sd_Balances = Map.empty, sd_CheckpointLogID = 0\<rparr>,
      js_file = NoFile, js_faults = []\<rparr> (example_shard [])"
  have "snd (ShardServer_Checkpoint [''alice'', ''bob''] [''bob'', ''alice''] ?s) = None"
    by (simp add: shard_eval ShardServer_Checkpoint_def ShardServer_SetStorage_def JSONStore_BatchSetBalances_def
        JSONStore_SetCheckpointLogID_def JSONStore_persist_def WAL_WriteCheckpoint_def WAL_NextLogID_def)
  then obtain s' where s': "ShardServer_Checkpoint [''alice'', ''bob''] [''bob'', ''alice''] ?s = (s', None)"
    by (metis prod.collapse)
  have "s_ledger s' = s_ledger ?s"
    using checkpoint_persists_snapshot [OF s']
    by (simp add: visits_def ShardServer_SetStorage_def example_shard_def insert_commute)
  then show ?thesis unfolding s' by (simp add: ShardServer_SetStorage_def)
qed

end
