(* ===== verification/CrashSafety.thy ===== *)
theory CrashSafety
  imports ShardBehaviour
begin

text \<open>
  How a shard (\<^verbatim>\<open>shard/server/shard_server.go\<close>) and its recovery (\<^verbatim>\<open>shard/recovery/recovery.go\<close>) fit
  together: at every moment of a run the log explains the balances. The steps of a shard are an
  inductive relation over the server and a history variable, the list of the operations that
  are prepared and not decided; the invariant is that the balances the log recovers to are the
  live ones plus what is reserved, so a crash loses nothing that was acknowledged and, when
  nothing is prepared, changes nothing at all. The last section shows what happens when a crash
  finds a prepared debit, and when a failed execution is retried.
\<close>

section \<open>Writes to a working log\<close>

lemma healthy_writes:
  assumes "wal_healthy w"
  shows "WAL_Append t op a x w = (wal_step (WAppend t op a x) w, Inr (w_nextLogID w))"
    and "WAL_MarkCommitted t w = (wal_step (WCommitted t) w, None)"
    and "WAL_MarkAborted t w = (wal_step (WAborted t) w, None)"
    and "WAL_WriteCheckpoint n w = (wal_step (WCheckpoint n) w, None)"
  using assms
  by (auto simp: WAL_Append_def WAL_MarkCommitted_def WAL_MarkAborted_def WAL_WriteCheckpoint_def
      WAL_writeEntry_def wal_healthy_def next_io_def Let_def)

lemma mk_entry_fields [simp]:
  "e_TxnID (mk_entry t op a x n) = t" "e_OpType (mk_entry t op a x n) = op"
  "e_AccountID (mk_entry t op a x n) = a" "e_Amount (mk_entry t op a x n) = x"
  by (simp_all add: mk_entry_def)

declare wal_step.simps [simp del]

section \<open>What a group of records does to the recovered balances\<close>

text \<open>A transaction the log does not count yet: no marker and no operation of it.\<close>

definition moves_money :: "WALEntry \<Rightarrow> bool" where
  "moves_money e \<longleftrightarrow> e_OpType e \<in> {OpDebit, OpCredit, OpCreateAccount}"

definition unlogged :: "string \<Rightarrow> WALEntry list \<Rightarrow> bool" where
  "unlogged t es \<longleftrightarrow> \<not> committed es t \<and> (\<forall>e \<in> set es. e_TxnID e = t \<longrightarrow> \<not> moves_money e)"

lemma unlogged_append:
  "unlogged t es \<Longrightarrow> (\<forall>e \<in> set fs. e_TxnID e \<noteq> t \<or> \<not> moves_money e \<and> e_OpType e \<noteq> OpCommitted) \<Longrightarrow>
     unlogged t (es @ fs)"
  by (auto simp: unlogged_def marked_def)

lemma balance_under_drop:
  assumes "\<And>e. e \<in> set fs \<Longrightarrow> \<not> (c (e_TxnID e) \<and> moves_money e)"
  shows "balance_under c (es @ fs) = balance_under c es"
  using assms
proof (induction fs rule: rev_induct)
  case (snoc f fs)
  then show ?case
    using balance_under_skip [of c f "es @ fs"] by (auto simp: moves_money_def)
qed simp

text \<open>Records that carry no commit marker and belong to transactions not yet committed leave
  the recovered balances alone.\<close>

lemma recovered_silent:
  assumes "\<And>e. e \<in> set fs \<Longrightarrow> e_OpType e \<noteq> OpCommitted \<and> \<not> (committed es (e_TxnID e) \<and> moves_money e)"
  shows "recovered_balance (es @ fs) = recovered_balance es"
proof -
  have "committed (es @ fs) = committed es"
    using assms by (fastforce simp: marked_def)
  then show ?thesis
    unfolding recovered_balance_def using assms by (simp add: balance_under_drop)
qed

text \<open>Operations of a transaction followed by its commit marker take effect together.\<close>

lemma recovered_commit:
  assumes "unlogged t es" "\<And>e. e \<in> set fs \<Longrightarrow> e_TxnID e = t \<and> e_OpType e \<noteq> OpCommitted"
    and "e_OpType m = OpCommitted" "e_TxnID m = t"
  defines "c \<equiv> \<lambda>u. u = t \<or> committed es u"
  shows "recovered_balance (es @ fs @ [m]) = balance_under c (es @ fs)" "balance_under c es = recovered_balance es"
proof -
  have "committed (es @ fs @ [m]) u = c u" for u
    using assms(2-4) unfolding c_def marked_def by auto
  then have "committed (es @ fs @ [m]) = c" by (rule ext)
  then show "recovered_balance (es @ fs @ [m]) = balance_under c (es @ fs)"
    unfolding recovered_balance_def using assms(3) balance_under_skip [of c m "es @ fs"] by simp
  have "creates c a es = creates (committed es) a es" "moves c a es = moves (committed es) a es" for a
    using assms(1) unfolding creates_def moves_def c_def unlogged_def moves_money_def
    by (auto intro!: filter_cong)
  then show "balance_under c es = recovered_balance es"
    unfolding recovered_balance_def by (auto simp: balance_under_def net_change_def)
qed

section \<open>What each operation logs\<close>

text \<open>On a working log: the records an operation writes, with its effect on the ledger and on the
  transaction table.\<close>

lemmas log_effect_simps = healthy_writes step_healthy(1) server_state_defs replicate_eq

lemma Execute_log:
  assumes "wal_healthy (s_walLog s)" "s_seenTxns s (t_TxnID txn) = None"
    and "ShardServer_ExecuteSingleShard txn s = (s', Inr res)"
  defines "t \<equiv> t_TxnID txn"
  defines "ops \<equiv> [WAppend t OpDebit (t_Source txn) (t_Amount txn), WAppend t OpCredit (t_Destination txn) (t_Amount txn)]"
  shows "s_walLog s' = fold wal_step (ops @ [WCommitted t]) (s_walLog s) \<and> s_seenTxns s' = (s_seenTxns s)(t \<mapsto> StateCommitted)
      \<and> Ledger_ApplyTransfer (t_Source txn) (t_Destination txn) (t_Amount txn) (s_ledger s) = (s_ledger s', None)
    \<or> (\<exists>ps. set ps \<subseteq> set ops \<and> s_walLog s' = fold wal_step (ps @ [WAborted t]) (s_walLog s))
      \<and> s_seenTxns s' = (s_seenTxns s)(t \<mapsto> StateAborted) \<and> s_ledger s' = s_ledger s"
proof (cases "Ledger_ValidateDebit (t_Source txn) (t_Amount txn) (s_ledger s)")
  case (Some err)
  with assms(1-3) show ?thesis
    unfolding t_def ops_def
    by (auto simp: ShardServer_ExecuteSingleShard_def Let_def log_effect_simps
        intro!: exI [of _ "[]"])
next
  case None
  obtain l r where tr: "Ledger_ApplyTransfer (t_Source txn) (t_Destination txn) (t_Amount txn) (s_ledger s) = (l, r)"
    by force
  show ?thesis
  proof (cases r)
    case None
    with \<open>Ledger_ValidateDebit _ _ _ = None\<close> tr assms(1-3) show ?thesis
      unfolding t_def ops_def
      by (auto simp: ShardServer_ExecuteSingleShard_def Let_def log_effect_simps
          split: option.splits)
  next
    case (Some err)
    with \<open>Ledger_ValidateDebit _ _ _ = None\<close> tr assms(1-3) ledger_error_frame show ?thesis
      unfolding t_def ops_def
      by (auto simp: ShardServer_ExecuteSingleShard_def Let_def log_effect_simps
          split: option.splits intro!: exI [of _ "[WAppend (t_TxnID txn) OpDebit (t_Source txn) (t_Amount txn),
            WAppend (t_TxnID txn) OpCredit (t_Destination txn) (t_Amount txn)]"])
  qed
qed

lemma Prepare_log:
  assumes "wal_healthy (s_walLog s)" "s_seenTxns s t = None" "ShardServer_PrepareTransaction t op a x s = (s', r)"
  shows "r = None \<Longrightarrow> s_walLog s' = wal_step (WAppend t OpPrepared a x) (s_walLog s)
      \<and> s_seenTxns s' = (s_seenTxns s)(t \<mapsto> StatePrepared)
      \<and> reservable op a x (s_ledger s) \<and> s_ledger s' = reserve op a x (s_ledger s)"
    and "r \<noteq> None \<Longrightarrow> s_walLog s' = wal_step (WAborted t) (s_walLog s)
      \<and> s_seenTxns s' = (s_seenTxns s)(t \<mapsto> StateAborted) \<and> s_ledger s' = s_ledger s"
  using assms
  by (auto simp: ShardServer_PrepareTransaction_def Let_def log_effect_simps prepare_check_Inr
      split: sum.splits)

lemma Commit_log:
  assumes "wal_healthy (s_walLog s)" "s_seenTxns s t \<noteq> Some StateCommitted"
    and "ShardServer_CommitTransaction t op a x s = (s', None)"
  shows "s_walLog s' = fold wal_step [WAppend t op a x, WCommitted t] (s_walLog s)
    \<and> s_seenTxns s' = (s_seenTxns s)(t \<mapsto> StateCommitted)
    \<and> deliverable op a x (s_ledger s) \<and> s_ledger s' = deliver op a x (s_ledger s)"
  using assms
  by (auto simp: ShardServer_CommitTransaction_def Let_def log_effect_simps deliver_def deliverable_def
      split: prod.splits option.splits if_splits)

text \<open>What an execution or a COMMIT that fails leaves in the log.\<close>

lemma Execute_failed_log:
  assumes "wal_healthy (s_walLog s)" "ShardServer_ExecuteSingleShard txn s = (s', Inl err)"
  defines "t \<equiv> t_TxnID txn"
  shows "s_seenTxns s t = None \<and> s_seenTxns s' = s_seenTxns s \<and> s_ledger s' = s_ledger s
    \<and> (\<exists>ps. s_walLog s' = fold wal_step ps (s_walLog s)
      \<and> ps \<in> {[WAppend t OpDebit (t_Source txn) (t_Amount txn)],
               [WAppend t OpDebit (t_Source txn) (t_Amount txn), WAppend t OpCredit (t_Destination txn) (t_Amount txn)]})"
proof -
  have none: "s_seenTxns s t = None" using assms(2) Execute_seen [of s txn] by (cases "s_seenTxns s t") (auto simp: t_def)
  then have "s_seenTxns s' = s_seenTxns s \<and> s_ledger s' = s_ledger s
    \<and> (s_walLog s' = fold wal_step [WAppend t OpDebit (t_Source txn) (t_Amount txn)] (s_walLog s)
      \<or> s_walLog s' = fold wal_step [WAppend t OpDebit (t_Source txn) (t_Amount txn), WAppend t OpCredit (t_Destination txn) (t_Amount txn)] (s_walLog s))"
    using assms(1,2) unfolding t_def
    by (auto simp: ShardServer_ExecuteSingleShard_def Let_def log_effect_simps fun_eq_iff
        split: option.splits prod.splits)
  with none show ?thesis by blast
qed

lemma Commit_failed_log:
  assumes "wal_healthy (s_walLog s)" "ShardServer_CommitTransaction t op a x s = (s', Some err)"
    and "s_seenTxns s t \<noteq> Some StateAborted"
  shows "s_seenTxns s t \<noteq> Some StateCommitted \<and> s_seenTxns s' = s_seenTxns s \<and> s_ledger s' = s_ledger s
    \<and> s_walLog s' = fold wal_step [WAppend t OpCredit a x] (s_walLog s)"
  using assms ledger_error_frame
  by (auto simp: ShardServer_CommitTransaction_def Let_def log_effect_simps split: prod.splits option.splits if_splits)

lemma Abort_log:
  assumes "wal_healthy (s_walLog s)" "s_seenTxns s t \<noteq> Some StateAborted"
    and "ShardServer_AbortTransaction t op a x s = (s', r)"
  shows "s_walLog s' = wal_step (WAborted t) (s_walLog s) \<and> s_seenTxns s' = (s_seenTxns s)(t \<mapsto> StateAborted)
    \<and> s_ledger s' = (if s_seenTxns s t = Some StatePrepared then release op a x (s_ledger s) else s_ledger s)"
  using assms
  by (auto simp: ShardServer_AbortTransaction_def Let_def log_effect_simps release_def)

lemma Create_log:
  assumes "wal_healthy (s_walLog s)" "ShardServer_CreateAccountWithWAL a opening s = (s', None)"
  shows "s_walLog s' = fold wal_step [WAppend (create_txn a) OpCreateAccount a opening, WCommitted (create_txn a)] (s_walLog s)
    \<and> s_seenTxns s' = (s_seenTxns s)(create_txn a \<mapsto> StateCommitted)
    \<and> l_balances (s_ledger s) a = None \<and> s_ledger s' = s_ledger s\<lparr>l_balances := (l_balances (s_ledger s))(a \<mapsto> opening)\<rparr>"
  using assms
  by (auto simp: ShardServer_CreateAccountWithWAL_def Let_def log_effect_simps Ledger_AccountExists_def
      Ledger_CreateAccount_def split: if_splits)

lemma Checkpoint_log:
  assumes "wal_healthy (s_walLog s)" "ShardServer_Checkpoint ks ks' s = (s', r)"
  shows "(s_walLog s' = s_walLog s \<or> (\<exists>n. s_walLog s' = wal_step (WCheckpoint n) (s_walLog s)))
    \<and> s_seenTxns s' = s_seenTxns s \<and> s_ledger s' = s_ledger s"
  using assms
  by (auto simp: ShardServer_Checkpoint_def Let_def log_effect_simps
      split: option.splits prod.splits)

section \<open>Runs of a shard\<close>

text \<open>The prepared and undecided operations, newest first.\<close>

type_synonym holds = "(string \<times> OperationType \<times> string \<times> int64) list"

definition hold_on :: "string \<Rightarrow> string \<times> OperationType \<times> string \<times> int64 \<Rightarrow> int64" where
  "hold_on a h = (case h of (t, op, b, x) \<Rightarrow> if op = OpDebit \<and> b = a then x else 0)"

definition held :: "holds \<Rightarrow> string \<Rightarrow> int64" where
  "held r a = sum_list (map (hold_on a) r)"

definition settle :: "string \<Rightarrow> holds \<Rightarrow> holds" where
  "settle t r = filter (\<lambda>h. fst h \<noteq> t) r"

text \<open>
  A step is one request of a client or of the coordinator, on a working log, answered or failed. Executions
  that fail for want of followers and COMMITs whose credit fails are steps too: they leave records of their
  transaction in the log. What is not a step is what makes the log and the balances disagree:
  an execution, a COMMIT or an account creation that succeeds although an earlier attempt of the same transaction
  has left such a record (the premises \<open>unlogged\<close>; the retry of an execution is the last
  section), an account creation with a negative balance, a COMMIT of a debit that this shard has not prepared or with
  another operation than the prepared one, and \<open>ReceivePartition\<close>, which sets balances that are
  never logged. Messages for transactions that are decided or unknown may arrive at any time.
\<close>

inductive shard_step :: "holds \<times> ShardServer \<Rightarrow> holds \<times> ShardServer \<Rightarrow> bool" where
  execute: "ShardServer_ExecuteSingleShard txn s = (s', Inr res) \<Longrightarrow>
    s_seenTxns s (t_TxnID txn) \<noteq> None \<or> unlogged (t_TxnID txn) (wal_entries (s_walLog s)) \<Longrightarrow> shard_step (r, s) (r, s')"
| execute_failed: "ShardServer_ExecuteSingleShard txn s = (s', Inl err) \<Longrightarrow> shard_step (r, s) (r, s')"
| prepare_yes: "s_seenTxns s t = None \<Longrightarrow> op = OpDebit \<or> op = OpCredit \<Longrightarrow>
    ShardServer_PrepareTransaction t op a x s = (s', None) \<Longrightarrow> shard_step (r, s) ((t, op, a, x) # r, s')"
| prepare_no: "ShardServer_PrepareTransaction t op a x s = (s', Some err) \<Longrightarrow> shard_step (r, s) (r, s')"
| prepare_again: "s_seenTxns s t \<noteq> None \<Longrightarrow> ShardServer_PrepareTransaction t op a x s = (s', e) \<Longrightarrow> shard_step (r, s) (r, s')"
| commit: "(t, op, a, x) \<in> set r \<Longrightarrow> ShardServer_CommitTransaction t op a x s = (s', None) \<Longrightarrow>
    unlogged t (wal_entries (s_walLog s)) \<Longrightarrow> shard_step (r, s) (settle t r, s')"
| commit_credit: "s_seenTxns s t = None \<Longrightarrow> ShardServer_CommitTransaction t OpCredit a x s = (s', None) \<Longrightarrow>
    unlogged t (wal_entries (s_walLog s)) \<Longrightarrow> shard_step (r, s) (r, s')"
| commit_failed: "ShardServer_CommitTransaction t op a x s = (s', Some err) \<Longrightarrow> shard_step (r, s) (r, s')"
| commit_late: "s_seenTxns s t = Some StateCommitted \<or> s_seenTxns s t = Some StateAborted \<Longrightarrow>
    ShardServer_CommitTransaction t op a x s = (s', e) \<Longrightarrow> shard_step (r, s) (r, s')"
| abort: "(t, op, a, x) \<in> set r \<Longrightarrow> ShardServer_AbortTransaction t op a x s = (s', e) \<Longrightarrow>
    shard_step (r, s) (settle t r, s')"
| abort_late: "s_seenTxns s t \<noteq> Some StatePrepared \<Longrightarrow> ShardServer_AbortTransaction t op a x s = (s', e) \<Longrightarrow>
    shard_step (r, s) (r, s')"
| create: "s_seenTxns s (create_txn a) = None \<Longrightarrow> ShardServer_CreateAccountWithWAL a opening s = (s', None) \<Longrightarrow>
    unlogged (create_txn a) (wal_entries (s_walLog s)) \<Longrightarrow> shard_step (r, s) (r, s')"
| create_again: "l_balances (s_ledger s) a \<noteq> None \<Longrightarrow> ShardServer_CreateAccountWithWAL a opening s = (s', e) \<Longrightarrow>
    shard_step (r, s) (r, s')"
| attach_store: "shard_step (r, s) (r, ShardServer_SetStorage store s)"
| attach_role: "shard_step (r, s) (r, ShardServer_SetRole role s)"
| attach_replicator: "shard_step (r, s) (r, ShardServer_SetReplicator p s)"
| attach_partitions: "shard_step (r, s) (r, ShardServer_SetPartitioning mgr mapper s)"
| checkpoint: "ShardServer_Checkpoint ks ks' s = (s', e) \<Longrightarrow> shard_step (r, s) (r, s')"

definition holds_ok :: "holds \<Rightarrow> ShardServer \<Rightarrow> bool" where
  "holds_ok r s \<longleftrightarrow> (\<forall>(t, op, a, x) \<in> set r. (op = OpDebit \<or> op = OpCredit)
     \<and> (op = OpDebit \<longrightarrow> l_balances (s_ledger s) a \<noteq> None \<and> 0 <s x))"

text \<open>The transaction table and the markers of the log agree; a late ABORT may overrule a commit in the table.\<close>

definition decided :: "string \<Rightarrow> WALEntry list \<Rightarrow> bool" where
  "decided t es \<longleftrightarrow> committed es t \<or> marked OpAborted es t"

definition marks_ok :: "(string \<rightharpoonup> TransactionState) \<Rightarrow> WALEntry list \<Rightarrow> bool" where
  "marks_ok seen es \<longleftrightarrow>
     (\<forall>t. seen t = Some StateCommitted \<or> seen t = Some StateAborted \<longleftrightarrow> decided t es)
     \<and> (\<forall>t. seen t = Some StateCommitted \<longrightarrow> committed es t)
     \<and> (\<forall>t. seen t = Some StateAborted \<longrightarrow> marked OpAborted es t)
     \<and> (\<forall>t. marked OpPrepared es t \<longrightarrow> seen t \<noteq> None)
     \<and> (\<forall>t. seen t = Some StatePrepared \<longrightarrow> marked OpPrepared es t)"

definition explained :: "holds \<Rightarrow> ShardServer \<Rightarrow> bool" where
  "explained r s \<longleftrightarrow>
     wal_healthy (s_walLog s)
     \<and> (\<forall>a. recovered_balance (wal_entries (s_walLog s)) a = map_option (\<lambda>b. b + held r a) (l_balances (s_ledger s) a))
     \<and> distinct (map fst r) \<and> holds_ok r s \<and> marks_ok (s_seenTxns s) (wal_entries (s_walLog s))
     \<and> (\<forall>t. s_seenTxns s t = Some StatePrepared \<longleftrightarrow> t \<in> fst ` set r)
     \<and> (\<forall>t. s_seenTxns s t \<noteq> Some StatePending)"

lemma explainedI:
  assumes "wal_healthy (s_walLog s)" "distinct (map fst r)" "holds_ok r s" "marks_ok (s_seenTxns s) (wal_entries (s_walLog s))"
    and "\<And>a. recovered_balance (wal_entries (s_walLog s)) a = map_option (\<lambda>b. b + held r a) (l_balances (s_ledger s) a)"
    and "\<And>t. s_seenTxns s t = Some StatePrepared \<longleftrightarrow> t \<in> fst ` set r"
    and "\<And>t. s_seenTxns s t \<noteq> Some StatePending"
  shows "explained r s"
  using assms by (simp add: explained_def)

lemma held_Cons [simp]: "held (h # r) a = hold_on a h + held r a"
  by (simp add: held_def)

lemma held_settle:
  "h \<in> set r \<Longrightarrow> distinct (map fst r) \<Longrightarrow> held r a = held (settle (fst h) r) a + hold_on a h"
proof (induction r)
  case (Cons g r)
  show ?case
  proof (cases "g = h")
    case True
    with Cons.prems(2) have "settle (fst h) r = r"
      unfolding settle_def by (intro filter_True) (auto simp: image_iff)
    with True show ?thesis by (simp add: settle_def)
  next
    case False
    with Cons.prems have "fst g \<noteq> fst h" "h \<in> set r" by (auto simp: image_iff)
    with Cons show ?thesis by (simp add: settle_def)
  qed
qed simp

lemma settle_facts:
  "distinct (map fst r) \<Longrightarrow> distinct (map fst (settle t r))" "fst ` set (settle t r) = fst ` set r - {t}"
  "set (settle t r) \<subseteq> set r"
  by (auto simp: settle_def distinct_map inj_on_def)

lemma explainedD:
  assumes "explained r s"
  shows "wal_healthy (s_walLog s)" "distinct (map fst r)" "holds_ok r s"
    "recovered_balance (wal_entries (s_walLog s)) a = map_option (\<lambda>b. b + held r a) (l_balances (s_ledger s) a)"
    "s_seenTxns s t = Some StatePrepared \<longleftrightarrow> t \<in> fst ` set r"
    "s_seenTxns s t = None \<or> s_seenTxns s t = Some StatePrepared \<Longrightarrow> \<not> committed (wal_entries (s_walLog s)) t"
    "s_seenTxns s t \<noteq> Some StatePending" "marks_ok (s_seenTxns s) (wal_entries (s_walLog s))"
proof -
  assume "s_seenTxns s t = None \<or> s_seenTxns s t = Some StatePrepared"
  then have "\<not> (s_seenTxns s t = Some StateCommitted \<or> s_seenTxns s t = Some StateAborted)" by auto
  with assms show "\<not> committed (wal_entries (s_walLog s)) t" unfolding explained_def marks_ok_def decided_def by blast
qed (use assms in \<open>simp_all add: explained_def\<close>)

lemma fold_healthy:
  assumes "wal_healthy w"
  shows "wal_healthy (fold wal_step ps w)" "wal_entries (fold wal_step ps w) = wal_entries w @ op_entries ps (w_nextLogID w)"
  using run_healthy [OF assms] by simp_all

text \<open>A step that decides or prepares transaction \<open>t\<close> and appends the records \<open>fs\<close>, which speak
  of \<open>t\<close> alone.\<close>

lemma explained_extend:
  assumes "explained r s" "s_walLog s' = fold wal_step ps (s_walLog s)" "fs = op_entries ps (w_nextLogID (s_walLog s))"
    and "\<forall>e \<in> set fs. e_TxnID e = t" "s_seenTxns s' = (s_seenTxns s)(t \<mapsto> st)" "st \<noteq> StatePending"
    and "\<forall>a. recovered_balance (wal_entries (s_walLog s) @ fs) a = map_option (\<lambda>b. b + held r' a) (l_balances (s_ledger s') a)"
    and "distinct (map fst r')" "holds_ok r' s'"
    and "fst ` set r' = (if st = StatePrepared then insert t (fst ` set r) else fst ` set r - {t})"
    and "st = StateCommitted \<Longrightarrow> committed fs t" "st = StateAborted \<Longrightarrow> marked OpAborted fs t"
      "st = StatePrepared \<Longrightarrow> s_seenTxns s t = None \<and> marked OpPrepared fs t \<and> \<not> decided t fs"
  shows "explained r' s'"
proof (rule explainedI)
  note log = fold_healthy [OF explainedD(1) [OF assms(1)], of ps, folded assms(2,3)]
  show "wal_healthy (s_walLog s')" by (rule log(1))
  show "marks_ok (s_seenTxns s') (wal_entries (s_walLog s'))"
  proof -
    have other: "\<not> marked op fs u" if "u \<noteq> t" for op u using assms(4) that by (auto simp: marked_def)
    have "st = StatePrepared \<or> st = StateCommitted \<or> st = StateAborted" using assms(6) by (cases st) auto
    moreover have "\<not> committed (wal_entries (s_walLog s)) t \<and> \<not> marked OpAborted (wal_entries (s_walLog s)) t" if "st = StatePrepared"
      using explainedD(8) [OF assms(1)] assms(13) [OF that] unfolding marks_ok_def decided_def by (metis option.distinct(1))
    ultimately show ?thesis
      using explainedD(8) [OF assms(1)] other assms(11-13) unfolding marks_ok_def decided_def log(2) assms(5)
      by (auto split: if_splits)
  qed
  show "recovered_balance (wal_entries (s_walLog s')) a = map_option (\<lambda>b. b + held r' a) (l_balances (s_ledger s') a)" for a
    using assms(7) by (simp add: log(2))
  fix u
  show "s_seenTxns s' u = Some StatePrepared \<longleftrightarrow> u \<in> fst ` set r'"
    using explainedD(5) [OF assms(1), of u] assms(5,10) by auto
  show "s_seenTxns s' u \<noteq> Some StatePending"
    using explainedD(7) [OF assms(1), of u] assms(5,6) by auto
qed (use assms(8,9) in auto)

text \<open>Records that are no markers, of a transaction that is not committed, change nothing.\<close>

lemma explained_records:
  assumes "explained r s" "s_walLog s' = fold wal_step ps (s_walLog s)" "s_seenTxns s' = s_seenTxns s" "s_ledger s' = s_ledger s"
    and "\<forall>e \<in> set (op_entries ps (w_nextLogID (s_walLog s))). e_OpType e \<notin> {OpCommitted, OpAborted, OpPrepared}
      \<and> \<not> (committed (wal_entries (s_walLog s)) (e_TxnID e) \<and> moves_money e)"
  shows "explained r s'"
proof -
  define fs where "fs = op_entries ps (w_nextLogID (s_walLog s))"
  note fs = assms(5) [folded fs_def]
  note log = fold_healthy [OF explainedD(1) [OF assms(1)], of ps, folded assms(2) fs_def]
  have "recovered_balance (wal_entries (s_walLog s) @ fs) = recovered_balance (wal_entries (s_walLog s))"
    by (rule recovered_silent) (use fs in auto)
  moreover have "marked op (wal_entries (s_walLog s) @ fs) = marked op (wal_entries (s_walLog s))"
    if "op \<in> {OpCommitted, OpAborted, OpPrepared}" for op
    using fs that by (fastforce simp: marked_def)
  ultimately show ?thesis
    using explainedD [OF assms(1)] log assms(3,4)
    by (intro explainedI) (auto simp: holds_ok_def marks_ok_def decided_def)
qed

lemma op_entries_snoc: "op_entries (ps @ [p]) n = op_entries ps n @ [op_entry p (n + of_nat (length ps))]"
  by (induction ps arbitrary: n) (simp_all add: algebra_simps)

lemma op_entries_set: "e \<in> set (op_entries ps n) \<Longrightarrow> \<exists>p \<in> set ps. \<exists>k. e = op_entry p k"
  by (induction ps n rule: op_entries.induct) auto

text \<open>An abort marker, or operations of a transaction that is then aborted, change nothing.\<close>

lemma explained_aborted:
  assumes "explained r s" "s_walLog s' = fold wal_step (ps @ [WAborted t]) (s_walLog s)"
    and "s_seenTxns s' = (s_seenTxns s)(t \<mapsto> StateAborted)" "s_ledger s' = s_ledger s"
    and "t \<notin> fst ` set r" "\<forall>p \<in> set ps. \<exists>op a x. p = WAppend t op a x \<and> op \<noteq> OpCommitted"
    and "ps = [] \<or> s_seenTxns s t = None"
  shows "explained r s'"
proof -
  note h = explainedD(1) [OF assms(1)]
  define fs where "fs = op_entries (ps @ [WAborted t]) (w_nextLogID (s_walLog s))"
  have fs: "e_TxnID e = t \<and> e_OpType e \<noteq> OpCommitted" "ps = [] \<Longrightarrow> \<not> moves_money e" if "e \<in> set fs" for e
    using op_entries_set [OF that [unfolded fs_def]] assms(6) by (fastforce simp: moves_money_def)+
  have "\<not> committed (wal_entries (s_walLog s)) t" if "ps \<noteq> []"
    using explainedD(6) [OF assms(1), of t] assms(7) that by auto
  then have "recovered_balance (wal_entries (s_walLog s) @ fs) = recovered_balance (wal_entries (s_walLog s))"
    by (intro recovered_silent) (use fs in blast)
  moreover have marks: "marked OpAborted (op_entries (ps @ [WAborted t]) n) t" for n
    by (induction ps arbitrary: n) auto
  ultimately show ?thesis
    by (intro explained_extend [OF assms(1,2) fs_def _ assms(3)]) (use explainedD(2,3,4) [OF assms(1)] fs assms(4,5) in \<open>auto simp: holds_ok_def decided_def fs_def\<close>)
qed

text \<open>Operations of a transaction with its commit marker: the balances change as the operations
  say.\<close>

lemma explained_committed:
  assumes "explained r s" "s_walLog s' = fold wal_step (ps @ [WCommitted t]) (s_walLog s)"
    and "s_seenTxns s' = (s_seenTxns s)(t \<mapsto> StateCommitted)" "unlogged t (wal_entries (s_walLog s))"
    and "\<forall>p \<in> set ps. \<exists>op a x. p = WAppend t op a x \<and> op \<noteq> OpCommitted"
    and "holds_ok r s'"
    and "\<And>c a. \<lbrakk>c t; balance_under c (wal_entries (s_walLog s)) = recovered_balance (wal_entries (s_walLog s))\<rbrakk> \<Longrightarrow>
      balance_under c (wal_entries (s_walLog s) @ op_entries ps (w_nextLogID (s_walLog s))) a
        = map_option (\<lambda>b. b + held (settle t r) a) (l_balances (s_ledger s') a)"
  shows "explained (settle t r) s'"
proof -
  define n where "n = w_nextLogID (s_walLog s)"
  let ?es = "wal_entries (s_walLog s)"
  have fs: "e_TxnID e = t \<and> e_OpType e \<noteq> OpCommitted" if "e \<in> set (op_entries ps n)" for e
    using op_entries_set [OF that] assms(5) by fastforce
  note un = assms(4)
  have "recovered_balance (?es @ op_entries (ps @ [WCommitted t]) n) a
      = map_option (\<lambda>b. b + held (settle t r) a) (l_balances (s_ledger s') a)" for a
    using recovered_commit [OF un fs, of "op_entries ps n" "op_entry (WCommitted t) (n + of_nat (length ps))"]
      assms(7) [of "\<lambda>u. u = t \<or> committed ?es u", folded n_def] by (simp add: op_entries_snoc)
  moreover have "holds_ok (settle t r) s'" using assms(6) settle_facts(3) [of t r] unfolding holds_ok_def by blast
  ultimately show ?thesis
    using explainedD(2) [OF assms(1)] fs settle_facts(1) [of r t] settle_facts(2) [of t r]
    by (intro explained_extend [OF assms(1,2) refl _ assms(3)]) (auto simp: op_entries_snoc decided_def n_def [symmetric])
qed

section \<open>Every step keeps the log in step with the balances\<close>

lemma settle_absent: "t \<notin> fst ` set r \<Longrightarrow> settle t r = r"
  unfolding settle_def by (intro filter_True) (auto simp: image_iff)

lemma map_plus_recovered:
  fixes d :: int64
  assumes "\<And>a. m a = map_option (\<lambda>b. b + h a) (l a)" "l k \<noteq> None"
  shows "map_plus m k d a = map_option (\<lambda>b. b + h a) (map_plus l k d a)"
  using assms by (auto simp: map_plus_apply algebra_simps)

lemma ApplyTransfer_plus:
  assumes "Ledger_ApplyTransfer src dst x l = (l', None)"
  shows "l_balances l' = map_plus (map_plus (l_balances l) src (- x)) dst x" "l_balances l src \<noteq> None" "l_balances l dst \<noteq> None"
  using assms by (auto simp: Ledger_ApplyTransfer_def split: if_splits option.splits)

lemma holds_ok_dom:
  "holds_ok r s \<Longrightarrow> dom (l_balances (s_ledger s)) \<subseteq> dom (l_balances (s_ledger s')) \<Longrightarrow> holds_ok r s'"
  unfolding holds_ok_def by (fastforce simp: domIff subset_iff)

lemma execute_explained:
  assumes "explained r s" "ShardServer_ExecuteSingleShard txn s = (s', Inr res)"
    and "s_seenTxns s (t_TxnID txn) \<noteq> None \<or> unlogged (t_TxnID txn) (wal_entries (s_walLog s))"
  shows "explained r s'"
proof (cases "s_seenTxns s (t_TxnID txn)")
  case None
  define t where "t = t_TxnID txn"
  note seen = None [folded t_def]
  have un: "unlogged t (wal_entries (s_walLog s))" using assms(3) None by (simp add: t_def)
  have fresh: "t \<notin> fst ` set r" using explainedD(5) [OF assms(1), of t] seen by simp
  from Execute_log [OF explainedD(1) [OF assms(1)] None assms(2), folded t_def] show ?thesis
  proof (elim disjE conjE exE)
    assume log: "s_walLog s' = fold wal_step ([WAppend t OpDebit (t_Source txn) (t_Amount txn),
        WAppend t OpCredit (t_Destination txn) (t_Amount txn)] @ [WCommitted t]) (s_walLog s)"
      and st: "s_seenTxns s' = (s_seenTxns s)(t \<mapsto> StateCommitted)"
      and tr: "Ledger_ApplyTransfer (t_Source txn) (t_Destination txn) (t_Amount txn) (s_ledger s) = (s_ledger s', None)"
    note plus = ApplyTransfer_plus [OF tr]
    have ok: "holds_ok r s'"
      by (rule holds_ok_dom [OF explainedD(3) [OF assms(1)]]) (use plus in auto)
    have bal: "map_plus (map_plus (recovered_balance (wal_entries (s_walLog s))) (t_Source txn) (- t_Amount txn))
        (t_Destination txn) (t_Amount txn) a = map_option (\<lambda>b. b + held r a) (l_balances (s_ledger s') a)" for a
      unfolding plus(1) using plus(2,3)
      by (intro map_plus_recovered explainedD(4) [OF assms(1)]) (auto simp: map_plus_apply)
    have ops: "balance_under c (es @ [d, e]) = map_plus (map_plus (balance_under c es) (e_AccountID d) (signed_amount d))
        (e_AccountID e) (signed_amount e)"
      if "c (e_TxnID d)" "c (e_TxnID e)" "e_OpType d = OpDebit" "e_OpType e = OpCredit" for c d e es
      using balance_under_move [of c e "es @ [d]"] balance_under_move [of c d es] that by simp
    have "explained (settle t r) s'"
      by (rule explained_committed [OF assms(1) log st un _ ok])
        (use bal in \<open>auto simp: ops signed_amount_def settle_absent [OF fresh]\<close>)
    then show ?thesis by (simp add: settle_absent [OF fresh])
  next
    fix ps
    assume ps: "set ps \<subseteq> set [WAppend t OpDebit (t_Source txn) (t_Amount txn),
        WAppend t OpCredit (t_Destination txn) (t_Amount txn)]"
      and log: "s_walLog s' = fold wal_step (ps @ [WAborted t]) (s_walLog s)"
      and st: "s_seenTxns s' = (s_seenTxns s)(t \<mapsto> StateAborted)" and l: "s_ledger s' = s_ledger s"
    show ?thesis
      by (rule explained_aborted [OF assms(1) log st l fresh]) (use ps seen in auto)
  qed
next
  case (Some st)
  then show ?thesis using assms(1,2) by (simp add: Execute_seen)
qed

lemma execute_failed_explained:
  assumes "explained r s" "ShardServer_ExecuteSingleShard txn s = (s', Inl err)"
  shows "explained r s'"
proof -
  note log = Execute_failed_log [OF explainedD(1) [OF assms(1)] assms(2)]
  then obtain ps where ps: "s_walLog s' = fold wal_step ps (s_walLog s)"
    "ps \<in> {[WAppend (t_TxnID txn) OpDebit (t_Source txn) (t_Amount txn)],
      [WAppend (t_TxnID txn) OpDebit (t_Source txn) (t_Amount txn), WAppend (t_TxnID txn) OpCredit (t_Destination txn) (t_Amount txn)]}"
    by blast
  show ?thesis
    by (rule explained_records [OF assms(1) ps(1)]) (use log ps(2) explainedD(6) [OF assms(1), of "t_TxnID txn"] in auto)
qed

lemma commit_failed_explained:
  assumes "explained r s" "ShardServer_CommitTransaction t op a x s = (s', Some err)"
  shows "explained r s'"
proof (cases "s_seenTxns s t = Some StateAborted")
  case True
  with assms show ?thesis by (simp add: Commit_aborted)
next
  case False
  note log = Commit_failed_log [OF explainedD(1) [OF assms(1)] assms(2) False]
  have "s_seenTxns s t = None \<or> s_seenTxns s t = Some StatePrepared"
    using False log explainedD(7) [OF assms(1), of t] by (cases "s_seenTxns s t"; cases "the (s_seenTxns s t)") auto
  then show ?thesis
    using explained_records [OF assms(1), of s' "[WAppend t OpCredit a x]"] log explainedD(6) [OF assms(1), of t] by simp
qed

lemma reserve_balances:
  assumes "reservable op a x l" "op = OpDebit \<or> op = OpCredit"
  shows "l_balances (reserve op a x l) = (if op = OpDebit then map_plus (l_balances l) a (- x) else l_balances l)"
    and "op = OpDebit \<Longrightarrow> l_balances l a \<noteq> None \<and> 0 <s x"
  using assms
  by (auto simp: reserve_def reservable_def Ledger_ApplyDebit_def signed_order split: option.splits if_splits)

lemma prepare_explained:
  assumes "explained r s" "s_seenTxns s t = None" "op = OpDebit \<or> op = OpCredit"
    and "ShardServer_PrepareTransaction t op a x s = (s', None)"
  shows "explained ((t, op, a, x) # r) s'"
proof -
  note log = Prepare_log(1) [OF explainedD(1) [OF assms(1)] assms(2,4)]
  have res: "reservable op a x (s_ledger s)" "s_ledger s' = reserve op a x (s_ledger s)" using log by simp_all
  have seen: "s_seenTxns s' = (s_seenTxns s)(t \<mapsto> StatePrepared)" using log by simp
  have w: "s_walLog s' = fold wal_step [WAppend t OpPrepared a x] (s_walLog s)" using log by simp
  note bal = reserve_balances [OF res(1) assms(3)]
  have fresh: "t \<notin> fst ` set r" using explainedD(5) [OF assms(1), of t] assms(2) by simp
  define fs where "fs = op_entries [WAppend t OpPrepared a x] (w_nextLogID (s_walLog s))"
  have fs: "e_TxnID e = t" "\<not> moves_money e" "e_OpType e = OpPrepared" if "e \<in> set fs" for e
    using that by (simp_all add: fs_def moves_money_def)
  have rec: "recovered_balance (wal_entries (s_walLog s) @ fs) b = map_option (\<lambda>v. v + held ((t, op, a, x) # r) b) (l_balances (s_ledger s') b)" for b
  proof -
    have "recovered_balance (wal_entries (s_walLog s) @ fs) = recovered_balance (wal_entries (s_walLog s))"
      by (rule recovered_silent) (use fs in auto)
    then show ?thesis
      using explainedD(4) [OF assms(1), of b] bal
      by (auto simp: res(2) hold_on_def map_plus_apply)
  qed
  have ok: "holds_ok ((t, op, a, x) # r) s'"
  proof -
    have "holds_ok r s'" by (rule holds_ok_dom [OF explainedD(3) [OF assms(1)]]) (use bal res(2) in auto)
    then show ?thesis using assms(3) bal res(2) by (auto simp: holds_ok_def map_plus_apply)
  qed
  show ?thesis
    by (rule explained_extend [OF assms(1) w fs_def _ seen])
      (use fs rec ok fresh explainedD(2) [OF assms(1)] assms(2) in \<open>auto simp: fs_def decided_def\<close>)
qed

lemma commit_explained:
  assumes "explained r s" "(t, op, a, x) \<in> set r" "ShardServer_CommitTransaction t op a x s = (s', None)"
    and "unlogged t (wal_entries (s_walLog s))"
  shows "explained (settle t r) s'"
proof -
  have prep: "s_seenTxns s t \<noteq> Some StateCommitted" using explainedD(5) [OF assms(1), of t] assms(2) by force
  note log = Commit_log [OF explainedD(1) [OF assms(1)] prep assms(3)]
  have w: "s_walLog s' = fold wal_step ([WAppend t op a x] @ [WCommitted t]) (s_walLog s)"
    and seen: "s_seenTxns s' = (s_seenTxns s)(t \<mapsto> StateCommitted)" using log by simp_all
  have op: "op = OpDebit \<or> op = OpCredit" "op = OpDebit \<Longrightarrow> l_balances (s_ledger s) a \<noteq> None"
    using explainedD(3) [OF assms(1)] assms(2) by (auto simp: holds_ok_def)
  have bal: "l_balances (s_ledger s') = (if op = OpCredit then map_plus (l_balances (s_ledger s)) a x else l_balances (s_ledger s))"
    "op = OpCredit \<Longrightarrow> l_balances (s_ledger s) a \<noteq> None"
    using log by (auto simp: deliver_def deliverable_def Ledger_ApplyCredit_def split: if_splits)
  have ok: "holds_ok r s'"
    by (rule holds_ok_dom [OF explainedD(3) [OF assms(1)]]) (auto simp: bal)
  have held: "held r b = held (settle t r) b + hold_on b (t, op, a, x)" for b
    using held_settle [OF assms(2) explainedD(2) [OF assms(1)]] by simp
  have amt: "map_plus (recovered_balance (wal_entries (s_walLog s))) a (if op = OpDebit then - x else x) b
      = map_option (\<lambda>v. v + held (settle t r) b) (l_balances (s_ledger s') b)" for b
    using explainedD(4) [OF assms(1), of b] op bal
    by (auto simp: map_plus_apply held hold_on_def algebra_simps)
  show ?thesis
    by (rule explained_committed [OF assms(1) w seen assms(4) _ ok])
      (use op(1) amt in \<open>auto simp: balance_under_move signed_amount_def\<close>)
qed

lemma commit_credit_explained:
  assumes "explained r s" "s_seenTxns s t = None" "ShardServer_CommitTransaction t OpCredit a x s = (s', None)"
    and "unlogged t (wal_entries (s_walLog s))"
  shows "explained r s'"
proof -
  note log = Commit_log [OF explainedD(1) [OF assms(1)] _ assms(3)]
  have w: "s_walLog s' = fold wal_step ([WAppend t OpCredit a x] @ [WCommitted t]) (s_walLog s)"
    and seen: "s_seenTxns s' = (s_seenTxns s)(t \<mapsto> StateCommitted)" using log assms(2) by simp_all
  have bal: "l_balances (s_ledger s') = map_plus (l_balances (s_ledger s)) a x" "l_balances (s_ledger s) a \<noteq> None"
    using log assms(2) by (auto simp: deliver_def deliverable_def Ledger_ApplyCredit_def split: if_splits)
  have ok: "holds_ok r s'"
    by (rule holds_ok_dom [OF explainedD(3) [OF assms(1)]]) (auto simp: bal)
  have fresh: "t \<notin> fst ` set r" using explainedD(5) [OF assms(1), of t] assms(2) by simp
  have amt: "map_plus (recovered_balance (wal_entries (s_walLog s))) a x b
      = map_option (\<lambda>v. v + held r b) (l_balances (s_ledger s') b)" for b
    unfolding bal(1) by (intro map_plus_recovered explainedD(4) [OF assms(1)] bal(2))
  have "explained (settle t r) s'"
    by (rule explained_committed [OF assms(1) w seen assms(4) _ ok])
      (use amt in \<open>auto simp: balance_under_move signed_amount_def settle_absent [OF fresh]\<close>)
  then show ?thesis by (simp add: settle_absent [OF fresh])
qed

lemma abort_explained:
  assumes "explained r s" "(t, op, a, x) \<in> set r" "ShardServer_AbortTransaction t op a x s = (s', e)"
  shows "explained (settle t r) s'"
proof -
  have prep: "s_seenTxns s t = Some StatePrepared" using explainedD(5) [OF assms(1), of t] assms(2) by force
  note log = Abort_log [OF explainedD(1) [OF assms(1)] _ assms(3)]
  have w: "s_walLog s' = fold wal_step [WAborted t] (s_walLog s)"
    and seen: "s_seenTxns s' = (s_seenTxns s)(t \<mapsto> StateAborted)"
    and l: "s_ledger s' = release op a x (s_ledger s)" using log prep by simp_all
  have op: "op = OpDebit \<or> op = OpCredit" "op = OpDebit \<Longrightarrow> l_balances (s_ledger s) a \<noteq> None \<and> 0 <s x"
    using explainedD(3) [OF assms(1)] assms(2) by (auto simp: holds_ok_def)
  have bal: "l_balances (s_ledger s') = (if op = OpDebit then map_plus (l_balances (s_ledger s)) a x else l_balances (s_ledger s))"
    using op by (auto simp: l release_def Ledger_AccountExists_def Ledger_RollbackDebit_def signed_order)
  define fs where "fs = op_entries [WAborted t] (w_nextLogID (s_walLog s))"
  have fs: "e_TxnID e = t \<and> e_OpType e = OpAborted" if "e \<in> set fs" for e
    using that by (simp add: fs_def)
  have held: "held r b = held (settle t r) b + hold_on b (t, op, a, x)" for b
    using held_settle [OF assms(2) explainedD(2) [OF assms(1)]] by simp
  have rec: "recovered_balance (wal_entries (s_walLog s) @ fs) b = map_option (\<lambda>v. v + held (settle t r) b) (l_balances (s_ledger s') b)" for b
  proof -
    have "recovered_balance (wal_entries (s_walLog s) @ fs) = recovered_balance (wal_entries (s_walLog s))"
      by (rule recovered_silent) (use fs in \<open>auto simp: moves_money_def\<close>)
    then show ?thesis
      using explainedD(4) [OF assms(1), of b] op bal
      by (auto simp: held hold_on_def map_plus_apply algebra_simps)
  qed
  have "holds_ok r s'" by (rule holds_ok_dom [OF explainedD(3) [OF assms(1)]]) (auto simp: bal)
  then have ok: "holds_ok (settle t r) s'" using settle_facts(3) [of t r] unfolding holds_ok_def by blast
  show ?thesis
    by (rule explained_extend [OF assms(1) w fs_def _ seen])
      (use fs rec ok settle_facts(1,2) explainedD(2) [OF assms(1)] in \<open>auto simp: decided_def fs_def\<close>)
qed

lemma create_explained:
  assumes "explained r s" "s_seenTxns s (create_txn a) = None" "ShardServer_CreateAccountWithWAL a opening s = (s', None)"
    and "unlogged (create_txn a) (wal_entries (s_walLog s))"
  shows "explained r s'"
proof -
  define t where "t = create_txn a"
  note log = Create_log [OF explainedD(1) [OF assms(1)] assms(3), folded t_def]
  have w: "s_walLog s' = fold wal_step ([WAppend t OpCreateAccount a opening] @ [WCommitted t]) (s_walLog s)"
    and seen: "s_seenTxns s' = (s_seenTxns s)(t \<mapsto> StateCommitted)" and new: "l_balances (s_ledger s) a = None"
    and l: "l_balances (s_ledger s') = (l_balances (s_ledger s))(a \<mapsto> opening)" using log by simp_all
  have fresh: "t \<notin> fst ` set r" using explainedD(5) [OF assms(1), of t] assms(2) by (simp add: t_def)
  have ok: "holds_ok r s'" by (rule holds_ok_dom [OF explainedD(3) [OF assms(1)]]) (auto simp: l)
  have none: "held r a = 0"
  proof -
    have "hold_on a h = 0" if "h \<in> set r" for h
      using explainedD(3) [OF assms(1)] new that by (fastforce simp: holds_ok_def hold_on_def split: prod.splits)
    then show ?thesis by (simp add: held_def sum_list_0 map_idI cong: map_cong)
  qed
  have es: "balance_under c (es @ [e]) = (balance_under c es)(a \<mapsto> opening)"
    if "c (e_TxnID e)" "e_OpType e = OpCreateAccount" "e_AccountID e = a" "e_Amount e = opening" "balance_under c es a = None" for c e es
    using balance_under_create [of c e es] that by (simp add: balance_under_def split: if_splits)
  have "recovered_balance (wal_entries (s_walLog s)) a = None"
    using explainedD(4) [OF assms(1), of a] new by simp
  then have "explained (settle t r) s'"
    using explainedD(4) [OF assms(1)] none assms(4) settle_absent [OF fresh]
    by (intro explained_committed [OF assms(1) w seen _ _ ok]) (auto simp: es l t_def)
  then show ?thesis by (simp add: settle_absent [OF fresh])
qed

lemma explained_cong:
  assumes "explained r s" "s_walLog s' = s_walLog s" "s_ledger s' = s_ledger s" "s_seenTxns s' = s_seenTxns s"
  shows "explained r s'"
  using assms by (simp add: explained_def holds_ok_def)

lemma checkpoint_explained:
  assumes "explained r s" "ShardServer_Checkpoint ks ks' s = (s', e)"
  shows "explained r s'"
proof -
  note log = Checkpoint_log [OF explainedD(1) [OF assms(1)] assms(2)]
  show ?thesis
  proof (cases "s_walLog s' = s_walLog s")
    case True
    then show ?thesis using explained_cong [OF assms(1)] log by simp
  next
    case False
    then obtain n where w: "s_walLog s' = fold wal_step [WCheckpoint n] (s_walLog s)" using log by auto
    show ?thesis by (rule explained_records [OF assms(1) w]) (use log in \<open>auto simp: moves_money_def\<close>)
  qed
qed

lemma rejected_explained:
  assumes "explained r s" "ShardServer_PrepareTransaction t op a x s = (s', Some err)"
  shows "explained r s'"
proof (cases "s_seenTxns s t")
  case None
  have "t \<notin> fst ` set r" using explainedD(5) [OF assms(1), of t] None by simp
  then show ?thesis
    using Prepare_log(2) [OF explainedD(1) [OF assms(1)] None assms(2)]
    by (intro explained_aborted [OF assms(1), of _ "[]" t]) auto
next
  case (Some st)
  with assms show ?thesis using Prepare_seen(1) [OF Some, of op a x] by simp
qed

lemma abort_late_explained:
  assumes "explained r s" "s_seenTxns s t \<noteq> Some StatePrepared" "ShardServer_AbortTransaction t op a x s = (s', e)"
  shows "explained r s'"
proof (cases "s_seenTxns s t = Some StateAborted")
  case True
  then show ?thesis using assms by (simp add: Abort_aborted)
next
  case False
  have "t \<notin> fst ` set r" using explainedD(5) [OF assms(1), of t] assms(2) by simp
  then show ?thesis
    using Abort_log [OF explainedD(1) [OF assms(1)] False assms(3)] assms(2)
    by (intro explained_aborted [OF assms(1), of _ "[]" t]) auto
qed

lemmas shard_step_induct = shard_step.induct [split_format (complete)]

lemma step_explained: "shard_step (r, s) (r', s') \<Longrightarrow> explained r s \<Longrightarrow> explained r' s'"
proof (induction rule: shard_step_induct)
  case (prepare_again s t op a x s' e r)
  then show ?case using Prepare_seen(1) [of s t _ op a x] by auto
next
  case (commit_late s t op a x s' e r)
  then show ?case by (auto simp: Commit_committed Commit_aborted)
next
  case (create_again s a bal s' e r)
  then show ?case by (auto simp: ShardServer_CreateAccountWithWAL_def Ledger_AccountExists_def)
next
  case (attach_store r s store)
  then show ?case by (rule explained_cong) (simp_all add: ShardServer_SetStorage_def)
next
  case (attach_role r s role)
  then show ?case by (rule explained_cong) (simp_all add: ShardServer_SetRole_def)
next
  case (attach_replicator r s p)
  then show ?case by (rule explained_cong) (simp_all add: ShardServer_SetReplicator_def)
next
  case (attach_partitions r s mgr mapper)
  then show ?case by (rule explained_cong) (simp_all add: ShardServer_SetPartitioning_def)
qed (blast intro: execute_explained execute_failed_explained prepare_explained rejected_explained commit_explained
    commit_credit_explained commit_failed_explained abort_explained abort_late_explained create_explained checkpoint_explained)+

section \<open>Restarting\<close>

lemma mark_all_apply: "mark_all st ts m t = (if t \<in> set ts then Some st else m t)"
  by (induction ts arbitrary: m) auto

lemma Recover_seen:
  assumes "WAL_ReadAll w = Inr es" "Recover ks ks' w NewLedger = Inr (res, l)" "visits ks (buildFinalStateMap es)"
  shows "rebuild_seen res t = (if committed es t then Some StateCommitted else if marked OpAborted es t then Some StateAborted
    else if marked OpPrepared es t then Some StatePrepared else None)"
proof (cases "es = []")
  case True
  with assms show ?thesis by (auto simp: Recover_def rebuild_seen_def mark_all_apply)
next
  case False
  have mem: "committed es t \<Longrightarrow> t \<in> set ks" "marked OpAborted es t \<Longrightarrow> t \<in> set ks"
    using assms(3) final_state_committed [of es t] final_state_aborted [of es t] by (auto simp: visits_def)
  have res: "rr_PendingTxns res = rp_pending (replay_entries es NewLedger)"
    "rr_CommittedTxns res = filter (\<lambda>t. buildFinalStateMap es t = Some StateCommitted) ks"
    "rr_AbortedTxns res = filter (\<lambda>t. buildFinalStateMap es t = Some StateAborted) ks"
    using assms(1,2) False by (auto simp: Recover_def Let_def)
  have "t \<in> set (rr_PendingTxns res) \<longleftrightarrow> marked OpPrepared es t \<and> \<not> committed es t \<and> \<not> marked OpAborted es t"
    unfolding res replay_entries_def replay_pending final_state_committed final_state_aborted
    by (auto simp: marked_def)
  then show ?thesis
    using mem by (auto simp: rebuild_seen_def mark_all_apply res(2,3) final_state_committed final_state_aborted)
qed

lemma boot_explained:
  assumes "wal_healthy w" "Recover ks ks' w NewLedger = Inr (res, l)"
    and "visits ks (buildFinalStateMap (wal_entries w))" "visits ks' (rp_deltas (replay_entries (wal_entries w) NewLedger))"
    and "\<forall>e \<in> set (wal_entries w). e_OpType e = OpPrepared \<longrightarrow> decided (e_TxnID e) (wal_entries w)"
    and "s_walLog s = w" "s_ledger s = l" "s_seenTxns s = rebuild_seen res"
  shows "explained [] s" "l_balances l = recovered_balance (wal_entries w)"
proof -
  note read = ReadAll_healthy [OF assms(1)]
  show bal: "l_balances l = recovered_balance (wal_entries w)"
    by (rule Recover_closed_form [OF read assms(4,2)])
  note seen = Recover_seen [OF read assms(2,3)]
  have prep: "marked OpPrepared (wal_entries w) t \<Longrightarrow> decided t (wal_entries w)" for t
    using assms(5) by (auto simp: marked_def)
  have no_prep: "s_seenTxns s t \<noteq> Some StatePrepared" "s_seenTxns s t \<noteq> Some StatePending" for t
    using prep [of t] by (auto simp: assms(8) seen decided_def)
  show "explained [] s"
  proof (rule explainedI)
    fix t
    show "s_seenTxns s t = Some StatePrepared \<longleftrightarrow> t \<in> fst ` set []" using no_prep by simp
    show "s_seenTxns s t \<noteq> Some StatePending" by (rule no_prep)
  next
    show "marks_ok (s_seenTxns s) (wal_entries (s_walLog s))"
      by (auto simp: marks_ok_def decided_def assms(6,8) seen split: if_splits)
  next
    show "recovered_balance (wal_entries (s_walLog s)) a = map_option (\<lambda>b. b + held [] a) (l_balances (s_ledger s) a)" for a
      by (simp add: assms(6,7) bal held_def option.map_ident)
  qed (simp_all add: assms(1,6) holds_ok_def)
qed

text \<open>The first start: the initial balances are logged under one committed transaction.\<close>

definition init_ops :: "string list \<Rightarrow> (string \<rightharpoonup> int64) \<Rightarrow> wal_op list" where
  "init_ops as m = map (\<lambda>a. WAppend ''__init__'' OpCreateAccount a (the (m a))) (filter (\<lambda>a. m a \<noteq> None) as)"

lemma log_initial_healthy:
  "wal_healthy w \<Longrightarrow> log_initial as m w = (fold wal_step (init_ops as m) w, None)"
proof (induction as arbitrary: w)
  case (Cons a as)
  then show ?case
    by (auto simp: init_ops_def healthy_writes step_healthy(1) split: option.splits)
qed (simp add: init_ops_def)

lemma init_log_healthy:
  assumes "wal_healthy w" "w_nextLogID w = 0" "ks0 \<noteq> []"
  shows "init_log ks0 m w = Inr (fold wal_step (init_ops ks0 m @ [WCommitted ''__init__'']) w)"
  using assms log_initial_healthy [OF assms(1), of ks0 m] fold_healthy(1) [OF assms(1), of "init_ops ks0 m"]
  by (simp add: init_log_def WAL_NextLogID_def healthy_writes)

lemma NewShardServer_boot:
  assumes "NewShardServer ks0 ks1 ks2 shardID True ls [] m = Inr s"
    and "WAL_Open True ls [] = Inr w0" "init_log ks0 m w0 = Inr w"
  shows "s_walLog s = w \<and> (\<exists>res. Recover ks1 ks2 w NewLedger = Inr (res, s_ledger s) \<and> s_seenTxns s = rebuild_seen res)"
  using assms by (auto simp: NewShardServer_def split: sum.splits)

lemma Open_healthy:
  assumes "readable_lines ls"
  obtains w where "WAL_Open True ls [] = Inr w" "wal_healthy w" "wal_entries w = line_entries ls"
    "w_nextLogID w = (if line_entries ls = [] then 0 else e_LogID (last (line_entries ls)) + 1)"
proof -
  have "TornLine \<notin> set ls" using assms by (auto simp: list_all_iff)
  from find_tail_rev [OF this] assms show ?thesis
    by (intro that) (auto simp: WAL_Open_def WAL_findNextLogID_def wal_healthy_def wal_entries_def)
qed

lemma init_balances:
  assumes "distinct as" "c ''__init__''"
  shows "balance_under c (op_entries (init_ops as m) n) = m |` set as"
  using assms(1)
proof (induction as rule: rev_induct)
  case (snoc a as)
  let ?es = "op_entries (init_ops as m) n"
  have "moves c a ?es = []"
    by (auto simp: moves_def filter_empty_conv init_ops_def dest!: op_entries_set)
  then have "balance_under c (?es @ [op_entry (WAppend ''__init__'' OpCreateAccount a x) k]) = (balance_under c ?es)(a \<mapsto> x)" for x k
    using assms(2) balance_under_create [of c "op_entry (WAppend ''__init__'' OpCreateAccount a x) k" ?es] by simp
  moreover have "init_ops (as @ [a]) m = init_ops as m @ (case m a of None \<Rightarrow> [] | Some x \<Rightarrow> [WAppend ''__init__'' OpCreateAccount a x])"
    by (auto simp: init_ops_def split: option.splits)
  ultimately show ?case
    using snoc by (auto simp: op_entries_snoc restrict_map_def fun_eq_iff split: option.splits simp del: op_entry.simps)
qed (simp add: init_ops_def)

lemma start_explained:
  assumes "NewShardServer ks0 ks1 ks2 shardID True [] [] m = Inr s" "visits ks0 m"
    and "visits ks1 (buildFinalStateMap (wal_entries (s_walLog s)))"
    and "visits ks2 (rp_deltas (replay_entries (wal_entries (s_walLog s)) NewLedger))"
  shows "explained [] s \<and> l_balances (s_ledger s) = m"
proof -
  let ?i = "''__init__''"
  obtain w0 where w0: "WAL_Open True [] [] = Inr w0" "wal_healthy w0" "wal_entries w0 = []" "w_nextLogID w0 = 0"
    using Open_healthy [of "[]"] by auto
  define ps where "ps = (if ks0 = [] then [] else init_ops ks0 m @ [WCommitted ?i])"
  define w where "w = fold wal_step ps w0"
  have init: "init_log ks0 m w0 = Inr w"
    by (cases "ks0 = []") (simp_all add: init_log_healthy [OF w0(2,4)] w_def ps_def, simp add: init_log_def)
  note boot = NewShardServer_boot [OF assms(1) w0(1) init]
  then obtain res where res: "Recover ks1 ks2 w NewLedger = Inr (res, s_ledger s)" "s_seenTxns s = rebuild_seen res"
    and ws: "s_walLog s = w" by auto
  have h: "wal_healthy w" "wal_entries w = op_entries ps 0"
    using fold_healthy [OF w0(2), of ps] w0(3,4) by (simp_all add: w_def)
  have fs: "e_TxnID e = ?i \<and> e_OpType e = OpCreateAccount" if "e \<in> set (op_entries (init_ops ks0 m) n)" for e n
    using op_entries_set [OF that] by (auto simp: init_ops_def)
  have dec: "\<forall>e \<in> set (wal_entries w). decided (e_TxnID e) (wal_entries w)"
    using fs [of _ 0] by (auto simp: h(2) ps_def op_entries_snoc decided_def)
  note ex = boot_explained [OF h(1) res(1) assms(3) [unfolded ws] assms(4) [unfolded ws] _ ws refl res(2)]
  have "recovered_balance (wal_entries w) = m"
  proof (cases "ks0 = []")
    case True
    then have "dom m = {}" using assms(2) by (auto simp: visits_def)
    with True show ?thesis by (simp add: h(2) ps_def recovered_balance_def)
  next
    case False
    let ?c = "\<lambda>u. u = ?i \<or> committed [] u"
    have "recovered_balance (wal_entries w) = balance_under ?c (op_entries (init_ops ks0 m) 0)"
      using recovered_commit(1) [of ?i "[]" "op_entries (init_ops ks0 m) 0" "op_entry (WCommitted ?i) (of_nat (length (init_ops ks0 m)))"]
        fs [of _ 0] False by (simp add: h(2) ps_def op_entries_snoc unlogged_def)
    also have "\<dots> = m |` set ks0"
      by (rule init_balances) (use assms(2) in \<open>auto simp: visits_def\<close>)
    finally show ?thesis using assms(2) by (auto simp: visits_def restrict_map_def fun_eq_iff domIff)
  qed
  with ex dec show ?thesis by simp
qed

text \<open>A later start: the log is not written, and the server is what recovery makes of it.\<close>

definition restarts :: "string list \<Rightarrow> string list \<Rightarrow> string list \<Rightarrow> (string \<rightharpoonup> int64) \<Rightarrow> ShardServer \<Rightarrow> bool" where
  "restarts ks0 ks1 ks2 m s \<longleftrightarrow>
     (ks0 = [] \<or> WAL_findNextLogID (w_lines (s_walLog s)) \<noteq> Inr 0)
     \<and> visits ks1 (buildFinalStateMap (wal_entries (s_walLog s)))
     \<and> visits ks2 (rp_deltas (replay_entries (wal_entries (s_walLog s)) NewLedger))"

lemma restart_boot:
  assumes "wal_healthy (s_walLog s)" "ks0 = [] \<or> WAL_findNextLogID (w_lines (s_walLog s)) \<noteq> Inr 0"
  obtains s' res where "NewShardServer ks0 ks1 ks2 shardID True (w_lines (s_walLog s)) [] m = Inr s'"
    "wal_healthy (s_walLog s')" "wal_entries (s_walLog s') = wal_entries (s_walLog s)"
    "Recover ks1 ks2 (s_walLog s') NewLedger = Inr (res, s_ledger s')" "s_seenTxns s' = rebuild_seen res"
proof -
  have torn: "readable_lines (w_lines (s_walLog s))" using assms(1) by (simp add: wal_healthy_def)
  obtain w where w: "WAL_Open True (w_lines (s_walLog s)) [] = Inr w" "wal_healthy w"
    "wal_entries w = wal_entries (s_walLog s)"
    by (rule Open_healthy [OF torn]) (simp_all add: wal_entries_def)
  have "init_log ks0 m w = Inr w"
    using w(1) assms(2) by (auto simp: init_log_def WAL_Open_def WAL_NextLogID_def split: sum.splits)
  moreover obtain res l where "Recover ks1 ks2 w NewLedger = Inr (res, l)"
    using Recover_total [OF ReadAll_healthy [OF w(2)]] by blast
  ultimately show ?thesis using w by (intro that) (auto simp: NewShardServer_def)
qed

text \<open>A late ABORT has marked a committed transaction; the table then says ABORTED, and recovery that it committed.\<close>

definition overruled :: "WAL \<Rightarrow> string \<Rightarrow> bool" where
  "overruled w t \<longleftrightarrow> committed (wal_entries w) t \<and> marked OpAborted (wal_entries w) t"

lemma restart_balances:
  assumes "explained r s" "restarts ks0 ks1 ks2 m s"
    and "NewShardServer ks0 ks1 ks2 shardID True (w_lines (s_walLog s)) [] m = Inr s'"
  shows "l_balances (s_ledger s') a = map_option (\<lambda>b. b + held r a) (l_balances (s_ledger s) a)"
    and "s_seenTxns s' t = None \<longleftrightarrow> s_seenTxns s t = None"
    and "s_seenTxns s' t = Some StatePrepared \<longleftrightarrow> s_seenTxns s t = Some StatePrepared"
    and "s_seenTxns s' t = (if overruled (s_walLog s) t then Some StateCommitted else s_seenTxns s t)"
    and "r = [] \<Longrightarrow> explained [] s'"
proof -
  have cond: "ks0 = [] \<or> WAL_findNextLogID (w_lines (s_walLog s)) \<noteq> Inr 0"
    "visits ks1 (buildFinalStateMap (wal_entries (s_walLog s)))"
    "visits ks2 (rp_deltas (replay_entries (wal_entries (s_walLog s)) NewLedger))"
    using assms(2) by (auto simp: restarts_def)
  obtain res where b: "wal_healthy (s_walLog s')" "wal_entries (s_walLog s') = wal_entries (s_walLog s)"
    "Recover ks1 ks2 (s_walLog s') NewLedger = Inr (res, s_ledger s')" "s_seenTxns s' = rebuild_seen res"
    using restart_boot [OF explainedD(1) [OF assms(1)] cond(1), of ks1 ks2 shardID m] assms(3) by auto
  note read = ReadAll_healthy [OF b(1), unfolded b(2)]
  show "l_balances (s_ledger s') a = map_option (\<lambda>b. b + held r a) (l_balances (s_ledger s) a)"
    using Recover_closed_form [OF read cond(3) b(3)] explainedD(4) [OF assms(1)] by simp
  note seen = Recover_seen [OF read b(3) cond(2), folded b(4)]
  note marks = explainedD(8) [OF assms(1), unfolded marks_ok_def]
  have at: "s_seenTxns s t = Some StateCommitted \<or> s_seenTxns s t = Some StateAborted \<longleftrightarrow> decided t (wal_entries (s_walLog s))"
    "marked OpPrepared (wal_entries (s_walLog s)) t \<Longrightarrow> s_seenTxns s t \<noteq> None"
    "s_seenTxns s t = Some StatePrepared \<Longrightarrow> marked OpPrepared (wal_entries (s_walLog s)) t"
    "s_seenTxns s t = Some StateCommitted \<Longrightarrow> committed (wal_entries (s_walLog s)) t"
    "s_seenTxns s t = Some StateAborted \<Longrightarrow> marked OpAborted (wal_entries (s_walLog s)) t" for t
    using marks by simp_all
  have full: "s_seenTxns s t = None \<or> s_seenTxns s t = Some StatePrepared \<or> s_seenTxns s t = Some StateCommitted
      \<or> s_seenTxns s t = Some StateAborted" for t
    using explainedD(7) [OF assms(1), of t] by (cases "s_seenTxns s t"; cases "the (s_seenTxns s t)") simp_all
  show "s_seenTxns s' t = None \<longleftrightarrow> s_seenTxns s t = None"
    "s_seenTxns s' t = Some StatePrepared \<longleftrightarrow> s_seenTxns s t = Some StatePrepared"
    using at [of t] full [of t] unfolding seen decided_def by (auto split: if_splits)
  show "s_seenTxns s' t = (if overruled (s_walLog s) t then Some StateCommitted else s_seenTxns s t)"
    using at [of t] full [of t] unfolding seen decided_def overruled_def by (elim disjE) auto
  assume r: "r = []"
  have "decided (e_TxnID e) (wal_entries (s_walLog s))"
    if "e \<in> set (wal_entries (s_walLog s))" "e_OpType e = OpPrepared" for e
  proof -
    have "s_seenTxns s (e_TxnID e) \<noteq> Some StatePrepared"
      using explainedD(5) [OF assms(1)] r by simp
    moreover have "s_seenTxns s (e_TxnID e) \<noteq> None"
      using at(2) [of "e_TxnID e"] that by (auto simp: marked_def)
    ultimately show ?thesis using full [of "e_TxnID e"] at(1) [of "e_TxnID e"] by auto
  qed
  then show "explained [] s'"
    by (intro boot_explained(1) [OF b(1,3) _ _ _ refl refl b(4)]) (use cond b(2) in auto)
qed

section \<open>Whole runs\<close>

text \<open>A shard starts on an empty file, serves requests, and is restarted at moments when nothing is
  prepared.\<close>

inductive shard_run :: "holds \<Rightarrow> ShardServer \<Rightarrow> bool" where
  start: "NewShardServer ks0 ks1 ks2 shardID True [] [] m = Inr s \<Longrightarrow> visits ks0 m \<Longrightarrow>
    visits ks1 (buildFinalStateMap (wal_entries (s_walLog s))) \<Longrightarrow>
    visits ks2 (rp_deltas (replay_entries (wal_entries (s_walLog s)) NewLedger)) \<Longrightarrow> shard_run [] s"
| serve: "shard_run r s \<Longrightarrow> shard_step (r, s) (r', s') \<Longrightarrow> shard_run r' s'"
| restart: "shard_run [] s \<Longrightarrow> restarts ks0 ks1 ks2 m s \<Longrightarrow>
    NewShardServer ks0 ks1 ks2 shardID True (w_lines (s_walLog s)) [] m = Inr s' \<Longrightarrow> shard_run [] s'"

lemma run_explained: "shard_run r s \<Longrightarrow> explained r s"
proof (induction rule: shard_run.induct)
  case (start ks0 ks1 ks2 shardID m s)
  then show ?case using start_explained by blast
next
  case (serve r s r' s')
  then show ?case using step_explained by blast
next
  case (restart s ks0 ks1 ks2 m shardID s')
  then show ?case using restart_balances(5) by blast
qed

subsection \<open>An example\<close>

definition example_boot :: ShardServer where
  "example_boot = (example_shard [])\<lparr>s_ledger := NewLedger, s_role := ''''\<rparr>"

definition example_funded :: ShardServer where
  "example_funded = fst (ShardServer_CreateAccountWithWAL ''alice'' 100 example_boot)"

definition example_prepared :: ShardServer where
  "example_prepared = fst (ShardServer_PrepareTransaction ''t1'' OpDebit ''alice'' 30 example_funded)"

lemmas crash_eval = example_boot_def example_funded_def example_prepared_def shard_eval NewLedger_def
  ShardServer_CreateAccountWithWAL_def create_txn_def Ledger_CreateAccount_def

lemma example_balances:
  "l_balances (s_ledger example_funded) ''alice'' = Some 100" "l_balances (s_ledger example_prepared) ''alice'' = Some 70"
  "s_seenTxns example_funded ''t1'' = None"
  by (simp_all add: crash_eval)

lemma example_runs: "shard_run [] example_funded" "shard_run [(''t1'', OpDebit, ''alice'', 30)] example_prepared"
proof -
  have "NewShardServer [] [] [] ''shard1'' True [] [] Map.empty = Inr example_boot"
    by (simp add: NewShardServer_def WAL_Open_def WAL_findNextLogID_def init_log_def Recover_def WAL_ReadAll_def
        rebuild_seen_def example_boot_def example_shard_def)
  then have boot: "shard_run [] example_boot"
    by (rule start) (simp_all add: visits_def example_boot_def example_shard_def wal_entries_def replay_entries_def)
  have "ShardServer_CreateAccountWithWAL ''alice'' 100 example_boot = (example_funded, None)"
    "s_seenTxns example_boot (create_txn ''alice'') = None" "unlogged (create_txn ''alice'') (wal_entries (s_walLog example_boot))"
    by (simp_all add: crash_eval unlogged_def wal_entries_def marked_def)
  then show funded: "shard_run [] example_funded" by (intro serve [OF boot] shard_step.create)
  have "ShardServer_PrepareTransaction ''t1'' OpDebit ''alice'' 30 example_funded = (example_prepared, None)"
    by (simp add: crash_eval)
  then show "shard_run [(''t1'', OpDebit, ''alice'', 30)] example_prepared"
    by (intro serve [OF funded] shard_step.prepare_yes [OF example_balances(3)]) simp_all
qed

lemma orders_exist:
  obtains ks1 ks2 where "visits ks1 (buildFinalStateMap es)" "visits ks2 (rp_deltas (replay_entries es NewLedger))"
proof -
  have "finite (dom (buildFinalStateMap es))" by (rule finite_subset [OF final_state_dom]) simp
  moreover have "dom (rp_deltas (replay_entries es NewLedger)) \<subseteq> e_AccountID ` set es"
  proof
    fix a
    assume "a \<in> dom (rp_deltas (replay_entries es NewLedger))"
    then have "moves (\<lambda>t. buildFinalStateMap es t = Some StateCommitted) a es \<noteq> []"
      using replay_fold(2) [of "buildFinalStateMap es" NewLedger es a, folded replay_entries_def] by (auto split: if_splits)
    then obtain e where "e \<in> set es" "e_AccountID e = a" by (auto simp: moves_def filter_empty_conv)
    then show "a \<in> e_AccountID ` set es" by blast
  qed
  then have "finite (dom (rp_deltas (replay_entries es NewLedger)))" by (rule finite_subset) simp
  ultimately obtain ks1 ks2 where "visits ks1 (buildFinalStateMap es)" "visits ks2 (rp_deltas (replay_entries es NewLedger))"
    by (meson visits_exists)
  then show ?thesis by (rule that)
qed

section \<open>Properties\<close>



text \<open>
  A restart is invisible when nothing is prepared. The server starts from the file the crashed
  one left, has exactly its balances, knows exactly the transactions it knew, so that none is
  executed a second time, and knows them in the same state, unless a late ABORT had overruled a commit.
\<close>

lemma restart_restores:
  assumes "shard_run [] s" "restarts ks0 ks1 ks2 m s"
  shows "\<exists>s'. NewShardServer ks0 ks1 ks2 shardID True (w_lines (s_walLog s)) [] m = Inr s'
    \<and> s_ledger s' = s_ledger s \<and> dom (s_seenTxns s') = dom (s_seenTxns s)
    \<and> (\<forall>t. s_seenTxns s' t = (if overruled (s_walLog s) t then Some StateCommitted else s_seenTxns s t))"
proof -
  note ex = run_explained [OF assms(1)]
  obtain s' where s': "NewShardServer ks0 ks1 ks2 shardID True (w_lines (s_walLog s)) [] m = Inr s'"
    using restart_boot [OF explainedD(1) [OF ex], of ks0 ks1 ks2 shardID m] assms(2) unfolding restarts_def by blast
  note rb = restart_balances [OF ex assms(2) s']
  have "l_balances (s_ledger s') = l_balances (s_ledger s)"
    using rb(1) by (auto simp: held_def option.map_ident)
  moreover have "dom (s_seenTxns s') = dom (s_seenTxns s)" unfolding dom_def using rb(2) by simp
  ultimately show ?thesis using s' rb(4) by (intro exI [of _ s']) simp
qed

theorem restart_restores_witness:
  "\<exists>ks1 ks2 s'. NewShardServer [] ks1 ks2 ''shard1'' True (w_lines (s_walLog example_funded)) [] Map.empty = Inr s'
    \<and> l_balances (s_ledger s') ''alice'' = Some 100"
proof -
  obtain ks1 ks2 where "visits ks1 (buildFinalStateMap (wal_entries (s_walLog example_funded)))"
    "visits ks2 (rp_deltas (replay_entries (wal_entries (s_walLog example_funded)) NewLedger))"
    by (rule orders_exist)
  then have "restarts [] ks1 ks2 Map.empty example_funded" by (simp add: restarts_def)
  from restart_restores [OF example_runs(1) this, of "''shard1''"] example_balances(1) show ?thesis by metis
qed

text \<open>
  C37: a crash between PREPARE and the decision gives the reservation away. The PREPARED record is
  not replayed, so after the restart the reserved amount is back in the balance while the
  transaction still counts as prepared: an ABORT then credits it once more, out of nothing, and
  a COMMIT leaves it with the account although the transfer is committed.
\<close>

theorem crash_forgets_reservation:
  assumes "shard_run [(t, OpDebit, a, x)] s" "l_balances (s_ledger s) a = Some b" "restarts ks0 ks1 ks2 m s"
    and "NewShardServer ks0 ks1 ks2 shardID True (w_lines (s_walLog s)) [] m = Inr s'"
  shows "l_balances (s_ledger s') a = Some (b + x) \<and> s_seenTxns s' t = Some StatePrepared
    \<and> l_balances (s_ledger (fst (ShardServer_AbortTransaction t OpDebit a x s'))) a = Some (b + x + x)
    \<and> l_balances (s_ledger (fst (ShardServer_CommitTransaction t OpDebit a x s'))) a = Some (b + x)"
proof -
  note ex = run_explained [OF assms(1)]
  note rb = restart_balances [OF ex assms(3,4)]
  have bal: "l_balances (s_ledger s') a = Some (b + x)"
    using rb(1) [of a] assms(2) by (simp add: held_def hold_on_def)
  have prep: "s_seenTxns s' t = Some StatePrepared"
    using rb(3) [of t] explainedD(5) [OF ex, of t] by simp
  have pos: "0 <s x" using explainedD(3) [OF ex] by (simp add: holds_ok_def)
  obtain s1 r1 where ab: "ShardServer_AbortTransaction t OpDebit a x s' = (s1, r1)" by force
  have "l_balances (s_ledger s1) a = Some (b + x + x)"
    using Abort_effect(1) [OF ab] prep bal pos
    by (simp add: release_def Ledger_AccountExists_def Ledger_RollbackDebit_def signed_order map_plus_apply)
  moreover obtain s2 r2 where co: "ShardServer_CommitTransaction t OpDebit a x s' = (s2, r2)" by force
  have "s_ledger s2 = s_ledger s'"
    using Commit_effect [OF co] prep by (auto simp: deliver_def)
  ultimately show ?thesis using bal prep ab co by simp
qed

theorem crash_forgets_reservation_witness:
  "\<exists>ks1 ks2 s'. NewShardServer [] ks1 ks2 ''shard1'' True (w_lines (s_walLog example_prepared)) [] Map.empty = Inr s'
    \<and> l_balances (s_ledger (fst (ShardServer_AbortTransaction ''t1'' OpDebit ''alice'' 30 s'))) ''alice'' = Some 130"
proof -
  obtain ks1 ks2 where "visits ks1 (buildFinalStateMap (wal_entries (s_walLog example_prepared)))"
    "visits ks2 (rp_deltas (replay_entries (wal_entries (s_walLog example_prepared)) NewLedger))"
    by (rule orders_exist)
  then have rs: "restarts [] ks1 ks2 Map.empty example_prepared" by (simp add: restarts_def)
  obtain s' where s': "NewShardServer [] ks1 ks2 ''shard1'' True (w_lines (s_walLog example_prepared)) [] Map.empty = Inr s'"
    using restart_boot [OF explainedD(1) [OF run_explained [OF example_runs(2)]], of "[]"] by blast
  from crash_forgets_reservation [OF example_runs(2) example_balances(2) rs s'] s' show ?thesis by auto
qed

text \<open>A failed attempt of a transfer and a retry that commits: the records of both, and one transfer in the ledger.\<close>

lemma map_plus_swap: "map_plus (map_plus m a x) b y = map_plus (map_plus m b y) a (x :: int64)"
  by (rule ext) (auto simp: map_plus_apply algebra_simps)

lemma retry_log:
  assumes "explained r s" "ShardServer_ExecuteSingleShard txn s = (s1, Inl err)"
    and "ShardServer_ExecuteSingleShard txn s1 = (s2, Inr res)" "s_seenTxns s2 (t_TxnID txn) = Some StateCommitted"
  defines "D \<equiv> WAppend (t_TxnID txn) OpDebit (t_Source txn) (t_Amount txn)"
    and "C \<equiv> WAppend (t_TxnID txn) OpCredit (t_Destination txn) (t_Amount txn)"
  obtains ps where "ps = [D] \<or> ps = [D, C]" "s_walLog s1 = fold wal_step ps (s_walLog s)"
    "s_walLog s2 = fold wal_step ((ps @ [D, C]) @ [WCommitted (t_TxnID txn)]) (s_walLog s)"
    "l_balances (s_ledger s2) = map_plus (map_plus (l_balances (s_ledger s)) (t_Source txn) (- t_Amount txn)) (t_Destination txn) (t_Amount txn)"
proof -
  note log1 = Execute_failed_log [OF explainedD(1) [OF assms(1)] assms(2), folded D_def C_def]
  then obtain ps where ps: "s_walLog s1 = fold wal_step ps (s_walLog s)" "ps = [D] \<or> ps = [D, C]" by blast
  have "s_seenTxns s1 (t_TxnID txn) = None" using log1 by simp
  note log2 = Execute_log [OF explainedD(1) [OF execute_failed_explained [OF assms(1,2)]] this assms(3), folded D_def C_def]
  have w2: "s_walLog s2 = fold wal_step ([D, C] @ [WCommitted (t_TxnID txn)]) (s_walLog s1)"
    and tr: "Ledger_ApplyTransfer (t_Source txn) (t_Destination txn) (t_Amount txn) (s_ledger s1) = (s_ledger s2, None)"
    using log2 assms(4) by auto
  show ?thesis
    by (rule that [OF ps(2,1)]) (use w2 ps(1) ApplyTransfer_plus(1) [OF tr] log1 in simp_all)
qed

lemma recovered_attempts:
  fixes t src dst x
  defines "D \<equiv> WAppend t OpDebit src x" and "C \<equiv> WAppend t OpCredit dst x"
  assumes "unlogged t es" "ps = [D] \<or> ps = [D, C]"
  shows "recovered_balance (es @ op_entries ((ps @ [D, C]) @ [WCommitted t]) n) =
    (let once = map_plus (map_plus (recovered_balance es) src (- x)) dst x
     in if ps = [D] then map_plus once src (- x) else map_plus (map_plus once src (- x)) dst x)"
proof -
  define fs m where "fs = op_entries (ps @ [D, C]) n" and "m = op_entry (WCommitted t) (n + of_nat (length (ps @ [D, C])))"
  have fs: "e_TxnID e = t \<and> e_OpType e \<noteq> OpCommitted" if "e \<in> set fs" for e
    using op_entries_set [OF that [unfolded fs_def]] assms(4) by (auto simp: D_def C_def)
  define c where "c = (\<lambda>u. u = t \<or> committed es u)"
  have moves: "balance_under c (us @ op_entries [D] k) = map_plus (balance_under c us) src (- x)"
    "balance_under c (us @ op_entries [D, C] k) = map_plus (map_plus (balance_under c us) src (- x)) dst x" for us k
    using balance_under_move [of c "op_entry C (k + 1)" "us @ [op_entry D k]"] balance_under_move [of c "op_entry D k" us]
    by (simp_all add: D_def C_def signed_amount_def c_def)
  note rc = recovered_commit [OF assms(3) fs, of fs m, folded c_def]
  have split: "op_entries (ps @ [D, C]) n = op_entries ps n @ op_entries [D, C] (n + of_nat (length ps))"
    by (induction ps arbitrary: n) (simp_all add: algebra_simps)
  have "recovered_balance (es @ fs @ [m]) = map_plus (map_plus (balance_under c (es @ op_entries ps n)) src (- x)) dst x"
    using rc(1) moves(2) [of "es @ op_entries ps n"] by (simp add: m_def fs_def split)
  moreover have "balance_under c es = recovered_balance es" using rc(2) by (simp add: m_def)
  moreover have "es @ op_entries ((ps @ [D, C]) @ [WCommitted t]) n = es @ fs @ [m]"
    unfolding op_entries_snoc fs_def m_def by simp
  ultimately show ?thesis
    using assms(4) moves(1) [of es n] moves(2) [of es n] map_plus_swap [of _ dst x src "- x"]
    by (auto simp: Let_def)
qed

text \<open>
  C38: a retry revives the records of a failed attempt. On a shard with nothing prepared, a transfer that has no
  record in the log yet fails for want of a quorum, and its retry commits. The live balances have
  made the transfer once, but the commit marker now covers the records of both attempts: recovery takes the amount
  from the source once more and, when the failed attempt had also logged its CREDIT, gives it to the destination once
  more. When it had logged its DEBIT only, the amount has vanished from the shard.
\<close>

theorem retry_revives_failed_debit:
  assumes "shard_run [] s" "unlogged (t_TxnID txn) (wal_entries (s_walLog s))"
    and "ShardServer_ExecuteSingleShard txn s = (s1, Inl err)"
    and "ShardServer_ExecuteSingleShard txn s1 = (s2, Inr res)" "s_seenTxns s2 (t_TxnID txn) = Some StateCommitted"
    and "visits ks2 (rp_deltas (replay_entries (wal_entries (s_walLog s2)) NewLedger))"
  defines "src \<equiv> t_Source txn" and "dst \<equiv> t_Destination txn" and "x \<equiv> t_Amount txn"
  shows "l_balances (s_ledger s2) = map_plus (map_plus (l_balances (s_ledger s)) src (- x)) dst x
    \<and> (\<exists>rr l. Recover ks1 ks2 (s_walLog s2) NewLedger = Inr (rr, l)
      \<and> (map e_OpType (wal_entries (s_walLog s1)) = map e_OpType (wal_entries (s_walLog s)) @ [OpDebit]
          \<and> l_balances l = map_plus (l_balances (s_ledger s2)) src (- x)
        \<or> map e_OpType (wal_entries (s_walLog s1)) = map e_OpType (wal_entries (s_walLog s)) @ [OpDebit, OpCredit]
          \<and> l_balances l = map_plus (map_plus (l_balances (s_ledger s2)) src (- x)) dst x))"
proof -
  define es n where "es = wal_entries (s_walLog s)" and "n = w_nextLogID (s_walLog s)"
  note ex = run_explained [OF assms(1)]
  let ?D = "WAppend (t_TxnID txn) OpDebit src x" and ?C = "WAppend (t_TxnID txn) OpCredit dst x"
  obtain ps where ps: "ps = [?D] \<or> ps = [?D, ?C]" "s_walLog s1 = fold wal_step ps (s_walLog s)"
    "s_walLog s2 = fold wal_step ((ps @ [?D, ?C]) @ [WCommitted (t_TxnID txn)]) (s_walLog s)"
    and live: "l_balances (s_ledger s2) = map_plus (map_plus (l_balances (s_ledger s)) src (- x)) dst x"
    unfolding src_def dst_def x_def by (rule retry_log [OF ex assms(3-5)])
  note log1 = fold_healthy [OF explainedD(1) [OF ex], of ps, folded ps(2) es_def n_def]
  note log2 = fold_healthy [OF explainedD(1) [OF ex], of "(ps @ [?D, ?C]) @ [WCommitted (t_TxnID txn)]", folded ps(3) es_def n_def]
  have base: "recovered_balance es = l_balances (s_ledger s)"
    using explainedD(4) [OF ex] by (auto simp: held_def es_def option.map_ident)
  obtain rr l where r: "Recover ks1 ks2 (s_walLog s2) NewLedger = Inr (rr, l)"
    using Recover_total [OF ReadAll_healthy [OF log2(1)]] by blast
  have "l_balances l = (if ps = [?D] then map_plus (l_balances (s_ledger s2)) src (- x)
      else map_plus (map_plus (l_balances (s_ledger s2)) src (- x)) dst x)"
    using Recover_closed_form [OF ReadAll_healthy [OF log2(1)] assms(6) r]
      recovered_attempts [OF assms(2) ps(1) [folded es_def], folded es_def, of n] log2(2)
    by (simp add: Let_def base live)
  moreover have "map e_OpType (wal_entries (s_walLog s1)) = map e_OpType es @ (if ps = [?D] then [OpDebit] else [OpDebit, OpCredit])"
    using log1(2) ps(1) by auto
  ultimately show ?thesis using r live unfolding es_def by (cases "ps = [?D]") auto
qed

definition example_pair :: ShardServer where
  "example_pair = ShardServer_SetReplicator
     \<lparr>pr_shardID = ''shard1'', pr_followers = [\<lparr>fc_FollowerID = ''f1'', fc_Address = ''f1:1''\<rparr>],
      pr_quorumSize = 2, pr_acks = [[False]]\<rparr>
     (fst (ShardServer_CreateAccountWithWAL ''bob'' 50 example_funded))"

lemma example_pair_run: "shard_run [] example_pair"
proof -
  let ?s = "fst (ShardServer_CreateAccountWithWAL ''bob'' 50 example_funded)"
  have "ShardServer_CreateAccountWithWAL ''bob'' 50 example_funded = (?s, None)"
    "s_seenTxns example_funded (create_txn ''bob'') = None" "unlogged (create_txn ''bob'') (wal_entries (s_walLog example_funded))"
    by (simp_all add: crash_eval unlogged_def wal_entries_def marked_def)
  then have "shard_run [] ?s" by (intro serve [OF example_runs(1)] shard_step.create)
  then show ?thesis unfolding example_pair_def by (rule serve [OF _ shard_step.attach_replicator])
qed

theorem retry_revives_failed_debit_witness:
  "\<exists>ks2 s1 s2 rr l. ShardServer_ExecuteSingleShard (example_txn 30) example_pair = (s1, Inl (ReplicationFailed (QuorumImpossible 1 0 0)))
      \<and> ShardServer_ExecuteSingleShard (example_txn 30) s1
          = (s2, Inr \<lparr>r_TxnID = ''t1'', r_State = StateCommitted, r_Message = Text ''success''\<rparr>)
      \<and> map (l_balances (s_ledger s2)) [''alice'', ''bob''] = [Some 70, Some 80]
      \<and> Recover [] ks2 (s_walLog s2) NewLedger = Inr (rr, l) \<and> map (l_balances l) [''alice'', ''bob''] = [Some 40, Some 80]"
proof -
  define s1 where "s1 = fst (ShardServer_ExecuteSingleShard (example_txn 30) example_pair)"
  define s2 where "s2 = fst (ShardServer_ExecuteSingleShard (example_txn 30) s1)"
  note repl = PrimaryReplicator_Replicate_def next_acks_def go_int_def ShardServer_SetReplicator_def
  have first: "ShardServer_ExecuteSingleShard (example_txn 30) example_pair = (s1, Inl (ReplicationFailed (QuorumImpossible 1 0 0)))"
    by (simp add: prod_eq_iff s1_def) (simp add: example_pair_def crash_eval repl)
  have second: "ShardServer_ExecuteSingleShard (example_txn 30) s1
      = (s2, Inr \<lparr>r_TxnID = ''t1'', r_State = StateCommitted, r_Message = Text ''success''\<rparr>)"
    by (simp add: prod_eq_iff s2_def) (simp add: s1_def example_pair_def crash_eval repl)
  have live: "map (l_balances (s_ledger s2)) [''alice'', ''bob''] = [Some 70, Some 80]"
    and st: "s_seenTxns s2 (t_TxnID (example_txn 30)) = Some StateCommitted"
    by (simp_all add: s2_def s1_def example_pair_def crash_eval repl)
  have un: "unlogged (t_TxnID (example_txn 30)) (wal_entries (s_walLog example_pair))"
    and one: "length (wal_entries (s_walLog s1)) = length (wal_entries (s_walLog example_pair)) + 1"
    by (simp_all add: s1_def example_pair_def crash_eval repl unlogged_def marked_def wal_entries_def)
  obtain ks1 ks2 where v: "visits ks2 (rp_deltas (replay_entries (wal_entries (s_walLog s2)) NewLedger))"
    by (rule orders_exist)
  have no: "map e_OpType (wal_entries (s_walLog s1)) \<noteq> map e_OpType (wal_entries (s_walLog example_pair)) @ [OpDebit, OpCredit]"
    using one by (metis One_nat_def add_left_cancel length_append length_map list.size(3,4) n_not_Suc_n plus_1_eq_Suc add.commute)
  from retry_revives_failed_debit [OF example_pair_run un first second st v, of "[]"] no
  obtain rr l where r: "Recover [] ks2 (s_walLog s2) NewLedger = Inr (rr, l)"
    and l: "l_balances l = map_plus (l_balances (s_ledger s2)) (t_Source (example_txn 30)) (- t_Amount (example_txn 30))" by blast
  have "map (l_balances l) [''alice'', ''bob''] = [Some 40, Some 80]"
    using live by (simp add: l map_plus_apply example_txn_def)
  then show ?thesis
    by (intro exI [of _ ks2] exI [of _ s1] exI [of _ s2] exI [of _ rr] exI [of _ l] conjI first second live r)
qed

end
