(* ===== verification/Concurrency.thy ===== *)
theory Concurrency
  imports CrashSafety
begin

text \<open>
  Single-shard executions running at the same time (\<^verbatim>\<open>ExecuteSingleShard\<close> of
  \<^verbatim>\<open>shard/server/shard_server.go\<close>). A handler holds only the mutex of its transaction's stripe; between
  its accesses to the transaction table, the log, the replicator and the ledger, each under a lock of its
  own, other handlers run. \<open>exec_step\<close> is one such access, \<open>exec_phase\<close> where the handler stands. The
  counters and the recent history, which nothing reads back, are updated with the table.

  Uninterrupted, the steps are the function \<open>ShardServer_ExecuteSingleShard\<close>. Interleaved in any way, they
  simulate atomic transfers on the ledger, and at every moment the log explains the balances up to the
  transfers that are applied and not yet marked.
\<close>

section \<open>Model\<close>

datatype exec_outcome = Replayed | Committed | Aborted | Failed

datatype exec_phase =
    EBegin | EValidate | EReject ledger_error | ERejectMark ledger_error
  | EDebit | EReplDebit uint64 | ECredit | EReplCredit uint64 | EApply
  | EAbortMark ledger_error | EAbortState ledger_error
  | ECommitMark | ECommitState "wal_error option" | EClear shard_error
  | EDone exec_outcome "shard_error + ledger_error TransactionResult"

definition exec_reply :: "Transaction \<Rightarrow> TransactionState \<Rightarrow> ledger_error message \<Rightarrow> shard_error + ledger_error TransactionResult" where
  "exec_reply txn st msg = Inr \<lparr>r_TxnID = t_TxnID txn, r_State = st, r_Message = msg\<rparr>"

fun exec_step :: "Transaction \<Rightarrow> exec_phase \<Rightarrow> ShardServer \<Rightarrow> exec_phase \<times> ShardServer" where
  "exec_step txn EBegin s =
     (case ShardServer_beginTxn (t_TxnID txn) s of
        (s', st, False) \<Rightarrow> (EDone Replayed (exec_reply txn st (Text ''idempotent: already processed'')), s')
      | (s', _, True) \<Rightarrow> (EValidate, s'))"
| "exec_step txn EValidate s =
     (case Ledger_ValidateDebit (t_Source txn) (t_Amount txn) (s_ledger s) of
        Some err \<Rightarrow> (EReject err, s)
      | None \<Rightarrow> (EDebit, s))"
| "exec_step txn (EReject err) s =
     (let s1 = ShardServer_setTxnState (t_TxnID txn) StateAborted s
      in (ERejectMark err, s1\<lparr>s_abortedCount := s_abortedCount s1 + 1\<rparr>))"
| "exec_step txn (ERejectMark err) s =
     (EDone Aborted (exec_reply txn StateAborted (ErrorText err)), mark_aborted (t_TxnID txn) s)"
| "exec_step txn EDebit s =
     (case WAL_Append (t_TxnID txn) OpDebit (t_Source txn) (t_Amount txn) (s_walLog s) of
        (w, Inl err) \<Rightarrow> (EClear (WalDebitFailed err), s\<lparr>s_walLog := w\<rparr>)
      | (w, Inr debitLogID) \<Rightarrow> (EReplDebit debitLogID, s\<lparr>s_walLog := w\<rparr>))"
| "exec_step txn (EReplDebit debitLogID) s =
     (case ShardServer_replicate (wire_entry debitLogID (t_TxnID txn) OpDebit (t_Source txn) (t_Amount txn)) s of
        (s', Some err) \<Rightarrow> (EClear (ReplicationFailed err), s')
      | (s', None) \<Rightarrow> (ECredit, s'))"
| "exec_step txn ECredit s =
     (case WAL_Append (t_TxnID txn) OpCredit (t_Destination txn) (t_Amount txn) (s_walLog s) of
        (w, Inl err) \<Rightarrow> (EClear (WalCreditFailed err), s\<lparr>s_walLog := w\<rparr>)
      | (w, Inr creditLogID) \<Rightarrow> (EReplCredit creditLogID, s\<lparr>s_walLog := w\<rparr>))"
| "exec_step txn (EReplCredit creditLogID) s =
     (case ShardServer_replicate (wire_entry creditLogID (t_TxnID txn) OpCredit (t_Destination txn) (t_Amount txn)) s of
        (s', Some err) \<Rightarrow> (EClear (ReplicationFailed err), s')
      | (s', None) \<Rightarrow> (EApply, s'))"
| "exec_step txn EApply s =
     (case Ledger_ApplyTransfer (t_Source txn) (t_Destination txn) (t_Amount txn) (s_ledger s) of
        (l, Some err) \<Rightarrow> (EAbortMark err, s\<lparr>s_ledger := l\<rparr>)
      | (l, None) \<Rightarrow> (ECommitMark, s\<lparr>s_ledger := l\<rparr>))"
| "exec_step txn (EAbortMark err) s = (EAbortState err, mark_aborted (t_TxnID txn) s)"
| "exec_step txn (EAbortState err) s =
     (let s1 = ShardServer_setTxnState (t_TxnID txn) StateAborted s
      in (EDone Aborted (exec_reply txn StateAborted (ApplyFailedText err)), s1\<lparr>s_abortedCount := s_abortedCount s1 + 1\<rparr>))"
| "exec_step txn ECommitMark s =
     (case WAL_MarkCommitted (t_TxnID txn) (s_walLog s) of
        (w, r) \<Rightarrow> (ECommitState r, s\<lparr>s_walLog := w\<rparr>))"
| "exec_step txn (ECommitState (Some err)) s =
     (EDone Committed (Inl (WalCommitFailed err)), ShardServer_setTxnState (t_TxnID txn) StateCommitted s)"
| "exec_step txn (ECommitState None) s =
     (let s3 = ShardServer_setTxnState (t_TxnID txn) StateCommitted s;
          s4 = s3\<lparr>s_committedCount := s_committedCount s3 + 1\<rparr>;
          s5 = ShardServer_addRecentTxn
                 \<lparr>sum_TxnID = t_TxnID txn, sum_Source = t_Source txn, sum_Destination = t_Destination txn,
                  sum_Amount = t_Amount txn, sum_Type = ''single'', sum_State = StateCommitted,
                  sum_ShardID = s_shardID s4\<rparr> s4
      in (EDone Committed (exec_reply txn StateCommitted (Text ''success'')), s5))"
| "exec_step txn (EClear err) s = (EDone Failed (Inl err), ShardServer_deleteTxnState (t_TxnID txn) s)"
| "exec_step txn (EDone out r) s = (EDone out r, s)"

text \<open>A handler on its own: at most nine steps.\<close>

fun exec_run :: "nat \<Rightarrow> Transaction \<Rightarrow> exec_phase \<times> ShardServer \<Rightarrow> exec_phase \<times> ShardServer" where
  "exec_run 0 txn c = c"
| "exec_run (Suc n) txn (ph, s) = exec_run n txn (exec_step txn ph s)"

text \<open>Handlers interleaved. A handler begins only while no other one of its stripe is at work.\<close>

type_synonym thread = "Transaction \<times> exec_phase"

definition waiting :: "exec_phase \<Rightarrow> bool" where
  "waiting ph \<longleftrightarrow> ph = EBegin"

definition finished :: "exec_phase \<Rightarrow> bool" where
  "finished ph = (case ph of EDone _ _ \<Rightarrow> True | _ \<Rightarrow> False)"

definition stripe_free :: "nat \<Rightarrow> thread list \<Rightarrow> bool" where
  "stripe_free i ts \<longleftrightarrow>
     (\<forall>j < length ts. j \<noteq> i \<and> txnMutex (t_TxnID (fst (ts ! j))) = txnMutex (t_TxnID (fst (ts ! i)))
        \<longrightarrow> waiting (snd (ts ! j)) \<or> finished (snd (ts ! j)))"

inductive conc_step :: "thread list \<times> ShardServer \<Rightarrow> thread list \<times> ShardServer \<Rightarrow> bool" where
  step: "i < length ts \<Longrightarrow> ts ! i = (txn, ph) \<Longrightarrow> \<not> finished ph \<Longrightarrow> (waiting ph \<Longrightarrow> stripe_free i ts) \<Longrightarrow>
    exec_step txn ph s = (ph', s') \<Longrightarrow> conc_step (ts, s) (ts[i := (txn, ph')], s')"

inductive_cases conc_stepE: "conc_step (ts, s) c"

definition conc_start :: "Transaction list \<Rightarrow> thread list" where
  "conc_start txns = map (\<lambda>txn. (txn, EBegin)) txns"

section \<open>A handler on its own\<close>

lemma exec_run_done [simp]: "exec_run n txn (EDone out r, s) = (EDone out r, s)"
  by (induction n) simp_all

lemma exec_alone:
  assumes "ShardServer_ExecuteSingleShard txn s = (s', r)"
  shows "\<exists>out. exec_run 9 txn (EBegin, s) = (EDone out r, s')"
  using assms
  by (auto simp: ShardServer_ExecuteSingleShard_def numeral_eq_Suc Let_def exec_reply_def
      ShardServer_beginTxn_def mark_aborted_def ShardServer_setTxnState_def ShardServer_deleteTxnState_def
      split: option.splits prod.splits sum.splits)

section \<open>Atomic transfers\<close>

text \<open>
  The specification: the transfers, the ledger, and what has been decided about each transfer. A transfer
  is decided once, and its effect on the ledger, if any, is \<open>Ledger_ApplyTransfer\<close> at that moment.
\<close>

type_synonym atomic_state = "Transaction list \<times> Ledger \<times> exec_outcome option list"

definition apply_txn :: "Transaction \<Rightarrow> Ledger \<Rightarrow> Ledger \<times> ledger_error option" where
  "apply_txn txn l = Ledger_ApplyTransfer (t_Source txn) (t_Destination txn) (t_Amount txn) l"

inductive atomic_step :: "atomic_state \<Rightarrow> atomic_state \<Rightarrow> bool" where
  commit: "i < length outs \<Longrightarrow> outs ! i = None \<Longrightarrow> apply_txn (txns ! i) l = (l', None) \<Longrightarrow>
    atomic_step (txns, l, outs) (txns, l', outs[i := Some Committed])"
| abort: "i < length outs \<Longrightarrow> outs ! i = None \<Longrightarrow> apply_txn (txns ! i) l = (l', Some err) \<Longrightarrow>
    atomic_step (txns, l, outs) (txns, l, outs[i := Some Aborted])"
| drop: "i < length outs \<Longrightarrow> outs ! i = None \<Longrightarrow> out = Replayed \<or> out = Failed \<Longrightarrow>
    atomic_step (txns, l, outs) (txns, l, outs[i := Some out])"

inductive_cases atomic_stepE: "atomic_step (txns, l, outs) a"

text \<open>A system simulates another through an abstraction if each of its steps is one step of the other or
  none.\<close>

locale simulation =
  fixes concrete :: "'c \<Rightarrow> 'c \<Rightarrow> bool"
    and atomic :: "'a \<Rightarrow> 'a \<Rightarrow> bool"
    and abstr :: "'c \<Rightarrow> 'a"
  assumes simulates: "concrete c c' \<Longrightarrow> abstr c' = abstr c \<or> atomic (abstr c) (abstr c')"
begin

lemma simulates_run: "concrete\<^sup>*\<^sup>* c c' \<Longrightarrow> atomic\<^sup>*\<^sup>* (abstr c) (abstr c')"
proof (induction rule: rtranclp_induct)
  case (step c' c'')
  then show ?case using simulates [of c' c''] by auto
qed simp

lemma run_invariant:
  assumes "concrete\<^sup>*\<^sup>* c c'" "\<And>a a'. atomic a a' \<Longrightarrow> P a \<Longrightarrow> P a'" "P (abstr c)"
  shows "P (abstr c')"
  using simulates_run [OF assms(1)] by (induction rule: rtranclp_induct) (auto intro: assms(2,3))

end

fun decided_as :: "exec_phase \<Rightarrow> exec_outcome option" where
  "decided_as (EReject err) = Some Aborted"
| "decided_as (ERejectMark err) = Some Aborted"
| "decided_as (EAbortMark err) = Some Aborted"
| "decided_as (EAbortState err) = Some Aborted"
| "decided_as ECommitMark = Some Committed"
| "decided_as (ECommitState r) = Some Committed"
| "decided_as (EClear err) = Some Failed"
| "decided_as (EDone out r) = Some out"
| "decided_as _ = None"

definition abstract_state :: "thread list \<times> ShardServer \<Rightarrow> atomic_state" where
  "abstract_state c = (map fst (fst c), s_ledger (snd c), map (decided_as \<circ> snd) (fst c))"

text \<open>What one access of a handler does to the ledger and to its decision.\<close>

lemma reject_means_no_transfer:
  "Ledger_ValidateDebit src x l = Some err \<Longrightarrow> \<exists>e. Ledger_ApplyTransfer src dst x l = (l, Some e)"
  by (auto simp: Ledger_ValidateDebit_def Ledger_ApplyTransfer_def split: option.splits if_splits)

lemma mark_aborted_ledger [simp]: "s_ledger (mark_aborted t s) = s_ledger s"
  by (simp add: mark_aborted_def)

lemma exec_step_decides:
  assumes "exec_step txn ph s = (ph', s')"
  shows "s_ledger s' = s_ledger s \<and> decided_as ph' = decided_as ph
    \<or> decided_as ph = None \<and> apply_txn txn (s_ledger s) = (s_ledger s', None) \<and> decided_as ph' = Some Committed
    \<or> decided_as ph = None \<and> (\<exists>l' err. apply_txn txn (s_ledger s) = (l', Some err)) \<and> s_ledger s' = s_ledger s \<and> decided_as ph' = Some Aborted
    \<or> decided_as ph = None \<and> s_ledger s' = s_ledger s \<and> decided_as ph' \<in> {Some Replayed, Some Failed}"
proof (cases ph)
  case EValidate
  then show ?thesis
    using assms reject_means_no_transfer [of "t_Source txn" "t_Amount txn" "s_ledger s" _ "t_Destination txn"]
    by (auto simp: apply_txn_def split: option.splits)
next
  case EApply
  then show ?thesis using assms by (auto simp: apply_txn_def dest: ledger_error_frame split: prod.splits option.splits)
next
  case (ECommitState r)
  then show ?thesis using assms by (cases r) (auto simp: Let_def server_state_defs)
qed (use assms in \<open>auto simp: Let_def server_state_defs replicate_eq split: prod.splits option.splits sum.splits bool.splits\<close>)

lemma conc_simulates:
  assumes "conc_step c c'"
  shows "abstract_state c' = abstract_state c \<or> atomic_step (abstract_state c) (abstract_state c')"
  using assms
proof cases
  case (step i ts txn ph s ph' s')
  have i: "i < length ts" "map fst ts ! i = txn" "map (decided_as \<circ> snd) ts ! i = decided_as ph"
    using step by auto
  have fsts: "map fst (ts[i := (txn, ph')]) = map fst ts"
    using i by (simp add: map_update list_update_same_conv)
  have outs: "map (decided_as \<circ> snd) (ts[i := (txn, ph')]) = (map (decided_as \<circ> snd) ts)[i := decided_as ph']"
    by (simp add: map_update)
  let ?outs = "map (decided_as \<circ> snd) ts"
  have o: "i < length ?outs" "map fst ts ! i = txn" using i by simp_all
  have "s_ledger s' = s_ledger s \<and> ?outs[i := decided_as ph'] = ?outs
    \<or> atomic_step (map fst ts, s_ledger s, ?outs) (map fst ts, s_ledger s', ?outs[i := decided_as ph'])"
    using exec_step_decides [OF step(7)]
  proof (elim disjE conjE exE)
    assume "s_ledger s' = s_ledger s" "decided_as ph' = decided_as ph"
    then show ?thesis using i by (simp add: list_update_same_conv)
  next
    assume "decided_as ph = None" "apply_txn txn (s_ledger s) = (s_ledger s', None)" "decided_as ph' = Some Committed"
    then show ?thesis using atomic_step.commit [OF o(1), of "map fst ts" "s_ledger s" "s_ledger s'"] i o by simp
  next
    fix l' err
    assume "decided_as ph = None" "apply_txn txn (s_ledger s) = (l', Some err)" "s_ledger s' = s_ledger s" "decided_as ph' = Some Aborted"
    then show ?thesis using atomic_step.abort [OF o(1), of "map fst ts" "s_ledger s" l' err] i o by simp
  next
    assume "decided_as ph = None" "s_ledger s' = s_ledger s" "decided_as ph' \<in> {Some Replayed, Some Failed}"
    then show ?thesis using atomic_step.drop [OF o(1), of _ "map fst ts" "s_ledger s"] i o by auto
  qed
  then show ?thesis unfolding step(1,2) abstract_state_def fst_conv snd_conv fsts outs by auto
qed

interpretation conc: simulation conc_step atomic_step abstract_state
  by unfold_locales (rule conc_simulates)

text \<open>An invariant of the specification: the accounts and their total stay, no balance goes below zero,
  and whoever is decided stays so.\<close>

definition atomic_inv :: "int \<Rightarrow> string set \<Rightarrow> atomic_state \<Rightarrow> bool" where
  "atomic_inv total_funds accounts a = (case a of (txns, l, outs) \<Rightarrow>
     ledger_ok l \<and> ledger_funds l = total_funds \<and> dom (l_balances l) = accounts \<and> length outs = length txns)"

lemma atomic_inv_step:
  assumes "atomic_step a a'" "atomic_inv f d a"
  shows "atomic_inv f d a'"
  using assms
proof (induction rule: atomic_step.induct)
  case (commit i outs txns l l')
  then show ?case
    using transfer.step_ok [of l "t_Source (txns ! i)" "t_Destination (txns ! i)" "t_Amount (txns ! i)" l']
      transfer.step_dom [of "t_Source (txns ! i)" "t_Destination (txns ! i)" "t_Amount (txns ! i)" l l']
    by (auto simp: atomic_inv_def apply_txn_def dest: ledger_okD(3))
qed (auto simp: atomic_inv_def)

section \<open>What a reply says\<close>

fun reply_ok :: "exec_phase \<Rightarrow> bool" where
  "reply_ok (EDone out r) = (case out of
      Committed \<Rightarrow> (\<forall>res. r = Inr res \<longrightarrow> r_State res = StateCommitted) \<and> (\<forall>e. r = Inl e \<longrightarrow> (\<exists>w. e = WalCommitFailed w))
    | Aborted \<Rightarrow> (\<exists>res. r = Inr res \<and> r_State res = StateAborted)
    | Failed \<Rightarrow> \<exists>e. r = Inl e
    | Replayed \<Rightarrow> \<exists>res. r = Inr res)"
| "reply_ok ph = True"

lemma exec_step_reply: "exec_step txn ph s = (ph', s') \<Longrightarrow> reply_ok ph \<Longrightarrow> reply_ok ph'"
  by (induction txn ph s rule: exec_step.induct)
    (auto simp: Let_def exec_reply_def split: prod.splits option.splits sum.splits bool.splits)

lemma conc_reply:
  assumes "conc_step\<^sup>*\<^sup>* c c'" "\<forall>t \<in> set (fst c). reply_ok (snd t)"
  shows "\<forall>t \<in> set (fst c'). reply_ok (snd t)"
  using assms
proof (induction rule: rtranclp_induct)
  case (step c1 c2)
  from step(2) show ?case
  proof cases
    case (step i ts txn ph s ph' s')
    with step.IH step.prems exec_step_reply [of txn ph s ph' s'] show ?thesis
      using set_update_subset_insert [of ts i "(txn, ph')"] nth_mem [of i ts] by fastforce
  qed
qed simp

section \<open>The log while handlers run\<close>

text \<open>The records of a transaction that move money.\<close>

definition own :: "string \<Rightarrow> WALEntry list \<Rightarrow> WALEntry list" where
  "own t es = filter (\<lambda>e. e_TxnID e = t \<and> moves_money e) es"

definition sig :: "WALEntry \<Rightarrow> OperationType \<times> string \<times> int64" where
  "sig e = (e_OpType e, e_AccountID e, e_Amount e)"

definition txn_effect :: "Transaction \<Rightarrow> string \<Rightarrow> int64" where
  "txn_effect txn a = (if a = t_Source txn then - t_Amount txn else 0) + (if a = t_Destination txn then t_Amount txn else 0)"

lemma own_append [simp]: "own t (es @ fs) = own t es @ own t fs"
  by (simp add: own_def)

lemma own_other: "(\<And>e. e \<in> set fs \<Longrightarrow> e_TxnID e \<noteq> t) \<Longrightarrow> own t fs = []"
  by (auto simp: own_def filter_empty_conv)

lemma unlogged_own: "unlogged t es \<longleftrightarrow> \<not> committed es t \<and> own t es = []"
  by (auto simp: unlogged_def own_def filter_empty_conv)

lemma sum_filter_or:
  fixes f :: "'a \<Rightarrow> int64"
  assumes "\<And>x. x \<in> set xs \<Longrightarrow> \<not> (P x \<and> Q x)"
  shows "sum_list (map f (filter (\<lambda>x. P x \<or> Q x) xs)) = sum_list (map f (filter P xs)) + sum_list (map f (filter Q xs))"
  using assms by (induction xs) (auto simp: algebra_simps)

text \<open>Marking a transaction as committed adds its movements to what the log recovers to.\<close>

lemma recovered_mark:
  assumes "\<not> committed es t" "map sig (own t es) = [(OpDebit, t_Source txn, t_Amount txn), (OpCredit, t_Destination txn, t_Amount txn)]"
    and "e_OpType m = OpCommitted" "e_TxnID m = t"
    and "recovered_balance es (t_Source txn) \<noteq> None" "recovered_balance es (t_Destination txn) \<noteq> None"
  shows "recovered_balance (es @ [m]) a = map_option (\<lambda>b. b + txn_effect txn a) (recovered_balance es a)"
proof -
  define c where "c u \<longleftrightarrow> u = t \<or> committed es u" for u
  obtain e1 e2 where o: "own t es = [e1, e2]" "sig e1 = (OpDebit, t_Source txn, t_Amount txn)" "sig e2 = (OpCredit, t_Destination txn, t_Amount txn)"
    using assms(2) by auto
  have in_own: "e \<in> {e1, e2}" if "e \<in> set es" "e_TxnID e = t" "moves_money e" for e
  proof -
    have "e \<in> set (own t es)" using that by (simp add: own_def)
    then show ?thesis by (simp add: o(1))
  qed
  have "committed (es @ [m]) = c" using assms(3,4) by (auto simp: c_def fun_eq_iff)
  then have rec: "recovered_balance (es @ [m]) = balance_under c es"
    unfolding recovered_balance_def using assms(3) by (simp add: balance_under_skip)
  have cr: "creates c b es = creates (committed es) b es" for b
    unfolding creates_def c_def using in_own o(2,3)
    by (intro filter_cong refl) (force simp: sig_def moves_money_def)
  have mv: "filter (\<lambda>e. (e_OpType e = OpDebit \<or> e_OpType e = OpCredit) \<and> e_AccountID e = b \<and> e_TxnID e = t) es
      = filter (\<lambda>e. e_AccountID e = b) (own t es)" for b
    unfolding own_def filter_filter using in_own o(2,3)
    by (intro filter_cong refl) (force simp: sig_def moves_money_def)
  have "moves c b es = filter (\<lambda>e. ((e_OpType e = OpDebit \<or> e_OpType e = OpCredit) \<and> e_AccountID e = b \<and> e_TxnID e = t)
      \<or> ((e_OpType e = OpDebit \<or> e_OpType e = OpCredit) \<and> e_AccountID e = b \<and> committed es (e_TxnID e))) es" for b
    unfolding moves_def c_def by (intro filter_cong refl) blast
  note mvs = this
  have net: "net_change c b es = net_change (committed es) b es + txn_effect txn b" for b
  proof -
    have "net_change c b es = sum_list (map signed_amount (filter (\<lambda>e. e_AccountID e = b) (own t es))) + net_change (committed es) b es"
      unfolding mv [symmetric] net_change_def moves_def [of "committed es"]
      by (subst mvs, rule sum_filter_or) (use assms(1) in auto)
    moreover have "sum_list (map signed_amount (filter (\<lambda>e. e_AccountID e = b) (own t es))) = txn_effect txn b"
      using o by (auto simp: sig_def signed_amount_def txn_effect_def)
    ultimately show ?thesis by simp
  qed
  have none: "moves c b es = [] \<longleftrightarrow> moves (committed es) b es = []" if "recovered_balance es b = None" for b
  proof -
    have "b \<noteq> t_Source txn" "b \<noteq> t_Destination txn" using that assms(5,6) by auto
    then have "filter (\<lambda>e. e_AccountID e = b) (own t es) = []" using o by (auto simp: sig_def)
    then show ?thesis unfolding moves_def mv [symmetric] filter_empty_conv c_def by blast
  qed
  have some: "creates (committed es) b es \<noteq> [] \<or> moves c b es \<noteq> []" if "recovered_balance es b \<noteq> None" for b
  proof -
    have "moves (committed es) b es \<noteq> [] \<Longrightarrow> moves c b es \<noteq> []"
      unfolding moves_def filter_empty_conv c_def by blast
    then show ?thesis using that by (auto simp: recovered_balance_def balance_under_def split: if_splits)
  qed
  show ?thesis
  proof (cases "recovered_balance es a")
    case None
    then have "creates (committed es) a es = []" "moves (committed es) a es = []"
      by (auto simp: recovered_balance_def balance_under_def split: if_splits)
    then show ?thesis using none [OF None] None by (simp add: rec balance_under_def cr)
  next
    case (Some b)
    then have "b = (if creates (committed es) a es = [] then 0 else e_Amount (last (creates (committed es) a es))) + net_change (committed es) a es"
      by (auto simp: recovered_balance_def balance_under_def split: if_splits)
    then show ?thesis using some [of a] net [of a] Some by (auto simp: rec balance_under_def cr)
  qed
qed

subsection \<open>The invariant\<close>

text \<open>What the log holds of a handler's transaction, by the phase the handler is in.\<close>

definition debit_sig :: "Transaction \<Rightarrow> OperationType \<times> string \<times> int64" where
  "debit_sig txn = (OpDebit, t_Source txn, t_Amount txn)"

definition credit_sig :: "Transaction \<Rightarrow> OperationType \<times> string \<times> int64" where
  "credit_sig txn = (OpCredit, t_Destination txn, t_Amount txn)"

fun logged_sigs :: "Transaction \<Rightarrow> exec_phase \<Rightarrow> (OperationType \<times> string \<times> int64) list option" where
  "logged_sigs txn EValidate = Some []"
| "logged_sigs txn EDebit = Some []"
| "logged_sigs txn (EReplDebit n) = Some [debit_sig txn]"
| "logged_sigs txn ECredit = Some [debit_sig txn]"
| "logged_sigs txn (EReplCredit n) = Some [debit_sig txn, credit_sig txn]"
| "logged_sigs txn EApply = Some [debit_sig txn, credit_sig txn]"
| "logged_sigs txn ECommitMark = Some [debit_sig txn, credit_sig txn]"
| "logged_sigs txn ph = None"

text \<open>The phases that may still log, and must find the transaction undecided.\<close>

definition thread_log :: "ShardServer \<Rightarrow> thread \<Rightarrow> bool" where
  "thread_log s th = (case th of (txn, ph) \<Rightarrow>
     (ph = EBegin \<and> s_seenTxns s (t_TxnID txn) = None \<longrightarrow> unlogged (t_TxnID txn) (wal_entries (s_walLog s)))
   \<and> (\<forall>sigs. logged_sigs txn ph = Some sigs \<longrightarrow>
        \<not> committed (wal_entries (s_walLog s)) (t_TxnID txn) \<and> map sig (own (t_TxnID txn) (wal_entries (s_walLog s))) = sigs)
   \<and> (ph = ECommitMark \<longrightarrow> l_balances (s_ledger s) (t_Source txn) \<noteq> None \<and> l_balances (s_ledger s) (t_Destination txn) \<noteq> None))"

definition unmarked_of :: "string \<Rightarrow> thread \<Rightarrow> int64" where
  "unmarked_of a th = (if snd th = ECommitMark then txn_effect (fst th) a else 0)"

text \<open>The transfers that are applied to the ledger and not yet marked in the log.\<close>

definition unmarked :: "thread list \<Rightarrow> string \<Rightarrow> int64" where
  "unmarked ts a = sum_list (map (unmarked_of a) ts)"

definition conc_inv :: "thread list \<times> ShardServer \<Rightarrow> bool" where
  "conc_inv c = (case c of (ts, s) \<Rightarrow>
     wal_healthy (s_walLog s) \<and> distinct (map (t_TxnID \<circ> fst) ts) \<and> (\<forall>th \<in> set ts. thread_log s th)
   \<and> (\<forall>a. l_balances (s_ledger s) a
        = map_option (\<lambda>b. b + unmarked ts a) (recovered_balance (wal_entries (s_walLog s)) a)))"

lemma unmarked_update:
  assumes "i < length ts"
  shows "unmarked (ts[i := th]) a = unmarked ts a - unmarked_of a (ts ! i) + unmarked_of a th"
  using assms
proof (induction ts arbitrary: i)
  case (Cons t ts)
  then show ?case by (cases i) (auto simp: unmarked_def algebra_simps)
qed simp

text \<open>A handler's access leaves the other handlers' part of the invariant alone.\<close>

definition touches_only :: "string \<Rightarrow> ShardServer \<Rightarrow> ShardServer \<Rightarrow> bool" where
  "touches_only t s s' \<longleftrightarrow> wal_healthy (s_walLog s')
   \<and> (\<exists>fs. wal_entries (s_walLog s') = wal_entries (s_walLog s) @ fs \<and> (\<forall>e \<in> set fs. e_TxnID e = t))
   \<and> (\<forall>u. u \<noteq> t \<longrightarrow> s_seenTxns s' u = s_seenTxns s u)
   \<and> dom (l_balances (s_ledger s')) = dom (l_balances (s_ledger s))"

lemma thread_log_frame:
  assumes "touches_only t s s'" "t_TxnID (fst th) \<noteq> t" "thread_log s th"
  shows "thread_log s' th"
proof -
  obtain fs where fs: "wal_entries (s_walLog s') = wal_entries (s_walLog s) @ fs" "\<forall>e \<in> set fs. e_TxnID e = t"
    using assms(1) by (auto simp: touches_only_def)
  let ?u = "t_TxnID (fst th)"
  have "own ?u fs = []" using fs(2) assms(2) by (intro own_other) auto
  moreover have "\<not> committed fs ?u" using fs(2) assms(2) by (auto simp: marked_def)
  moreover have "s_seenTxns s' ?u = s_seenTxns s ?u" using assms(1,2) by (simp add: touches_only_def)
  moreover have "l_balances (s_ledger s') a = None \<longleftrightarrow> l_balances (s_ledger s) a = None" for a
    using assms(1) unfolding touches_only_def dom_def by blast
  ultimately show ?thesis using assms(3) by (cases th) (simp add: thread_log_def unlogged_own fs(1))
qed

lemma conc_inv_move:
  assumes "conc_inv (ts, s)" "i < length ts" "ts ! i = (txn, ph)" "touches_only (t_TxnID txn) s s'" "thread_log s' (txn, ph')"
    and "\<And>a. l_balances (s_ledger s') a = map_option (\<lambda>b. b + (unmarked ts a - unmarked_of a (txn, ph) + unmarked_of a (txn, ph')))
      (recovered_balance (wal_entries (s_walLog s')) a)"
  shows "conc_inv (ts[i := (txn, ph')], s')"
proof -
  have dist: "distinct (map (t_TxnID \<circ> fst) ts)" using assms(1) by (simp add: conc_inv_def)
  have ids: "map (t_TxnID \<circ> fst) (ts[i := (txn, ph')]) = map (t_TxnID \<circ> fst) ts"
    using assms(2,3) by (simp add: map_update list_update_same_conv)
  have "thread_log s' (ts[i := (txn, ph')] ! j)" if "j < length ts" for j
  proof (cases "j = i")
    case True
    then show ?thesis using assms(2,5) by simp
  next
    case False
    then have "t_TxnID (fst (ts ! j)) \<noteq> t_TxnID txn"
      using dist assms(2,3) that nth_eq_iff_index_eq [OF dist, of i j] by simp
    then show ?thesis
      using thread_log_frame [OF assms(4)] assms(1) that False by (simp add: conc_inv_def)
  qed
  then have "\<forall>th \<in> set (ts[i := (txn, ph')]). thread_log s' th"
    by (metis in_set_conv_nth length_list_update)
  moreover have "wal_healthy (s_walLog s')" using assms(4) by (simp add: touches_only_def)
  ultimately show ?thesis
    using dist assms(6) unmarked_update [OF assms(2), of "(txn, ph')"] assms(3) unfolding conc_inv_def ids prod.case by simp
qed

lemma conc_inv_quiet:
  assumes "conc_inv (ts, s)" "i < length ts" "ts ! i = (txn, ph)" "ph \<noteq> ECommitMark" "ph' \<noteq> ECommitMark"
    and "s_walLog s' = s_walLog s" "s_ledger s' = s_ledger s" "\<And>u. u \<noteq> t_TxnID txn \<Longrightarrow> s_seenTxns s' u = s_seenTxns s u"
    and "thread_log s' (txn, ph')"
  shows "conc_inv (ts[i := (txn, ph')], s')"
  by (rule conc_inv_move [OF assms(1-3) _ assms(9)])
    (use assms in \<open>auto simp: touches_only_def conc_inv_def unmarked_of_def\<close>)

lemma conc_inv_log:
  assumes "conc_inv (ts, s)" "i < length ts" "ts ! i = (txn, ph)" "ph \<noteq> ECommitMark" "ph' \<noteq> ECommitMark"
    and "s_walLog s' = wal_step p (s_walLog s)" "s_ledger s' = s_ledger s" "s_seenTxns s' = s_seenTxns s"
    and "\<And>n. e_TxnID (op_entry p n) = t_TxnID txn \<and> e_OpType (op_entry p n) \<noteq> OpCommitted
      \<and> (moves_money (op_entry p n) \<longrightarrow> \<not> committed (wal_entries (s_walLog s)) (t_TxnID txn))"
    and "thread_log s' (txn, ph')"
  shows "conc_inv (ts[i := (txn, ph')], s')"
proof -
  have w: "wal_healthy (s_walLog s)" using assms(1) by (simp add: conc_inv_def)
  define e where "e = op_entry p (w_nextLogID (s_walLog s))"
  have es: "wal_entries (s_walLog s') = wal_entries (s_walLog s) @ [e]" "wal_healthy (s_walLog s')"
    by (simp_all add: assms(6) step_healthy [OF w] e_def)
  have e: "e_TxnID e = t_TxnID txn" "e_OpType e \<noteq> OpCommitted" "\<not> (committed (wal_entries (s_walLog s)) (e_TxnID e) \<and> moves_money e)"
    using assms(9) [of "w_nextLogID (s_walLog s)"] unfolding e_def by auto
  have rec: "recovered_balance (wal_entries (s_walLog s')) = recovered_balance (wal_entries (s_walLog s))"
    unfolding es(1) using e by (intro recovered_silent) simp
  show ?thesis
    by (rule conc_inv_move [OF assms(1-3) _ assms(10)])
      (use assms(1,4,5,7,8) es e rec in \<open>auto simp: touches_only_def conc_inv_def unmarked_of_def\<close>)
qed

lemma effect_apply:
  assumes "Ledger_ApplyTransfer (t_Source txn) (t_Destination txn) (t_Amount txn) l = (l', None)"
  shows "l_balances l' a = map_option (\<lambda>b. b + txn_effect txn a) (l_balances l a)"
proof -
  note plus = ApplyTransfer_plus [OF assms]
  consider "a \<noteq> t_Source txn" "a \<noteq> t_Destination txn" | "a = t_Source txn \<or> a = t_Destination txn" by blast
  then show ?thesis
  proof cases
    case 2
    then obtain b where "l_balances l a = Some b" using plus(2,3) by auto
    then show ?thesis using 2 by (auto simp: plus(1) map_plus_apply txn_effect_def)
  qed (simp add: plus(1) map_plus_apply txn_effect_def option.map_ident)
qed

lemma conc_inv_apply:
  assumes "conc_inv (ts, s)" "i < length ts" "ts ! i = (txn, EApply)"
    and "Ledger_ApplyTransfer (t_Source txn) (t_Destination txn) (t_Amount txn) (s_ledger s) = (l', None)"
  shows "conc_inv (ts[i := (txn, ECommitMark)], s\<lparr>s_ledger := l'\<rparr>)"
proof (rule conc_inv_move [OF assms(1-3)])
  note plus = ApplyTransfer_plus [OF assms(4)]
  have dom: "dom (l_balances l') = dom (l_balances (s_ledger s))"
    by (auto simp: dom_def effect_apply [OF assms(4)])
  then show "touches_only (t_TxnID txn) s (s\<lparr>s_ledger := l'\<rparr>)"
    using assms(1) by (simp add: touches_only_def conc_inv_def)
  have "thread_log s (txn, EApply)" using assms(1-3) nth_mem [OF assms(2)] by (simp add: conc_inv_def)
  then show "thread_log (s\<lparr>s_ledger := l'\<rparr>) (txn, ECommitMark)"
    using plus(2,3) by (simp add: thread_log_def effect_apply [OF assms(4)])
  show "l_balances (s_ledger (s\<lparr>s_ledger := l'\<rparr>)) a = map_option (\<lambda>b. b + (unmarked ts a - unmarked_of a (txn, EApply) + unmarked_of a (txn, ECommitMark)))
      (recovered_balance (wal_entries (s_walLog (s\<lparr>s_ledger := l'\<rparr>))) a)" for a
    using assms(1) effect_apply [OF assms(4), of a]
    by (simp add: conc_inv_def unmarked_of_def option.map_comp comp_def algebra_simps)
qed

lemma conc_inv_mark:
  assumes "conc_inv (ts, s)" "i < length ts" "ts ! i = (txn, ECommitMark)"
    and "s_walLog s' = wal_step (WCommitted (t_TxnID txn)) (s_walLog s)" "s_ledger s' = s_ledger s" "s_seenTxns s' = s_seenTxns s"
  shows "conc_inv (ts[i := (txn, ECommitState r)], s')"
proof (rule conc_inv_move [OF assms(1-3)])
  let ?es = "wal_entries (s_walLog s)"
  have w: "wal_healthy (s_walLog s)" using assms(1) by (simp add: conc_inv_def)
  define e where "e = op_entry (WCommitted (t_TxnID txn)) (w_nextLogID (s_walLog s))"
  have es: "wal_entries (s_walLog s') = ?es @ [e]" "wal_healthy (s_walLog s')"
    by (simp_all only: assms(4) step_healthy [OF w] e_def)
  have e: "e_TxnID e = t_TxnID txn" "e_OpType e = OpCommitted" by (simp_all add: e_def)
  show "touches_only (t_TxnID txn) s s'" using es e assms(5,6) by (simp add: touches_only_def)
  show "thread_log s' (txn, ECommitState r)" by (simp add: thread_log_def)
  have tl: "thread_log s (txn, ECommitMark)" using assms(1-3) nth_mem [OF assms(2)] by (simp add: conc_inv_def)
  have bal: "l_balances (s_ledger s) a = map_option (\<lambda>b. b + unmarked ts a) (recovered_balance ?es a)" for a
    using assms(1) by (simp add: conc_inv_def)
  have live: "recovered_balance ?es (t_Source txn) \<noteq> None" "recovered_balance ?es (t_Destination txn) \<noteq> None"
    using tl bal [of "t_Source txn"] bal [of "t_Destination txn"] by (auto simp: thread_log_def)
  have "\<not> committed ?es (t_TxnID txn)"
    "map sig (own (t_TxnID txn) ?es) = [(OpDebit, t_Source txn, t_Amount txn), (OpCredit, t_Destination txn, t_Amount txn)]"
    using tl by (simp_all add: thread_log_def debit_sig_def credit_sig_def)
  note mark = recovered_mark [OF this e(2,1) live]
  show "l_balances (s_ledger s') a = map_option (\<lambda>b. b + (unmarked ts a - unmarked_of a (txn, ECommitMark) + unmarked_of a (txn, ECommitState r)))
      (recovered_balance (wal_entries (s_walLog s')) a)" for a
    by (simp add: assms(5) bal es(1) mark unmarked_of_def option.map_comp comp_def algebra_simps)
qed

lemma thread_log_trivial [simp]:
  "logged_sigs txn ph = None \<Longrightarrow> ph \<noteq> EBegin \<Longrightarrow> ph \<noteq> ECommitMark \<Longrightarrow> thread_log s (txn, ph)"
  by (simp add: thread_log_def)

lemma thread_log_append:
  assumes "wal_healthy (s_walLog s)" "s_walLog s' = wal_step (WAppend (t_TxnID txn) op a x) (s_walLog s)" "op = OpDebit \<or> op = OpCredit"
    and "thread_log s (txn, ph)" "logged_sigs txn ph = Some sigs" "logged_sigs txn ph' = Some (sigs @ [(op, a, x)])"
    and "ph' \<noteq> EBegin" "ph' \<noteq> ECommitMark"
  shows "thread_log s' (txn, ph')"
proof -
  have "wal_entries (s_walLog s') = wal_entries (s_walLog s) @ [op_entry (WAppend (t_TxnID txn) op a x) (w_nextLogID (s_walLog s))]"
    unfolding assms(2) by (rule step_healthy(2) [OF assms(1)])
  then show ?thesis
    using assms(3-8) by (auto simp: thread_log_def own_def sig_def moves_money_def)
qed

lemma conc_inv_step:
  assumes "conc_step c c'" "conc_inv c"
  shows "conc_inv c'"
  using assms(1)
proof cases
  case (step i ts txn ph s ph' s')
  have inv: "conc_inv (ts, s)" using assms(2) step(1) by simp
  then have w: "wal_healthy (s_walLog s)" and tl: "thread_log s (txn, ph)"
    using step(3,4) nth_mem [OF step(3)] by (simp_all add: conc_inv_def)
  note at = inv step(3,4)
  note quiet = conc_inv_quiet [OF at] and log = conc_inv_log [OF at]
  note step7 = step(7)
  have "conc_inv (ts[i := (txn, ph')], s')"
  proof (cases ph)
    case EBegin
    then show ?thesis
      using step7 tl
      by (intro quiet) (auto simp: ShardServer_beginTxn_def thread_log_def unlogged_own split: option.splits)
  next
    case EValidate
    then show ?thesis
      using step7 tl by (intro quiet) (auto simp: thread_log_def split: option.splits)
  next
    case (EReject err)
    then show ?thesis using step7 by (intro quiet) (auto simp: Let_def server_state_defs)
  next
    case (ERejectMark err)
    then show ?thesis
      using step7 by (intro log [of _ _ "WAborted (t_TxnID txn)"]) (auto simp: mark_aborted_def healthy_writes [OF w] moves_money_def)
  next
    case EDebit
    then have s': "ph' = EReplDebit (w_nextLogID (s_walLog s))"
      "s' = s\<lparr>s_walLog := wal_step (WAppend (t_TxnID txn) OpDebit (t_Source txn) (t_Amount txn)) (s_walLog s)\<rparr>"
      using step7 by (simp_all add: healthy_writes [OF w])
    have "thread_log s' (txn, ph')"
      by (rule thread_log_append [OF w _ _ tl]) (simp_all add: s' EDebit debit_sig_def)
    then show ?thesis using EDebit tl by (intro log) (auto simp: s' thread_log_def)
  next
    case (EReplDebit n)
    then show ?thesis
      using step7 tl by (intro quiet) (auto simp: replicate_eq thread_log_def split: option.splits)
  next
    case ECredit
    then have s': "ph' = EReplCredit (w_nextLogID (s_walLog s))"
      "s' = s\<lparr>s_walLog := wal_step (WAppend (t_TxnID txn) OpCredit (t_Destination txn) (t_Amount txn)) (s_walLog s)\<rparr>"
      using step7 by (simp_all add: healthy_writes [OF w])
    have "thread_log s' (txn, ph')"
      by (rule thread_log_append [OF w _ _ tl]) (simp_all add: s' ECredit debit_sig_def credit_sig_def)
    then show ?thesis using ECredit tl by (intro log) (auto simp: s' thread_log_def)
  next
    case (EReplCredit n)
    then show ?thesis
      using step7 tl by (intro quiet) (auto simp: replicate_eq thread_log_def split: option.splits)
  next
    case EApply
    show ?thesis
    proof (cases "Ledger_ApplyTransfer (t_Source txn) (t_Destination txn) (t_Amount txn) (s_ledger s)")
      case (Pair l r)
      then show ?thesis
        using step7 EApply conc_inv_apply [OF inv step(3) step(4) [unfolded EApply]]
        by (cases r) (auto intro!: quiet dest: ledger_error_frame)
    qed
  next
    case (EAbortMark err)
    then show ?thesis
      using step7 by (intro log [of _ _ "WAborted (t_TxnID txn)"]) (auto simp: mark_aborted_def healthy_writes [OF w] moves_money_def)
  next
    case (EAbortState err)
    then show ?thesis using step7 by (intro quiet) (auto simp: Let_def server_state_defs)
  next
    case ECommitMark
    then show ?thesis
      using step7 by (auto simp: healthy_writes [OF w] intro!: conc_inv_mark [OF inv step(3) step(4) [unfolded ECommitMark]])
  next
    case (ECommitState r)
    then show ?thesis using step7 by (intro quiet) (cases r; auto simp: Let_def server_state_defs)+
  next
    case (EClear err)
    then show ?thesis using step7 by (intro quiet) (auto simp: server_state_defs)
  next
    case (EDone out r)
    then show ?thesis using step(5) by (simp add: finished_def)
  qed
  then show ?thesis by (simp add: step(2))
qed

lemma conc_run_inv: "conc_step\<^sup>*\<^sup>* c c' \<Longrightarrow> conc_inv c \<Longrightarrow> conc_inv c'"
  by (induction rule: rtranclp_induct) (auto intro: conc_inv_step)

lemma conc_start_inv:
  assumes "explained [] s" "distinct (map t_TxnID txns)"
    and "\<forall>txn \<in> set txns. s_seenTxns s (t_TxnID txn) \<noteq> None \<or> unlogged (t_TxnID txn) (wal_entries (s_walLog s))"
  shows "conc_inv (conc_start txns, s)"
proof -
  have "unmarked (conc_start txns) a = 0" for a
    by (induction txns) (simp_all add: unmarked_def conc_start_def unmarked_of_def)
  moreover have "l_balances (s_ledger s) = recovered_balance (wal_entries (s_walLog s))"
    using explainedD(4) [OF assms(1)] by (auto simp: held_def option.map_ident)
  moreover have "thread_log s (txn, EBegin)" if "txn \<in> set txns" for txn
    using assms(3) that by (auto simp: thread_log_def)
  ultimately show ?thesis
    using assms(2) explainedD(1) [OF assms(1)]
    by (auto simp: conc_inv_def conc_start_def comp_def option.map_ident)
qed

section \<open>Running a schedule\<close>

text \<open>The handlers run in the order a list of their positions says; one that is finished or must wait for
  its stripe is passed over.\<close>

fun conc_exec :: "nat list \<Rightarrow> thread list \<times> ShardServer \<Rightarrow> thread list \<times> ShardServer" where
  "conc_exec [] c = c"
| "conc_exec (i # sched) (ts, s) =
     (if i < length ts \<and> \<not> finished (snd (ts ! i)) \<and> (waiting (snd (ts ! i)) \<longrightarrow> stripe_free i ts)
      then case exec_step (fst (ts ! i)) (snd (ts ! i)) s of
        (ph', s') \<Rightarrow> conc_exec sched (ts[i := (fst (ts ! i), ph')], s')
      else conc_exec sched (ts, s))"

lemma conc_exec_run: "conc_step\<^sup>*\<^sup>* c (conc_exec sched c)"
proof (induction sched c rule: conc_exec.induct)
  case (2 i sched ts s)
  show ?case
  proof (cases "i < length ts \<and> \<not> finished (snd (ts ! i)) \<and> (waiting (snd (ts ! i)) \<longrightarrow> stripe_free i ts)")
    case True
    obtain ph' s' where e: "exec_step (fst (ts ! i)) (snd (ts ! i)) s = (ph', s')" by force
    then have "conc_step (ts, s) (ts[i := (fst (ts ! i), ph')], s')"
      using True by (intro conc_step.step [of i ts "fst (ts ! i)" "snd (ts ! i)"]) auto
    with 2(1) [OF True e [symmetric]] True e show ?thesis by (simp add: converse_rtranclp_into_rtranclp)
  next
    case False
    then have "conc_exec (i # sched) (ts, s) = conc_exec sched (ts, s)" by (simp only: conc_exec.simps if_False)
    with 2(2) [OF False] show ?thesis by simp
  qed
qed simp

section \<open>Properties\<close>

lemma atomic_txns: "atomic_step\<^sup>*\<^sup>* a a' \<Longrightarrow> fst a' = fst a"
  by (induction rule: rtranclp_induct) (auto elim: atomic_step.cases)

lemma abstract_start: "abstract_state (conc_start txns, s) = (txns, s_ledger s, replicate (length txns) None)"
  by (simp add: abstract_state_def conc_start_def comp_def map_replicate_const)

text \<open>
  C10: Concurrent executions are linearizable. However the handlers of any transfers interleave, on any disk
  and with any followers, the shard goes through the states of a machine that decides one transfer at a
  time: committed with exactly the effect of \<open>ApplyTransfer\<close> on the ledger of that moment, aborted only
  when \<open>ApplyTransfer\<close> refuses at that moment, or without effect. And a reply agrees with the decision: it
  says COMMITTED for a new transfer only if the transfer was decided so, ABORTED only if it was aborted.
\<close>

theorem concurrent_executions_linearizable:
  assumes "conc_step\<^sup>*\<^sup>* (conc_start txns, s) (ts, s')"
  shows "atomic_step\<^sup>*\<^sup>* (txns, s_ledger s, replicate (length txns) None) (txns, s_ledger s', map (decided_as \<circ> snd) ts)
    \<and> (\<forall>th \<in> set ts. reply_ok (snd th))"
proof
  have run: "atomic_step\<^sup>*\<^sup>* (txns, s_ledger s, replicate (length txns) None) (abstract_state (ts, s'))"
    using conc.simulates_run [OF assms] unfolding abstract_start .
  from atomic_txns [OF run] have "abstract_state (ts, s') = (txns, s_ledger s', map (decided_as \<circ> snd) ts)"
    by (simp add: abstract_state_def)
  with run show "atomic_step\<^sup>*\<^sup>* (txns, s_ledger s, replicate (length txns) None) (txns, s_ledger s', map (decided_as \<circ> snd) ts)"
    by simp
  show "\<forall>th \<in> set ts. reply_ok (snd th)"
    using conc_reply [OF assms] by (simp add: conc_start_def)
qed

text \<open>
  Money is conserved under concurrency: at every moment of every interleaving of single-shard
  executions the shard has the same accounts and the same exact total as at the start, and no balance is
  negative, although the balance a handler validated may have changed before it applies its transfer.
\<close>

theorem concurrent_executions_conserve_funds:
  assumes "shard_ok s" "conc_step\<^sup>*\<^sup>* (conc_start txns, s) (ts, s')"
  shows "shard_ok s' \<and> shard_funds s' = shard_funds s \<and> dom (l_balances (s_ledger s')) = dom (l_balances (s_ledger s))"
proof -
  let ?P = "atomic_inv (shard_funds s) (dom (l_balances (s_ledger s)))"
  have "?P (abstract_state (conc_start txns, s))"
    using assms(1) by (simp add: abstract_start atomic_inv_def shard_ok_def shard_funds_def)
  with conc.run_invariant [OF assms(2), of ?P] atomic_inv_step have "?P (abstract_state (ts, s'))" by blast
  then show ?thesis by (simp add: atomic_inv_def abstract_state_def shard_ok_def shard_funds_def)
qed

text \<open>
  C13: A crash among concurrent single-shard executions loses only transfers that no client was told about. A shard
  in the middle of a run (\<open>shard_run\<close>: a working log, nothing prepared) executes transfers of different
  identifiers, none of them the retry of an execution that failed with a record in the log, and no other request
  meanwhile. At any moment of any interleaving of their handlers, recovery gives every account the live balance without the
  transfers that are applied and not yet marked; when no handler stands between the two, in particular
  when all have finished, it gives exactly the live ledger.
\<close>

theorem concurrent_crash_consistent:
  assumes "shard_run [] s" "distinct (map t_TxnID txns)"
    and "\<forall>txn \<in> set txns. s_seenTxns s (t_TxnID txn) \<noteq> None \<or> unlogged (t_TxnID txn) (wal_entries (s_walLog s))"
    and "conc_step\<^sup>*\<^sup>* (conc_start txns, s) (ts, s')"
    and "visits ks2 (rp_deltas (replay_entries (wal_entries (s_walLog s')) NewLedger))"
  shows "\<exists>res l. Recover ks1 ks2 (s_walLog s') NewLedger = Inr (res, l)
    \<and> (\<forall>a. l_balances (s_ledger s') a = map_option (\<lambda>b. b + unmarked ts a) (l_balances l a))
    \<and> ((\<forall>th \<in> set ts. snd th \<noteq> ECommitMark) \<longrightarrow> l = s_ledger s')"
proof -
  have inv: "conc_inv (ts, s')"
    by (rule conc_run_inv [OF assms(4) conc_start_inv [OF run_explained [OF assms(1)] assms(2,3)]])
  then have w: "wal_healthy (s_walLog s')"
    and bal: "\<forall>a. l_balances (s_ledger s') a = map_option (\<lambda>b. b + unmarked ts a) (recovered_balance (wal_entries (s_walLog s')) a)"
    by (simp_all add: conc_inv_def)
  note read = ReadAll_healthy [OF w]
  obtain res l where r: "Recover ks1 ks2 (s_walLog s') NewLedger = Inr (res, l)"
    using Recover_total [OF read] by blast
  have l: "l_balances l = recovered_balance (wal_entries (s_walLog s'))" by (rule Recover_closed_form [OF read assms(5) r])
  have "l = s_ledger s'" if "\<forall>th \<in> set ts. snd th \<noteq> ECommitMark"
  proof -
    have "unmarked ts a = 0" for a using that by (induction ts) (simp_all add: unmarked_def unmarked_of_def)
    then have "l_balances l = l_balances (s_ledger s')" using bal by (simp add: l fun_eq_iff option.map_ident)
    then show ?thesis by simp
  qed
  then show ?thesis using r bal l by auto
qed

subsection \<open>Witnesses\<close>

definition example_back :: Transaction where
  "example_back = (example_txn 20)\<lparr>t_TxnID := ''t2'', t_Source := ''bob'', t_Destination := ''alice''\<rparr>"

definition example_conc :: "nat list \<Rightarrow> ShardServer \<Rightarrow> thread list \<times> ShardServer" where
  "example_conc sched s = conc_exec sched (conc_start [example_txn 30, example_back], s)"

lemma example_conc_run: "conc_step\<^sup>*\<^sup>* (conc_start [example_txn 30, example_back], s) (fst (example_conc sched s), snd (example_conc sched s))"
  using conc_exec_run by (simp add: example_conc_def)

theorem concurrent_executions_linearizable_witness:
  "atomic_step\<^sup>*\<^sup>* ([example_txn 30, example_back], s_ledger (example_shard []), [None, None])
     ([example_txn 30, example_back], s_ledger (snd (example_conc [0, 1, 0, 1, 1, 0, 1, 0] (example_shard []))),
      map (decided_as \<circ> snd) (fst (example_conc [0, 1, 0, 1, 1, 0, 1, 0] (example_shard []))))"
  using concurrent_executions_linearizable [OF example_conc_run, of "example_shard []" "[0, 1, 0, 1, 1, 0, 1, 0]"]
  by (simp add: numeral_eq_Suc)

theorem concurrent_executions_conserve_funds_witness:
  "shard_funds (snd (example_conc [0, 1, 1, 0, 0, 1, 0, 1, 1] (example_shard [IoOk, IoOk, IoSyncErr]))) = 150"
  using concurrent_executions_conserve_funds [OF example_ok [of "[IoOk, IoOk, IoSyncErr]"] example_conc_run [of _ "[0, 1, 1, 0, 0, 1, 0, 1, 1]"]]
  by (simp add: example_funds)

definition example_two :: ShardServer where
  "example_two = fst (ShardServer_CreateAccountWithWAL ''bob'' 50 example_funded)"

lemma example_two_run: "shard_run [] example_two"
proof -
  have "ShardServer_CreateAccountWithWAL ''bob'' 50 example_funded = (example_two, None)"
    "s_seenTxns example_funded (create_txn ''bob'') = None" "unlogged (create_txn ''bob'') (wal_entries (s_walLog example_funded))"
    by (simp_all add: crash_eval example_two_def unlogged_def marked_def wal_entries_def)
  then show ?thesis by (intro shard_run.serve [OF example_runs(1)] shard_step.create)
qed

text \<open>The first transfer is applied and not marked, the second one finished.\<close>

definition example_sched :: "nat list" where
  "example_sched = [0, 1, 0, 1, 0, 1, 1, 0, 1, 0, 1, 0, 0, 1, 1, 1]"

lemma example_two_state:
  "l_balances (s_ledger (snd (example_conc example_sched example_two))) ''alice'' = Some 90"
  "unmarked (fst (example_conc example_sched example_two)) ''alice'' = - 30"
  by code_simp+

theorem concurrent_crash_consistent_witness:
  "\<exists>ks2 res l. Recover [] ks2 (s_walLog (snd (example_conc example_sched example_two))) NewLedger = Inr (res, l)
     \<and> l_balances l ''alice'' = Some 120"
proof -
  let ?c = "example_conc example_sched example_two"
  have u: "\<forall>txn \<in> set [example_txn 30, example_back]. s_seenTxns example_two (t_TxnID txn) \<noteq> None
      \<or> unlogged (t_TxnID txn) (wal_entries (s_walLog example_two))"
    by (simp add: crash_eval example_two_def example_back_def unlogged_def marked_def wal_entries_def)
  have d: "distinct (map t_TxnID [example_txn 30, example_back])" by (simp add: example_txn_def example_back_def)
  obtain ks1 :: "string list" and ks2 where v: "visits ks2 (rp_deltas (replay_entries (wal_entries (s_walLog (snd ?c))) NewLedger))"
    by (rule orders_exist)
  obtain res l where "Recover [] ks2 (s_walLog (snd ?c)) NewLedger = Inr (res, l)"
    "l_balances (s_ledger (snd ?c)) ''alice'' = map_option (\<lambda>b. b + unmarked (fst ?c) ''alice'') (l_balances l ''alice'')"
    using concurrent_crash_consistent [OF example_two_run d u example_conc_run v, of "[]"] by blast
  then show ?thesis using example_two_state by (cases "l_balances l ''alice''") (auto simp: eq_diff_eq)
qed

end
