(* ===== verification/Handlers.thy ===== *)
theory Handlers
  imports Concurrency
begin

text \<open>
  All the handlers that change a shard's money, running at the same time: \<^verbatim>\<open>ExecuteSingleShard\<close>, the three
  participant operations of two-phase commit and \<^verbatim>\<open>CreateAccountWithWAL\<close> of
  \<^verbatim>\<open>shard/server/shard_server.go\<close>. As in \<open>Concurrency\<close>, a handler is a sequence of phases, each one access
  to the transaction table, the log, the replicator or the ledger; a participant operation holds the stripe of
  its transaction from its first access to its last, a creation the mutex \<^verbatim>\<open>createMu\<close>.

  Uninterrupted, the phases are the functions of \<open>ShardServer\<close>. Interleaved in any way, they refine an escrow
  machine in which every transaction's money is reserved, released, settled or deposited at most once.
\<close>

section \<open>Model\<close>

text \<open>Transaction, operation, account and amount: what a participant request carries.\<close>

type_synonym participant = "string \<times> OperationType \<times> string \<times> int64"

subsection \<open>PrepareTransaction\<close>

datatype prepare_phase =
    PBegin | PPending | PValidate | PReserve | PExists
  | PRejectMark shard_error | PRejectState shard_error
  | PAppend | PRollback wal_error | PClear wal_error | PPrepared
  | PDone "shard_error option"

fun prepare_step :: "participant \<Rightarrow> prepare_phase \<Rightarrow> ShardServer \<Rightarrow> prepare_phase \<times> ShardServer" where
  "prepare_step (t, op, a, x) PBegin s =
     (case ShardServer_getTxnState t s of
        Some st \<Rightarrow> (PDone (if st = StatePrepared \<or> st = StateCommitted then None else Some (AlreadyInState t st)), s)
      | None \<Rightarrow> (PPending, s))"
| "prepare_step (t, op, a, x) PPending s =
     (if op = OpDebit then PValidate else if op = OpCredit then PExists else PAppend,
      ShardServer_setTxnState t StatePending s)"
| "prepare_step (t, op, a, x) PValidate s =
     (case Ledger_ValidateDebit a x (s_ledger s) of
        Some err \<Rightarrow> (PRejectMark (PrepareRejected err), s)
      | None \<Rightarrow> (PReserve, s))"
| "prepare_step (t, op, a, x) PReserve s =
     (case Ledger_ApplyDebit a x (s_ledger s) of
        (l, Some err) \<Rightarrow> (PRejectMark (PrepareReserveFailed err), s\<lparr>s_ledger := l\<rparr>)
      | (l, None) \<Rightarrow> (PAppend, s\<lparr>s_ledger := l\<rparr>))"
| "prepare_step (t, op, a, x) PExists s =
     (if Ledger_AccountExists a (s_ledger s) then (PAppend, s) else (PRejectMark (PrepareAccountNotFound a), s))"
| "prepare_step (t, op, a, x) (PRejectMark err) s = (PRejectState err, mark_aborted t s)"
| "prepare_step (t, op, a, x) (PRejectState err) s = (PDone (Some err), ShardServer_setTxnState t StateAborted s)"
| "prepare_step (t, op, a, x) PAppend s =
     (case WAL_Append t OpPrepared a x (s_walLog s) of
        (w, Inl err) \<Rightarrow> (if op = OpDebit then PRollback err else PClear err, s\<lparr>s_walLog := w\<rparr>)
      | (w, Inr _) \<Rightarrow> (PPrepared, s\<lparr>s_walLog := w\<rparr>))"
| "prepare_step (t, op, a, x) (PRollback err) s =
     (PClear err, s\<lparr>s_ledger := fst (Ledger_RollbackDebit a x (s_ledger s))\<rparr>)"
| "prepare_step (t, op, a, x) (PClear err) s = (PDone (Some (WalPrepareFailed err)), ShardServer_deleteTxnState t s)"
| "prepare_step (t, op, a, x) PPrepared s =
     (let s1 = ShardServer_setTxnState t StatePrepared s
      in (PDone None, s1\<lparr>s_preparedCount := s_preparedCount s1 + 1\<rparr>))"
| "prepare_step (t, op, a, x) (PDone r) s = (PDone r, s)"

subsection \<open>CommitTransaction\<close>

datatype commit_phase =
    CBegin | CAborted | CAppend | CReplicate uint64 | CCredit | CMark | CState "wal_error option"
  | CDone "shard_error option"

fun commit_step :: "participant \<Rightarrow> commit_phase \<Rightarrow> ShardServer \<Rightarrow> commit_phase \<times> ShardServer" where
  "commit_step (t, op, a, x) CBegin s =
     (if ShardServer_getTxnState t s = Some StateCommitted then (CDone None, s) else (CAborted, s))"
| "commit_step (t, op, a, x) CAborted s =
     (if ShardServer_getTxnState t s = Some StateAborted then (CDone (Some (CannotCommitAborted t)), s) else (CAppend, s))"
| "commit_step (t, op, a, x) CAppend s =
     (case WAL_Append t op a x (s_walLog s) of
        (w, Inl err) \<Rightarrow> (CDone (Some (WalCommitOpFailed err)), s\<lparr>s_walLog := w\<rparr>)
      | (w, Inr logID) \<Rightarrow> (CReplicate logID, s\<lparr>s_walLog := w\<rparr>))"
| "commit_step (t, op, a, x) (CReplicate logID) s =
     (if op = OpCredit then CCredit else CMark, fst (ShardServer_replicate (wire_entry logID t op a x) s))"
| "commit_step (t, op, a, x) CCredit s =
     (case Ledger_ApplyCredit a x (s_ledger s) of
        (l, Some err) \<Rightarrow> (CDone (Some (CommitLedgerError err)), s\<lparr>s_ledger := l\<rparr>)
      | (l, None) \<Rightarrow> (CMark, s\<lparr>s_ledger := l\<rparr>))"
| "commit_step (t, op, a, x) CMark s =
     (case WAL_MarkCommitted t (s_walLog s) of (w, r) \<Rightarrow> (CState r, s\<lparr>s_walLog := w\<rparr>))"
| "commit_step (t, op, a, x) (CState (Some err)) s =
     (CDone (Some (WalCommittedMarkerFailed err)), ShardServer_setTxnState t StateCommitted s)"
| "commit_step (t, op, a, x) (CState None) s =
     (let s2 = ShardServer_setTxnState t StateCommitted s;
          s3 = s2\<lparr>s_committedCount := s_committedCount s2 + 1\<rparr>
      in (CDone None, ShardServer_addRecentTxn
            \<lparr>sum_TxnID = t, sum_Source = a, sum_Destination = '''', sum_Amount = x,
             sum_Type = ''cross'', sum_State = StateCommitted, sum_ShardID = s_shardID s3\<rparr> s3))"
| "commit_step (t, op, a, x) (CDone r) s = (CDone r, s)"

subsection \<open>AbortTransaction\<close>

datatype abort_phase = ABegin | AExists | ARollback | AMark | AState | ADone "shard_error option"

fun abort_step :: "participant \<Rightarrow> abort_phase \<Rightarrow> ShardServer \<Rightarrow> abort_phase \<times> ShardServer" where
  "abort_step (t, op, a, x) ABegin s =
     (let st = ShardServer_getTxnState t s in
      if st = Some StateAborted then (ADone None, s)
      else if op = OpDebit \<and> st = Some StatePrepared then (AExists, s) else (AMark, s))"
| "abort_step (t, op, a, x) AExists s = (if Ledger_AccountExists a (s_ledger s) then ARollback else AMark, s)"
| "abort_step (t, op, a, x) ARollback s = (AMark, s\<lparr>s_ledger := fst (Ledger_RollbackDebit a x (s_ledger s))\<rparr>)"
| "abort_step (t, op, a, x) AMark s =
     (case WAL_MarkAborted t (s_walLog s) of
        (w, Some err) \<Rightarrow> (ADone (Some (WalAbortFailed err)), s\<lparr>s_walLog := w\<rparr>)
      | (w, None) \<Rightarrow> (AState, s\<lparr>s_walLog := w\<rparr>))"
| "abort_step (t, op, a, x) AState s =
     (let s1 = ShardServer_setTxnState t StateAborted s
      in (ADone None, s1\<lparr>s_abortedCount := s_abortedCount s1 + 1\<rparr>))"
| "abort_step (t, op, a, x) (ADone r) s = (ADone r, s)"

subsection \<open>CreateAccountWithWAL\<close>

datatype create_phase =
    KBegin | KAppend | KCreate | KMarkAborted ledger_error | KExists ledger_error
  | KMark | KState "wal_error option" | KDone "shard_error option"

fun create_step :: "string \<Rightarrow> int64 \<Rightarrow> create_phase \<Rightarrow> ShardServer \<Rightarrow> create_phase \<times> ShardServer" where
  "create_step a x KBegin s =
     (if Ledger_AccountExists a (s_ledger s) then (KDone (Some ErrAccountExists), s) else (KAppend, s))"
| "create_step a x KAppend s =
     (case WAL_Append (create_txn a) OpCreateAccount a x (s_walLog s) of
        (w, Inl err) \<Rightarrow> (KDone (Some (WalCreateFailed err)), s\<lparr>s_walLog := w\<rparr>)
      | (w, Inr _) \<Rightarrow> (KCreate, s\<lparr>s_walLog := w\<rparr>))"
| "create_step a x KCreate s =
     (case Ledger_CreateAccount a x (s_ledger s) of
        (l, Some err) \<Rightarrow> (KMarkAborted err, s\<lparr>s_ledger := l\<rparr>)
      | (l, None) \<Rightarrow> (KMark, s\<lparr>s_ledger := l\<rparr>))"
| "create_step a x (KMarkAborted err) s = (KExists err, mark_aborted (create_txn a) s)"
| "create_step a x (KExists err) s =
     (KDone (Some (if Ledger_AccountExists a (s_ledger s) then ErrAccountExists else CreateLedgerError err)), s)"
| "create_step a x KMark s =
     (case WAL_MarkCommitted (create_txn a) (s_walLog s) of (w, r) \<Rightarrow> (KState r, s\<lparr>s_walLog := w\<rparr>))"
| "create_step a x (KState r) s =
     (KDone (map_option WalCommitCreateFailed r), ShardServer_setTxnState (create_txn a) StateCommitted s)"
| "create_step a x (KDone r) s = (KDone r, s)"

subsection \<open>Handlers at work\<close>

datatype handler =
    Exec Transaction exec_phase
  | Prepare participant prepare_phase
  | Commit participant commit_phase
  | Abort participant abort_phase
  | Create string int64 create_phase

fun handler_step :: "handler \<Rightarrow> ShardServer \<Rightarrow> handler \<times> ShardServer" where
  "handler_step (Exec txn ph) s = map_prod (Exec txn) id (exec_step txn ph s)"
| "handler_step (Prepare p ph) s = map_prod (Prepare p) id (prepare_step p ph s)"
| "handler_step (Commit p ph) s = map_prod (Commit p) id (commit_step p ph s)"
| "handler_step (Abort p ph) s = map_prod (Abort p) id (abort_step p ph s)"
| "handler_step (Create a x ph) s = map_prod (Create a x) id (create_step a x ph s)"

fun at_start :: "handler \<Rightarrow> bool" where
  "at_start (Exec txn ph) = (ph = EBegin)"
| "at_start (Prepare p ph) = (ph = PBegin)"
| "at_start (Commit p ph) = (ph = CBegin)"
| "at_start (Abort p ph) = (ph = ABegin)"
| "at_start (Create a x ph) = (ph = KBegin)"

fun at_end :: "handler \<Rightarrow> bool" where
  "at_end (Exec txn (EDone out r)) = True"
| "at_end (Prepare p (PDone r)) = True"
| "at_end (Commit p (CDone r)) = True"
| "at_end (Abort p (ADone r)) = True"
| "at_end (Create a x (KDone r)) = True"
| "at_end h = False"

definition active :: "handler \<Rightarrow> bool" where
  "active h \<longleftrightarrow> \<not> at_start h \<and> \<not> at_end h"

text \<open>The mutex a handler holds while it is active.\<close>

datatype lock = Stripe nat | CreateMu

fun txn_of :: "handler \<Rightarrow> string option" where
  "txn_of (Exec txn ph) = Some (t_TxnID txn)"
| "txn_of (Prepare p ph) = Some (fst p)"
| "txn_of (Commit p ph) = Some (fst p)"
| "txn_of (Abort p ph) = Some (fst p)"
| "txn_of (Create a x ph) = None"

definition lock_of :: "handler \<Rightarrow> lock" where
  "lock_of h = (case txn_of h of Some t \<Rightarrow> Stripe (txnMutex t) | None \<Rightarrow> CreateMu)"

definition lock_free :: "nat \<Rightarrow> handler list \<Rightarrow> bool" where
  "lock_free i hs \<longleftrightarrow> (\<forall>j < length hs. j \<noteq> i \<and> active (hs ! j) \<longrightarrow> lock_of (hs ! j) \<noteq> lock_of (hs ! i))"

inductive shard_conc :: "handler list \<times> ShardServer \<Rightarrow> handler list \<times> ShardServer \<Rightarrow> bool" where
  step: "i < length hs \<Longrightarrow> \<not> at_end (hs ! i) \<Longrightarrow> (at_start (hs ! i) \<Longrightarrow> lock_free i hs) \<Longrightarrow>
    handler_step (hs ! i) s = (h', s') \<Longrightarrow> shard_conc (hs, s) (hs[i := h'], s')"

fun handler_run :: "nat \<Rightarrow> handler \<times> ShardServer \<Rightarrow> handler \<times> ShardServer" where
  "handler_run 0 c = c"
| "handler_run (Suc n) (h, s) = handler_run n (handler_step h s)"

section \<open>A handler on its own\<close>

lemma step_at_end: "at_end h \<Longrightarrow> handler_step h s = (h, s)"
  by (cases h rule: at_end.cases) auto

lemma handler_run_end [simp]: "at_end h \<Longrightarrow> handler_run n (h, s) = (h, s)"
  by (induction n) (simp_all add: step_at_end)

lemma prepare_alone:
  "ShardServer_PrepareTransaction t op a x s = (s', r) \<Longrightarrow>
   handler_run 7 (Prepare (t, op, a, x) PBegin, s) = (Prepare (t, op, a, x) (PDone r), s')"
  by (auto simp: ShardServer_PrepareTransaction_def prepare_check_def numeral_eq_Suc Let_def server_state_defs
      dest: ledger_error_frame split: option.splits prod.splits sum.splits if_splits)

lemma commit_alone:
  "ShardServer_CommitTransaction t op a x s = (s', r) \<Longrightarrow>
   handler_run 7 (Commit (t, op, a, x) CBegin, s) = (Commit (t, op, a, x) (CDone r), s')"
  by (auto simp: ShardServer_CommitTransaction_def numeral_eq_Suc Let_def server_state_defs replicate_eq
      split: option.splits prod.splits sum.splits if_splits)

lemma abort_alone:
  "ShardServer_AbortTransaction t op a x s = (s', r) \<Longrightarrow>
   handler_run 5 (Abort (t, op, a, x) ABegin, s) = (Abort (t, op, a, x) (ADone r), s')"
  by (auto simp: ShardServer_AbortTransaction_def numeral_eq_Suc Let_def server_state_defs
      split: option.splits prod.splits sum.splits if_splits)

lemma create_alone:
  "ShardServer_CreateAccountWithWAL a x s = (s', r) \<Longrightarrow>
   handler_run 5 (Create a x KBegin, s) = (Create a x (KDone r), s')"
  by (auto simp: ShardServer_CreateAccountWithWAL_def numeral_eq_Suc Let_def server_state_defs
      split: option.splits prod.splits sum.splits if_splits)

section \<open>The escrow machine\<close>

text \<open>
  The specification. A transaction that takes money from the shard goes from \<open>Idle\<close> to \<open>Reserved\<close>, and from
  there to \<open>Settled\<close> or \<open>Released\<close>, or back to \<open>Idle\<close> when the reservation could not be logged; one that
  brings money goes from \<open>Idle\<close> to \<open>Deposited\<close>. \<open>part\<close> gives each transaction its operation, account and
  amount on this shard.
\<close>

datatype escrow = Idle | Reserved | Released | Settled | Deposited

inductive escrow_move :: "OperationType \<times> string \<times> int64 \<Rightarrow> Ledger \<times> escrow \<Rightarrow> Ledger \<times> escrow \<Rightarrow> bool" where
  reserve: "Ledger_ApplyDebit a x l = (l', None) \<Longrightarrow> escrow_move (OpDebit, a, x) (l, Idle) (l', Reserved)"
| cancel: "Ledger_RollbackDebit a x l = (l', None) \<Longrightarrow> escrow_move (OpDebit, a, x) (l, Reserved) (l', Idle)"
| release: "Ledger_RollbackDebit a x l = (l', None) \<Longrightarrow> escrow_move (OpDebit, a, x) (l, Reserved) (l', Released)"
| settle: "escrow_move (OpDebit, a, x) (l, Reserved) (l, Settled)"
| deposit: "Ledger_ApplyCredit a x l = (l', None) \<Longrightarrow> escrow_move (OpCredit, a, x) (l, Idle) (l', Deposited)"

text \<open>The ledger, where each transaction stands, and how much money accounts were opened with.\<close>

type_synonym escrow_state = "Ledger \<times> (string \<Rightarrow> escrow) \<times> int"

inductive escrow_step :: "string set \<Rightarrow> (string \<Rightarrow> OperationType \<times> string \<times> int64) \<Rightarrow> escrow_state \<Rightarrow> escrow_state \<Rightarrow> bool"
  for ids part where
  move: "t \<in> ids \<Longrightarrow> escrow_move (part t) (l, p t) (l', q) \<Longrightarrow> escrow_step ids part (l, p, n) (l', p(t := q), n)"
| transfer: "apply_txn txn l = (l', None) \<Longrightarrow> escrow_step ids part (l, p, n) (l', p, n)"
| open_account: "Ledger_CreateAccount a x l = (l', None) \<Longrightarrow> escrow_step ids part (l, p, n) (l', p, n + sint x)"

text \<open>Where a transaction may stand when no handler of it is at work, and what its entry in the transaction
  table then says.\<close>

definition idle_match :: "OperationType \<Rightarrow> escrow \<Rightarrow> TransactionState option \<Rightarrow> bool" where
  "idle_match op q st \<longleftrightarrow> (q = Reserved \<longleftrightarrow> op = OpDebit \<and> st = Some StatePrepared)
     \<and> (st = None \<longrightarrow> q = Idle) \<and> (q = Released \<longrightarrow> st = Some StateAborted)
     \<and> (q = Deposited \<or> q = Settled \<longrightarrow> st = Some StateCommitted \<or> st = Some StateAborted)"

definition kind_match :: "OperationType \<Rightarrow> escrow \<Rightarrow> bool" where
  "kind_match op q \<longleftrightarrow> q \<in> (if op = OpDebit then {Idle, Reserved, Released, Settled} else if op = OpCredit then {Idle, Deposited} else {Idle})"

text \<open>The same for a handler at work, by its phase.\<close>

fun prepare_match :: "OperationType \<Rightarrow> prepare_phase \<Rightarrow> escrow \<Rightarrow> TransactionState option \<Rightarrow> bool" where
  "prepare_match op PBegin q st = idle_match op q st"
| "prepare_match op (PDone r) q st = idle_match op q st"
| "prepare_match op PAppend q st = (q = (if op = OpDebit then Reserved else Idle))"
| "prepare_match op PPrepared q st = (q = (if op = OpDebit then Reserved else Idle))"
| "prepare_match op (PRollback err) q st = (op = OpDebit \<and> q = Reserved)"
| "prepare_match op PValidate q st = (op = OpDebit \<and> q = Idle)"
| "prepare_match op PReserve q st = (op = OpDebit \<and> q = Idle)"
| "prepare_match op PExists q st = (op = OpCredit \<and> q = Idle)"
| "prepare_match op ph q st = (q = Idle)"

fun commit_match :: "OperationType \<Rightarrow> commit_phase \<Rightarrow> escrow \<Rightarrow> TransactionState option \<Rightarrow> bool" where
  "commit_match op CAborted q st = (idle_match op q st \<and> st \<noteq> Some StateCommitted)"
| "commit_match op CAppend q st = (idle_match op q st \<and> st \<noteq> Some StateCommitted \<and> st \<noteq> Some StateAborted)"
| "commit_match op (CReplicate n) q st = (idle_match op q st \<and> st \<noteq> Some StateCommitted \<and> st \<noteq> Some StateAborted)"
| "commit_match op CCredit q st = (op = OpCredit \<and> idle_match op q st \<and> st \<noteq> Some StateCommitted \<and> st \<noteq> Some StateAborted)"
| "commit_match op CMark q st = ((op = OpCredit \<longrightarrow> q = Deposited) \<and> q \<noteq> Released)"
| "commit_match op (CState r) q st = ((op = OpCredit \<longrightarrow> q = Deposited) \<and> q \<noteq> Released)"
| "commit_match op ph q st = idle_match op q st"

fun abort_match :: "OperationType \<Rightarrow> abort_phase \<Rightarrow> escrow \<Rightarrow> TransactionState option \<Rightarrow> bool" where
  "abort_match op AExists q st = (op = OpDebit \<and> q = Reserved)"
| "abort_match op ARollback q st = (op = OpDebit \<and> q = Reserved)"
| "abort_match op AMark q st = (q \<noteq> Reserved)"
| "abort_match op AState q st = (q \<noteq> Reserved)"
| "abort_match op ph q st = idle_match op q st"

fun handler_match :: "OperationType \<Rightarrow> handler \<Rightarrow> escrow \<Rightarrow> TransactionState option \<Rightarrow> bool" where
  "handler_match op (Exec txn ph) q st = (if ph = EBegin \<or> finished ph then idle_match op q st else q = Idle \<and> st \<noteq> Some StatePrepared)"
| "handler_match op (Prepare p ph) q st = prepare_match op ph q st"
| "handler_match op (Commit p ph) q st = commit_match op ph q st"
| "handler_match op (Abort p ph) q st = abort_match op ph q st"
| "handler_match op (Create a x ph) q st = True"

text \<open>An abort whose marker could not be written leaves the transaction prepared although its money is back.\<close>

fun abort_failed :: "handler \<Rightarrow> bool" where
  "abort_failed (Abort p (ADone (Some (WalAbortFailed err)))) = True"
| "abort_failed h = False"

text \<open>A reservation is of a positive amount on an account the shard has.\<close>

definition backed :: "OperationType \<times> string \<times> int64 \<Rightarrow> Ledger \<Rightarrow> bool" where
  "backed w l = (case w of (op, a, x) \<Rightarrow> 0 <s x \<and> l_balances l a \<noteq> None)"

lemma at_end_exec: "at_end (Exec txn ph) \<longleftrightarrow> finished ph"
  by (cases ph) (simp_all add: finished_def)

lemma inactive_match:
  "\<not> active h \<Longrightarrow> txn_of h \<noteq> None \<Longrightarrow> handler_match op h q st \<longleftrightarrow> idle_match op q st"
  unfolding active_def
  by (cases h rule: at_end.cases) (auto simp: finished_def)

text \<open>One phase of a handler: its transaction makes at most one move of the specification.\<close>

definition moves_to :: "OperationType \<times> string \<times> int64 \<Rightarrow> Ledger \<times> escrow \<Rightarrow> Ledger \<times> escrow \<Rightarrow> bool" where
  "moves_to w c c' \<longleftrightarrow> c' = c \<or> escrow_move w c c'"

text \<open>Who can make which move.\<close>

fun may_move :: "handler \<Rightarrow> escrow \<Rightarrow> escrow \<Rightarrow> bool" where
  "may_move (Prepare p ph) q q' \<longleftrightarrow> q' = q \<or> q' = Idle \<or> q' = Reserved"
| "may_move (Commit p ph) q q' \<longleftrightarrow> q' = q \<or> q' = Settled \<or> q' = Deposited"
| "may_move (Abort p ph) q q' \<longleftrightarrow> q' = q \<or> q' = Released"
| "may_move h q q' \<longleftrightarrow> q' = q"

text \<open>What each entry of the table allows.\<close>

lemma idle_match_at:
  "idle_match op q None \<longleftrightarrow> q = Idle" "idle_match op q (Some StatePending) \<longleftrightarrow> q = Idle"
  "idle_match op q (Some StatePrepared) \<longleftrightarrow> q = (if op = OpDebit then Reserved else Idle)"
  "idle_match op q (Some StateCommitted) \<longleftrightarrow> q \<noteq> Reserved \<and> q \<noteq> Released"
  "idle_match op q (Some StateAborted) \<longleftrightarrow> q \<noteq> Reserved"
  by (cases q; auto simp: idle_match_def)+

lemma idle_undecided:
  "idle_match op q st \<Longrightarrow> st \<noteq> Some StateCommitted \<Longrightarrow> st \<noteq> Some StateAborted \<Longrightarrow> q = Idle \<or> q = Reserved"
  by (cases q) (auto simp: idle_match_def)

lemma idle_reserved: "idle_match op q st \<Longrightarrow> q = Reserved \<longleftrightarrow> op = OpDebit \<and> st = Some StatePrepared"
  by (simp add: idle_match_def)

lemma may_move_refl [simp]: "may_move h q q"
  by (cases h) simp_all

lemma prepare_step_match:
  assumes "prepare_step (t, op, a, x) ph s = (ph', s')" "prepare_match op ph q (s_seenTxns s t)" "kind_match op q"
    and "q = Reserved \<Longrightarrow> backed (op, a, x) (s_ledger s)"
  shows "\<exists>q'. moves_to (op, a, x) (s_ledger s, q) (s_ledger s', q') \<and> prepare_match op ph' q' (s_seenTxns s' t)
    \<and> (q' = q \<or> q' = Idle \<or> q' = Reserved)"
proof (cases ph)
  case PReserve
  obtain l r where l: "Ledger_ApplyDebit a x (s_ledger s) = (l, r)" by force
  show ?thesis
  proof (cases r)
    case None
    then show ?thesis using assms(1,2) PReserve l
      by (intro exI [of _ Reserved]) (auto simp: moves_to_def intro: escrow_move.reserve)
  qed (use assms(1,2) PReserve l in \<open>auto simp: moves_to_def dest: ledger_error_frame\<close>)
next
  case (PRollback err)
  then have "escrow_move (op, a, x) (s_ledger s, q) (s_ledger s', Idle)"
    using assms by (auto intro!: escrow_move.cancel simp: backed_def Ledger_RollbackDebit_def signed_order)
  then show ?thesis using assms(1) PRollback by (auto simp: moves_to_def)
qed (use assms in \<open>auto simp: moves_to_def idle_match_def Let_def server_state_defs
  split: option.splits prod.splits sum.splits if_splits\<close>)

lemma commit_step_match:
  assumes "commit_step (t, op, a, x) ph s = (ph', s')" "commit_match op ph q (s_seenTxns s t)" "kind_match op q"
  shows "\<exists>q'. moves_to (op, a, x) (s_ledger s, q) (s_ledger s', q') \<and> commit_match op ph' q' (s_seenTxns s' t)
    \<and> (q' = q \<or> q' = Settled \<or> q' = Deposited)"
proof (cases ph)
  case CCredit
  obtain l r where l: "Ledger_ApplyCredit a x (s_ledger s) = (l, r)" by force
  show ?thesis
  proof (cases r)
    case None
    then show ?thesis using assms CCredit l
      by (intro exI [of _ Deposited]) (auto simp: moves_to_def kind_match_def idle_match_def intro: escrow_move.deposit)
  qed (use assms(1,2) CCredit l in \<open>auto simp: moves_to_def dest: ledger_error_frame intro!: exI [of _ q]\<close>)
next
  case (CState r)
  then have "s_ledger s' = s_ledger s" "s_seenTxns s' t = Some StateCommitted" "\<exists>r'. ph' = CDone r'"
    using assms(1) by (cases r; auto simp: Let_def server_state_defs)+
  then show ?thesis
    using assms(2,3) CState by (intro exI [of _ "if q = Reserved then Settled else q"])
      (auto simp: moves_to_def idle_match_def kind_match_def split: if_splits intro: escrow_move.settle)
next
  case (CReplicate n)
  then have "q = Idle \<or> q = Reserved" using assms(2) idle_undecided [of op q "s_seenTxns s t"] by auto
  then show ?thesis
    using assms CReplicate by (intro exI [of _ q]) (auto simp: moves_to_def replicate_eq)
qed (use assms in \<open>(intro exI [of _ q], auto simp: moves_to_def Let_def server_state_defs
  split: prod.splits sum.splits if_splits)\<close>)

lemma abort_step_match:
  assumes "abort_step (t, op, a, x) ph s = (ph', s')" "abort_match op ph q (s_seenTxns s t)" "kind_match op q"
    and "q = Reserved \<Longrightarrow> backed (op, a, x) (s_ledger s)" "\<not> abort_failed (Abort (t, op, a, x) ph')"
  shows "\<exists>q'. moves_to (op, a, x) (s_ledger s, q) (s_ledger s', q') \<and> abort_match op ph' q' (s_seenTxns s' t)
    \<and> (q' = q \<or> q' = Released)"
proof (cases ph)
  case ARollback
  then have "escrow_move (op, a, x) (s_ledger s, q) (s_ledger s', Released)"
    using assms by (auto intro!: escrow_move.release simp: backed_def Ledger_RollbackDebit_def signed_order)
  then show ?thesis using assms(1) ARollback by (auto simp: moves_to_def intro!: exI [of _ Released])
next
  case ABegin
  then show ?thesis
    using assms(1,2) idle_reserved [of op q "s_seenTxns s t"]
    by (intro exI [of _ q]) (auto simp: moves_to_def Let_def ShardServer_getTxnState_def split: if_splits)
next
  case AState
  then show ?thesis
    using assms(1,2) by (intro exI [of _ q]) (auto simp: moves_to_def Let_def server_state_defs idle_match_at)
qed (use assms in \<open>(intro exI [of _ q], auto simp: moves_to_def server_state_defs backed_def Ledger_AccountExists_def
  split: option.splits prod.splits if_splits)\<close>)

lemma exec_step_match:
  assumes "exec_step txn ph s = (ph', s')" "handler_match op (Exec txn ph) q (s_seenTxns s (t_TxnID txn))" "\<not> finished ph"
  shows "handler_match op (Exec txn ph') q (s_seenTxns s' (t_TxnID txn))"
proof (cases ph)
  case (ECommitState r)
  then show ?thesis using assms by (cases r) (auto simp: Let_def server_state_defs finished_def idle_match_def)
qed (use assms in \<open>auto simp: Let_def server_state_defs replicate_eq finished_def idle_match_def
  split: option.splits prod.splits sum.splits bool.splits\<close>)

text \<open>What a phase leaves alone: the table's entries of other transactions, and the accounts.\<close>

fun writes_txn :: "handler \<Rightarrow> string" where
  "writes_txn (Exec txn ph) = t_TxnID txn"
| "writes_txn (Prepare p ph) = fst p"
| "writes_txn (Commit p ph) = fst p"
| "writes_txn (Abort p ph) = fst p"
| "writes_txn (Create a x ph) = create_txn a"

lemma handler_step_frame:
  assumes "handler_step h s = (h', s')" "u \<noteq> writes_txn h"
  shows "s_seenTxns s' u = s_seenTxns s u"
proof (cases h)
  case (Exec txn ph)
  then show ?thesis using assms
    by (cases "(txn, ph, s)" rule: exec_step.cases)
      (auto simp: Let_def server_state_defs replicate_eq split: option.splits prod.splits sum.splits bool.splits)
next
  case (Prepare p ph)
  then show ?thesis using assms
    by (cases "(p, ph, s)" rule: prepare_step.cases)
      (auto simp: Let_def server_state_defs split: option.splits prod.splits sum.splits if_splits)
next
  case (Commit p ph)
  then show ?thesis using assms
    by (cases "(p, ph, s)" rule: commit_step.cases)
      (auto simp: Let_def server_state_defs replicate_eq split: option.splits prod.splits sum.splits if_splits)
next
  case (Abort p ph)
  then show ?thesis using assms
    by (cases "(p, ph, s)" rule: abort_step.cases)
      (auto simp: Let_def server_state_defs split: option.splits prod.splits sum.splits if_splits)
next
  case (Create a x ph)
  then show ?thesis using assms
    by (cases "(a, x, ph, s)" rule: create_step.cases)
      (auto simp: Let_def server_state_defs split: option.splits prod.splits sum.splits if_splits)
qed

lemma handler_step_keeps:
  assumes "handler_step h s = (h', s')"
  shows "txn_of h' = txn_of h" "writes_txn h' = writes_txn h"
  using assms by (cases h; auto simp: map_prod_def split: prod.splits)+

lemma handler_step_leaves_start:
  assumes "handler_step h s = (h', s')"
  shows "\<not> at_start h'"
proof (cases h)
  case (Exec txn ph)
  then show ?thesis using assms
    by (cases "(txn, ph, s)" rule: exec_step.cases) (auto simp: Let_def split: option.splits prod.splits sum.splits bool.splits)
next
  case (Prepare p ph)
  then show ?thesis using assms
    by (cases "(p, ph, s)" rule: prepare_step.cases) (auto simp: Let_def split: option.splits prod.splits sum.splits if_splits)
next
  case (Commit p ph)
  then show ?thesis using assms
    by (cases "(p, ph, s)" rule: commit_step.cases) (auto simp: Let_def split: option.splits prod.splits sum.splits if_splits)
next
  case (Abort p ph)
  then show ?thesis using assms
    by (cases "(p, ph, s)" rule: abort_step.cases) (auto simp: Let_def split: option.splits prod.splits sum.splits if_splits)
next
  case (Create a x ph)
  then show ?thesis using assms
    by (cases "(a, x, ph, s)" rule: create_step.cases) (auto simp: Let_def split: option.splits prod.splits sum.splits if_splits)
qed

section \<open>The refinement\<close>

text \<open>The requests that take part: those of a transaction in \<open>ids\<close> agree on what it does on this shard, and
  no account creation uses one of these identifiers.\<close>

fun request_ok :: "string set \<Rightarrow> (string \<Rightarrow> OperationType \<times> string \<times> int64) \<Rightarrow> handler \<Rightarrow> bool" where
  "request_ok ids part (Exec txn ph) = True"
| "request_ok ids part (Prepare p ph) = (fst p \<in> ids \<and> part (fst p) = snd p)"
| "request_ok ids part (Commit p ph) = (fst p \<in> ids \<and> part (fst p) = snd p)"
| "request_ok ids part (Abort p ph) = (fst p \<in> ids \<and> part (fst p) = snd p)"
| "request_ok ids part (Create a x ph) = (create_txn a \<notin> ids)"

lemma request_ok_step: "handler_step h s = (h', s') \<Longrightarrow> request_ok ids part h' = request_ok ids part h"
  by (cases h) (auto simp: map_prod_def split: prod.splits)

definition exclusive :: "handler list \<Rightarrow> bool" where
  "exclusive hs \<longleftrightarrow> (\<forall>i < length hs. \<forall>j < length hs. i \<noteq> j \<and> active (hs ! i) \<and> active (hs ! j) \<longrightarrow> lock_of (hs ! i) \<noteq> lock_of (hs ! j))"

lemma exclusive_free:
  assumes "exclusive hs" "i < length hs" "\<not> at_end (hs ! i)" "at_start (hs ! i) \<Longrightarrow> lock_free i hs"
  shows "lock_free i hs"
proof (cases "at_start (hs ! i)")
  case False
  then have "active (hs ! i)" using assms(3) by (simp add: active_def)
  then show ?thesis using assms(1,2) unfolding exclusive_def lock_free_def by metis
qed (rule assms(4))

lemma exclusive_step:
  assumes "exclusive hs" "lock_free i hs" "i < length hs" "lock_of h' = lock_of (hs ! i)"
  shows "exclusive (hs[i := h'])"
  unfolding exclusive_def
proof (intro allI impI, elim conjE)
  fix j k
  assume jk: "j < length (hs[i := h'])" "k < length (hs[i := h'])" "j \<noteq> k"
    and act: "active (hs[i := h'] ! j)" "active (hs[i := h'] ! k)"
  have free: "lock_of (hs ! m) \<noteq> lock_of (hs ! i)" if "m < length hs" "m \<noteq> i" "active (hs ! m)" for m
    using assms(2) that unfolding lock_free_def by blast
  show "lock_of (hs[i := h'] ! j) \<noteq> lock_of (hs[i := h'] ! k)"
  proof (cases "j = i \<or> k = i")
    case True
    then show ?thesis using jk act free [of j] free [of k] assms(3,4) by auto
  next
    case False
    then show ?thesis using jk act assms(1) unfolding exclusive_def by simp
  qed
qed

text \<open>How much a creation has added.\<close>

fun opened_by :: "handler \<Rightarrow> int" where
  "opened_by (Create a x KMark) = sint x"
| "opened_by (Create a x (KState r)) = sint x"
| "opened_by (Create a x (KDone None)) = sint x"
| "opened_by (Create a x (KDone (Some (WalCommitCreateFailed err)))) = sint x"
| "opened_by h = 0"

definition opened :: "handler list \<Rightarrow> int" where
  "opened hs = sum_list (map opened_by hs)"

lemma opened_update: "i < length hs \<Longrightarrow> opened (hs[i := h']) = opened hs + (opened_by h' - opened_by (hs ! i))"
proof (induction hs arbitrary: i)
  case (Cons h hs)
  then show ?case by (cases i) (simp_all add: opened_def)
qed simp

definition phases_match ::
    "(string \<Rightarrow> OperationType \<times> string \<times> int64) \<Rightarrow> handler list \<Rightarrow> (string \<Rightarrow> escrow) \<Rightarrow> (string \<rightharpoonup> TransactionState) \<Rightarrow> string \<Rightarrow> bool" where
  "phases_match part hs p seen t \<longleftrightarrow>
     (\<forall>h \<in> set hs. txn_of h = Some t \<and> active h \<longrightarrow> handler_match (fst (part t)) h (p t) (seen t))
   \<and> ((\<forall>h \<in> set hs. txn_of h = Some t \<longrightarrow> \<not> active h) \<longrightarrow> idle_match (fst (part t)) (p t) (seen t))"

fun escrow_sim ::
    "string set \<Rightarrow> (string \<Rightarrow> OperationType \<times> string \<times> int64) \<Rightarrow> handler list \<times> ShardServer \<Rightarrow> escrow_state \<Rightarrow> bool" where
  "escrow_sim ids part (hs, s) (l, p, n) \<longleftrightarrow>
     l = s_ledger s \<and> n = opened hs \<and> exclusive hs \<and> (\<forall>h \<in> set hs. request_ok ids part h)
   \<and> (\<forall>t. t \<notin> ids \<longrightarrow> p t = Idle)
   \<and> (\<forall>t \<in> ids. kind_match (fst (part t)) (p t) \<and> (p t = Reserved \<longrightarrow> backed (part t) l)
        \<and> phases_match part hs p (s_seenTxns s) t)"

text \<open>A handler that steps finds its own phase matched.\<close>

lemma match_here:
  assumes "phases_match part hs p seen t" "lock_free i hs" "i < length hs" "txn_of (hs ! i) = Some t"
  shows "handler_match (fst (part t)) (hs ! i) (p t) (seen t)"
proof (cases "active (hs ! i)")
  case True
  then show ?thesis using assms nth_mem [OF assms(3)] by (auto simp: phases_match_def)
next
  case False
  have "\<not> active h" if "h \<in> set hs" "txn_of h = Some t" for h
  proof -
    from that(1) obtain j where j: "j < length hs" "h = hs ! j" by (auto simp: in_set_conv_nth)
    then show ?thesis
      using assms(2,4) that(2) False by (cases "j = i") (auto simp: lock_free_def lock_of_def)
  qed
  then have "idle_match (fst (part t)) (p t) (seen t)" using assms(1) by (auto simp: phases_match_def)
  then show ?thesis using inactive_match [OF False, of "fst (part t)"] assms(4) by simp
qed

lemma match_after:
  assumes "lock_free i hs" "i < length hs" "txn_of h' = Some t" "txn_of (hs ! i) = Some t"
    and "handler_match (fst (part t)) h' (p t) (seen t)"
  shows "phases_match part (hs[i := h']) p seen t"
proof -
  have "h = h'" if "h \<in> set (hs[i := h'])" "txn_of h = Some t" "active h" for h
  proof -
    from that(1) obtain j where j: "j < length hs" "h = hs[i := h'] ! j" by (auto simp: in_set_conv_nth)
    then show ?thesis
      using assms(1,4) that(2,3) by (cases "j = i") (auto simp: lock_free_def lock_of_def)
  qed
  moreover have "h' \<in> set (hs[i := h'])" using assms(2) by (rule set_update_memI)
  ultimately show ?thesis
    using assms(3,5) inactive_match [of h' "fst (part t)" "p t" "seen t"] unfolding phases_match_def by auto
qed

lemma match_other:
  assumes "phases_match part hs p seen u" "i < length hs" "txn_of h' = txn_of (hs ! i)" "txn_of (hs ! i) \<noteq> Some u"
    and "p' u = p u" "seen' u = seen u"
  shows "phases_match part (hs[i := h']) p' seen' u"
proof -
  have "h \<in> set (hs[i := h']) \<longleftrightarrow> h \<in> set hs" if "txn_of h = Some u" for h
  proof -
    have "h \<noteq> h'" "h \<noteq> hs ! i" using that assms(3,4) by auto
    then show ?thesis using set_update_subset_insert [of hs i h'] set_update_subset_insert [of "hs[i := h']" i "hs ! i"] by auto
  qed
  then show ?thesis using assms(1,5,6) by (auto simp: phases_match_def)
qed

lemma escrow_step_dom: "escrow_step ids part (l, p, n) (l', p', n') \<Longrightarrow> dom (l_balances l) \<subseteq> dom (l_balances l')"
  by (auto elim!: escrow_step.cases escrow_move.cases simp: ledger_success apply_txn_def Ledger_CreateAccount_def split: if_splits)

lemma backed_mono: "backed w l \<Longrightarrow> dom (l_balances l) \<subseteq> dom (l_balances l') \<Longrightarrow> backed w l'"
  by (auto simp: backed_def domIff split: prod.splits)

lemma escrow_move_kind:
  assumes "escrow_move w (l, q) (l', q')"
  shows "kind_match (fst w) q'" "q' = Reserved \<Longrightarrow> backed w l'"
  using assms by (auto elim!: escrow_move.cases simp: kind_match_def backed_def ledger_success)

text \<open>One phase of a handler of a transaction, and one of a creation.\<close>

lemma handler_step_match:
  assumes "handler_step h s = (h', s')" "txn_of h = Some t" "\<not> at_end h" "\<not> abort_failed h'"
    and "request_ok ids part h" "handler_match (fst (part t)) h q (s_seenTxns s t)" "kind_match (fst (part t)) q"
    and "q = Reserved \<Longrightarrow> backed (part t) (s_ledger s)"
  shows "\<exists>q'. (moves_to (part t) (s_ledger s, q) (s_ledger s', q') \<or> q' = q \<and> (\<exists>txn. apply_txn txn (s_ledger s) = (s_ledger s', None)))
    \<and> handler_match (fst (part t)) h' q' (s_seenTxns s' t) \<and> may_move h q q'"
proof (cases h)
  case (Exec txn ph)
  then obtain ph' where e: "h' = Exec txn ph'" "exec_step txn ph s = (ph', s')" "\<not> finished ph" "t = t_TxnID txn"
    using assms(1,2,3) by (auto simp: map_prod_def at_end_exec split: prod.splits)
  then have "handler_match (fst (part t)) h' q (s_seenTxns s' t)" using exec_step_match [OF e(2)] assms(6) Exec by simp
  moreover have "s_ledger s' = s_ledger s \<or> apply_txn txn (s_ledger s) = (s_ledger s', None)"
    using exec_step_decides [OF e(2)] by blast
  ultimately show ?thesis by (auto simp: moves_to_def)
next
  case (Prepare p ph)
  obtain op a x where p: "p = (t, op, a, x)" using assms(2) Prepare by (cases p) auto
  then have "part t = (op, a, x)" using assms(5) Prepare by simp
  then show ?thesis
    using assms Prepare p prepare_step_match [of t op a x ph s _ s' q] by (auto simp: map_prod_def split: prod.splits)
next
  case (Commit p ph)
  obtain op a x where p: "p = (t, op, a, x)" using assms(2) Commit by (cases p) auto
  then have "part t = (op, a, x)" using assms(5) Commit by simp
  then show ?thesis
    using assms Commit p commit_step_match [of t op a x ph s _ s' q] by (auto simp: map_prod_def split: prod.splits)
next
  case (Abort p ph)
  obtain op a x where p: "p = (t, op, a, x)" using assms(2) Abort by (cases p) auto
  then have "part t = (op, a, x)" using assms(5) Abort by simp
  then show ?thesis
    using assms Abort p abort_step_match [of t op a x ph s _ s' q] by (auto simp: map_prod_def split: prod.splits)
qed (use assms(2) in simp)

lemma create_step_opens:
  assumes "handler_step h s = (h', s')" "txn_of h = None" "\<not> at_end h"
  shows "s_ledger s' = s_ledger s \<and> opened_by h' = opened_by h
    \<or> (\<exists>a x. Ledger_CreateAccount a x (s_ledger s) = (s_ledger s', None) \<and> opened_by h' = opened_by h + sint x)"
proof (cases h)
  case (Create a x ph)
  then show ?thesis
    using assms
  proof (cases "(a, x, ph, s)" rule: create_step.cases)
    case (3 a' x' s0)
    obtain l r where "Ledger_CreateAccount a x (s_ledger s) = (l, r)" by force
    then show ?thesis using 3 assms(1) Create by (cases r) (auto dest: ledger_error_frame intro!: exI [of _ a] exI [of _ x])
  next
    case (7 a' x' r s0)
    then show ?thesis using assms(1) Create by (cases r) (auto simp: server_state_defs)
  qed (auto simp: server_state_defs split: if_splits option.splits prod.splits sum.splits)
qed (use assms(2) in auto)

lemma txn_opens_nothing: "txn_of h \<noteq> None \<Longrightarrow> opened_by h = 0"
  by (cases h) auto

lemma escrow_sim_update:
  assumes "escrow_sim ids part (hs, s) (l, p, n)" "lock_free i hs" "i < length hs" "handler_step (hs ! i) s = (h', s')"
    and "(s_ledger s', p', n') = (l, p, n) \<or> escrow_step ids part (l, p, n) (s_ledger s', p', n')" "n' = opened (hs[i := h'])"
    and "\<And>t. t \<in> ids \<Longrightarrow> kind_match (fst (part t)) (p' t)" "\<And>t. t \<notin> ids \<Longrightarrow> p' t = Idle"
    and "\<And>t. t \<in> ids \<Longrightarrow> p' t = Reserved \<Longrightarrow> p t \<noteq> Reserved \<Longrightarrow> backed (part t) (s_ledger s')"
    and "\<And>t. t \<in> ids \<Longrightarrow> phases_match part (hs[i := h']) p' (s_seenTxns s') t"
  shows "escrow_sim ids part (hs[i := h'], s') (s_ledger s', p', n')"
proof -
  have "exclusive (hs[i := h'])"
    using exclusive_step [of hs i h'] assms(1-3) handler_step_keeps(1) [OF assms(4)] by (simp add: lock_of_def)
  moreover have "\<forall>h \<in> set (hs[i := h']). request_ok ids part h"
    using assms(1,3) request_ok_step [OF assms(4), of ids part] set_update_subset_insert [of hs i h'] nth_mem [of i hs] by auto
  moreover have "dom (l_balances l) \<subseteq> dom (l_balances (s_ledger s'))" using assms(5) escrow_step_dom by blast
  then have "backed (part t) (s_ledger s')" if "t \<in> ids" "p t = Reserved" for t
    using backed_mono [of "part t" l "s_ledger s'"] that assms(1) by auto
  then have "backed (part t) (s_ledger s')" if "t \<in> ids" "p' t = Reserved" for t
    using that assms(9) by blast
  ultimately show ?thesis using assms(6-8,10) by simp
qed

lemma escrow_sim_create:
  assumes sim: "escrow_sim ids part (hs, s) (l, p, n)" and i: "lock_free i hs" "i < length hs"
    and st: "handler_step (hs ! i) s = (h', s')" "\<not> at_end (hs ! i)" and none: "txn_of (hs ! i) = None"
  shows "\<exists>a'. escrow_sim ids part (hs[i := h'], s') a' \<and> (a' = (l, p, n) \<or> escrow_step ids part (l, p, n) a') \<and> fst (snd a') = p"
proof -
  have l: "l = s_ledger s" "n = opened hs" using sim by simp_all
  have w: "writes_txn (hs ! i) \<notin> ids" using none sim nth_mem [OF i(2)] by (cases "hs ! i") auto
  have m: "phases_match part (hs[i := h']) p (s_seenTxns s') t" if "t \<in> ids" for t
    using that w none sim handler_step_frame [OF st(1), of t] handler_step_keeps(1) [OF st(1)]
    by (intro match_other [OF _ i(2), where p = p and seen = "s_seenTxns s"]) auto
  have op: "opened (hs[i := h']) = n + (opened_by h' - opened_by (hs ! i))" using opened_update [OF i(2)] l by simp
  have "(s_ledger s', p, opened (hs[i := h'])) = (l, p, n) \<or> escrow_step ids part (l, p, n) (s_ledger s', p, opened (hs[i := h']))"
    using create_step_opens [OF st(1) none st(2)]
  proof (elim disjE exE conjE)
    fix a x
    assume "Ledger_CreateAccount a x (s_ledger s) = (s_ledger s', None)" "opened_by h' = opened_by (hs ! i) + sint x"
    then show ?thesis using escrow_step.open_account [of a x l "s_ledger s'" ids part p n] op l by simp
  qed (use op l in simp)
  note step = this
  have "escrow_sim ids part (hs[i := h'], s') (s_ledger s', p, opened (hs[i := h']))"
    by (rule escrow_sim_update [OF sim i st(1) step]) (use sim m in auto)
  with step show ?thesis by (intro exI [of _ "(s_ledger s', p, opened (hs[i := h']))"]) simp
qed

lemma escrow_sim_txn:
  assumes sim: "escrow_sim ids part (hs, s) (l, p, n)" and i: "lock_free i hs" "i < length hs"
    and st: "handler_step (hs ! i) s = (h', s')" "\<not> at_end (hs ! i)" "\<not> abort_failed h'" and t: "txn_of (hs ! i) = Some t"
  shows "\<exists>a' q'. escrow_sim ids part (hs[i := h'], s') a' \<and> (a' = (l, p, n) \<or> escrow_step ids part (l, p, n) a')
    \<and> fst (snd a') = p(t := q') \<and> may_move (hs ! i) (p t) q'"
proof -
  have l: "l = s_ledger s" and ok: "request_ok ids part (hs ! i)" using sim nth_mem [OF i(2)] by auto
  have t': "txn_of h' = Some t" and w: "writes_txn (hs ! i) = t"
    using t handler_step_keeps(1) [OF st(1)] by (cases "hs ! i"; simp)+
  have n: "n = opened (hs[i := h'])"
    using sim opened_update [OF i(2), of h'] txn_opens_nothing [of h'] txn_opens_nothing [of "hs ! i"] t t' by simp
  have other: "phases_match part (hs[i := h']) p' (s_seenTxns s') u" if "u \<in> ids" "u \<noteq> t" "p' u = p u" for u p'
    using that w t t' sim handler_step_frame [OF st(1), of u]
    by (intro match_other [OF _ i(2), where p = p and seen = "s_seenTxns s"]) auto
  note update = escrow_sim_update [OF sim i st(1) _ n]
  show ?thesis
  proof (cases "t \<in> ids")
    case True
    then have q: "kind_match (fst (part t)) (p t)" "p t = Reserved \<Longrightarrow> backed (part t) (s_ledger s)"
      and here: "handler_match (fst (part t)) (hs ! i) (p t) (s_seenTxns s t)"
      using sim match_here [OF _ i t, of part p "s_seenTxns s"] by auto
    obtain q' where mv: "moves_to (part t) (l, p t) (s_ledger s', q') \<or> q' = p t \<and> (\<exists>txn. apply_txn txn l = (s_ledger s', None))"
      and h': "handler_match (fst (part t)) h' q' (s_seenTxns s' t)" "may_move (hs ! i) (p t) q'"
      using handler_step_match [OF st(1) t st(2,3) ok here q] unfolding l by blast
    have step: "(s_ledger s', p(t := q'), n) = (l, p, n) \<or> escrow_step ids part (l, p, n) (s_ledger s', p(t := q'), n)"
      using True mv escrow_step.move [of t ids part l p "s_ledger s'" q' n] escrow_step.transfer [of _ l "s_ledger s'" ids part p n]
      by (auto simp: moves_to_def)
    have "kind_match (fst (part t)) q'" "q' = Reserved \<Longrightarrow> p t \<noteq> Reserved \<Longrightarrow> backed (part t) (s_ledger s')"
      using mv q escrow_move_kind [of "part t" l "p t" "s_ledger s'" q'] by (auto simp: moves_to_def)
    moreover have "phases_match part (hs[i := h']) (p(t := q')) (s_seenTxns s') t"
      using h' by (intro match_after [OF i t' t]) simp
    ultimately have "escrow_sim ids part (hs[i := h'], s') (s_ledger s', p(t := q'), n)"
      using True sim other [of _ "p(t := q')"] by (intro update [OF step]) (auto split: if_splits)
    with step h'(2) show ?thesis by (intro exI [of _ "(s_ledger s', p(t := q'), n)"] exI [of _ q']) simp
  next
    case False
    then obtain txn ph where "hs ! i = Exec txn ph" using ok t by (cases "hs ! i") auto
    then have "s_ledger s' = l \<or> apply_txn txn l = (s_ledger s', None)"
      using st(1) exec_step_decides [of txn ph s _ s'] l by (auto simp: map_prod_def split: prod.splits)
    then have step: "(s_ledger s', p, n) = (l, p, n) \<or> escrow_step ids part (l, p, n) (s_ledger s', p, n)"
      using escrow_step.transfer [of txn l "s_ledger s'" ids part p n] by auto
    have "escrow_sim ids part (hs[i := h'], s') (s_ledger s', p, n)"
      using False sim other [of _ p] by (intro update [OF step]) auto
    with step show ?thesis by (intro exI [of _ "(s_ledger s', p, n)"] exI [of _ "p t"]) simp
  qed
qed

text \<open>
  What moves the money of a transaction: only a COMMIT request of it settles or deposits, only an ABORT request
  releases; and a credit that the table calls committed was deposited, unless it was committed before the handlers
  started or a single-shard execution used its identifier. \<open>seen0\<close> is the table at the start.
\<close>

fun commits_txn :: "string \<Rightarrow> handler \<Rightarrow> bool" where
  "commits_txn t (Commit p ph) = (fst p = t)"
| "commits_txn t h = False"

fun aborts_txn :: "string \<Rightarrow> handler \<Rightarrow> bool" where
  "aborts_txn t (Abort p ph) = (fst p = t)"
| "aborts_txn t h = False"

fun executes_txn :: "string \<Rightarrow> handler \<Rightarrow> bool" where
  "executes_txn t (Exec txn ph) = (t_TxnID txn = t)"
| "executes_txn t h = False"

definition licensed ::
    "(string \<rightharpoonup> TransactionState) \<Rightarrow> string set \<Rightarrow> (string \<Rightarrow> OperationType \<times> string \<times> int64) \<Rightarrow> handler list
     \<Rightarrow> (string \<rightharpoonup> TransactionState) \<Rightarrow> (string \<Rightarrow> escrow) \<Rightarrow> bool" where
  "licensed seen0 ids part hs seen p \<longleftrightarrow> (\<forall>t \<in> ids.
       (p t = Settled \<or> p t = Deposited \<longrightarrow> (\<exists>h \<in> set hs. commits_txn t h))
     \<and> (p t = Released \<longrightarrow> (\<exists>h \<in> set hs. aborts_txn t h))
     \<and> (fst (part t) = OpCredit \<and> seen t = Some StateCommitted \<longrightarrow>
          p t = Deposited \<or> seen0 t = Some StateCommitted \<or> (\<exists>h \<in> set hs. executes_txn t h)))"

lemma request_kept:
  assumes "handler_step h s = (h', s')"
  shows "commits_txn t h' = commits_txn t h" "aborts_txn t h' = aborts_txn t h" "executes_txn t h' = executes_txn t h"
  using assms by (cases h; auto simp: map_prod_def split: prod.splits)+

lemma requests_kept:
  assumes "handler_step (hs ! i) s = (h', s')" "i < length hs" "Q = commits_txn t \<or> Q = aborts_txn t \<or> Q = executes_txn t"
  shows "(\<exists>h \<in> set (hs[i := h']). Q h) \<longleftrightarrow> (\<exists>h \<in> set hs. Q h)"
proof -
  have same: "Q h' = Q (hs ! i)" using request_kept [OF assms(1)] assms(3) by auto
  have "Q (hs[i := h'] ! j) = Q (hs ! j)" if "j < length hs" for j using same assms(2) that by (cases "j = i") auto
  then show ?thesis by (metis (no_types, lifting) in_set_conv_nth length_list_update)
qed

lemma becomes_committed:
  assumes "handler_step h s = (h', s')" "s_seenTxns s' t = Some StateCommitted" "s_seenTxns s t \<noteq> Some StateCommitted"
  shows "(\<exists>p r. h = Commit p (CState r) \<and> fst p = t) \<or> executes_txn t h \<or> (\<exists>a x ph. h = Create a x ph \<and> t = create_txn a)"
proof -
  have t: "t = writes_txn h" using handler_step_frame [OF assms(1), of t] assms(2,3) by auto
  show ?thesis
  proof (cases h)
    case (Prepare p ph)
    then show ?thesis using assms t
      by (cases "(p, ph, s)" rule: prepare_step.cases)
        (auto simp: Let_def server_state_defs split: option.splits prod.splits sum.splits if_splits)
  next
    case (Commit p ph)
    then show ?thesis using assms t
      by (cases "(p, ph, s)" rule: commit_step.cases)
        (auto simp: Let_def server_state_defs replicate_eq split: option.splits prod.splits sum.splits if_splits)
  next
    case (Abort p ph)
    then show ?thesis using assms t
      by (cases "(p, ph, s)" rule: abort_step.cases)
        (auto simp: Let_def server_state_defs split: option.splits prod.splits sum.splits if_splits)
  qed (use t in auto)
qed

lemma deposited_stays:
  "escrow_step ids part (l, p, n) (l', p', n') \<Longrightarrow> p t = Deposited \<Longrightarrow> p' t = Deposited"
  by (auto elim!: escrow_step.cases escrow_move.cases)

lemma licensed_step:
  assumes lic: "licensed seen0 ids part hs (s_seenTxns s) p" and sim: "escrow_sim ids part (hs, s) (l, p, n)"
    and i: "lock_free i hs" "i < length hs" and st: "handler_step (hs ! i) s = (h', s')"
    and p': "p' = p \<or> (\<exists>t q'. txn_of (hs ! i) = Some t \<and> p' = p(t := q') \<and> may_move (hs ! i) (p t) q')"
    and mv: "(l', p', n') = (l, p, n) \<or> escrow_step ids part (l, p, n) (l', p', n')"
  shows "licensed seen0 ids part (hs[i := h']) (s_seenTxns s') p'"
  unfolding licensed_def
proof (intro ballI conjI impI)
  fix u
  assume u: "u \<in> ids"
  have kept: "(\<exists>h \<in> set (hs[i := h']). Q h) \<longleftrightarrow> (\<exists>h \<in> set hs. Q h)" if "Q = commits_txn u \<or> Q = aborts_txn u \<or> Q = executes_txn u" for Q
    using requests_kept [OF st i(2) that] .
  have old: "p u = Settled \<or> p u = Deposited \<Longrightarrow> \<exists>h \<in> set hs. commits_txn u h" "p u = Released \<Longrightarrow> \<exists>h \<in> set hs. aborts_txn u h"
    using lic u unfolding licensed_def by auto
  have here: "hs ! i \<in> set hs" using i(2) by simp
  have moved: "p' u = p u \<or> txn_of (hs ! i) = Some u \<and> may_move (hs ! i) (p u) (p' u)" using p' by (auto split: if_splits)
  show "\<exists>h \<in> set (hs[i := h']). commits_txn u h" if "p' u = Settled \<or> p' u = Deposited"
    unfolding kept [of "commits_txn u", simplified] using moved old(1) that here by (cases "hs ! i") (auto intro: bexI [OF _ here])
  show "\<exists>h \<in> set (hs[i := h']). aborts_txn u h" if "p' u = Released"
    unfolding kept [of "aborts_txn u", simplified] using moved old(2) that here by (cases "hs ! i") (auto intro: bexI [OF _ here])
  assume c: "fst (part u) = OpCredit \<and> s_seenTxns s' u = Some StateCommitted"
  have dep: "p u = Deposited \<Longrightarrow> p' u = Deposited" using mv deposited_stays [of ids part l p n l' p' n' u] by auto
  show "p' u = Deposited \<or> seen0 u = Some StateCommitted \<or> (\<exists>h \<in> set (hs[i := h']). executes_txn u h)"
    unfolding kept [of "executes_txn u", simplified]
  proof (cases "s_seenTxns s u = Some StateCommitted")
    case True
    then show "p' u = Deposited \<or> seen0 u = Some StateCommitted \<or> (\<exists>h \<in> set hs. executes_txn u h)"
      using lic u c dep unfolding licensed_def by blast
  next
    case False
    from becomes_committed [OF st conjunct2 [OF c] False]
    show "p' u = Deposited \<or> seen0 u = Some StateCommitted \<or> (\<exists>h \<in> set hs. executes_txn u h)"
    proof (elim disjE exE conjE)
      fix q r
      assume q: "hs ! i = Commit q (CState r)" "fst q = u"
      then have "handler_match (fst (part u)) (hs ! i) (p u) (s_seenTxns s u)"
        using match_here [of part hs p "s_seenTxns s" u i] sim u i by simp
      then show ?thesis using q c dep by simp
    next
      fix a x ph
      assume "hs ! i = Create a x ph" "u = create_txn a"
      then show ?thesis using sim here u by fastforce
    qed (use here in blast)
  qed
qed

lemma escrow_sim_step:
  assumes "shard_conc (hs, s) (hs', s')" "escrow_sim ids part (hs, s) (l, p, n)" "\<forall>h \<in> set hs'. \<not> abort_failed h"
    and "licensed seen0 ids part hs (s_seenTxns s) p"
  shows "\<exists>a'. escrow_sim ids part (hs', s') a' \<and> licensed seen0 ids part hs' (s_seenTxns s') (fst (snd a'))
    \<and> (a' = (l, p, n) \<or> escrow_step ids part (l, p, n) a')"
  using assms(1)
proof cases
  case (step i h')
  then have i: "lock_free i hs" "i < length hs" using exclusive_free [of hs i] assms(2) by simp_all
  have nf: "\<not> abort_failed h'" using assms(3) step(1,2) by (simp add: set_update_memI)
  have "\<exists>a'. escrow_sim ids part (hs[i := h'], s') a' \<and> (a' = (l, p, n) \<or> escrow_step ids part (l, p, n) a')
    \<and> (fst (snd a') = p \<or> (\<exists>t q'. txn_of (hs ! i) = Some t \<and> fst (snd a') = p(t := q') \<and> may_move (hs ! i) (p t) q'))"
  proof (cases "txn_of (hs ! i)")
    case None
    from escrow_sim_create [OF assms(2) i step(5,3) None] show ?thesis by (elim ex_forward) blast
  next
    case (Some t)
    from escrow_sim_txn [OF assms(2) i step(5,3) nf Some] show ?thesis by (elim ex_forward) (use Some in blast)
  qed
  then obtain a' where a': "escrow_sim ids part (hs[i := h'], s') a'" "a' = (l, p, n) \<or> escrow_step ids part (l, p, n) a'"
    "fst (snd a') = p \<or> (\<exists>t q'. txn_of (hs ! i) = Some t \<and> fst (snd a') = p(t := q') \<and> may_move (hs ! i) (p t) q')"
    by (elim exE conjE)
  obtain l' p' n' where a: "a' = (l', p', n')" by (cases a')
  have "licensed seen0 ids part (hs[i := h']) (s_seenTxns s') p'"
    by (rule licensed_step [OF assms(4,2) i step(5) _ a'(2) [unfolded a]]) (use a'(3) a in simp)
  with a'(1,2) show ?thesis unfolding step(1) a by (intro exI [of _ "(l', p', n')"]) (simp del: escrow_sim.simps)
qed

text \<open>A relation between two systems that every step keeps, with at most one step of the specification.\<close>

locale forward_simulation =
  fixes concrete :: "'c \<Rightarrow> 'c \<Rightarrow> bool"
    and spec :: "'a \<Rightarrow> 'a \<Rightarrow> bool"
    and rel :: "'c \<Rightarrow> 'a \<Rightarrow> bool"
  assumes forward: "concrete c c' \<Longrightarrow> rel c a \<Longrightarrow> \<exists>a'. rel c' a' \<and> (a' = a \<or> spec a a')"
begin

lemma forward_run:
  assumes "concrete\<^sup>*\<^sup>* c c'" "rel c a"
  shows "\<exists>a'. rel c' a' \<and> spec\<^sup>*\<^sup>* a a'"
  using assms(1)
proof (induction rule: rtranclp_induct)
  case (step c1 c2)
  then obtain a1 where a1: "rel c1 a1" "spec\<^sup>*\<^sup>* a a1" by blast
  with forward [OF step(2) a1(1)] show ?case by (meson rtranclp.rtrancl_into_rtrancl)
qed (use assms(2) in blast)

end

text \<open>A simulation through an abstraction function is one of them.\<close>

sublocale simulation \<subseteq> fwd: forward_simulation concrete atomic "\<lambda>c a. a = abstr c"
  by unfold_locales (use simulates in blast)

definition no_abort_failed :: "handler list \<Rightarrow> bool" where
  "no_abort_failed hs \<longleftrightarrow> (\<forall>h \<in> set hs. \<not> abort_failed h)"

lemma abort_failed_end: "abort_failed h \<Longrightarrow> at_end h"
  by (cases h rule: abort_failed.cases) auto

lemma no_abort_failed_before:
  assumes "shard_conc (hs, s) (hs', s')" "no_abort_failed hs'"
  shows "no_abort_failed hs"
  using assms(1)
proof cases
  case (step i h')
  have "\<not> abort_failed h" if h: "h \<in> set hs" for h
  proof -
    obtain j where j: "j < length hs" "h = hs ! j" using h unfolding in_set_conv_nth by blast
    show ?thesis
    proof (cases "j = i")
      case True
      then show ?thesis using j step(3) abort_failed_end by auto
    next
      case False
      then have "h \<in> set hs'" using j nth_mem [of j "hs[i := h']"] step(1) by simp
      then show ?thesis using assms(2) by (simp add: no_abort_failed_def)
    qed
  qed
  then show ?thesis by (simp add: no_abort_failed_def)
qed

definition handlers_rel ::
    "(string \<rightharpoonup> TransactionState) \<Rightarrow> string set \<Rightarrow> (string \<Rightarrow> OperationType \<times> string \<times> int64) \<Rightarrow> handler list \<times> ShardServer \<Rightarrow> escrow_state \<Rightarrow> bool" where
  "handlers_rel seen0 ids part c a \<longleftrightarrow> (no_abort_failed (fst c) \<longrightarrow>
     escrow_sim ids part c a \<and> licensed seen0 ids part (fst c) (s_seenTxns (snd c)) (fst (snd a)))"

interpretation handlers: forward_simulation shard_conc "escrow_step ids part" "handlers_rel seen0 ids part" for seen0 ids part
proof unfold_locales
  fix c c' :: "handler list \<times> ShardServer" and a
  assume st: "shard_conc c c'" and r: "handlers_rel seen0 ids part c a"
  obtain hs s hs' s' l p n where c: "c = (hs, s)" "c' = (hs', s')" "a = (l, p, n)" by (metis prod.exhaust)
  show "\<exists>a'. handlers_rel seen0 ids part c' a' \<and> (a' = a \<or> escrow_step ids part a a')"
  proof (cases "no_abort_failed hs'")
    case True
    have "no_abort_failed hs" by (rule no_abort_failed_before [OF st [unfolded c] True])
    then have "escrow_sim ids part (hs, s) (l, p, n)" "licensed seen0 ids part hs (s_seenTxns s) p"
      using r unfolding c handlers_rel_def by (simp_all del: escrow_sim.simps)
    from escrow_sim_step [OF st [unfolded c] this(1) _ this(2)] True show ?thesis
      unfolding c handlers_rel_def no_abort_failed_def by (auto simp del: escrow_sim.simps)
  qed (use c in \<open>auto simp: handlers_rel_def\<close>)
qed

section \<open>What the escrow machine conserves\<close>

text \<open>What a transaction has added to the shard's balances, and what it may add at most.\<close>

fun worth :: "OperationType \<times> string \<times> int64 \<Rightarrow> escrow \<Rightarrow> int" where
  "worth (op, a, x) q = (case q of Reserved \<Rightarrow> - sint x | Settled \<Rightarrow> - sint x | Deposited \<Rightarrow> sint x | _ \<Rightarrow> 0)"

fun gain :: "OperationType \<times> string \<times> int64 \<Rightarrow> int" where
  "gain (op, a, x) = (if op = OpCredit then max 0 (sint x) else 0)"

fun escrow_inv :: "string set \<Rightarrow> (string \<Rightarrow> OperationType \<times> string \<times> int64) \<Rightarrow> int \<Rightarrow> escrow_state \<Rightarrow> bool" where
  "escrow_inv ids part base (l, p, n) \<longleftrightarrow>
     ledger_ok l \<and> ledger_funds l = base + n + (\<Sum>t\<in>ids. worth (part t) (p t))
   \<and> (\<forall>t \<in> ids. p t \<in> {Reserved, Settled} \<longrightarrow> 0 \<le> sint (snd (snd (part t))))
   \<and> (\<forall>t \<in> ids. kind_match (fst (part t)) (p t))"

lemma worth_le_gain:
  "kind_match (fst w) q \<Longrightarrow> q \<in> {Reserved, Settled} \<longrightarrow> 0 \<le> sint (snd (snd w)) \<Longrightarrow> worth w q \<le> gain w"
  by (cases w) (auto simp: kind_match_def split: escrow.splits if_splits)

lemma escrow_move_worth:
  assumes "escrow_move w (l, q) (l', q')" "ledger_ok l" "ledger_funds l + (worth w q' - worth w q) < 2 ^ 63"
  shows "ledger_ok l' \<and> ledger_funds l' = ledger_funds l + (worth w q' - worth w q)"
  using assms
  by (auto elim!: escrow_move.cases dest!: debit.step_ok [rotated] credit.step_ok [rotated] rollback.step_ok [rotated])

lemma escrow_move_positive:
  assumes "escrow_move w (l, q) (l', q')" "q' \<in> {Reserved, Settled}"
  shows "q = Reserved \<or> 0 \<le> sint (snd (snd w))"
  using assms by (auto elim!: escrow_move.cases simp: ApplyDebit_success signed_order)

lemma escrow_step_funds:
  assumes "escrow_step ids part (l, p, n) (l', p', n')" "finite ids" "ledger_ok l"
    and "ledger_funds l + (n' - n) + (\<Sum>t\<in>ids. worth (part t) (p' t)) - (\<Sum>t\<in>ids. worth (part t) (p t)) < 2 ^ 63"
  shows "ledger_ok l' \<and> ledger_funds l' =
    ledger_funds l + (n' - n) + (\<Sum>t\<in>ids. worth (part t) (p' t)) - (\<Sum>t\<in>ids. worth (part t) (p t))"
  using assms(1)
proof cases
  case (move t q)
  have "(\<Sum>u\<in>ids. worth (part u) (p' u)) = (\<Sum>u\<in>ids. worth (part u) (p u)) + (worth (part t) q - worth (part t) (p t))"
    using assms(2) move by (simp add: sum.remove [of ids t])
  then show ?thesis using escrow_move_worth [OF move(4) assms(3)] assms(4) move by simp
next
  case (transfer txn)
  then show ?thesis
    using assms(3) transfer.step_ok [of l "t_Source txn" "t_Destination txn" "t_Amount txn" l'] ledger_okD(3) [of l]
    by (auto simp: apply_txn_def)
next
  case (open_account a x)
  then show ?thesis using assms(4) CreateAccount_ok [OF assms(3) open_account(3)] by auto
qed

lemma escrow_step_kind:
  assumes "escrow_step ids part (l, p, n) (l', p', n')" "t \<in> ids"
    and "kind_match (fst (part t)) (p t) \<and> (p t \<in> {Reserved, Settled} \<longrightarrow> 0 \<le> sint (snd (snd (part t))))"
  shows "kind_match (fst (part t)) (p' t) \<and> (p' t \<in> {Reserved, Settled} \<longrightarrow> 0 \<le> sint (snd (snd (part t))))"
  using assms(1)
proof cases
  case (move u q)
  then show ?thesis using assms(2,3) escrow_move_positive [OF move(4)] escrow_move_kind(1) [OF move(4)] by auto
qed (use assms(3) in auto)

lemma escrow_inv_step:
  assumes "escrow_step ids part a a'" "escrow_inv ids part base a" "finite ids"
    and "base + snd (snd a') + (\<Sum>t\<in>ids. gain (part t)) < 2 ^ 63"
  shows "escrow_inv ids part base a'"
proof -
  obtain l p n l' p' n' where a: "a = (l, p, n)" "a' = (l', p', n')" by (metis prod_cases3)
  have kind: "kind_match (fst (part t)) (p' t) \<and> (p' t \<in> {Reserved, Settled} \<longrightarrow> 0 \<le> sint (snd (snd (part t))))" if "t \<in> ids" for t
    using escrow_step_kind [OF assms(1) [unfolded a] that] assms(2) that by (simp add: a)
  then have "(\<Sum>t\<in>ids. worth (part t) (p' t)) \<le> (\<Sum>t\<in>ids. gain (part t))"
    by (intro sum_mono worth_le_gain) auto
  with escrow_step_funds [OF assms(1) [unfolded a] assms(3)] assms(2,4) kind show ?thesis by (simp add: a)
qed

lemma escrow_step_opened: "escrow_step ids part a a' \<Longrightarrow> snd (snd a) \<le> snd (snd a')"
  by (auto elim!: escrow_step.cases simp: Ledger_CreateAccount_def signed_order split: if_splits)

lemma escrow_inv_run:
  assumes "(escrow_step ids part)\<^sup>*\<^sup>* a a'" "escrow_inv ids part base a" "finite ids"
    and "base + snd (snd a') + (\<Sum>t\<in>ids. gain (part t)) < 2 ^ 63"
  shows "escrow_inv ids part base a'"
  using assms(1,4)
proof (induction rule: rtranclp_induct)
  case (step b c)
  then show ?case using escrow_inv_step [OF step(2) _ assms(3)] escrow_step_opened [OF step(2)] by simp
qed (use assms(2) in simp)

section \<open>Properties\<close>

text \<open>Where the transactions stand before the handlers start: reserved, if a prepared debit.\<close>

definition start_phase :: "string set \<Rightarrow> (string \<Rightarrow> OperationType \<times> string \<times> int64) \<Rightarrow> ShardServer \<Rightarrow> string \<Rightarrow> escrow" where
  "start_phase ids part s t =
     (if t \<in> ids \<and> fst (part t) = OpDebit \<and> s_seenTxns s t = Some StatePrepared then Reserved else Idle)"

definition start_ok :: "string set \<Rightarrow> (string \<Rightarrow> OperationType \<times> string \<times> int64) \<Rightarrow> handler list \<Rightarrow> ShardServer \<Rightarrow> bool" where
  "start_ok ids part hs s \<longleftrightarrow> (\<forall>h \<in> set hs. at_start h \<and> request_ok ids part h)
     \<and> (\<forall>t \<in> ids. start_phase ids part s t = Reserved \<longrightarrow> backed (part t) (s_ledger s))"

definition at_rest :: "handler list \<Rightarrow> string \<Rightarrow> bool" where
  "at_rest hs t \<longleftrightarrow> (\<forall>h \<in> set hs. txn_of h = Some t \<longrightarrow> \<not> active h)"

lemma start_opened: "\<forall>h \<in> set hs. at_start h \<Longrightarrow> opened hs = 0"
proof (induction hs)
  case (Cons h hs)
  then have "opened_by h = 0" by (cases h) auto
  with Cons show ?case by (simp add: opened_def)
qed (simp add: opened_def)

lemma start_sim:
  assumes "start_ok ids part hs s"
  shows "escrow_sim ids part (hs, s) (s_ledger s, start_phase ids part s, 0)"
proof -
  have inactive: "\<not> active h" if "h \<in> set hs" for h using assms that by (auto simp: start_ok_def active_def)
  then have "exclusive hs" by (simp add: exclusive_def)
  moreover have "phases_match part hs (start_phase ids part s) (s_seenTxns s) t" if "t \<in> ids" for t
    using inactive that by (auto simp: phases_match_def idle_match_def start_phase_def)
  ultimately show ?thesis
    using assms start_opened [of hs] by (auto simp: start_ok_def kind_match_def start_phase_def)
qed

lemma handlers_escrow_run:
  assumes "start_ok ids part hs s" "shard_conc\<^sup>*\<^sup>* (hs, s) (hs', s')" "no_abort_failed hs'"
  obtains p where "(escrow_step ids part)\<^sup>*\<^sup>* (s_ledger s, start_phase ids part s, 0) (s_ledger s', p, opened hs')"
    "escrow_sim ids part (hs', s') (s_ledger s', p, opened hs')" "licensed (s_seenTxns s) ids part hs' (s_seenTxns s') p"
proof -
  have "licensed (s_seenTxns s) ids part hs (s_seenTxns s) (start_phase ids part s)"
    by (auto simp: licensed_def start_phase_def)
  then have "handlers_rel (s_seenTxns s) ids part (hs, s) (s_ledger s, start_phase ids part s, 0)"
    using start_sim [OF assms(1)] by (simp add: handlers_rel_def del: escrow_sim.simps)
  from handlers.forward_run [OF assms(2) this] obtain a'
    where a': "handlers_rel (s_seenTxns s) ids part (hs', s') a'"
      "(escrow_step ids part)\<^sup>*\<^sup>* (s_ledger s, start_phase ids part s, 0) a'" by blast
  obtain l p n where a: "a' = (l, p, n)" by (cases a')
  have sim: "escrow_sim ids part (hs', s') (l, p, n)" and lic: "licensed (s_seenTxns s) ids part hs' (s_seenTxns s') p"
    using a'(1) assms(3) unfolding a handlers_rel_def by (simp_all del: escrow_sim.simps)
  then have "l = s_ledger s'" "n = opened hs'" by simp_all
  with sim lic a'(2) a show ?thesis using that by blast
qed

text \<open>
  C11: Concurrent handlers refine the escrow machine. However single-shard executions, prepares, commits, aborts
  and account creations interleave on a shard, on any disk and with any followers, as long as the requests of
  a transaction agree on its part (\<open>start_ok\<close>) and no abort failed to write its marker (\<open>no_abort_failed\<close>), the ledger goes
  through states of the escrow machine: each transaction's money is reserved, released, settled or deposited at most once, at
  one moment, and never both released and settled. Money is settled or deposited only for a transaction with a COMMIT request,
  released only for one with an ABORT request, and a credit that becomes COMMITTED by its COMMIT was deposited. And
  once no handler of a transaction is at work, the transaction table fits: the money is held in
  reserve exactly if it is a prepared debit, released money belongs to an ABORTED entry, settled and deposited money to
  a COMMITTED one or to one that a late ABORT has overruled.
\<close>

theorem handlers_refine_escrow:
  assumes "start_ok ids part hs s" "shard_conc\<^sup>*\<^sup>* (hs, s) (hs', s')" "no_abort_failed hs'"
  shows "\<exists>p. (escrow_step ids part)\<^sup>*\<^sup>* (s_ledger s, start_phase ids part s, 0) (s_ledger s', p, opened hs')
    \<and> licensed (s_seenTxns s) ids part hs' (s_seenTxns s') p
    \<and> (\<forall>t \<in> ids. at_rest hs' t \<longrightarrow> idle_match (fst (part t)) (p t) (s_seenTxns s' t))"
proof -
  obtain p where p: "(escrow_step ids part)\<^sup>*\<^sup>* (s_ledger s, start_phase ids part s, 0) (s_ledger s', p, opened hs')"
    "escrow_sim ids part (hs', s') (s_ledger s', p, opened hs')" "licensed (s_seenTxns s) ids part hs' (s_seenTxns s') p"
    by (rule handlers_escrow_run [OF assms])
  then show ?thesis by (intro exI [of _ p]) (auto simp: phases_match_def at_rest_def)
qed

definition amount_in :: "string set \<Rightarrow> (string \<Rightarrow> OperationType \<times> string \<times> int64) \<Rightarrow> (string \<Rightarrow> escrow) \<Rightarrow> escrow \<Rightarrow> int" where
  "amount_in ids part p q = (\<Sum>t\<in>ids. if p t = q then sint (snd (snd (part t))) else 0)"

lemma worth_amounts:
  "finite ids \<Longrightarrow> (\<Sum>t\<in>ids. worth (part t) (p t)) = amount_in ids part p Deposited - amount_in ids part p Reserved - amount_in ids part p Settled"
proof (induction rule: finite_induct)
  case (insert t ids)
  then show ?case by (cases "part t"; cases "p t") (simp_all add: amount_in_def)
qed (simp add: amount_in_def)

lemma start_none: "q \<noteq> Idle \<Longrightarrow> q \<noteq> Reserved \<Longrightarrow> amount_in ids part (start_phase ids part s) q = 0"
  unfolding amount_in_def by (rule sum.neutral) (auto simp: start_phase_def)

text \<open>
  C12: Money is accounted for while the participants of two-phase commit run concurrently. At every moment of
  every interleaving no balance is negative, and the shard's balances, together with what its transactions
  hold in reserve and have paid out, equal what it had and held at the start, together with what transactions
  have brought and accounts were opened with; only a transaction with a COMMIT request has paid out or brought
  anything, so that an aborted one has its money back. This holds as long as the requests of a
  transaction agree on its part, no abort failed to write its marker, and everything that could ever be on the shard stays below
  \<open>2\<^sup>63\<close>.
\<close>

theorem handlers_account_for_funds:
  assumes "start_ok ids part hs s" "shard_conc\<^sup>*\<^sup>* (hs, s) (hs', s')" "no_abort_failed hs'"
    and "shard_ok s" "finite ids"
    and "shard_funds s + amount_in ids part (start_phase ids part s) Reserved + opened hs' + (\<Sum>t\<in>ids. gain (part t)) < 2 ^ 63"
  shows "shard_ok s' \<and> (\<exists>p. licensed (s_seenTxns s) ids part hs' (s_seenTxns s') p
    \<and> (\<forall>t \<in> ids. at_rest hs' t \<longrightarrow> idle_match (fst (part t)) (p t) (s_seenTxns s' t))
    \<and> shard_funds s' + amount_in ids part p Reserved + amount_in ids part p Settled
      = shard_funds s + amount_in ids part (start_phase ids part s) Reserved + amount_in ids part p Deposited + opened hs')"
proof -
  let ?p0 = "start_phase ids part s"
  let ?base = "shard_funds s + amount_in ids part ?p0 Reserved"
  obtain p where run: "(escrow_step ids part)\<^sup>*\<^sup>* (s_ledger s, ?p0, 0) (s_ledger s', p, opened hs')"
    and sim: "escrow_sim ids part (hs', s') (s_ledger s', p, opened hs')"
    and lic: "licensed (s_seenTxns s) ids part hs' (s_seenTxns s') p"
    by (rule handlers_escrow_run [OF assms(1-3)])
  have "(\<Sum>t\<in>ids. worth (part t) (?p0 t)) = - amount_in ids part ?p0 Reserved"
    using worth_amounts [OF assms(5), of part ?p0] start_none [of Deposited ids part s] start_none [of Settled ids part s] by simp
  moreover have "\<forall>t \<in> ids. ?p0 t = Reserved \<longrightarrow> 0 \<le> sint (snd (snd (part t)))"
    using assms(1) by (auto simp: start_ok_def backed_def signed_order)
  ultimately have "escrow_inv ids part ?base (s_ledger s, ?p0, 0)"
    using assms(4) by (auto simp: shard_ok_def shard_funds_def start_phase_def kind_match_def)
  from escrow_inv_run [OF run this assms(5)] assms(6)
  have "shard_ok s'" "shard_funds s' = ?base + opened hs' + (\<Sum>t\<in>ids. worth (part t) (p t))"
    by (simp_all add: shard_ok_def shard_funds_def algebra_simps)
  then show ?thesis
    using sim lic worth_amounts [OF assms(5), of part p] by (auto simp: phases_match_def at_rest_def intro!: exI [of _ p])
qed

section \<open>Running a schedule\<close>

fun handlers_exec :: "nat list \<Rightarrow> handler list \<times> ShardServer \<Rightarrow> handler list \<times> ShardServer" where
  "handlers_exec [] c = c"
| "handlers_exec (i # sched) (hs, s) =
     (if i < length hs \<and> \<not> at_end (hs ! i) \<and> (at_start (hs ! i) \<longrightarrow> lock_free i hs)
      then case handler_step (hs ! i) s of (h', s') \<Rightarrow> handlers_exec sched (hs[i := h'], s')
      else handlers_exec sched (hs, s))"

lemma handlers_exec_run: "shard_conc\<^sup>*\<^sup>* c (handlers_exec sched c)"
proof (induction sched c rule: handlers_exec.induct)
  case (2 i sched hs s)
  show ?case
  proof (cases "i < length hs \<and> \<not> at_end (hs ! i) \<and> (at_start (hs ! i) \<longrightarrow> lock_free i hs)")
    case True
    obtain h' s' where e: "handler_step (hs ! i) s = (h', s')" by force
    then have "shard_conc (hs, s) (hs[i := h'], s')" using True by (intro shard_conc.step) auto
    with 2(1) [OF True e [symmetric]] True e show ?thesis by (simp add: converse_rtranclp_into_rtranclp)
  next
    case False
    then have "handlers_exec (i # sched) (hs, s) = handlers_exec sched (hs, s)" by (simp only: handlers_exec.simps if_False)
    with 2(2) [OF False] show ?thesis by simp
  qed
qed simp

text \<open>Two transfers of 70 out of an account with 100: both prepares validate before either reserves. A credit is
  committed and an account opened meanwhile.\<close>

definition example_part :: "string \<Rightarrow> OperationType \<times> string \<times> int64" where
  "example_part t = (if t = ''in'' then (OpCredit, ''bob'', 5) else (OpDebit, ''alice'', 70))"

definition example_ids :: "string set" where
  "example_ids = {''out1'', ''out2'', ''in''}"

definition example_handlers :: "handler list" where
  "example_handlers = [Prepare (''out1'', example_part ''out1'') PBegin, Prepare (''out2'', example_part ''out2'') PBegin,
     Commit (''in'', example_part ''in'') CBegin, Create ''carol'' 7 KBegin]"

definition example_schedule :: "nat list" where
  "example_schedule = [0, 1, 0, 1, 0, 1, 2, 3, 1, 0, 2, 3, 2, 1, 0, 3, 0, 1, 2, 2, 2, 2, 3, 3]"

lemma example_start: "start_ok example_ids example_part example_handlers (example_shard faults)"
  by (simp add: start_ok_def example_handlers_def example_ids_def example_part_def start_phase_def example_shard_def create_txn_def)

abbreviation example_after :: "handler list \<times> ShardServer" where
  "example_after \<equiv> handlers_exec example_schedule (example_handlers, example_shard [])"

lemma example_after_run: "shard_conc\<^sup>*\<^sup>* (example_handlers, example_shard []) (fst example_after, snd example_after)"
  using handlers_exec_run by simp

lemma example_after_eval:
  "case example_after of (hs, s) \<Rightarrow> no_abort_failed hs \<and> opened hs = 7
     \<and> s_seenTxns s ''out1'' = Some StateAborted \<and> s_seenTxns s ''out2'' = Some StatePrepared \<and> at_rest hs ''out2''"
  by code_simp

lemma example_after_facts:
  "no_abort_failed (fst example_after)" "opened (fst example_after) = 7"
  "s_seenTxns (snd example_after) ''out2'' = Some StatePrepared" "at_rest (fst example_after) ''out2''"
  using example_after_eval by (simp_all add: case_prod_unfold)

theorem handlers_refine_escrow_witness:
  "\<exists>p. (escrow_step example_ids example_part)\<^sup>*\<^sup>*
     (s_ledger (example_shard []), start_phase example_ids example_part (example_shard []), 0)
     (s_ledger (snd example_after), p, 7) \<and> p ''out2'' = Reserved"
proof -
  obtain p where p: "(escrow_step example_ids example_part)\<^sup>*\<^sup>*
      (s_ledger (example_shard []), start_phase example_ids example_part (example_shard []), 0)
      (s_ledger (snd example_after), p, opened (fst example_after))"
    "\<forall>t \<in> example_ids. at_rest (fst example_after) t \<longrightarrow> idle_match (fst (example_part t)) (p t) (s_seenTxns (snd example_after) t)"
    using handlers_refine_escrow [OF example_start example_after_run example_after_facts(1)] by blast
  have "p ''out2'' = Reserved"
    using p(2) example_after_facts(3,4) by (auto simp: example_ids_def idle_match_def example_part_def)
  then show ?thesis using p(1) unfolding example_after_facts(2) by blast
qed

theorem handlers_account_for_funds_witness:
  "shard_ok (snd example_after) \<and> (\<exists>p. p ''out2'' = Reserved
     \<and> shard_funds (snd example_after) + amount_in example_ids example_part p Reserved + amount_in example_ids example_part p Settled
       = 157 + amount_in example_ids example_part p Deposited)"
proof -
  let ?s = "example_shard []"
  have zero: "amount_in example_ids example_part (start_phase example_ids example_part ?s) Reserved = 0"
    by (simp add: amount_in_def start_phase_def example_shard_def)
  have fin: "finite example_ids" by (simp add: example_ids_def)
  have gains: "(\<Sum>t\<in>example_ids. gain (example_part t)) = 5" by (simp add: example_ids_def example_part_def)
  have "shard_funds ?s + amount_in example_ids example_part (start_phase example_ids example_part ?s) Reserved
      + opened (fst example_after) + (\<Sum>t\<in>example_ids. gain (example_part t)) < 2 ^ 63"
    unfolding zero gains example_funds example_after_facts(2) by simp
  from handlers_account_for_funds [OF example_start example_after_run example_after_facts(1) example_ok fin this]
  obtain p where "shard_ok (snd example_after)"
    "\<forall>t \<in> example_ids. at_rest (fst example_after) t \<longrightarrow> idle_match (fst (example_part t)) (p t) (s_seenTxns (snd example_after) t)"
    "shard_funds (snd example_after) + amount_in example_ids example_part p Reserved + amount_in example_ids example_part p Settled
       = 157 + amount_in example_ids example_part p Deposited"
    unfolding zero example_funds example_after_facts(2) by auto
  moreover from this(2) have "p ''out2'' = Reserved"
    using example_after_facts(3,4) by (auto simp: example_ids_def idle_match_def example_part_def)
  ultimately show ?thesis by blast
qed

end
