(* ===== verification/HttpHandler.thy ===== *)
theory HttpHandler
  imports ShardBehaviour Strconv
begin

text \<open>
  \<^verbatim>\<open>shard/server/http_handler.go\<close>: the HTTP surface of a shard. A handler takes the method of the
  request and what the JSON decoder makes of its body (\<open>None\<close>: it does not decode) or its query
  parameter (the empty string when absent), and returns the server with the status and the body of
  the response. The text of an error body is kept as the error it was rendered from.
\<close>

section \<open>Model\<close>

text \<open>The body of \<^verbatim>\<open>/prepare\<close>, \<^verbatim>\<open>/commit\<close> and \<^verbatim>\<open>/abort\<close>: one shape, declared three times by the
  handler and three times by the client.\<close>

record OpRequest =
  q_TxnID :: string
  q_OpType :: OperationType
  q_AccountID :: string
  q_Amount :: int64

datatype handler_error =
    MethodNotAllowed | InvalidBody | MissingAccount | AccountIDRequired
  | ServerError shard_error | LogError wal_error

datatype response_body =
    ErrorBody handler_error
  | StatusBody string
  | NamedStatusBody string string
  | ResultBody "ledger_error TransactionResult"
  | BalanceBody string int64 bool
  | HealthBody string
  | MetricsBody ShardMetrics
  | BalancesBody "string \<rightharpoonup> int64"
  | LogIndexBody uint64
  | WALBody string "WALEntry list" uint64 uint64
  | TransactionsBody string "TxnSummary list" nat

type_synonym response = "nat \<times> response_body"

definition handlePrepare :: "http_method \<Rightarrow> OpRequest option \<Rightarrow> ShardServer \<Rightarrow> ShardServer \<times> response" where
  "handlePrepare m body s =
     (if m \<noteq> MethodPost then (s, StatusMethodNotAllowed, ErrorBody MethodNotAllowed)
      else case body of
        None \<Rightarrow> (s, StatusBadRequest, ErrorBody InvalidBody)
      | Some req \<Rightarrow>
          (case ShardServer_PrepareTransaction (q_TxnID req) (q_OpType req) (q_AccountID req) (q_Amount req) s of
             (s', Some err) \<Rightarrow> (s', StatusConflict, ErrorBody (ServerError err))
           | (s', None) \<Rightarrow> (s', StatusOK, StatusBody ''PREPARED'')))"

definition handleCommit :: "http_method \<Rightarrow> OpRequest option \<Rightarrow> ShardServer \<Rightarrow> ShardServer \<times> response" where
  "handleCommit m body s =
     (if m \<noteq> MethodPost then (s, StatusMethodNotAllowed, ErrorBody MethodNotAllowed)
      else case body of
        None \<Rightarrow> (s, StatusBadRequest, ErrorBody InvalidBody)
      | Some req \<Rightarrow>
          (case ShardServer_CommitTransaction (q_TxnID req) (q_OpType req) (q_AccountID req) (q_Amount req) s of
             (s', Some err) \<Rightarrow> (s', StatusConflict, ErrorBody (ServerError err))
           | (s', None) \<Rightarrow> (s', StatusOK, StatusBody ''COMMITTED'')))"

definition handleAbort :: "http_method \<Rightarrow> OpRequest option \<Rightarrow> ShardServer \<Rightarrow> ShardServer \<times> response" where
  "handleAbort m body s =
     (if m \<noteq> MethodPost then (s, StatusMethodNotAllowed, ErrorBody MethodNotAllowed)
      else case body of
        None \<Rightarrow> (s, StatusBadRequest, ErrorBody InvalidBody)
      | Some req \<Rightarrow>
          (case ShardServer_AbortTransaction (q_TxnID req) (q_OpType req) (q_AccountID req) (q_Amount req) s of
             (s', Some err) \<Rightarrow> (s', StatusInternalServerError, ErrorBody (ServerError err))
           | (s', None) \<Rightarrow> (s', StatusOK, StatusBody ''ABORTED'')))"

definition handleExecute :: "http_method \<Rightarrow> Transaction option \<Rightarrow> ShardServer \<Rightarrow> ShardServer \<times> response" where
  "handleExecute m body s =
     (if m \<noteq> MethodPost then (s, StatusMethodNotAllowed, ErrorBody MethodNotAllowed)
      else case body of
        None \<Rightarrow> (s, StatusBadRequest, ErrorBody InvalidBody)
      | Some txn \<Rightarrow>
          (case ShardServer_ExecuteSingleShard txn s of
             (s', Inl err) \<Rightarrow> (s', StatusInternalServerError, ErrorBody (ServerError err))
           | (s', Inr res) \<Rightarrow> (s', StatusOK, ResultBody res)))"

definition handleBalance :: "http_method \<Rightarrow> string \<Rightarrow> ShardServer \<Rightarrow> response" where
  "handleBalance m accountID s =
     (if m \<noteq> MethodGet then (StatusMethodNotAllowed, ErrorBody MethodNotAllowed)
      else if accountID = '''' then (StatusBadRequest, ErrorBody MissingAccount)
      else case ShardServer_GetBalance accountID s of
        (bal, exists) \<Rightarrow> (StatusOK, BalanceBody accountID bal exists))"

definition handleHealth :: "ShardServer \<Rightarrow> response" where
  "handleHealth s = (StatusOK, HealthBody (s_shardID s))"

definition handleMetrics :: "string list \<Rightarrow> string list \<Rightarrow> http_method \<Rightarrow> ShardServer \<Rightarrow> response" where
  "handleMetrics ts ks m s =
     (if m \<noteq> MethodGet then (StatusMethodNotAllowed, ErrorBody MethodNotAllowed)
      else (StatusOK, MetricsBody (ShardServer_GetMetrics ts ks s)))"

definition handleHaltPartition ::
    "string list \<Rightarrow> string list \<Rightarrow> int option \<Rightarrow> ShardServer \<Rightarrow> ShardServer \<times> response" where
  "handleHaltPartition ks ks' body s =
     (case body of
        None \<Rightarrow> (s, StatusBadRequest, ErrorBody InvalidBody)
      | Some pid \<Rightarrow>
          (case ShardServer_HaltAndSnapshotPartition ks ks' pid s of
             (s', Inl err) \<Rightarrow> (s', StatusInternalServerError, ErrorBody (ServerError err))
           | (s', Inr snapshot) \<Rightarrow> (s', StatusOK, BalancesBody snapshot)))"

definition handleReceivePartition ::
    "string list \<Rightarrow> (int \<times> (string \<rightharpoonup> int64)) option \<Rightarrow> ShardServer \<Rightarrow> ShardServer \<times> response" where
  "handleReceivePartition ks body s =
     (case body of
        None \<Rightarrow> (s, StatusBadRequest, ErrorBody InvalidBody)
      | Some (pid, balances) \<Rightarrow>
          (case ShardServer_ReceivePartition ks pid balances s of
             (s', Some err) \<Rightarrow> (s', StatusInternalServerError, ErrorBody (ServerError err))
           | (s', None) \<Rightarrow> (s', StatusOK, StatusBody ''received'')))"

definition handleResumePartition :: "int option \<Rightarrow> ShardServer \<Rightarrow> ShardServer \<times> response" where
  "handleResumePartition body s =
     (case body of
        None \<Rightarrow> (s, StatusBadRequest, ErrorBody InvalidBody)
      | Some pid \<Rightarrow>
          (case ShardServer_ResumePartition pid s of
             (s', Some err) \<Rightarrow> (s', StatusInternalServerError, ErrorBody (ServerError err))
           | (s', None) \<Rightarrow> (s', StatusOK, StatusBody ''resumed'')))"

definition handlePromote :: "http_method \<Rightarrow> ShardServer \<Rightarrow> ShardServer \<times> response" where
  "handlePromote m s =
     (if m \<noteq> MethodPost then (s, StatusMethodNotAllowed, ErrorBody MethodNotAllowed)
      else let s' = ShardServer_Promote s in (s', StatusOK, NamedStatusBody ''PROMOTED'' (s_shardID s')))"

definition handleLogIndex :: "ShardServer \<Rightarrow> response" where
  "handleLogIndex s = (StatusOK, LogIndexBody (WAL_NextLogID (s_walLog s)))"

definition query_limit :: "int \<Rightarrow> string \<Rightarrow> int" where
  "query_limit dflt l =
     (if l = '''' then dflt
      else case Atoi l of None \<Rightarrow> dflt | Some v \<Rightarrow> if 0 < v then v else dflt)"

definition handleWAL :: "string \<Rightarrow> ShardServer \<Rightarrow> response" where
  "handleWAL l s =
     (case ShardServer_GetWALEntries (query_limit 50 l) s of
        Inl err \<Rightarrow> (StatusInternalServerError, ErrorBody (LogError err))
      | Inr (entries, total_entries, cpID) \<Rightarrow> (StatusOK, WALBody (s_shardID s) entries total_entries cpID))"

text \<open>\<open>None\<close> would be a panic in \<open>GetRecentTxns\<close>.\<close>

definition handleTransactions :: "string \<Rightarrow> ShardServer \<Rightarrow> response option" where
  "handleTransactions l s =
     map_option (\<lambda>txns. (StatusOK, TransactionsBody (s_shardID s) txns (length txns)))
       (ShardServer_GetRecentTxns (query_limit 25 l) s)"

definition handleCreateAccount ::
    "http_method \<Rightarrow> (string \<times> int64) option \<Rightarrow> ShardServer \<Rightarrow> ShardServer \<times> response" where
  "handleCreateAccount m body s =
     (if m \<noteq> MethodPost then (s, StatusMethodNotAllowed, ErrorBody MethodNotAllowed)
      else case body of
        None \<Rightarrow> (s, StatusBadRequest, ErrorBody InvalidBody)
      | Some (a, bal) \<Rightarrow>
          if a = '''' then (s, StatusBadRequest, ErrorBody AccountIDRequired)
          else (case ShardServer_CreateAccountWithWAL a bal s of
                  (s', Some err) \<Rightarrow>
                    if err = ErrAccountExists then (s', StatusOK, NamedStatusBody ''exists'' a)
                    else (s', StatusInternalServerError, ErrorBody (ServerError err))
                | (s', None) \<Rightarrow> (s', StatusCreated, NamedStatusBody ''created'' a)))"

section \<open>Properties\<close>

lemma query_limit_pos: "0 < dflt \<Longrightarrow> 0 < query_limit dflt l"
  by (simp add: query_limit_def split: option.split)

lemma GetRecentTxns_last:
  "0 \<le> limit \<Longrightarrow> ShardServer_GetRecentTxns limit s = Some (last_n (nat limit) (s_recentTxns s))"
  by (auto simp: ShardServer_GetRecentTxns_def last_n_def Let_def)

definition example_summary :: TxnSummary where
  "example_summary = \<lparr>sum_TxnID = ''t1'', sum_Source = ''alice'', sum_Destination = ''bob'', sum_Amount = 30,
     sum_Type = ''single'', sum_State = StateCommitted, sum_ShardID = ''shard1''\<rparr>"

text \<open>
  The history endpoint never panics, whatever the \<open>limit\<close> parameter holds, and serves the
  most recent transactions of the last five hundred that were added, oldest first.
\<close>

theorem transactions_endpoint_serves_latest:
  assumes "s_recentTxns s = []"
  shows "\<exists>n. 0 < n \<and> handleTransactions l (fold ShardServer_addRecentTxn ts s) =
    Some (StatusOK, TransactionsBody (s_shardID (fold ShardServer_addRecentTxn ts s))
            (last_n n (last_n 500 ts)) (min n (min 500 (length ts))))"
proof -
  have pos: "0 < query_limit 25 l" by (simp add: query_limit_pos)
  have "handleTransactions l (fold ShardServer_addRecentTxn ts s) =
    Some (StatusOK, TransactionsBody (s_shardID (fold ShardServer_addRecentTxn ts s))
            (last_n (nat (query_limit 25 l)) (last_n 500 ts))
            (min (nat (query_limit 25 l)) (min 500 (length ts))))"
    using pos by (simp add: handleTransactions_def GetRecentTxns_last ring500.history_is_last [OF assms])
  with pos show ?thesis by (intro exI [of _ "nat (query_limit 25 l)"]) simp
qed

theorem transactions_endpoint_serves_latest_witness:
  "\<exists>n. 0 < n \<and> handleTransactions ''-3'' (fold ShardServer_addRecentTxn (replicate 600 example_summary) (example_shard [])) =
     Some (StatusOK, TransactionsBody (s_shardID (fold ShardServer_addRecentTxn (replicate 600 example_summary) (example_shard [])))
       (last_n n (last_n 500 (replicate 600 example_summary))) (min n (min 500 600)))"
proof -
  have "s_recentTxns (example_shard []) = []" by (simp add: example_shard_def)
  from transactions_endpoint_serves_latest [OF this, of "''-3''" "replicate 600 example_summary"]
  show ?thesis unfolding length_replicate .
qed

end
