(* ===== verification/Messaging.thy ===== *)
theory Messaging
  imports HttpHandler
begin

text \<open>
  \<^verbatim>\<open>messaging/client.go\<close>: the coordinator's HTTP client. The shards of the cluster are a map from
  addresses to servers; how the network treats a request is an argument of the call (\<open>NetOk\<close>,
  \<open>RequestLost\<close>, \<open>ReplyLost\<close>), so that a theorem about all arguments is a theorem about every
  network. A request is a path of \<open>RegisterRoutes\<close> together with its payload; the JSON encoding of
  the client and the decoding of the handler agree on the fields of the request types.
\<close>

section \<open>Model\<close>

type_synonym nodes = "string \<rightharpoonup> ShardServer"

datatype shard_request =
    PostPrepare OpRequest | PostCommit OpRequest | PostAbort OpRequest | PostExecute Transaction

fun serve :: "shard_request \<Rightarrow> ShardServer \<Rightarrow> ShardServer \<times> response" where
  "serve (PostPrepare q) s = handlePrepare MethodPost (Some q) s"
| "serve (PostCommit q) s = handleCommit MethodPost (Some q) s"
| "serve (PostAbort q) s = handleAbort MethodPost (Some q) s"
| "serve (PostExecute txn) s = handleExecute MethodPost (Some txn) s"

datatype client_error = ClientRequestFailed | ClientStatus nat response_body | ClientDecodeFailed

definition ShardClient_doPost ::
    "net \<Rightarrow> string \<Rightarrow> shard_request \<Rightarrow> nodes \<Rightarrow> nodes \<times> (client_error + response_body)" where
  "ShardClient_doPost n addr req ns =
     (case ns addr of
        None \<Rightarrow> (ns, Inl ClientRequestFailed)
      | Some s \<Rightarrow>
          if n = RequestLost then (ns, Inl ClientRequestFailed)
          else case serve req s of
            (s', status, body) \<Rightarrow>
              (ns(addr \<mapsto> s'),
               if n = ReplyLost then Inl ClientRequestFailed
               else if 400 \<le> status then Inl (ClientStatus status body)
               else Inr body))"

definition ShardClient_postJSON ::
    "net \<Rightarrow> string \<Rightarrow> shard_request \<Rightarrow> nodes \<Rightarrow> nodes \<times> client_error option" where
  "ShardClient_postJSON n addr req ns =
     (case ShardClient_doPost n addr req ns of
        (ns', Inl err) \<Rightarrow> (ns', Some err)
      | (ns', Inr _) \<Rightarrow> (ns', None))"

definition op_request :: "string \<Rightarrow> OperationType \<Rightarrow> string \<Rightarrow> int64 \<Rightarrow> OpRequest" where
  "op_request t op a x = \<lparr>q_TxnID = t, q_OpType = op, q_AccountID = a, q_Amount = x\<rparr>"

definition ShardClient_Prepare ::
    "net \<Rightarrow> string \<Rightarrow> string \<Rightarrow> OperationType \<Rightarrow> string \<Rightarrow> int64 \<Rightarrow> nodes \<Rightarrow> nodes \<times> client_error option" where
  "ShardClient_Prepare n addr t op a x = ShardClient_postJSON n addr (PostPrepare (op_request t op a x))"

definition ShardClient_Commit ::
    "net \<Rightarrow> string \<Rightarrow> string \<Rightarrow> OperationType \<Rightarrow> string \<Rightarrow> int64 \<Rightarrow> nodes \<Rightarrow> nodes \<times> client_error option" where
  "ShardClient_Commit n addr t op a x = ShardClient_postJSON n addr (PostCommit (op_request t op a x))"

definition ShardClient_Abort ::
    "net \<Rightarrow> string \<Rightarrow> string \<Rightarrow> OperationType \<Rightarrow> string \<Rightarrow> int64 \<Rightarrow> nodes \<Rightarrow> nodes \<times> client_error option" where
  "ShardClient_Abort n addr t op a x = ShardClient_postJSON n addr (PostAbort (op_request t op a x))"

text \<open>\<open>/execute\<close> answers a success with a transaction result only (\<open>execute_body\<close> below), so the
  failure to decode another body does not arise.\<close>

definition ShardClient_Execute ::
    "net \<Rightarrow> string \<Rightarrow> Transaction \<Rightarrow> nodes \<Rightarrow> nodes \<times> (client_error + ledger_error TransactionResult)" where
  "ShardClient_Execute n addr txn ns =
     (case ShardClient_doPost n addr (PostExecute txn) ns of
        (ns', Inl err) \<Rightarrow> (ns', Inl err)
      | (ns', Inr (ResultBody res)) \<Rightarrow> (ns', Inr res)
      | (ns', Inr _) \<Rightarrow> (ns', Inl ClientDecodeFailed))"

definition ShardClient_HealthCheck :: "net \<Rightarrow> string \<Rightarrow> nodes \<Rightarrow> client_error option" where
  "ShardClient_HealthCheck n addr ns =
     (case ns addr of
        None \<Rightarrow> Some ClientRequestFailed
      | Some s \<Rightarrow>
          if n \<noteq> NetOk then Some ClientRequestFailed
          else case handleHealth s of
            (status, body) \<Rightarrow> if status \<noteq> StatusOK then Some (ClientStatus status body) else None)"

text \<open>\<^verbatim>\<open>GetBalance\<close>; the account name is sent as it is, so names with characters that a query string
  gives a meaning to are out of scope.\<close>

definition ShardClient_GetBalance :: "net \<Rightarrow> string \<Rightarrow> string \<Rightarrow> nodes \<Rightarrow> client_error + int64 \<times> bool" where
  "ShardClient_GetBalance n addr accountID ns =
     (case ns addr of
        None \<Rightarrow> Inl ClientRequestFailed
      | Some s \<Rightarrow>
          if n \<noteq> NetOk then Inl ClientRequestFailed
          else case handleBalance MethodGet accountID s of
            (status, body) \<Rightarrow>
              if status \<noteq> StatusOK then Inl (ClientStatus status body)
              else case body of
                BalanceBody _ bal exists \<Rightarrow> Inr (bal, exists)
              | _ \<Rightarrow> Inl ClientDecodeFailed)"

text \<open>\<^verbatim>\<open>GetLogIndex\<close> of \<^verbatim>\<open>shard/replication/client.go\<close>: the route is the shard's own \<open>/log-index\<close>.\<close>

definition ReplicationClient_GetLogIndex :: "net \<Rightarrow> string \<Rightarrow> nodes \<Rightarrow> client_error + uint64" where
  "ReplicationClient_GetLogIndex n addr ns =
     (case ns addr of
        None \<Rightarrow> Inl ClientRequestFailed
      | Some s \<Rightarrow>
          if n \<noteq> NetOk then Inl ClientRequestFailed
          else case handleLogIndex s of
            (_, LogIndexBody i) \<Rightarrow> Inr i
          | _ \<Rightarrow> Inl ClientDecodeFailed)"

section \<open>What a call does\<close>

text \<open>The two queries return what the shard holds.\<close>

lemma query_truthful:
  assumes "ns addr = Some s"
  shows "a \<noteq> [] \<Longrightarrow> ShardClient_GetBalance NetOk addr a ns = Inr (ShardServer_GetBalance a s)"
    and "ReplicationClient_GetLogIndex NetOk addr ns = Inr (w_nextLogID (s_walLog s))"
  using assms
  by (simp_all add: ShardClient_GetBalance_def ReplicationClient_GetLogIndex_def handleBalance_def handleLogIndex_def
      WAL_NextLogID_def split: prod.split)

text \<open>The request reaches the server unless it is lost or nobody listens.\<close>

definition served :: "net \<Rightarrow> string \<Rightarrow> nodes \<Rightarrow> bool" where
  "served n addr ns \<longleftrightarrow> n \<noteq> RequestLost \<and> ns addr \<noteq> None"

lemma postJSON_effect:
  "fst (ShardClient_postJSON n addr req ns) =
     (if served n addr ns then ns(addr \<mapsto> fst (serve req (the (ns addr)))) else ns)"
  by (auto simp: ShardClient_postJSON_def ShardClient_doPost_def served_def split: option.splits prod.splits)

lemma postJSON_ok:
  "snd (ShardClient_postJSON n addr req ns) = None \<longleftrightarrow>
     n = NetOk \<and> ns addr \<noteq> None \<and> fst (snd (serve req (the (ns addr)))) < 400"
  by (cases n) (auto simp: ShardClient_postJSON_def ShardClient_doPost_def split: option.splits prod.splits)

lemma serve_ops:
  "serve (PostPrepare (op_request t op a x)) s =
     (case ShardServer_PrepareTransaction t op a x s of
        (s', r) \<Rightarrow> (s', case r of None \<Rightarrow> (200, StatusBody ''PREPARED'') | Some e \<Rightarrow> (409, ErrorBody (ServerError e))))"
  "serve (PostCommit (op_request t op a x)) s =
     (case ShardServer_CommitTransaction t op a x s of
        (s', r) \<Rightarrow> (s', case r of None \<Rightarrow> (200, StatusBody ''COMMITTED'') | Some e \<Rightarrow> (409, ErrorBody (ServerError e))))"
  "serve (PostAbort (op_request t op a x)) s =
     (case ShardServer_AbortTransaction t op a x s of
        (s', r) \<Rightarrow> (s', case r of None \<Rightarrow> (200, StatusBody ''ABORTED'') | Some e \<Rightarrow> (500, ErrorBody (ServerError e))))"
  by (auto simp: handlePrepare_def handleCommit_def handleAbort_def op_request_def
      split: prod.splits option.splits)

text \<open>The contract of the three participant calls: \<open>f\<close> is the server operation behind the call.
  An answer without error means that the operation ran and returned none.\<close>

locale remote_call =
  fixes call :: "net \<Rightarrow> string \<Rightarrow> nodes \<Rightarrow> nodes \<times> client_error option"
    and f :: "ShardServer \<Rightarrow> ShardServer \<times> shard_error option"
  assumes call_effect: "fst (call n addr ns) =
      (if served n addr ns then ns(addr \<mapsto> fst (f (the (ns addr)))) else ns)"
    and call_ok: "snd (call n addr ns) = None \<longleftrightarrow>
      n = NetOk \<and> ns addr \<noteq> None \<and> snd (f (the (ns addr))) = None"
begin

lemma call_elsewhere: "b \<noteq> addr \<Longrightarrow> fst (call n addr ns) b = ns b"
  by (simp add: call_effect)

lemma call_here: "ns addr = Some s \<Longrightarrow>
    fst (call n addr ns) addr = Some (if n = RequestLost then s else fst (f s))"
  by (simp add: call_effect served_def)

lemma call_acked: "ns addr = Some s \<Longrightarrow> snd (call n addr ns) = None \<Longrightarrow>
    fst (call n addr ns) addr = Some (fst (f s)) \<and> snd (f s) = None"
  by (auto simp: call_effect call_ok served_def)

lemma call_dom: "dom (fst (call n addr ns)) = dom ns"
  by (auto simp: call_effect served_def)

end

interpretation prep: remote_call "\<lambda>n addr. ShardClient_Prepare n addr t op a x"
    "ShardServer_PrepareTransaction t op a x" for t op a x
  by unfold_locales
    (auto simp: ShardClient_Prepare_def postJSON_effect
      postJSON_ok serve_ops simp del: serve.simps split: prod.splits option.splits)

interpretation comm: remote_call "\<lambda>n addr. ShardClient_Commit n addr t op a x"
    "ShardServer_CommitTransaction t op a x" for t op a x
  by unfold_locales
    (auto simp: ShardClient_Commit_def postJSON_effect
      postJSON_ok serve_ops simp del: serve.simps split: prod.splits option.splits)

interpretation abrt: remote_call "\<lambda>n addr. ShardClient_Abort n addr t op a x"
    "ShardServer_AbortTransaction t op a x" for t op a x
  by unfold_locales
    (auto simp: ShardClient_Abort_def postJSON_effect
      postJSON_ok serve_ops simp del: serve.simps split: prod.splits option.splits)

lemma execute_body:
  "serve (PostExecute txn) s = (s', status, body) \<Longrightarrow> status < 400 \<Longrightarrow> \<exists>res. body = ResultBody res"
  by (auto simp: handleExecute_def split: prod.splits sum.splits)

lemma Execute_call:
  shows "fst (ShardClient_Execute n addr txn ns) =
     (if served n addr ns then ns(addr \<mapsto> fst (ShardServer_ExecuteSingleShard txn (the (ns addr)))) else ns)"
    and "snd (ShardClient_Execute n addr txn ns) = Inr res \<longleftrightarrow>
     n = NetOk \<and> ns addr \<noteq> None \<and> snd (ShardServer_ExecuteSingleShard txn (the (ns addr))) = Inr res"
  by (cases n; auto simp: ShardClient_Execute_def ShardClient_doPost_def served_def handleExecute_def
      split: option.splits prod.splits sum.splits if_splits response_body.splits)+

section \<open>Calls about one transaction\<close>

text \<open>No shard changes what it remembers of transaction \<open>u\<close>.\<close>

definition same_seen :: "string \<Rightarrow> nodes \<Rightarrow> nodes \<Rightarrow> bool" where
  "same_seen u ns ns' \<longleftrightarrow>
     (\<forall>c. map_option (\<lambda>s. s_seenTxns s u) (ns' c) = map_option (\<lambda>s. s_seenTxns s u) (ns c))"

lemma same_seen_refl [simp]: "same_seen u ns ns"
  by (simp add: same_seen_def)

lemma same_seen_trans: "same_seen u ns ns' \<Longrightarrow> same_seen u ns' ns'' \<Longrightarrow> same_seen u ns ns''"
  by (simp add: same_seen_def)

locale remote_txn_call = remote_call call f
  for call f +
  fixes t :: string
  assumes f_other: "u \<noteq> t \<Longrightarrow> s_seenTxns (fst (f s)) u = s_seenTxns s u"
begin

lemma call_same_seen: "u \<noteq> t \<Longrightarrow> same_seen u ns (fst (call n addr ns))"
  by (auto simp: same_seen_def call_effect served_def f_other)

end

interpretation prept: remote_txn_call "\<lambda>n addr. ShardClient_Prepare n addr t op a x"
    "ShardServer_PrepareTransaction t op a x" t for t op a x
  by unfold_locales (metis Prepare_other prod.collapse)

interpretation commt: remote_txn_call "\<lambda>n addr. ShardClient_Commit n addr t op a x"
    "ShardServer_CommitTransaction t op a x" t for t op a x
  by unfold_locales (metis Commit_other prod.collapse)

interpretation abrtt: remote_txn_call "\<lambda>n addr. ShardClient_Abort n addr t op a x"
    "ShardServer_AbortTransaction t op a x" t for t op a x
  by unfold_locales (metis Abort_other prod.collapse)

lemma Execute_same_seen:
  "u \<noteq> t_TxnID txn \<Longrightarrow> same_seen u ns (fst (ShardClient_Execute n addr txn ns))"
  using Execute_other [OF prod.collapse [symmetric]]
  by (auto simp: same_seen_def Execute_call served_def)

end
