(* ===== verification/ShardMap.thy ===== *)
theory ShardMap
  imports Models Hash Strconv
begin

text \<open>
  \<^verbatim>\<open>coordinator/shardmap/shard_map.go\<close>: the table from partitions to shard servers, kept in memory
  and saved as a JSON object whose keys are partition numbers in decimal. The file is what the
  JSON decoder makes of it: absent, empty, undecodable, or the decoded object.
\<close>

section \<open>Model\<close>

record ShardInfo =
  si_ShardID :: string
  si_Address :: string
  si_Role :: string

datatype map_file = NoFile | EmptyFile | BadFile | MapFile "string \<rightharpoonup> ShardInfo"

text \<open>\<open>sm_io\<close>: how the coming saves fare (an empty list: they succeed).\<close>

record ShardMap =
  sm_partitions :: "int \<rightharpoonup> ShardInfo"
  sm_file :: map_file
  sm_io :: "bool list"

datatype map_error =
    MapReadFailed | MapParseFailed | InvalidPartitionKey string | NoShards | MapDirFailed
  | MapSaveFailed | NoShardForPartition int string

text \<open>\<open>for key, info := range data.Partitions\<close>, in the order \<open>keys\<close>.\<close>

fun load_keys :: "string list \<Rightarrow> (string \<rightharpoonup> ShardInfo) \<Rightarrow> (int \<rightharpoonup> ShardInfo) \<Rightarrow> map_error + (int \<rightharpoonup> ShardInfo)" where
  "load_keys [] data out = Inr out"
| "load_keys (key # keys) data out =
     (case data key of
        None \<Rightarrow> load_keys keys data out
      | Some info \<Rightarrow>
          (case Sscanf_d key of
             None \<Rightarrow> Inl (InvalidPartitionKey key)
           | Some partID \<Rightarrow> load_keys keys data (out(partID \<mapsto> info))))"

definition LoadShardMap :: "string list \<Rightarrow> bool \<Rightarrow> map_file \<Rightarrow> bool list \<Rightarrow> map_error + ShardMap" where
  "LoadShardMap keys readable file io =
     (case file of
        NoFile \<Rightarrow> Inr \<lparr>sm_partitions = Map.empty, sm_file = file, sm_io = io\<rparr>
      | _ \<Rightarrow>
          if \<not> readable then Inl MapReadFailed
          else case file of
            MapFile data \<Rightarrow>
              (case load_keys keys data Map.empty of
                 Inl err \<Rightarrow> Inl err
               | Inr ps \<Rightarrow> Inr \<lparr>sm_partitions = ps, sm_file = file, sm_io = io\<rparr>)
          | BadFile \<Rightarrow> Inl MapParseFailed
          | _ \<Rightarrow> Inr \<lparr>sm_partitions = Map.empty, sm_file = file, sm_io = io\<rparr>)"

text \<open>The loop of \<open>saveLocked\<close> that fills the on-disk object, in the order \<open>ks\<close>.\<close>

fun save_keys :: "int list \<Rightarrow> (int \<rightharpoonup> ShardInfo) \<Rightarrow> (string \<rightharpoonup> ShardInfo) \<Rightarrow> (string \<rightharpoonup> ShardInfo)" where
  "save_keys [] ps data = data"
| "save_keys (k # ks) ps data =
     save_keys ks ps (case ps k of None \<Rightarrow> data | Some info \<Rightarrow> data(fmt_d k \<mapsto> info))"

text \<open>The file is replaced by a rename, so a failed save leaves the old one.\<close>

definition ShardMap_saveLocked :: "int list \<Rightarrow> ShardMap \<Rightarrow> ShardMap \<times> map_error option" where
  "ShardMap_saveLocked ks sm =
     (let sm' = sm\<lparr>sm_io := tl (sm_io sm)\<rparr> in
      if sm_io sm = [] \<or> hd (sm_io sm)
      then (sm'\<lparr>sm_file := MapFile (save_keys ks (sm_partitions sm) Map.empty)\<rparr>, None)
      else (sm', Some MapSaveFailed))"

definition ShardMap_Save :: "int list \<Rightarrow> ShardMap \<Rightarrow> ShardMap \<times> map_error option" where
  "ShardMap_Save ks sm = ShardMap_saveLocked ks sm"

text \<open>\<open>for i := 0; i < totalPartitions; i++ { sm.partitions[i] = shards[i%len(shards)] }\<close>\<close>

fun round_robin :: "ShardInfo list \<Rightarrow> nat \<Rightarrow> (int \<rightharpoonup> ShardInfo)" where
  "round_robin shards 0 = Map.empty"
| "round_robin shards (Suc i) = (round_robin shards i)(int i \<mapsto> shards ! (i mod length shards))"

definition NewShardMap ::
    "int list \<Rightarrow> bool \<Rightarrow> map_file \<Rightarrow> bool list \<Rightarrow> ShardInfo list \<Rightarrow> int \<Rightarrow> map_error + ShardMap" where
  "NewShardMap ks dir_ok file io shards totalPartitions =
     (if shards = [] then Inl NoShards
      else if \<not> dir_ok then Inl MapDirFailed
      else case ShardMap_Save ks \<lparr>sm_partitions = round_robin shards (nat totalPartitions),
                                  sm_file = file, sm_io = io\<rparr> of
             (sm, Some err) \<Rightarrow> Inl err
           | (sm, None) \<Rightarrow> Inr sm)"

definition ShardMap_GetShard :: "int \<Rightarrow> ShardMap \<Rightarrow> ShardInfo option" where
  "ShardMap_GetShard partitionID sm = sm_partitions sm partitionID"

definition ShardMap_GetShardForAccount ::
    "string \<Rightarrow> PartitionMapper \<Rightarrow> ShardMap \<Rightarrow> map_error + ShardInfo" where
  "ShardMap_GetShardForAccount accountID mapper sm =
     (let partitionID = PartitionMapper_GetPartition accountID mapper in
      case sm_partitions sm partitionID of
        None \<Rightarrow> Inl (NoShardForPartition partitionID accountID)
      | Some info \<Rightarrow> Inr info)"

definition ShardMap_UpdatePartition ::
    "int list \<Rightarrow> int \<Rightarrow> ShardInfo \<Rightarrow> ShardMap \<Rightarrow> ShardMap \<times> map_error option" where
  "ShardMap_UpdatePartition ks partitionID shard sm =
     ShardMap_saveLocked ks (sm\<lparr>sm_partitions := (sm_partitions sm)(partitionID \<mapsto> shard)\<rparr>)"

fun all_shards :: "int list \<Rightarrow> (int \<rightharpoonup> ShardInfo) \<Rightarrow> string set \<Rightarrow> ShardInfo list" where
  "all_shards [] ps seen = []"
| "all_shards (k # ks) ps seen =
     (case ps k of
        None \<Rightarrow> all_shards ks ps seen
      | Some info \<Rightarrow>
          if si_ShardID info \<in> seen then all_shards ks ps seen
          else info # all_shards ks ps (insert (si_ShardID info) seen))"

definition ShardMap_AllShards :: "int list \<Rightarrow> ShardMap \<Rightarrow> ShardInfo list" where
  "ShardMap_AllShards ks sm = all_shards ks (sm_partitions sm) {}"

definition ShardMap_GetPartitionsForShard :: "int list \<Rightarrow> string \<Rightarrow> ShardMap \<Rightarrow> int list" where
  "ShardMap_GetPartitionsForShard ks shardID sm =
     filter (\<lambda>k. \<exists>info. sm_partitions sm k = Some info \<and> si_ShardID info = shardID) ks"

definition ShardMap_PartitionCount :: "ShardMap \<Rightarrow> nat" where
  "ShardMap_PartitionCount sm = card (dom (sm_partitions sm))"

section \<open>Saving and loading\<close>

definition go_ints :: "int set" where
  "go_ints = {- (2 ^ 63) ..< 2 ^ 63}"

lemma fmt_inj: "i \<in> go_ints \<Longrightarrow> j \<in> go_ints \<Longrightarrow> fmt_d i = fmt_d j \<longleftrightarrow> i = j"
  using fmt_d_inj [of i j] by (auto simp: go_ints_def)

lemma scan_fmt_int: "i \<in> go_ints \<Longrightarrow> Sscanf_d (fmt_d i) = Some i"
  by (simp add: Sscanf_fmt go_ints_def)

lemma save_keys_apply:
  assumes "set ks \<subseteq> go_ints" "k \<in> go_ints"
  shows "save_keys ks ps data (fmt_d k) = (if k \<in> set ks \<and> ps k \<noteq> None then ps k else data (fmt_d k))"
  using assms(1)
proof (induction ks ps data rule: save_keys.induct)
  case (2 k' ks ps data)
  then have "fmt_d k = fmt_d k' \<Longrightarrow> k = k'" using fmt_inj [of k k'] assms(2) by simp
  with 2 show ?case by (auto split: option.splits)
qed simp

lemma save_keys_dom: "dom (save_keys ks ps data) = fmt_d ` (set ks \<inter> dom ps) \<union> dom data"
  by (induction ks ps data rule: save_keys.induct) (auto split: option.splits)

lemma load_keys_ok:
  assumes "set keys \<subseteq> fmt_d ` go_ints"
  shows "\<exists>ps. load_keys keys data out = Inr ps
    \<and> (\<forall>k \<in> go_ints. ps k = (if fmt_d k \<in> set keys \<and> data (fmt_d k) \<noteq> None then data (fmt_d k) else out k))
    \<and> (\<forall>k. k \<notin> go_ints \<longrightarrow> ps k = out k)"
  using assms
proof (induction keys data out rule: load_keys.induct)
  case (2 key keys data out)
  then obtain i where i: "i \<in> go_ints" "key = fmt_d i" by auto
  then have scan: "Sscanf_d key = Some i" by (simp add: scan_fmt_int)
  show ?case
  proof (cases "data key")
    case None
    with 2 show ?thesis by fastforce
  next
    case (Some info)
    from "2.IH"(2) [OF Some scan] "2.prems" obtain ps where ps:
      "load_keys keys data (out(i \<mapsto> info)) = Inr ps"
      "\<forall>k \<in> go_ints. ps k = (if fmt_d k \<in> set keys \<and> data (fmt_d k) \<noteq> None then data (fmt_d k) else (out(i \<mapsto> info)) k)"
      "\<forall>k. k \<notin> go_ints \<longrightarrow> ps k = (out(i \<mapsto> info)) k"
      by (auto simp del: fun_upd_apply)
    have inj: "fmt_d k = fmt_d i \<longleftrightarrow> k = i" if "k \<in> go_ints" for k
      by (rule fmt_inj [OF that i(1)])
    show ?thesis
      by (rule exI [of _ ps]) (use ps Some scan i inj in auto)
  qed
qed simp

lemma load_save:
  assumes "visits ks ps" "dom ps \<subseteq> go_ints" "visits keys (save_keys ks ps Map.empty)"
  shows "load_keys keys (save_keys ks ps Map.empty) Map.empty = Inr ps"
proof -
  let ?data = "save_keys ks ps Map.empty"
  have ks: "set ks = dom ps" "set keys = fmt_d ` dom ps"
    using assms by (auto simp: visits_def save_keys_dom)
  with assms(2) have "set keys \<subseteq> fmt_d ` go_ints" by auto
  then obtain qs where qs: "load_keys keys ?data Map.empty = Inr qs"
      "\<forall>k \<in> go_ints. qs k = (if fmt_d k \<in> set keys \<and> ?data (fmt_d k) \<noteq> None then ?data (fmt_d k) else None)"
      "\<forall>k. k \<notin> go_ints \<longrightarrow> qs k = None"
    using load_keys_ok [of keys ?data Map.empty] by auto
  have "qs k = ps k" for k
  proof (cases "k \<in> go_ints")
    case True
    then have "?data (fmt_d k) = ps k"
      using save_keys_apply [of ks k ps Map.empty] assms(2) ks(1) by (auto simp: domIff)
    moreover have "fmt_d k \<in> set keys" if "ps k \<noteq> None" using that ks(2) by blast
    ultimately show ?thesis using True qs(2) by (cases "ps k") auto
  next
    case False
    with qs(3) assms(2) show ?thesis by (cases "ps k") (auto simp: subset_iff)
  qed
  with qs(1) show ?thesis by (simp add: ext)
qed

section \<open>Round robin\<close>

lemma round_robin_apply:
  "round_robin shards n k = (if 0 \<le> k \<and> k < int n then Some (shards ! (nat k mod length shards)) else None)"
  by (induction n) auto

lemma round_robin_dom: "dom (round_robin shards n) = {0 ..< int n}"
  by (auto simp: round_robin_apply split: if_splits)


section \<open>Properties\<close>

definition example_shards :: "ShardInfo list" where
  "example_shards = [\<lparr>si_ShardID = ''shard1'', si_Address = ''s1:8081'', si_Role = ''PRIMARY''\<rparr>,
     \<lparr>si_ShardID = ''shard2'', si_Address = ''s2:8082'', si_Role = ''PRIMARY''\<rparr>]"

lemma visits_ints: "visits (map int [0..<n]) (round_robin shards n)"
  by (auto simp: visits_def round_robin_dom distinct_map image_iff Bex_def)
    (metis atLeastLessThan_iff int_nat_eq le0 nat_less_iff)

text \<open>
  C32: saving the shard map and loading the file gives the map back, in whatever orders the
  two loops visit their maps: partition numbers survive the trip through decimal keys.
\<close>

theorem shard_map_round_trip:
  assumes "visits ks (sm_partitions sm)" "dom (sm_partitions sm) \<subseteq> go_ints"
    and "ShardMap_Save ks sm = (sm', None)" "sm_file sm' = MapFile data" "visits keys data"
  shows "\<exists>sm2. LoadShardMap keys True (sm_file sm') io = Inr sm2 \<and> sm_partitions sm2 = sm_partitions sm"
proof -
  have "data = save_keys ks (sm_partitions sm) Map.empty"
    using assms(3,4) by (auto simp: ShardMap_Save_def ShardMap_saveLocked_def Let_def split: if_splits)
  with load_save [OF assms(1,2)] assms(4,5) show ?thesis by (simp add: LoadShardMap_def)
qed

theorem shard_map_round_trip_witness:
  "\<exists>sm2. LoadShardMap [''0'', ''-7''] True
      (MapFile [''0'' \<mapsto> example_shards ! 0, ''-7'' \<mapsto> example_shards ! 1]) [] = Inr sm2
    \<and> sm_partitions sm2 = [0 \<mapsto> example_shards ! 0, - 7 \<mapsto> example_shards ! 1]"
proof -
  have f: "fmt_d 0 = ''0''" "fmt_d (- 7) = ''-7''"
    by code_simp+
  let ?sm = "\<lparr>sm_partitions = [0 \<mapsto> example_shards ! 0, - 7 \<mapsto> example_shards ! 1],
      sm_file = NoFile, sm_io = []\<rparr>"
  have "ShardMap_Save [0, - 7] ?sm =
      (?sm\<lparr>sm_file := MapFile [''0'' \<mapsto> example_shards ! 0, ''-7'' \<mapsto> example_shards ! 1]\<rparr>, None)"
    by (simp add: ShardMap_Save_def ShardMap_saveLocked_def f)
  from shard_map_round_trip [OF _ _ this, of "[''0'' \<mapsto> example_shards ! 0, ''-7'' \<mapsto> example_shards ! 1]"
      "[''0'', ''-7'']" "[]"]
  show ?thesis by (simp add: visits_def go_ints_def insert_commute)
qed

text \<open>
  A freshly built shard map is total and even: every account has a shard, it is one of
  the configured ones, and partition \<open>i\<close> belongs to shard \<open>i\<close> modulo the number of shards.
\<close>

theorem new_shard_map_total:
  assumes "NewShardMap ks dir_ok file io shards (mp_numPartitions mapper) = Inr sm" "mapper_ok mapper"
  shows "ShardMap_GetShardForAccount a mapper sm =
      Inr (shards ! (nat (PartitionMapper_GetPartition a mapper) mod length shards))
    \<and> nat (PartitionMapper_GetPartition a mapper) mod length shards < length shards
    \<and> ShardMap_PartitionCount sm = nat (mp_numPartitions mapper)"
proof (intro conjI)
  have ps: "sm_partitions sm = round_robin shards (nat (mp_numPartitions mapper))" "shards \<noteq> []"
    using assms(1) by (auto simp: NewShardMap_def ShardMap_Save_def ShardMap_saveLocked_def Let_def split: if_splits)
  show "ShardMap_GetShardForAccount a mapper sm =
      Inr (shards ! (nat (PartitionMapper_GetPartition a mapper) mod length shards))"
    using GetPartition_range [OF assms(2), of a]
    by (simp add: ShardMap_GetShardForAccount_def ps round_robin_apply)
  show "nat (PartitionMapper_GetPartition a mapper) mod length shards < length shards"
    using ps(2) by simp
  show "ShardMap_PartitionCount sm = nat (mp_numPartitions mapper)"
    by (simp add: ShardMap_PartitionCount_def ps round_robin_dom)
qed

theorem new_shard_map_total_witness:
  "\<exists>sm. NewShardMap (map int [0..<30]) True NoFile [] example_shards 30 = Inr sm
     \<and> ShardMap_PartitionCount sm = 30"
proof -
  obtain sm where sm: "NewShardMap (map int [0..<30]) True NoFile [] example_shards
      (mp_numPartitions \<lparr>mp_numPartitions = 30\<rparr>) = Inr sm"
    by (simp add: NewShardMap_def ShardMap_Save_def ShardMap_saveLocked_def example_shards_def)
  with new_shard_map_total [OF sm] show ?thesis by (simp add: mapper_ok_def)
qed

text \<open>
  Reassigning a partition changes the owner of that partition and of no other, and takes
  effect in memory even when the save fails.
\<close>

theorem update_partition_effect:
  "ShardMap_GetShard q (fst (ShardMap_UpdatePartition ks p shard sm)) =
     (if q = p then Some shard else ShardMap_GetShard q sm)"
  by (simp add: ShardMap_GetShard_def ShardMap_UpdatePartition_def ShardMap_saveLocked_def Let_def)

lemma all_shards_ids:
  "si_ShardID ` set (all_shards ks ps seen) =
     {i. i \<notin> seen \<and> (\<exists>k \<in> set ks. \<exists>info. ps k = Some info \<and> si_ShardID info = i)}"
proof (induction ks ps seen rule: all_shards.induct)
  case (2 k ks ps seen)
  show ?case
  proof (cases "ps k")
    case (Some info)
    then show ?thesis using "2.IH"(2,3) [OF Some] by (cases "si_ShardID info \<in> seen") (simp; blast)+
  qed (use "2.IH"(1) in simp)
qed simp

lemma all_shards_distinct: "distinct (map si_ShardID (all_shards ks ps seen))"
proof (induction ks ps seen rule: all_shards.induct)
  case (2 k ks ps seen)
  then show ?case
    using all_shards_ids [of ks ps "insert (si_ShardID (the (ps k))) seen"] by (auto split: option.split)
qed simp

lemma all_shards_members: "info \<in> set (all_shards ks ps seen) \<Longrightarrow> \<exists>k \<in> set ks. ps k = Some info"
  by (induction ks ps seen rule: all_shards.induct) (auto split: option.splits if_splits)

text \<open>
  The list of shards names each shard identifier that owns a partition exactly once, and
  every entry is one of the table's.
\<close>

theorem all_shards_deduplicated:
  assumes "visits ks (sm_partitions sm)"
  shows "distinct (map si_ShardID (ShardMap_AllShards ks sm))
    \<and> set (ShardMap_AllShards ks sm) \<subseteq> ran (sm_partitions sm)
    \<and> si_ShardID ` set (ShardMap_AllShards ks sm) = si_ShardID ` ran (sm_partitions sm)"
proof (intro conjI)
  show "distinct (map si_ShardID (ShardMap_AllShards ks sm))"
    by (simp add: ShardMap_AllShards_def all_shards_distinct)
  show "set (ShardMap_AllShards ks sm) \<subseteq> ran (sm_partitions sm)"
    by (auto simp: ShardMap_AllShards_def ran_def dest: all_shards_members)
  have "k \<in> set ks" if "sm_partitions sm k = Some info" for k info
    using assms that by (auto simp: visits_def)
  then show "si_ShardID ` set (ShardMap_AllShards ks sm) = si_ShardID ` ran (sm_partitions sm)"
    by (force simp: ShardMap_AllShards_def all_shards_ids ran_def image_iff)
qed

theorem all_shards_deduplicated_witness:
  "distinct (map si_ShardID (ShardMap_AllShards [0, 1, 2]
     \<lparr>sm_partitions = round_robin example_shards 3, sm_file = NoFile, sm_io = []\<rparr>))"
proof -
  have "{0, 1, 2} = {0..<3::int}" by auto
  then show ?thesis
    using all_shards_deduplicated [of "[0, 1, 2]"
        "\<lparr>sm_partitions = round_robin example_shards 3, sm_file = NoFile, sm_io = []\<rparr>"]
    by (simp add: visits_def round_robin_dom)
qed

end
