(* ===== verification/TwoPC.thy ===== *)
theory TwoPC
  imports Messaging ShardMap
begin

text \<open>
  \<^verbatim>\<open>coordinator/twopc/coordinator.go\<close>: the two-phase commit coordinator. It keeps no state: a run
  transforms the cluster. The two PREPAREs and the two COMMIT loops run in goroutines of their own;
  their interleaving is an argument: which PREPARE is served first, and a schedule that says before
  every COMMIT attempt which of the two goroutines goes on.
\<close>

section \<open>Model\<close>

text \<open>The loop that collects the two answers and tells them apart by shard identifier.\<close>

fun collect_prepares :: "string \<Rightarrow> (string \<times> client_error option) list \<Rightarrow> bool \<times> bool \<Rightarrow> bool \<times> bool" where
  "collect_prepares src [] fl = fl"
| "collect_prepares src ((shardID, Some err) # rs) fl = collect_prepares src rs fl"
| "collect_prepares src ((shardID, None) # rs) (sp, dp) =
     collect_prepares src rs (if shardID = src then (True, dp) else (sp, True))"

definition Coordinator_sendPrepares ::
    "bool \<Rightarrow> net \<Rightarrow> net \<Rightarrow> Transaction \<Rightarrow> ShardInfo \<Rightarrow> ShardInfo \<Rightarrow> nodes \<Rightarrow> nodes \<times> bool \<times> bool" where
  "Coordinator_sendPrepares srcFirst n1 n2 txn source dest ns =
     (let prepSrc = ShardClient_Prepare n1 (si_Address source) (t_TxnID txn) OpDebit (t_Source txn) (t_Amount txn);
          prepDst = ShardClient_Prepare n2 (si_Address dest) (t_TxnID txn) OpCredit (t_Destination txn) (t_Amount txn)
      in if srcFirst then
           (case prepSrc ns of (ns1, e1) \<Rightarrow> case prepDst ns1 of (ns2, e2) \<Rightarrow>
              (ns2, collect_prepares (si_ShardID source)
                      [(si_ShardID source, e1), (si_ShardID dest, e2)] (False, False)))
         else
           (case prepDst ns of (ns1, e2) \<Rightarrow> case prepSrc ns1 of (ns2, e1) \<Rightarrow>
              (ns2, collect_prepares (si_ShardID source)
                      [(si_ShardID dest, e2), (si_ShardID source, e1)] (False, False))))"

text \<open>One goroutine inside \<open>commitWithRetry\<close>: the attempts it has left, how the network will treat
  them (an empty list: well), and \<open>lastErr\<close>. It has returned when no attempt is left.\<close>

record committer =
  cm_left :: nat
  cm_nets :: "net list"
  cm_err :: "client_error option"

definition commit_start :: "net list \<Rightarrow> committer" where
  "commit_start nets = \<lparr>cm_left = 3, cm_nets = nets, cm_err = None\<rparr>"

definition next_net :: "net list \<Rightarrow> net" where
  "next_net nets = (case nets of [] \<Rightarrow> NetOk | n # _ \<Rightarrow> n)"

text \<open>One iteration of the loop of \<open>commitWithRetry\<close>.\<close>

definition Coordinator_commitAttempt ::
    "string \<Rightarrow> string \<Rightarrow> OperationType \<Rightarrow> string \<Rightarrow> int64 \<Rightarrow> committer \<Rightarrow> nodes \<Rightarrow> committer \<times> nodes" where
  "Coordinator_commitAttempt addr t op a x c ns =
     (case ShardClient_Commit (next_net (cm_nets c)) addr t op a x ns of
        (ns', Some err) \<Rightarrow> (\<lparr>cm_left = cm_left c - 1, cm_nets = tl (cm_nets c), cm_err = Some err\<rparr>, ns')
      | (ns', None) \<Rightarrow> (\<lparr>cm_left = 0, cm_nets = tl (cm_nets c), cm_err = None\<rparr>, ns'))"

lemma commitAttempt_left:
  "Coordinator_commitAttempt addr t op a x c ns = (c', ns') \<Longrightarrow> 0 < cm_left c \<Longrightarrow> cm_left c' < cm_left c"
  by (auto simp: Coordinator_commitAttempt_def split: prod.splits option.splits)

text \<open>The two loops interleaved: \<open>sched\<close> decides who goes on while both are running.\<close>

function commit_both ::
    "bool list \<Rightarrow> Transaction \<Rightarrow> ShardInfo \<Rightarrow> ShardInfo \<Rightarrow> committer \<Rightarrow> committer \<Rightarrow> nodes
     \<Rightarrow> nodes \<times> client_error option \<times> client_error option" where
  "commit_both sched txn source dest c d ns =
     (if cm_left c = 0 \<and> cm_left d = 0 then (ns, cm_err c, cm_err d)
      else if cm_left d = 0 \<or> 0 < cm_left c \<and> (sched = [] \<or> hd sched) then
        (case Coordinator_commitAttempt (si_Address source) (t_TxnID txn) OpDebit (t_Source txn) (t_Amount txn) c ns of
           (c', ns') \<Rightarrow> commit_both (tl sched) txn source dest c' d ns')
      else
        (case Coordinator_commitAttempt (si_Address dest) (t_TxnID txn) OpCredit (t_Destination txn) (t_Amount txn) d ns of
           (d', ns') \<Rightarrow> commit_both (tl sched) txn source dest c d' ns'))"
  by pat_completeness auto
termination
  by (relation "measure (\<lambda>(sched, txn, source, dest, c, d, ns). cm_left c + cm_left d)")
    (auto dest: commitAttempt_left commitAttempt_left [OF sym] split: prod.splits)

declare commit_both.simps [simp del]

definition Coordinator_commitAll ::
    "bool list \<Rightarrow> net list \<Rightarrow> net list \<Rightarrow> Transaction \<Rightarrow> ShardInfo \<Rightarrow> ShardInfo \<Rightarrow> nodes
     \<Rightarrow> nodes \<times> ledger_error TransactionResult" where
  "Coordinator_commitAll sched nets1 nets2 txn source dest ns =
     (case commit_both sched txn source dest (commit_start nets1) (commit_start nets2) ns of
        (ns', e1, e2) \<Rightarrow>
          (ns', \<lparr>r_TxnID = t_TxnID txn, r_State = StateCommitted,
                 r_Message = Text ''cross-shard: committed on all shards''\<rparr>))"

definition Coordinator_abortAll ::
    "net \<Rightarrow> net \<Rightarrow> Transaction \<Rightarrow> ShardInfo \<Rightarrow> ShardInfo \<Rightarrow> bool \<Rightarrow> bool \<Rightarrow> nodes
     \<Rightarrow> nodes \<times> ledger_error TransactionResult" where
  "Coordinator_abortAll n1 n2 txn source dest sourcePrepared destPrepared ns =
     (let ns1 = (if sourcePrepared
                 then fst (ShardClient_Abort n1 (si_Address source) (t_TxnID txn) OpDebit (t_Source txn) (t_Amount txn) ns)
                 else ns);
          ns2 = (if destPrepared
                 then fst (ShardClient_Abort n2 (si_Address dest) (t_TxnID txn) OpCredit (t_Destination txn) (t_Amount txn) ns1)
                 else ns1)
      in (ns2, \<lparr>r_TxnID = t_TxnID txn, r_State = StateAborted,
                r_Message = Text ''cross-shard: one or more shards rejected''\<rparr>))"

text \<open>What the environment decides in one run.\<close>

record run_env =
  env_srcFirst :: bool
  env_prepares :: "net \<times> net"
  env_sched :: "bool list"
  env_commits :: "net list \<times> net list"
  env_aborts :: "net \<times> net"

definition Coordinator_Execute ::
    "run_env \<Rightarrow> Transaction \<Rightarrow> ShardInfo \<Rightarrow> ShardInfo \<Rightarrow> nodes \<Rightarrow> nodes \<times> ledger_error TransactionResult" where
  "Coordinator_Execute env txn source dest ns =
     (case Coordinator_sendPrepares (env_srcFirst env) (fst (env_prepares env)) (snd (env_prepares env))
             txn source dest ns of
        (ns1, sourcePrepared, destPrepared) \<Rightarrow>
          if sourcePrepared \<and> destPrepared
          then Coordinator_commitAll (env_sched env) (fst (env_commits env)) (snd (env_commits env))
                 txn source dest ns1
          else Coordinator_abortAll (fst (env_aborts env)) (snd (env_aborts env))
                 txn source dest sourcePrepared destPrepared ns1)"

section \<open>One participant during a run\<close>

text \<open>\<open>l\<close> is the ledger before the run.\<close>

definition untouched :: "string \<Rightarrow> Ledger \<Rightarrow> ShardServer \<Rightarrow> bool" where
  "untouched t l s \<longleftrightarrow> s_ledger s = l \<and> s_seenTxns s t \<in> {None, Some StateAborted}"

definition reserved :: "string \<Rightarrow> OperationType \<Rightarrow> string \<Rightarrow> int64 \<Rightarrow> Ledger \<Rightarrow> ShardServer \<Rightarrow> bool" where
  "reserved t op a x l s \<longleftrightarrow> reservable op a x l \<and> s_ledger s = reserve op a x l
     \<and> s_seenTxns s t = Some StatePrepared"

definition done_commit :: "string \<Rightarrow> OperationType \<Rightarrow> string \<Rightarrow> int64 \<Rightarrow> Ledger \<Rightarrow> ShardServer \<Rightarrow> bool" where
  "done_commit t op a x l s \<longleftrightarrow> reservable op a x l \<and> deliverable op a x (reserve op a x l)
     \<and> s_ledger s = deliver op a x (reserve op a x l) \<and> s_seenTxns s t = Some StateCommitted"

definition committing :: "string \<Rightarrow> OperationType \<Rightarrow> string \<Rightarrow> int64 \<Rightarrow> Ledger \<Rightarrow> ShardServer \<Rightarrow> bool" where
  "committing t op a x l s \<longleftrightarrow> reserved t op a x l s \<or> done_commit t op a x l s"

lemma prepare_call:
  assumes "ns addr = Some s" "s_seenTxns s t = None"
  shows "\<exists>s'. fst (ShardClient_Prepare n addr t op a x ns) addr = Some s'
    \<and> (untouched t (s_ledger s) s' \<or> reserved t op a x (s_ledger s) s')
    \<and> (snd (ShardClient_Prepare n addr t op a x ns) = None \<longrightarrow> reserved t op a x (s_ledger s) s')
    \<and> (n = NetOk \<and> snd (ShardClient_Prepare n addr t op a x ns) \<noteq> None \<longrightarrow> untouched t (s_ledger s) s')"
proof -
  obtain s' r where p: "ShardServer_PrepareTransaction t op a x s = (s', r)" by force
  show ?thesis
    using prep.call_here [of ns addr s n t op a x, OF assms(1)] Prepare_fresh [OF assms(2) p] assms(2)
      prep.call_ok [of n addr t op a x ns] assms(1)
    by (cases r) (auto simp: p untouched_def reserved_def)
qed

lemma commit_keeps:
  assumes "committing t op a x l s"
  shows "committing t op a x l (fst (ShardServer_CommitTransaction t op a x s))"
    and "snd (ShardServer_CommitTransaction t op a x s) = None \<Longrightarrow>
      done_commit t op a x l (fst (ShardServer_CommitTransaction t op a x s))"
proof -
  obtain s' r where c: "ShardServer_CommitTransaction t op a x s = (s', r)" by force
  from assms show "committing t op a x l (fst (ShardServer_CommitTransaction t op a x s))"
    and "snd (ShardServer_CommitTransaction t op a x s) = None \<Longrightarrow>
      done_commit t op a x l (fst (ShardServer_CommitTransaction t op a x s))"
    using tpc.commit_prepared [OF _ c] c
    by (auto simp: committing_def reserved_def done_commit_def Commit_committed)
qed

lemma abort_call:
  assumes "ns addr = Some s" "reserved t op a x l s"
  shows "\<exists>s'. fst (ShardClient_Abort n addr t op a x ns) addr = Some s'
    \<and> s_ledger s' = (if n = RequestLost then reserve op a x l else l)"
proof -
  obtain s' r where p: "ShardServer_AbortTransaction t op a x s = (s', r)" by force
  show ?thesis
    using abrt.call_here [of ns addr s n t op a x, OF assms(1)] tpc.abort_prepared [OF _ p] assms(2)
      release_reserve [of op a x l]
    by (auto simp: p reserved_def)
qed


section \<open>The phases of a run\<close>

text \<open>The two participants of a run and the rest of the cluster, compared with the start.\<close>

definition others_same :: "nodes \<Rightarrow> nodes \<Rightarrow> string \<Rightarrow> string \<Rightarrow> bool" where
  "others_same ns ns' A B \<longleftrightarrow> (\<forall>c. c \<noteq> A \<and> c \<noteq> B \<longrightarrow> ns' c = ns c)"

lemma collect_two:
  "src \<noteq> dst \<Longrightarrow> collect_prepares src [(src, e1), (dst, e2)] (False, False) = (e1 = None, e2 = None)"
  "src \<noteq> dst \<Longrightarrow> collect_prepares src [(dst, e2), (src, e1)] (False, False) = (e1 = None, e2 = None)"
  by (cases e1; cases e2; simp)+

lemma sendPrepares_phase:
  assumes "ns (si_Address source) = Some sA" "ns (si_Address dest) = Some sB"
    and "si_Address source \<noteq> si_Address dest" "si_ShardID source \<noteq> si_ShardID dest"
    and "s_seenTxns sA (t_TxnID txn) = None" "s_seenTxns sB (t_TxnID txn) = None"
    and "Coordinator_sendPrepares first n1 n2 txn source dest ns = (ns', sp, dp)"
  shows "\<exists>sA' sB'. ns' (si_Address source) = Some sA' \<and> ns' (si_Address dest) = Some sB'
    \<and> others_same ns ns' (si_Address source) (si_Address dest)
    \<and> (untouched (t_TxnID txn) (s_ledger sA) sA' \<or> reserved (t_TxnID txn) OpDebit (t_Source txn) (t_Amount txn) (s_ledger sA) sA')
    \<and> (untouched (t_TxnID txn) (s_ledger sB) sB' \<or> reserved (t_TxnID txn) OpCredit (t_Destination txn) (t_Amount txn) (s_ledger sB) sB')
    \<and> (n1 = NetOk \<and> \<not> sp \<longrightarrow> untouched (t_TxnID txn) (s_ledger sA) sA')
    \<and> (sp \<longrightarrow> reserved (t_TxnID txn) OpDebit (t_Source txn) (t_Amount txn) (s_ledger sA) sA')
    \<and> (dp \<longrightarrow> reserved (t_TxnID txn) OpCredit (t_Destination txn) (t_Amount txn) (s_ledger sB) sB')"
proof -
  let ?A = "si_Address source" and ?B = "si_Address dest" and ?t = "t_TxnID txn" and ?x = "t_Amount txn"
  let ?pA = "ShardClient_Prepare n1 ?A ?t OpDebit (t_Source txn) ?x"
  let ?pB = "ShardClient_Prepare n2 ?B ?t OpCredit (t_Destination txn) ?x"
  note elsewhere = prep.call_elsewhere [where t = ?t and x = ?x]
  note A = prepare_call [OF _ assms(5), where addr = ?A and n = n1 and op = OpDebit and a = "t_Source txn" and x = ?x]
  note B = prepare_call [OF _ assms(6), where addr = ?B and n = n2 and op = OpCredit and a = "t_Destination txn" and x = ?x]
  show ?thesis
  proof (cases first)
    case True
    have ns': "ns' = fst (?pB (fst (?pA ns)))" "sp = (snd (?pA ns) = None)"
        "dp = (snd (?pB (fst (?pA ns))) = None)"
      using assms(7) assms(4) True
      by (auto simp: Coordinator_sendPrepares_def collect_two split: prod.splits)
    have "fst (?pA ns) ?B = Some sB" using assms(2,3) elsewhere by simp
    from B [where ns = "fst (?pA ns)", OF this] A [where ns = ns, OF assms(1)] show ?thesis
      using assms(3) by (auto simp: ns' elsewhere others_same_def)
  next
    case False
    have ns': "ns' = fst (?pA (fst (?pB ns)))" "sp = (snd (?pA (fst (?pB ns))) = None)"
        "dp = (snd (?pB ns) = None)"
      using assms(7) assms(4) False
      by (auto simp: Coordinator_sendPrepares_def collect_two split: prod.splits)
    have "fst (?pB ns) ?A = Some sA" using assms(1,3) elsewhere by simp
    from A [where ns = "fst (?pB ns)", OF this] B [where ns = ns, OF assms(2)] show ?thesis
      using assms(3) by (auto simp: ns' elsewhere others_same_def)
  qed
qed


text \<open>\<open>e\<close> is what a commit loop has to report so far; a loop that is still running reports an error.\<close>

definition at_commit :: "string \<Rightarrow> OperationType \<Rightarrow> string \<Rightarrow> int64 \<Rightarrow> Ledger \<Rightarrow> client_error option \<Rightarrow> ShardServer \<Rightarrow> bool" where
  "at_commit t op a x l e s \<longleftrightarrow> committing t op a x l s \<and> (e = None \<longrightarrow> done_commit t op a x l s)"

definition cm_result :: "committer \<Rightarrow> client_error option" where
  "cm_result c = (if cm_left c = 0 then cm_err c else Some ClientRequestFailed)"

lemma commitAttempt_effect:
  assumes "ns addr = Some s" "at_commit t op a x l e s"
    and "Coordinator_commitAttempt addr t op a x c ns = (c', ns')"
  obtains s' where "ns' = ns(addr \<mapsto> s')" "at_commit t op a x l (cm_result c') s'"
proof -
  let ?n = "next_net (cm_nets c)"
  let ?call = "ShardClient_Commit ?n addr t op a x ns"
  let ?s' = "if ?n = RequestLost then s else fst (ShardServer_CommitTransaction t op a x s)"
  have "ns' = fst ?call" "cm_result c' = None \<longleftrightarrow> snd ?call = None"
    using assms(3) by (auto simp: Coordinator_commitAttempt_def cm_result_def split: prod.splits option.splits)
  moreover have "fst ?call = ns(addr \<mapsto> ?s')"
    using assms(1) by (auto simp: comm.call_effect served_def fun_upd_idem)
  moreover have "at_commit t op a x l (snd ?call) ?s'"
    using commit_keeps [of t op a x l s] assms(1,2) comm.call_ok [of ?n addr t op a x ns]
    by (auto simp: at_commit_def)
  ultimately show ?thesis using that by (auto simp: at_commit_def)
qed

text \<open>What every attempt keeps, both loops keep.\<close>

lemma commit_both_inv:
  fixes txn source dest and pA pB :: "client_error option \<Rightarrow> ShardServer \<Rightarrow> bool"
  defines "A \<equiv> si_Address source" and "B \<equiv> si_Address dest"
    and "tryA \<equiv> Coordinator_commitAttempt (si_Address source) (t_TxnID txn) OpDebit (t_Source txn) (t_Amount txn)"
    and "tryB \<equiv> Coordinator_commitAttempt (si_Address dest) (t_TxnID txn) OpCredit (t_Destination txn) (t_Amount txn)"
  assumes "A \<noteq> B"
    and keepA: "\<And>ns s e c c' ns'. ns A = Some s \<Longrightarrow> pA e s \<Longrightarrow> tryA c ns = (c', ns') \<Longrightarrow> \<exists>s'. ns' = ns(A \<mapsto> s') \<and> pA (cm_result c') s'"
    and keepB: "\<And>ns s e c c' ns'. ns B = Some s \<Longrightarrow> pB e s \<Longrightarrow> tryB c ns = (c', ns') \<Longrightarrow> \<exists>s'. ns' = ns(B \<mapsto> s') \<and> pB (cm_result c') s'"
    and "ns A = Some sA" "pA (cm_result c) sA" "ns B = Some sB" "pB (cm_result d) sB"
    and "commit_both sched txn source dest c d ns = (ns', e1, e2)"
  shows "\<exists>sA' sB'. ns' A = Some sA' \<and> ns' B = Some sB' \<and> others_same ns ns' A B \<and> pA e1 sA' \<and> pB e2 sB'"
  using assms(8-)
proof (induction "cm_left c + cm_left d" arbitrary: sched c d ns sA sB rule: less_induct)
  case less
  note unfold = commit_both.simps [of sched txn source dest c d ns]
  consider (stop) "cm_left c = 0" "cm_left d = 0"
    | (src) "0 < cm_left c" "cm_left d = 0 \<or> 0 < cm_left c \<and> (sched = [] \<or> hd sched)"
    | (dst) "0 < cm_left d" "\<not> (cm_left d = 0 \<or> 0 < cm_left c \<and> (sched = [] \<or> hd sched))" by auto
  then show ?case
  proof cases
    case stop
    with less.prems show ?thesis by (simp add: unfold others_same_def cm_result_def)
  next
    case src
    obtain c1 ns1 where st: "tryA c ns = (c1, ns1)" by force
    from keepA [OF less.prems(1,2) st] obtain sA1 where sA1: "ns1 = ns(A \<mapsto> sA1)" "pA (cm_result c1) sA1" by metis
    have "commit_both (tl sched) txn source dest c1 d ns1 = (ns', e1, e2)"
      using less.prems(5) src st by (simp add: unfold tryA_def)
    with less.hyps [of c1 d ns1 sA1 sB "tl sched"] commitAttempt_left [OF st [unfolded tryA_def] src(1)]
    show ?thesis
      using sA1 less.prems(1-4) assms(5) by (simp add: others_same_def)
  next
    case dst
    obtain d1 ns1 where st: "tryB d ns = (d1, ns1)" by force
    from keepB [OF less.prems(3,4) st] obtain sB1 where sB1: "ns1 = ns(B \<mapsto> sB1)" "pB (cm_result d1) sB1" by metis
    have "commit_both (tl sched) txn source dest c d1 ns1 = (ns', e1, e2)"
      using less.prems(5) dst st by (auto simp: unfold tryB_def)
    with less.hyps [of c d1 ns1 sA sB1 "tl sched"] commitAttempt_left [OF st [unfolded tryB_def] dst(1)]
    show ?thesis
      using sB1 less.prems(1-4) assms(5) by (simp add: others_same_def)
  qed
qed

lemma commit_both_phase:
  fixes txn source dest lA lB
  defines "A \<equiv> si_Address source" and "B \<equiv> si_Address dest"
    and "pA \<equiv> at_commit (t_TxnID txn) OpDebit (t_Source txn) (t_Amount txn) lA"
    and "pB \<equiv> at_commit (t_TxnID txn) OpCredit (t_Destination txn) (t_Amount txn) lB"
  assumes "A \<noteq> B" "ns A = Some sA" "pA (cm_result c) sA" "ns B = Some sB" "pB (cm_result d) sB"
    and "commit_both sched txn source dest c d ns = (ns', e1, e2)"
  shows "\<exists>sA' sB'. ns' A = Some sA' \<and> ns' B = Some sB' \<and> others_same ns ns' A B \<and> pA e1 sA' \<and> pB e2 sB'"
  unfolding A_def B_def
proof (rule commit_both_inv [OF _ _ _ _ _ _ _ assms(10)])
  fix ns s e c c' ns'
  assume "ns (si_Address source) = Some s" "pA e s"
    "Coordinator_commitAttempt (si_Address source) (t_TxnID txn) OpDebit (t_Source txn) (t_Amount txn) c ns = (c', ns')"
  then show "\<exists>s'. ns' = ns(si_Address source \<mapsto> s') \<and> pA (cm_result c') s'"
    unfolding pA_def by (metis commitAttempt_effect)
next
  fix ns s e c c' ns'
  assume "ns (si_Address dest) = Some s" "pB e s"
    "Coordinator_commitAttempt (si_Address dest) (t_TxnID txn) OpCredit (t_Destination txn) (t_Amount txn) c ns = (c', ns')"
  then show "\<exists>s'. ns' = ns(si_Address dest \<mapsto> s') \<and> pB (cm_result c') s'"
    unfolding pB_def by (metis commitAttempt_effect)
qed (use assms(5-9) in \<open>simp_all add: A_def B_def\<close>)


lemma abortAll_phase:
  fixes txn source dest
  defines "A \<equiv> si_Address source" and "B \<equiv> si_Address dest" and "t \<equiv> t_TxnID txn" and "x \<equiv> t_Amount txn"
  assumes "A \<noteq> B" "ns A = Some sA" "ns B = Some sB"
    and "sp \<Longrightarrow> reserved t OpDebit (t_Source txn) x lA sA"
    and "dp \<Longrightarrow> reserved t OpCredit (t_Destination txn) x lB sB"
    and "s_ledger sB = lB"
    and "Coordinator_abortAll n1 n2 txn source dest sp dp ns = (ns', res)"
  shows "\<exists>sA' sB'. ns' A = Some sA' \<and> ns' B = Some sB' \<and> others_same ns ns' A B \<and> r_State res = StateAborted
    \<and> s_ledger sB' = lB \<and> s_ledger sA' = (if sp \<and> n1 \<noteq> RequestLost then lA else s_ledger sA)"
proof -
  let ?a1 = "ShardClient_Abort n1 A t OpDebit (t_Source txn) x ns"
  define ns1 where "ns1 = (if sp then fst ?a1 else ns)"
  let ?a2 = "ShardClient_Abort n2 B t OpCredit (t_Destination txn) x ns1"
  have ns': "ns' = (if dp then fst ?a2 else ns1)" "r_State res = StateAborted"
    using assms(11) by (auto simp: Coordinator_abortAll_def ns1_def A_def B_def t_def x_def Let_def)
  obtain sA' where sA': "ns1 A = Some sA'" "s_ledger sA' = (if sp \<and> n1 \<noteq> RequestLost then lA else s_ledger sA)"
    using abort_call [of ns A sA t OpDebit "t_Source txn" x lA n1] assms(6,8)
    by (cases sp) (auto simp: ns1_def reserved_def)
  have B: "ns1 B = Some sB" "others_same ns ns1 A B"
    using assms(5,7) by (auto simp: ns1_def abrt.call_elsewhere others_same_def)
  obtain sB' where "ns' B = Some sB'" "s_ledger sB' = lB"
    using abort_call [of ns1 B sB t OpCredit "t_Destination txn" x lB n2] B(1) assms(9,10)
    by (cases dp) (auto simp: ns' reserve_def)
  with sA' B(2) ns' assms(5) show ?thesis by (auto simp: abrt.call_elsewhere others_same_def)
qed

text \<open>The start of a run: the two shards are different servers and have not seen the transaction.\<close>

definition fresh_run :: "nodes \<Rightarrow> Transaction \<Rightarrow> ShardInfo \<Rightarrow> ShardInfo \<Rightarrow> ShardServer \<Rightarrow> ShardServer \<Rightarrow> bool" where
  "fresh_run ns txn source dest sA sB \<longleftrightarrow>
     ns (si_Address source) = Some sA \<and> ns (si_Address dest) = Some sB
     \<and> si_Address source \<noteq> si_Address dest \<and> si_ShardID source \<noteq> si_ShardID dest
     \<and> s_seenTxns sA (t_TxnID txn) = None \<and> s_seenTxns sB (t_TxnID txn) = None"

lemma reserve_credit [simp]: "reserve OpCredit a x l = l"
  by (simp add: reserve_def)

lemma deliver_debit [simp]: "deliver OpDebit a x l = l"
  by (simp add: deliver_def)

lemma Execute_outcome:
  fixes txn source dest
  defines "A \<equiv> si_Address source" and "B \<equiv> si_Address dest" and "t \<equiv> t_TxnID txn" and "x \<equiv> t_Amount txn"
  assumes "fresh_run ns txn source dest sA sB"
    and "Coordinator_Execute env txn source dest ns = (ns', res)"
  obtains sA' sB' where "ns' A = Some sA'" "ns' B = Some sB'" "others_same ns ns' A B"
    and "r_State res = StateCommitted \<Longrightarrow> committing t OpDebit (t_Source txn) x (s_ledger sA) sA'
      \<and> committing t OpCredit (t_Destination txn) x (s_ledger sB) sB'"
    and "r_State res \<noteq> StateCommitted \<Longrightarrow> r_State res = StateAborted \<and> s_ledger sB' = s_ledger sB
      \<and> (s_ledger sA' = s_ledger sA
         \<or> \<not> (fst (env_prepares env) = NetOk \<and> fst (env_aborts env) \<noteq> RequestLost)
           \<and> reservable OpDebit (t_Source txn) x (s_ledger sA) \<and> s_ledger sA' = reserve OpDebit (t_Source txn) x (s_ledger sA))"
proof -
  note fr = assms(5) [unfolded fresh_run_def, folded A_def B_def t_def]
  obtain ns1 sp dp where p: "Coordinator_sendPrepares (env_srcFirst env) (fst (env_prepares env))
      (snd (env_prepares env)) txn source dest ns = (ns1, sp, dp)" by (metis prod_cases3)
  let ?rA = "reserved t OpDebit (t_Source txn) x (s_ledger sA)"
  let ?rB = "reserved t OpCredit (t_Destination txn) x (s_ledger sB)"
  obtain sA1 sB1 where s1: "ns1 A = Some sA1" "ns1 B = Some sB1" "others_same ns ns1 A B"
      "untouched t (s_ledger sA) sA1 \<or> ?rA sA1" "untouched t (s_ledger sB) sB1 \<or> ?rB sB1"
      "sp \<longrightarrow> ?rA sA1" "dp \<longrightarrow> ?rB sB1"
      "fst (env_prepares env) = NetOk \<and> \<not> sp \<longrightarrow> untouched t (s_ledger sA) sA1"
    using sendPrepares_phase [OF _ _ _ _ _ _ p, of sA sB] fr unfolding A_def B_def t_def x_def by auto
  show ?thesis
  proof (cases "sp \<and> dp")
    case True
    then have run: "Coordinator_commitAll (env_sched env) (fst (env_commits env)) (snd (env_commits env))
        txn source dest ns1 = (ns', res)"
      using assms(6) p by (simp add: Coordinator_Execute_def)
    obtain e1 e2 where cb: "commit_both (env_sched env) txn source dest (commit_start (fst (env_commits env)))
        (commit_start (snd (env_commits env))) ns1 = (ns', e1, e2)" and res: "r_State res = StateCommitted"
      using run by (auto simp: Coordinator_commitAll_def split: prod.splits)
    from commit_both_phase [OF _ _ _ _ _ cb, of sA1 "s_ledger sA" sB1 "s_ledger sB"] True s1 fr
    obtain sA' sB' where "ns' A = Some sA'" "ns' B = Some sB'" "others_same ns1 ns' A B"
        "committing t OpDebit (t_Source txn) x (s_ledger sA) sA'"
        "committing t OpCredit (t_Destination txn) x (s_ledger sB) sB'"
      unfolding A_def B_def t_def x_def by (auto simp: at_commit_def committing_def commit_start_def cm_result_def)
    with s1(3) res show ?thesis by (intro that) (auto simp: others_same_def)
  next
    case False
    then have run: "Coordinator_abortAll (fst (env_aborts env)) (snd (env_aborts env)) txn source dest sp dp ns1 = (ns', res)"
      using assms(6) p by (auto simp: Coordinator_Execute_def)
    have "s_ledger sB1 = s_ledger sB" using s1(5) by (auto simp: untouched_def reserved_def)
    from abortAll_phase [OF _ _ _ _ _ this run, of sA1 "s_ledger sA"] s1 fr
    obtain sA' sB' where "ns' A = Some sA'" "ns' B = Some sB'" "others_same ns1 ns' A B"
        "r_State res = StateAborted" "s_ledger sB' = s_ledger sB"
        "s_ledger sA' = (if sp \<and> fst (env_aborts env) \<noteq> RequestLost then s_ledger sA else s_ledger sA1)"
      unfolding A_def B_def t_def x_def by auto
    with s1(3,4,8) show ?thesis
      by (intro that) (auto simp: others_same_def untouched_def reserved_def split: if_splits)
  qed
qed


section \<open>Money in the cluster\<close>

definition cluster_funds :: "nodes \<Rightarrow> int" where
  "cluster_funds ns = (\<Sum>addr\<in>dom ns. shard_funds (the (ns addr)))"

definition cluster_ok :: "nodes \<Rightarrow> bool" where
  "cluster_ok ns \<longleftrightarrow> finite (dom ns) \<and> (\<forall>addr s. ns addr = Some s \<longrightarrow> shard_ok s) \<and> cluster_funds ns < 2 ^ 63"

lemma cluster_update:
  assumes "finite (dom ns)" "ns addr = Some s"
  shows "cluster_funds (ns(addr \<mapsto> s')) = cluster_funds ns - shard_funds s + shard_funds s'"
proof -
  have addr: "addr \<in> dom ns" using assms(2) by blast
  have "(\<Sum>c\<in>dom ns - {addr}. shard_funds (the ((ns(addr \<mapsto> s')) c))) = (\<Sum>c\<in>dom ns - {addr}. shard_funds (the (ns c)))"
    by (intro sum.cong) auto
  then show ?thesis using addr assms by (simp add: cluster_funds_def sum.remove insert_absorb)
qed

lemma shard_funds_nonneg: "shard_ok s \<Longrightarrow> 0 \<le> shard_funds s"
  unfolding shard_ok_def shard_funds_def ledger_funds_def funds_def
  by (rule sum_nonneg) (auto dest: ledger_okD(2))

lemma shard_funds_le_cluster:
  assumes "cluster_ok ns" "ns a = Some s"
  shows "shard_funds s \<le> cluster_funds ns"
proof -
  have "shard_funds s = (\<Sum>c\<in>{a}. shard_funds (the (ns c)))" using assms(2) by simp
  also have "\<dots> \<le> cluster_funds ns"
    unfolding cluster_funds_def
    using assms by (intro sum_mono2) (auto simp: cluster_ok_def intro: shard_funds_nonneg)
  finally show ?thesis .
qed

lemma cluster_pair_le:
  assumes "cluster_ok ns" "ns a = Some s" "ns b = Some s'" "a \<noteq> b"
  shows "shard_funds s + shard_funds s' \<le> cluster_funds ns"
proof -
  have "shard_funds s + shard_funds s' = (\<Sum>c\<in>{a, b}. shard_funds (the (ns c)))" using assms by simp
  also have "\<dots> \<le> cluster_funds ns"
    unfolding cluster_funds_def
    using assms by (intro sum_mono2) (auto simp: cluster_ok_def intro: shard_funds_nonneg)
  finally show ?thesis .
qed

lemma cluster_ok_update:
  assumes "cluster_ok ns" "ns addr = Some s" "shard_ok s'" "cluster_funds ns - shard_funds s + shard_funds s' < 2 ^ 63"
  shows "cluster_ok (ns(addr \<mapsto> s'))"
  using assms cluster_update [of ns addr s s'] by (auto simp: cluster_ok_def)

text \<open>Two shards move money between them.\<close>

lemma cluster_pair_update:
  assumes ok: "cluster_ok ns" "ns A = Some sA" "ns B = Some sB" "A \<noteq> B"
    and new: "ns' A = Some sA'" "ns' B = Some sB'" "others_same ns ns' A B" "shard_ok sA'" "shard_ok sB'"
    and le: "shard_funds sA' \<le> shard_funds sA" "shard_funds sA' + shard_funds sB' \<le> shard_funds sA + shard_funds sB"
  shows "cluster_ok ns'"
    "cluster_funds ns' = cluster_funds ns - (shard_funds sA + shard_funds sB - shard_funds sA' - shard_funds sB')"
proof -
  have ns': "ns' = ns(A \<mapsto> sA', B \<mapsto> sB')"
    using new(1-3) ok(4) by (auto simp: others_same_def fun_eq_iff)
  have fin: "finite (dom ns)" "cluster_funds ns < 2 ^ 63" using ok(1) by (auto simp: cluster_ok_def)
  have 1: "cluster_funds (ns(A \<mapsto> sA')) = cluster_funds ns - shard_funds sA + shard_funds sA'"
    by (rule cluster_update [OF fin(1) ok(2)])
  have ok1: "cluster_ok (ns(A \<mapsto> sA'))"
    by (rule cluster_ok_update [OF ok(1,2) new(4)]) (use fin le in linarith)
  have 2: "cluster_funds ns' = cluster_funds (ns(A \<mapsto> sA')) - shard_funds sB + shard_funds sB'"
    unfolding ns' by (rule cluster_update) (use fin ok in auto)
  show "cluster_ok ns'" unfolding ns'
    by (rule cluster_ok_update [OF ok1 _ new(5)]) (use ok 1 fin le in auto)
  show "cluster_funds ns' = cluster_funds ns - (shard_funds sA + shard_funds sB - shard_funds sA' - shard_funds sB')"
    using 1 2 by simp
qed


lemma reserve_debit_funds:
  assumes "shard_ok s" "reservable OpDebit a x (s_ledger s)" "s_ledger s' = reserve OpDebit a x (s_ledger s)"
  shows "shard_ok s'" "shard_funds s' = shard_funds s - sint x" "0 < sint x" "sint x \<le> shard_funds s"
proof -
  have "ledger_ok (s_ledger s') \<and> ledger_funds (s_ledger s') = ledger_funds (s_ledger s) - sint x"
    using reserve_funds [of "s_ledger s" OpDebit a x] assms by (simp add: shard_ok_def moved_def)
  then show 1: "shard_ok s'" "shard_funds s' = shard_funds s - sint x"
    by (auto simp: shard_ok_def shard_funds_def)
  show "0 < sint x" using assms(2) by (rule reservable_debit_pos)
  show "sint x \<le> shard_funds s" using shard_funds_nonneg [OF 1(1)] 1(2) by simp
qed

lemma deliver_credit_funds:
  assumes "shard_ok s" "deliverable OpCredit a x (s_ledger s)" "s_ledger s' = deliver OpCredit a x (s_ledger s)"
    and "shard_funds s + sint x < 2 ^ 63"
  shows "shard_ok s'" "shard_funds s' = shard_funds s + sint x"
  using deliver_funds [of "s_ledger s" OpCredit a x] assms
  by (auto simp: shard_ok_def shard_funds_def moved_def)

text \<open>What the two participants hold together after a run.\<close>

lemma Execute_pair_funds:
  assumes "shard_ok sA" "shard_ok sB" "shard_funds sA + shard_funds sB < 2 ^ 63"
    and "committing t OpDebit a x (s_ledger sA) sA' \<and> committing t OpCredit b x (s_ledger sB) sB'
      \<or> s_ledger sB' = s_ledger sB \<and> (s_ledger sA' = s_ledger sA
         \<or> reservable OpDebit a x (s_ledger sA) \<and> s_ledger sA' = reserve OpDebit a x (s_ledger sA))"
  shows "shard_ok sA'" "shard_ok sB'" "shard_funds sA' \<le> shard_funds sA"
    "shard_funds sA' + shard_funds sB' \<in> {shard_funds sA + shard_funds sB, shard_funds sA + shard_funds sB - sint x}"
proof -
  consider (debit) "reservable OpDebit a x (s_ledger sA)" "s_ledger sA' = reserve OpDebit a x (s_ledger sA)"
      "s_ledger sB' = s_ledger sB"
    | (both) "reservable OpDebit a x (s_ledger sA)" "s_ledger sA' = reserve OpDebit a x (s_ledger sA)"
      "deliverable OpCredit b x (s_ledger sB)" "s_ledger sB' = deliver OpCredit b x (s_ledger sB)"
    | (neither) "s_ledger sA' = s_ledger sA" "s_ledger sB' = s_ledger sB"
    using assms(4) by (auto simp: committing_def reserved_def done_commit_def)
  then have "shard_ok sA' \<and> shard_ok sB' \<and> shard_funds sA' \<le> shard_funds sA
    \<and> shard_funds sA' + shard_funds sB' \<in> {shard_funds sA + shard_funds sB, shard_funds sA + shard_funds sB - sint x}"
  proof cases
    case debit
    then show ?thesis using reserve_debit_funds [OF assms(1) debit(1,2)] assms(2)
      by (simp add: shard_ok_def shard_funds_def)
  next
    case both
    have "shard_funds sB + sint x < 2 ^ 63"
      using reserve_debit_funds(4) [OF assms(1) both(1,2)] assms(3) by simp
    then show ?thesis
      using reserve_debit_funds [OF assms(1) both(1,2)] deliver_credit_funds [OF assms(2) both(3,4)] by simp
  next
    case neither
    then show ?thesis using assms(1,2) by (simp add: shard_ok_def shard_funds_def)
  qed
  then show "shard_ok sA'" "shard_ok sB'" "shard_funds sA' \<le> shard_funds sA"
    "shard_funds sA' + shard_funds sB' \<in> {shard_funds sA + shard_funds sB, shard_funds sA + shard_funds sB - sint x}"
    by auto
qed

section \<open>Runs without faults\<close>

lemma Prepare_healthy:
  assumes "wal_healthy (s_walLog s)" "s_seenTxns s t = None" "reservable op a x (s_ledger s)"
  shows "snd (ShardServer_PrepareTransaction t op a x s) = None"
    "wal_healthy (s_walLog (fst (ShardServer_PrepareTransaction t op a x s)))"
proof -
  have "prepare_check op a x (s_ledger s) = Inr (reserve op a x (s_ledger s))"
    using assms(3) by (simp add: prepare_check_Inr)
  moreover obtain w n where "WAL_Append t OpPrepared a x (s_walLog s) = (w, Inr n)" "wal_healthy w"
    using app.healthy_write(1,2) [OF assms(1), of t OpPrepared a x]
    by (cases "WAL_Append t OpPrepared a x (s_walLog s)"; cases "snd (WAL_Append t OpPrepared a x (s_walLog s))") auto
  ultimately show "snd (ShardServer_PrepareTransaction t op a x s) = None"
    "wal_healthy (s_walLog (fst (ShardServer_PrepareTransaction t op a x s)))"
    using assms(2) by (simp_all add: ShardServer_PrepareTransaction_def server_state_defs Let_def)
qed

lemma Commit_healthy:
  assumes "wal_healthy (s_walLog s)" "s_seenTxns s t = Some StatePrepared" "deliverable op a x (s_ledger s)"
  shows "snd (ShardServer_CommitTransaction t op a x s) = None"
proof -
  obtain w n where w: "WAL_Append t op a x (s_walLog s) = (w, Inr n)" "wal_healthy w"
    using app.healthy_write(1,2) [OF assms(1), of t op a x]
    by (cases "WAL_Append t op a x (s_walLog s)"; cases "snd (WAL_Append t op a x (s_walLog s))") auto
  obtain w2 where "WAL_MarkCommitted t w = (w2, None)"
    using com.healthy_write(2) [OF w(2), of t] by (cases "WAL_MarkCommitted t w") auto
  with w assms(2,3) show ?thesis
    by (cases "Ledger_ApplyCredit a x (s_ledger s)")
      (auto simp: ShardServer_CommitTransaction_def server_state_defs Let_def replicate_eq deliverable_def)
qed

lemma commitAttempt_accepted:
  assumes "ns addr = Some s" "snd (ShardServer_CommitTransaction t op a x s) = None" "next_net (cm_nets c) = NetOk"
  shows "Coordinator_commitAttempt addr t op a x c ns =
    (\<lparr>cm_left = 0, cm_nets = tl (cm_nets c), cm_err = None\<rparr>,
     ns(addr \<mapsto> fst (ShardServer_CommitTransaction t op a x s)))"
proof -
  have "snd (ShardClient_Commit NetOk addr t op a x ns) = None"
    using comm.call_ok [of NetOk addr t op a x ns] assms(1,2) by simp
  moreover have "fst (ShardClient_Commit NetOk addr t op a x ns) = ns(addr \<mapsto> fst (ShardServer_CommitTransaction t op a x s))"
    using comm.call_effect [of NetOk addr t op a x ns] assms(1) by (simp add: served_def)
  ultimately show ?thesis
    using assms(3) by (simp add: Coordinator_commitAttempt_def prod.case_eq_if)
qed

text \<open>If the first attempts are delivered and accepted, each shard commits once, in either order.\<close>

lemma commit_both_accepted:
  fixes txn source dest
  defines "A \<equiv> si_Address source" and "B \<equiv> si_Address dest" and "t \<equiv> t_TxnID txn" and "x \<equiv> t_Amount txn"
  defines "cA \<equiv> ShardServer_CommitTransaction t OpDebit (t_Source txn) x"
    and "cB \<equiv> ShardServer_CommitTransaction t OpCredit (t_Destination txn) x"
  assumes A: "ns A = Some sA" "snd (cA sA) = None" and B: "ns B = Some sB" "snd (cB sB) = None"
    and "A \<noteq> B" "next_net nets1 = NetOk" "next_net nets2 = NetOk"
  shows "commit_both sched txn source dest (commit_start nets1) (commit_start nets2) ns
    = (ns(A \<mapsto> fst (cA sA), B \<mapsto> fst (cB sB)), None, None)"
proof -
  note stepA = commitAttempt_accepted [where op = OpDebit and a = "t_Source txn", OF _ A(2) [unfolded cA_def], folded cA_def]
  note stepB = commitAttempt_accepted [where op = OpCredit and a = "t_Destination txn", OF _ B(2) [unfolded cB_def], folded cB_def]
  show ?thesis
    using A(1) B(1) assms(11-) stepA [of ns A "commit_start nets1"] stepB [of ns B "commit_start nets2"]
      stepA [of "ns(B \<mapsto> fst (cB sB))" A "commit_start nets1"] stepB [of "ns(A \<mapsto> fst (cA sA))" B "commit_start nets2"]
    by (simp add: commit_both.simps commit_start_def fun_upd_twist flip: A_def B_def t_def x_def)
qed

text \<open>A credit to an existing account can be delivered if its debit could be reserved.\<close>

lemma credit_deliverable:
  "reservable OpDebit a x lA \<Longrightarrow> reservable OpCredit b x lB \<Longrightarrow> deliverable OpCredit b x lB"
  using reservable_debit_pos [of a x lA]
  by (auto simp: reservable_def deliverable_def Ledger_ApplyCredit_def Ledger_AccountExists_def signed_order)

lemma prepare_call_healthy:
  assumes "ns addr = Some s" "wal_healthy (s_walLog s)" "s_seenTxns s t = None" "reservable op a x (s_ledger s)"
  shows "ShardClient_Prepare NetOk addr t op a x ns =
    (ns(addr \<mapsto> fst (ShardServer_PrepareTransaction t op a x s)), None)"
proof -
  have "snd (ShardClient_Prepare NetOk addr t op a x ns) = None"
    using prep.call_ok [of NetOk addr t op a x ns] assms(1) Prepare_healthy(1) [OF assms(2-4)] by simp
  then show ?thesis
    using prep.call_effect [of NetOk addr t op a x ns] assms(1) by (simp add: served_def prod_eq_iff)
qed

lemma sendPrepares_healthy:
  fixes txn source dest
  defines "A \<equiv> si_Address source" and "B \<equiv> si_Address dest" and "t \<equiv> t_TxnID txn" and "x \<equiv> t_Amount txn"
  assumes "fresh_run ns txn source dest sA sB" "wal_healthy (s_walLog sA)" "wal_healthy (s_walLog sB)"
    and "reservable OpDebit (t_Source txn) x (s_ledger sA)" "reservable OpCredit (t_Destination txn) x (s_ledger sB)"
  shows "Coordinator_sendPrepares first NetOk NetOk txn source dest ns =
    (ns(A \<mapsto> fst (ShardServer_PrepareTransaction t OpDebit (t_Source txn) x sA),
        B \<mapsto> fst (ShardServer_PrepareTransaction t OpCredit (t_Destination txn) x sB)), True, True)"
  using assms(5) [unfolded fresh_run_def, folded A_def B_def t_def] assms(6-)
  by (auto simp: Coordinator_sendPrepares_def prepare_call_healthy fun_upd_twist collect_two Let_def
      simp flip: A_def B_def t_def x_def)

text \<open>The cluster when its two participants have come to one of the outcomes of a run.\<close>

lemma outcome_money:
  fixes txn source dest
  defines "A \<equiv> si_Address source" and "B \<equiv> si_Address dest"
  assumes ok: "cluster_ok ns" "ns A = Some sA" "ns B = Some sB" "A \<noteq> B"
    and new: "ns' A = Some sA'" "ns' B = Some sB'" "others_same ns ns' A B"
    and fin: "committing t OpDebit a x (s_ledger sA) sA' \<and> committing t OpCredit b x (s_ledger sB) sB'
      \<or> s_ledger sB' = s_ledger sB \<and> (s_ledger sA' = s_ledger sA
         \<or> reservable OpDebit a x (s_ledger sA) \<and> s_ledger sA' = reserve OpDebit a x (s_ledger sA))"
  shows "cluster_ok ns'" "cluster_funds ns' \<in> {cluster_funds ns, cluster_funds ns - sint x}" "cluster_funds ns' \<le> cluster_funds ns"
    "cluster_funds ns' = cluster_funds ns - (shard_funds sA + shard_funds sB - shard_funds sA' - shard_funds sB')"
proof -
  have sh: "shard_ok sA" "shard_ok sB" "shard_funds sA + shard_funds sB < 2 ^ 63"
    using ok cluster_pair_le [OF ok] by (auto simp: cluster_ok_def)
  note pair = Execute_pair_funds [OF sh fin]
  have pos: "shard_funds sA' + shard_funds sB' \<le> shard_funds sA + shard_funds sB"
    using fin pair(3,4) reservable_debit_pos [of a x "s_ledger sA"]
    by (auto simp: committing_def reserved_def done_commit_def shard_funds_def)
  note upd = cluster_pair_update [of ns _ sA _ sB ns' sA' sB', OF ok new pair(1,2,3) pos]
  show "cluster_ok ns'" "cluster_funds ns' \<in> {cluster_funds ns, cluster_funds ns - sint x}" "cluster_funds ns' \<le> cluster_funds ns"
    "cluster_funds ns' = cluster_funds ns - (shard_funds sA + shard_funds sB - shard_funds sA' - shard_funds sB')"
    using upd pair(4) pos by auto
qed

lemma Execute_money:
  assumes "cluster_ok ns" "fresh_run ns txn source dest sA sB"
    and "Coordinator_Execute env txn source dest ns = (ns', res)"
  shows "cluster_ok ns'
    \<and> cluster_funds ns' \<in> {cluster_funds ns, cluster_funds ns - sint (t_Amount txn)}
    \<and> cluster_funds ns' \<le> cluster_funds ns
    \<and> (\<forall>c. c \<noteq> si_Address source \<and> c \<noteq> si_Address dest \<longrightarrow> ns' c = ns c)"
proof -
  note fr = assms(2) [unfolded fresh_run_def]
  from Execute_outcome [OF assms(2,3)] obtain sA' sB' where new:
    "ns' (si_Address source) = Some sA'" "ns' (si_Address dest) = Some sB'"
    "others_same ns ns' (si_Address source) (si_Address dest)"
    and fin: "committing (t_TxnID txn) OpDebit (t_Source txn) (t_Amount txn) (s_ledger sA) sA'
        \<and> committing (t_TxnID txn) OpCredit (t_Destination txn) (t_Amount txn) (s_ledger sB) sB'
      \<or> s_ledger sB' = s_ledger sB \<and> (s_ledger sA' = s_ledger sA
         \<or> reservable OpDebit (t_Source txn) (t_Amount txn) (s_ledger sA)
           \<and> s_ledger sA' = reserve OpDebit (t_Source txn) (t_Amount txn) (s_ledger sA))"
    by metis
  with outcome_money [OF assms(1) _ _ _ new fin] fr show ?thesis by (simp add: others_same_def)
qed

text \<open>A run leaves the records of every other transaction alone.\<close>

lemma commitAttempt_same_seen:
  "u \<noteq> t \<Longrightarrow> Coordinator_commitAttempt addr t op a x c ns = (c', ns') \<Longrightarrow> same_seen u ns ns'"
  using commt.call_same_seen [of u t ns "next_net (cm_nets c)" addr op a x]
  by (auto simp: Coordinator_commitAttempt_def split: prod.splits option.splits)

lemma commit_both_same_seen:
  "u \<noteq> t_TxnID txn \<Longrightarrow> same_seen u ns (fst (commit_both sched txn source dest c d ns))"
proof (induction "cm_left c + cm_left d" arbitrary: sched c d ns rule: less_induct)
  case less
  obtain c1 n1 where 1: "Coordinator_commitAttempt (si_Address source) (t_TxnID txn) OpDebit (t_Source txn) (t_Amount txn) c ns = (c1, n1)"
    by force
  obtain d2 n2 where 2: "Coordinator_commitAttempt (si_Address dest) (t_TxnID txn) OpCredit (t_Destination txn) (t_Amount txn) d ns = (d2, n2)"
    by force
  have "0 < cm_left c \<Longrightarrow> same_seen u n1 (fst (commit_both (tl sched) txn source dest c1 d n1))"
      "0 < cm_left d \<Longrightarrow> same_seen u n2 (fst (commit_both (tl sched) txn source dest c d2 n2))"
    using less commitAttempt_left [OF 1] commitAttempt_left [OF 2] by auto
  then show ?case
    using commitAttempt_same_seen [OF less.prems 1] commitAttempt_same_seen [OF less.prems 2] 1 2
    by (auto simp: commit_both.simps [of sched] intro: same_seen_trans)
qed

lemma Coordinator_same_seen:
  assumes "u \<noteq> t_TxnID txn"
  shows "same_seen u ns (fst (Coordinator_Execute env txn source dest ns))"
proof -
  obtain ns1 sp dp where p: "Coordinator_sendPrepares (env_srcFirst env) (fst (env_prepares env))
      (snd (env_prepares env)) txn source dest ns = (ns1, sp, dp)" by (metis prod_cases3)
  have "ns1 = fst (Coordinator_sendPrepares (env_srcFirst env) (fst (env_prepares env))
      (snd (env_prepares env)) txn source dest ns)" by (simp add: p)
  then have "same_seen u ns ns1"
    by (auto simp: Coordinator_sendPrepares_def Let_def prod.case_eq_if assms
        intro!: same_seen_trans [OF prept.call_same_seen prept.call_same_seen])
  moreover have "same_seen u ns1 (fst (Coordinator_commitAll sched nets1 nets2 txn source dest ns1))" for sched nets1 nets2
    using commit_both_same_seen [OF assms] by (simp add: Coordinator_commitAll_def prod.case_eq_if)
  moreover have "same_seen u ns1 (fst (Coordinator_abortAll n1 n2 txn source dest sp dp ns1))" for n1 n2
    by (auto simp: Coordinator_abortAll_def Let_def assms abrtt.call_same_seen
        intro!: same_seen_trans [OF abrtt.call_same_seen abrtt.call_same_seen])
  ultimately show ?thesis
    by (auto simp: Coordinator_Execute_def p intro: same_seen_trans)
qed

section \<open>An example\<close>

definition example_cluster :: nodes where
  "example_cluster = [''s1:8081'' \<mapsto> example_shard [], ''s2:8082'' \<mapsto> example_shard []]"

definition example_env :: run_env where
  "example_env = \<lparr>env_srcFirst = True, env_prepares = (NetOk, NetOk), env_sched = [],
     env_commits = ([], []), env_aborts = (NetOk, NetOk)\<rparr>"

lemma example_cluster_ok: "cluster_ok example_cluster" "cluster_funds example_cluster = 300"
  by (auto simp: cluster_ok_def example_cluster_def cluster_funds_def example_funds example_ok split: if_splits)

lemma example_fresh:
  "fresh_run example_cluster (example_txn x) (example_shards ! 0) (example_shards ! 1) (example_shard []) (example_shard [])"
  by (simp add: fresh_run_def example_cluster_def example_shards_def example_shard_def example_txn_def)

lemmas twopc_eval = shard_eval example_cluster_def example_shards_def example_env_def
  Coordinator_Execute_def Coordinator_sendPrepares_def Coordinator_abortAll_def Coordinator_commitAll_def
  Coordinator_commitAttempt_def commit_both.simps commit_start_def next_net_def
  ShardClient_Prepare_def ShardClient_Commit_def ShardClient_Abort_def ShardClient_postJSON_def
  ShardClient_doPost_def handlePrepare_def handleCommit_def handleAbort_def op_request_def

section \<open>Properties\<close>

text \<open>
  C7: a cross-shard transfer never creates money. Whatever requests and replies the network
  loses, however the goroutines interleave and whatever the disks and followers of the shards
  answer, a run for a transaction the shards have not seen keeps every balance non-negative,
  leaves the total in the cluster as it was or short of exactly the amount in transit, and
  touches no third shard.
\<close>

theorem twopc_never_creates_money:
  assumes "cluster_ok ns" "fresh_run ns txn source dest sA sB"
    and "Coordinator_Execute env txn source dest ns = (ns', res)"
  shows "cluster_ok ns'
    \<and> cluster_funds ns' \<in> {cluster_funds ns, cluster_funds ns - sint (t_Amount txn)}
    \<and> cluster_funds ns' \<le> cluster_funds ns
    \<and> (\<forall>c. c \<noteq> si_Address source \<and> c \<noteq> si_Address dest \<longrightarrow> ns' c = ns c)"
  by (rule Execute_money [OF assms])

theorem twopc_never_creates_money_witness:
  "cluster_funds (fst (Coordinator_Execute (example_env\<lparr>env_prepares := (NetOk, ReplyLost), env_aborts := (RequestLost, NetOk)\<rparr>)
     (example_txn 30) (example_shards ! 0) (example_shards ! 1) example_cluster)) \<in> {300, 270}"
  using twopc_never_creates_money [OF example_cluster_ok(1) example_fresh [of 30] prod.collapse [symmetric],
      of "example_env\<lparr>env_prepares := (NetOk, ReplyLost), env_aborts := (RequestLost, NetOk)\<rparr>"]
  by (simp add: example_cluster_ok example_txn_def)


text \<open>
  C8: no credit without the debit. After a run for an unseen transaction, in every network,
  schedule and disk condition, if any balance of the destination shard changed then exactly
  the credit was applied there, exactly the debit was applied at the source shard, and the
  run answered COMMITTED.
\<close>

theorem twopc_credit_implies_debit:
  assumes "fresh_run ns txn source dest sA sB"
    and "Coordinator_Execute env txn source dest ns = (ns', res)"
    and "ns' (si_Address source) = Some sA'" "ns' (si_Address dest) = Some sB'"
    and "s_ledger sB' \<noteq> s_ledger sB"
  shows "Ledger_ApplyCredit (t_Destination txn) (t_Amount txn) (s_ledger sB) = (s_ledger sB', None)
    \<and> Ledger_ApplyDebit (t_Source txn) (t_Amount txn) (s_ledger sA) = (s_ledger sA', None)
    \<and> r_State res = StateCommitted"
proof (intro conjI)
  from Execute_outcome [OF assms(1,2)] assms(3-)
  have c: "committing (t_TxnID txn) OpDebit (t_Source txn) (t_Amount txn) (s_ledger sA) sA'"
      "committing (t_TxnID txn) OpCredit (t_Destination txn) (t_Amount txn) (s_ledger sB) sB'"
      "r_State res = StateCommitted"
    by (metis option.inject)+
  show "Ledger_ApplyCredit (t_Destination txn) (t_Amount txn) (s_ledger sB) = (s_ledger sB', None)"
    using c(2) assms(5)
    by (auto simp: committing_def reserved_def done_commit_def deliverable_def deliver_def prod_eq_iff)
  show "Ledger_ApplyDebit (t_Source txn) (t_Amount txn) (s_ledger sA) = (s_ledger sA', None)"
    using c(1) by (auto simp: committing_def reserved_def done_commit_def reservable_def reserve_def prod_eq_iff)
  show "r_State res = StateCommitted" by (rule c(3))
qed

theorem twopc_credit_implies_debit_witness:
  "\<exists>sA'. fst (Coordinator_Execute example_env (example_txn 30) (example_shards ! 0) (example_shards ! 1) example_cluster) ''s1:8081'' = Some sA'
    \<and> Ledger_ApplyDebit ''alice'' 30 (s_ledger (example_shard [])) = (s_ledger sA', None)"
proof -
  let ?run = "Coordinator_Execute example_env (example_txn 30) (example_shards ! 0) (example_shards ! 1) example_cluster"
  have "\<exists>sA' sB'. fst ?run ''s1:8081'' = Some sA' \<and> fst ?run ''s2:8082'' = Some sB' \<and> l_balances (s_ledger sB') ''bob'' = Some 80"
    by (simp add: twopc_eval)
  then obtain sA' sB' where s: "fst ?run (si_Address (example_shards ! 0)) = Some sA'"
      "fst ?run (si_Address (example_shards ! 1)) = Some sB'" "l_balances (s_ledger sB') ''bob'' = Some 80"
    by (auto simp: example_shards_def)
  then have "s_ledger sB' \<noteq> s_ledger (example_shard [])" by (auto simp: example_shard_def)
  from twopc_credit_implies_debit [OF example_fresh prod.collapse [symmetric] s(1,2) this] s(1)
  show ?thesis by (simp add: example_shards_def example_txn_def)
qed

text \<open>
  C16: an aborted run leaves no trace in the balances: if the source shard's answer to PREPARE
  arrived and the ABORT was not lost on its way, both ledgers are as before the run, even when
  the destination's messages were lost and the disks failed.
\<close>

theorem twopc_abort_restores:
  assumes "fresh_run ns txn source dest sA sB"
    and "Coordinator_Execute env txn source dest ns = (ns', res)" "r_State res = StateAborted"
    and "fst (env_prepares env) = NetOk" "fst (env_aborts env) \<noteq> RequestLost"
  shows "\<exists>sA' sB'. ns' (si_Address source) = Some sA' \<and> ns' (si_Address dest) = Some sB'
    \<and> s_ledger sA' = s_ledger sA \<and> s_ledger sB' = s_ledger sB"
proof -
  have "r_State res \<noteq> StateCommitted" using assms(3) by simp
  with Execute_outcome [OF assms(1,2)] assms(4,5) show ?thesis by metis
qed

theorem twopc_abort_restores_witness:
  "\<exists>sA' sB'. fst (Coordinator_Execute example_env (example_txn 1000) (example_shards ! 0) (example_shards ! 1) example_cluster) ''s1:8081'' = Some sA'
    \<and> fst (Coordinator_Execute example_env (example_txn 1000) (example_shards ! 0) (example_shards ! 1) example_cluster) ''s2:8082'' = Some sB'
    \<and> s_ledger sA' = s_ledger (example_shard []) \<and> s_ledger sB' = s_ledger (example_shard [])"
proof -
  have "r_State (snd (Coordinator_Execute example_env (example_txn 1000) (example_shards ! 0) (example_shards ! 1) example_cluster)) = StateAborted"
    by (simp add: twopc_eval)
  from twopc_abort_restores [OF example_fresh prod.collapse [symmetric] this] show ?thesis
    by (simp add: example_env_def example_shards_def)
qed

text \<open>
  C14: a transfer that can be made is made. With working disks and a network that delivers,
  a cross-shard transfer whose source has the funds and whose destination account exists is
  answered COMMITTED, under every interleaving of the goroutines, and both shards have
  recorded the commit and applied exactly the debit and the credit.
\<close>

theorem twopc_commits_when_possible:
  assumes "fresh_run ns txn source dest sA sB"
    and "wal_healthy (s_walLog sA)" "wal_healthy (s_walLog sB)"
    and "Ledger_ValidateDebit (t_Source txn) (t_Amount txn) (s_ledger sA) = None"
    and "Ledger_AccountExists (t_Destination txn) (s_ledger sB)"
    and "env_prepares env = (NetOk, NetOk)" "next_net (fst (env_commits env)) = NetOk"
      "next_net (snd (env_commits env)) = NetOk"
    and "Coordinator_Execute env txn source dest ns = (ns', res)"
  shows "r_State res = StateCommitted
    \<and> (\<exists>sA' sB'. ns' (si_Address source) = Some sA' \<and> ns' (si_Address dest) = Some sB'
      \<and> s_seenTxns sA' (t_TxnID txn) = Some StateCommitted \<and> s_seenTxns sB' (t_TxnID txn) = Some StateCommitted
      \<and> Ledger_ApplyDebit (t_Source txn) (t_Amount txn) (s_ledger sA) = (s_ledger sA', None)
      \<and> Ledger_ApplyCredit (t_Destination txn) (t_Amount txn) (s_ledger sB) = (s_ledger sB', None))"
proof (rule conjI)
  let ?t = "t_TxnID txn" and ?x = "t_Amount txn" and ?A = "si_Address source" and ?B = "si_Address dest"
  let ?pA = "ShardServer_PrepareTransaction ?t OpDebit (t_Source txn) ?x sA"
  let ?pB = "ShardServer_PrepareTransaction ?t OpCredit (t_Destination txn) ?x sB"
  note fr = assms(1) [unfolded fresh_run_def]
  have can: "reservable OpDebit (t_Source txn) ?x (s_ledger sA)" "reservable OpCredit (t_Destination txn) ?x (s_ledger sB)"
    using assms(4,5) Validate_predicts_Apply [of "t_Source txn" ?x "s_ledger sA"] by (simp_all add: reservable_def)
  note deliver = credit_deliverable [OF can]
  note hA = Prepare_healthy [OF assms(2) _ can(1), of ?t] and hB = Prepare_healthy [OF assms(3) _ can(2), of ?t]
  have pA: "reserved ?t OpDebit (t_Source txn) ?x (s_ledger sA) (fst ?pA)" "wal_healthy (s_walLog (fst ?pA))"
    and pB: "reserved ?t OpCredit (t_Destination txn) ?x (s_ledger sB) (fst ?pB)" "wal_healthy (s_walLog (fst ?pB))"
    using hA hB fr Prepare_fresh(1) [OF _ prod.collapse [symmetric], of sA ?t OpDebit "t_Source txn" ?x]
      Prepare_fresh(1) [OF _ prod.collapse [symmetric], of sB ?t OpCredit "t_Destination txn" ?x]
    by (auto simp: reserved_def)
  define ns1 where "ns1 = ns(?A \<mapsto> fst ?pA, ?B \<mapsto> fst ?pB)"
  have ns1: "ns1 ?A = Some (fst ?pA)" "ns1 ?B = Some (fst ?pB)" using fr by (auto simp: ns1_def)
  have run: "Coordinator_commitAll (env_sched env) (fst (env_commits env)) (snd (env_commits env))
      txn source dest ns1 = (ns', res)"
    using assms(6,9) sendPrepares_healthy [OF assms(1-3) can(1,2)]
    by (simp add: Coordinator_Execute_def ns1_def)
  have "snd (ShardServer_CommitTransaction ?t OpDebit (t_Source txn) ?x (fst ?pA)) = None"
      "snd (ShardServer_CommitTransaction ?t OpCredit (t_Destination txn) ?x (fst ?pB)) = None"
    using pA pB deliver by (auto simp: reserved_def deliverable_def intro!: Commit_healthy)
  from commit_both_accepted [OF ns1(1) this(1) ns1(2) this(2) _ assms(7,8), of "env_sched env"] fr
  have "snd (commit_both (env_sched env) txn source dest (commit_start (fst (env_commits env)))
      (commit_start (snd (env_commits env))) ns1) = (None, None)" by simp
  with run have cb: "commit_both (env_sched env) txn source dest (commit_start (fst (env_commits env)))
      (commit_start (snd (env_commits env))) ns1 = (ns', None, None)" and "r_State res = StateCommitted"
    by (auto simp: Coordinator_commitAll_def prod_eq_iff split: prod.splits)
  then show "r_State res = StateCommitted" by simp
  from commit_both_phase [OF _ ns1(1) _ ns1(2) _ cb, of "s_ledger sA" "s_ledger sB"] fr pA(1) pB(1)
  obtain sA' sB' where "ns' ?A = Some sA'" "ns' ?B = Some sB'"
      "done_commit ?t OpDebit (t_Source txn) ?x (s_ledger sA) sA'"
      "done_commit ?t OpCredit (t_Destination txn) ?x (s_ledger sB) sB'"
    by (auto simp: at_commit_def committing_def cm_result_def commit_start_def)
  then show "\<exists>sA' sB'. ns' ?A = Some sA' \<and> ns' ?B = Some sB'
      \<and> s_seenTxns sA' ?t = Some StateCommitted \<and> s_seenTxns sB' ?t = Some StateCommitted
      \<and> Ledger_ApplyDebit (t_Source txn) ?x (s_ledger sA) = (s_ledger sA', None)
      \<and> Ledger_ApplyCredit (t_Destination txn) ?x (s_ledger sB) = (s_ledger sB', None)"
    by (auto simp: done_commit_def reservable_def reserve_def deliverable_def deliver_def prod_eq_iff)
qed

theorem twopc_commits_when_possible_witness:
  "r_State (snd (Coordinator_Execute (example_env\<lparr>env_sched := [False, True]\<rparr>) (example_txn 30)
     (example_shards ! 0) (example_shards ! 1) example_cluster)) = StateCommitted"
proof -
  have h: "wal_healthy (s_walLog (example_shard []))" by (simp add: wal_healthy_def example_shard_def)
  show ?thesis
    by (rule twopc_commits_when_possible [OF example_fresh h h _ _ _ _ _ prod.collapse [symmetric], THEN conjunct1])
      (simp_all add: example_env_def next_net_def example_txn_def example_shard_def Ledger_ValidateDebit_def
        Ledger_AccountExists_def signed_order)
qed

text \<open>
  C35: when the answer to the source shard's PREPARE is lost, for a transaction neither shard has
  seen, on a source shard with a working log that accepts the debit, the run is answered ABORTED
  but the source shard is not told: when the run has ended the amount is debited there and the
  transaction is still PREPARED. The coordinator starts nothing that would release the amount; a
  later submission with the same identifier can (theory Redelivery).
\<close>

theorem lost_prepare_reply_strands_funds:
  assumes "fresh_run ns txn source dest sA sB" "wal_healthy (s_walLog sA)"
    and "Ledger_ValidateDebit (t_Source txn) (t_Amount txn) (s_ledger sA) = None"
    and "fst (env_prepares env) = ReplyLost"
    and "Coordinator_Execute env txn source dest ns = (ns', res)"
  shows "r_State res = StateAborted
    \<and> (\<exists>sA'. ns' (si_Address source) = Some sA' \<and> s_seenTxns sA' (t_TxnID txn) = Some StatePrepared
      \<and> Ledger_ApplyDebit (t_Source txn) (t_Amount txn) (s_ledger sA) = (s_ledger sA', None))"
proof -
  let ?t = "t_TxnID txn" and ?x = "t_Amount txn" and ?A = "si_Address source" and ?B = "si_Address dest"
  let ?prepA = "ShardServer_PrepareTransaction ?t OpDebit (t_Source txn) ?x sA"
  note fr = assms(1) [unfolded fresh_run_def]
  have can: "reservable OpDebit (t_Source txn) ?x (s_ledger sA)"
    using assms(3) Validate_predicts_Apply [of "t_Source txn" ?x "s_ledger sA"] by (simp add: reservable_def)
  have A: "s_ledger (fst ?prepA) = reserve OpDebit (t_Source txn) ?x (s_ledger sA)"
      "s_seenTxns (fst ?prepA) ?t = Some StatePrepared"
    using Prepare_fresh(1) [OF _ prod.collapse [symmetric], of sA ?t OpDebit "t_Source txn" ?x]
      Prepare_healthy(1) [OF assms(2) _ can, of ?t] fr by auto
  obtain ns1 sp dp where p: "Coordinator_sendPrepares (env_srcFirst env) (fst (env_prepares env))
      (snd (env_prepares env)) txn source dest ns = (ns1, sp, dp)" by (metis prod_cases3)
  have "\<not> sp \<and> ns1 ?A = Some (fst ?prepA)"
    using p fr assms(4)
    by (auto simp: Coordinator_sendPrepares_def collect_two prep.call_elsewhere prep.call_here prep.call_ok
        Let_def prod_eq_iff split: prod.splits if_splits)
  then have "ns' ?A = Some (fst ?prepA)" "r_State res = StateAborted"
    using assms(5) p fr
    by (auto simp: Coordinator_Execute_def Coordinator_abortAll_def abrt.call_elsewhere Let_def)
  with A can show ?thesis
    by (auto simp: reservable_def reserve_def prod_eq_iff)
qed

theorem lost_prepare_reply_strands_funds_witness:
  "r_State (snd (Coordinator_Execute (example_env\<lparr>env_prepares := (ReplyLost, NetOk)\<rparr>) (example_txn 30)
     (example_shards ! 0) (example_shards ! 1) example_cluster)) = StateAborted"
  by (rule lost_prepare_reply_strands_funds [OF example_fresh _ _ _ prod.collapse [symmetric], THEN conjunct1])
    (simp_all add: wal_healthy_def example_env_def example_txn_def example_shard_def Ledger_ValidateDebit_def signed_order)


text \<open>
  A run answers COMMITTED although every COMMIT to the destination shard was lost. In the
  example cluster the source account has been debited, the destination account has not been
  credited, and nothing is left that would deliver the commit later.
\<close>

theorem committed_reply_without_delivery:
  "case Coordinator_Execute (example_env\<lparr>env_commits := ([], [RequestLost, RequestLost, RequestLost])\<rparr>)
      (example_txn 30) (example_shards ! 0) (example_shards ! 1) example_cluster of
    (ns', res) \<Rightarrow> r_State res = StateCommitted
      \<and> (\<exists>sA'. ns' ''s1:8081'' = Some sA' \<and> l_balances (s_ledger sA') ''alice'' = Some 70)
      \<and> (\<exists>sB'. ns' ''s2:8082'' = Some sB' \<and> l_balances (s_ledger sB') ''bob'' = Some 50
           \<and> s_seenTxns sB' ''t1'' = Some StatePrepared)"
  by (simp add: twopc_eval)

end
