(* ===== verification/Router.thy ===== *)
theory Router
  imports TwoPC
begin

text \<open>
  \<^verbatim>\<open>coordinator/router/router.go\<close>: resolves the shards of the two accounts and sends the transaction
  to the one shard or through two-phase commit. The environment of a run is \<open>env\<close> for two-phase
  commit and \<open>n\<close> for the single request.
\<close>

section \<open>Model\<close>

record Router =
  ro_shardMap :: ShardMap
  ro_mapper :: PartitionMapper

definition NewRouter :: "ShardMap \<Rightarrow> PartitionMapper \<Rightarrow> Router" where
  "NewRouter sm mapper = \<lparr>ro_shardMap = sm, ro_mapper = mapper\<rparr>"

datatype route_error =
    SourceUnresolved map_error | DestinationUnresolved map_error | SingleShardFailed client_error

definition Router_executeSingleShard ::
    "net \<Rightarrow> Transaction \<Rightarrow> ShardInfo \<Rightarrow> nodes \<Rightarrow> nodes \<times> (route_error + ledger_error TransactionResult)" where
  "Router_executeSingleShard n txn shard ns =
     (case ShardClient_Execute n (si_Address shard) txn ns of
        (ns', Inl err) \<Rightarrow> (ns', Inl (SingleShardFailed err))
      | (ns', Inr res) \<Rightarrow> (ns', Inr res))"

definition Router_executeCrossShard ::
    "run_env \<Rightarrow> Transaction \<Rightarrow> ShardInfo \<Rightarrow> ShardInfo \<Rightarrow> nodes
     \<Rightarrow> nodes \<times> (route_error + ledger_error TransactionResult)" where
  "Router_executeCrossShard env txn srcShard dstShard ns =
     (case Coordinator_Execute env txn srcShard dstShard ns of (ns', res) \<Rightarrow> (ns', Inr res))"

definition Router_Route ::
    "net \<Rightarrow> run_env \<Rightarrow> Router \<Rightarrow> Transaction \<Rightarrow> nodes
     \<Rightarrow> nodes \<times> (route_error + ledger_error TransactionResult)" where
  "Router_Route n env r txn ns =
     (case ShardMap_GetShardForAccount (t_Source txn) (ro_mapper r) (ro_shardMap r) of
        Inl err \<Rightarrow> (ns, Inl (SourceUnresolved err))
      | Inr srcShard \<Rightarrow>
        (case ShardMap_GetShardForAccount (t_Destination txn) (ro_mapper r) (ro_shardMap r) of
           Inl err \<Rightarrow> (ns, Inl (DestinationUnresolved err))
         | Inr dstShard \<Rightarrow>
             if si_ShardID srcShard = si_ShardID dstShard
             then Router_executeSingleShard n txn srcShard ns
             else Router_executeCrossShard env txn srcShard dstShard ns))"

section \<open>Money under routing\<close>

text \<open>The map gives different shards different addresses, and no shard has seen the transaction.\<close>

definition addresses_distinct :: "ShardMap \<Rightarrow> bool" where
  "addresses_distinct sm \<longleftrightarrow> (\<forall>i j a b. sm_partitions sm i = Some a \<and> sm_partitions sm j = Some b
     \<and> si_ShardID a \<noteq> si_ShardID b \<longrightarrow> si_Address a \<noteq> si_Address b)"

definition unseen :: "string \<Rightarrow> nodes \<Rightarrow> bool" where
  "unseen t ns \<longleftrightarrow> (\<forall>c s. ns c = Some s \<longrightarrow> s_seenTxns s t = None)"

lemma GetShard_in_map:
  "ShardMap_GetShardForAccount a mp sm = Inr info \<Longrightarrow>
     sm_partitions sm (PartitionMapper_GetPartition a mp) = Some info"
  by (simp add: ShardMap_GetShardForAccount_def Let_def split: option.splits)

text \<open>One server of the cluster executes; the rest stays.\<close>

lemma single_cluster:
  assumes "cluster_ok ns" "ShardClient_Execute n addr txn ns = (ns', r)"
  shows "cluster_ok ns' \<and> cluster_funds ns' = cluster_funds ns"
proof (cases "served n addr ns")
  case True
  then obtain s where s: "ns addr = Some s" by (auto simp: served_def)
  let ?s' = "fst (ShardServer_ExecuteSingleShard txn s)"
  have ns': "ns' = ns(addr \<mapsto> ?s')"
    using Execute_call(1) [of n addr txn ns] assms(2) True s by simp
  have "shard_ok ?s' \<and> shard_funds ?s' = shard_funds s"
    using Execute_funds [OF _ prod.collapse [symmetric]] assms(1) s by (auto simp: cluster_ok_def)
  then show ?thesis
    using assms(1) s cluster_update [of ns addr s ?s'] cluster_ok_update [of ns addr s ?s']
    by (auto simp: ns' cluster_ok_def)
next
  case False
  then show ?thesis using Execute_call(1) [of n addr txn ns] assms by simp
qed

text \<open>Every shard of the map runs at its address.\<close>

definition deployed :: "ShardMap \<Rightarrow> nodes \<Rightarrow> bool" where
  "deployed sm ns \<longleftrightarrow> (\<forall>i info. sm_partitions sm i = Some info \<longrightarrow> ns (si_Address info) \<noteq> None)"

lemma Route_money:
  assumes "cluster_ok ns" "addresses_distinct (ro_shardMap r)" "deployed (ro_shardMap r) ns"
    and "unseen (t_TxnID txn) ns" "Router_Route n env r txn ns = (ns', out)"
  shows "cluster_ok ns' \<and> cluster_funds ns' \<in> {cluster_funds ns, cluster_funds ns - sint (t_Amount txn)}
    \<and> cluster_funds ns' \<le> cluster_funds ns"
proof -
  let ?src = "ShardMap_GetShardForAccount (t_Source txn) (ro_mapper r) (ro_shardMap r)"
  let ?dst = "ShardMap_GetShardForAccount (t_Destination txn) (ro_mapper r) (ro_shardMap r)"
  consider (none) "ns' = ns"
    | (single) a where "?src = Inr a" "ns' = fst (ShardClient_Execute n (si_Address a) txn ns)"
    | (cross) a b where "?src = Inr a" "?dst = Inr b" "si_ShardID a \<noteq> si_ShardID b"
        "ns' = fst (Coordinator_Execute env txn a b ns)"
    using assms(5)
    by (auto simp: Router_Route_def Router_executeSingleShard_def Router_executeCrossShard_def
        split: sum.splits if_splits prod.splits)
  then show ?thesis
  proof cases
    case none
    with assms(1) show ?thesis by simp
  next
    case single
    with single_cluster [OF assms(1) prod.collapse [symmetric]] show ?thesis by simp
  next
    case cross
    note ina = GetShard_in_map [OF cross(1)] and inb = GetShard_in_map [OF cross(2)]
    obtain sA sB where "ns (si_Address a) = Some sA" "ns (si_Address b) = Some sB"
      using assms(3) ina inb unfolding deployed_def by blast
    then have "fresh_run ns txn a b sA sB"
      using assms(2,4) ina inb cross(3) by (auto simp: fresh_run_def addresses_distinct_def unseen_def)
    from Execute_money [OF assms(1) this prod.collapse [symmetric], of env] cross(4) show ?thesis by simp
  qed
qed

lemma Route_same_seen:
  assumes "u \<noteq> t_TxnID txn"
  shows "same_seen u ns (fst (Router_Route n env r txn ns))"
  using Execute_same_seen [OF assms] Coordinator_same_seen [OF assms]
  by (auto simp: Router_Route_def Router_executeSingleShard_def Router_executeCrossShard_def prod.case_eq_if
      split: sum.splits)

lemma same_seen_unseen: "same_seen u ns ns' \<Longrightarrow> unseen u ns \<Longrightarrow> unseen u ns'"
  unfolding same_seen_def unseen_def by (metis map_option_eq_Some option.map_sel option.sel option.simps(3))

lemma same_seen_deployed: "same_seen u ns ns' \<Longrightarrow> deployed sm ns \<Longrightarrow> deployed sm ns'"
  unfolding same_seen_def deployed_def by (metis map_option_is_None)

lemma Route_deployed: "deployed sm ns \<Longrightarrow> deployed sm (fst (Router_Route n env r txn ns))"
  by (rule same_seen_deployed [OF Route_same_seen [of "CHR ''x'' # t_TxnID txn"]]) auto

text \<open>A sequence of submissions, each with the environment it meets.\<close>

definition submit_all :: "Router \<Rightarrow> (net \<times> run_env \<times> Transaction) list \<Rightarrow> nodes \<Rightarrow> nodes" where
  "submit_all r subs ns = fold (\<lambda>(n, env, txn) ns. fst (Router_Route n env r txn ns)) subs ns"

lemma submit_all_money:
  assumes "cluster_ok ns" "addresses_distinct (ro_shardMap r)" "deployed (ro_shardMap r) ns"
    and "distinct (map (\<lambda>(n, env, txn). t_TxnID txn) subs)"
    and "list_all (\<lambda>(n, env, txn). unseen (t_TxnID txn) ns) subs"
  shows "cluster_ok (submit_all r subs ns) \<and> cluster_funds (submit_all r subs ns) \<le> cluster_funds ns"
  using assms
proof (induction subs arbitrary: ns)
  case (Cons sub subs)
  obtain n env txn where sub: "sub = (n, env, txn)" by (cases sub)
  let ?ns = "fst (Router_Route n env r txn ns)"
  have "unseen (t_TxnID txn) ns" using Cons.prems(5) by (simp add: sub)
  note money = Route_money [OF Cons.prems(1-3) this prod.collapse [symmetric], of n env]
  have rest: "list_all (\<lambda>(n, env, txn). unseen (t_TxnID txn) ?ns) subs"
    unfolding list_all_iff
  proof (intro ballI, clarify)
    fix n' env' txn' assume elem: "(n', env', txn') \<in> set subs"
    have "t_TxnID txn' \<noteq> t_TxnID txn" using Cons.prems(4) elem by (force simp: sub)
    moreover have "unseen (t_TxnID txn') ns" using Cons.prems(5) elem by (force simp: list_all_iff)
    ultimately show "unseen (t_TxnID txn') ?ns" using same_seen_unseen Route_same_seen by blast
  qed
  have "submit_all r (sub # subs) ns = submit_all r subs ?ns" by (simp add: submit_all_def sub)
  moreover have "cluster_ok (submit_all r subs ?ns) \<and> cluster_funds (submit_all r subs ?ns) \<le> cluster_funds ?ns"
    by (rule Cons.IH) (use money Route_deployed [OF Cons.prems(3)] Cons.prems(2,4) rest in auto)
  ultimately show ?case using money by auto
qed (simp add: submit_all_def)

section \<open>Properties\<close>

definition example_router :: Router where
  "example_router = \<lparr>ro_shardMap = \<lparr>sm_partitions = round_robin example_shards 30, sm_file = ShardMap.NoFile, sm_io = []\<rparr>,
     ro_mapper = \<lparr>mp_numPartitions = 30\<rparr>\<rparr>"

lemma example_router_ok:
  "addresses_distinct (ro_shardMap example_router)" "deployed (ro_shardMap example_router) example_cluster"
  "unseen t example_cluster"
proof -
  have "sm_partitions (ro_shardMap example_router) i = Some a \<Longrightarrow> a \<in> set example_shards" for i a
    by (auto simp: example_router_def round_robin_apply split: if_splits intro!: nth_mem)
      (simp_all add: example_shards_def)
  then have in_map: "sm_partitions (ro_shardMap example_router) i = Some a \<Longrightarrow>
      a = example_shards ! 0 \<or> a = example_shards ! 1" for i a
    by (fastforce simp: example_shards_def)
  show "addresses_distinct (ro_shardMap example_router)"
    unfolding addresses_distinct_def by (auto dest!: in_map) (simp_all add: example_shards_def)
  show "deployed (ro_shardMap example_router) example_cluster"
    unfolding deployed_def by (auto dest!: in_map simp: example_cluster_def) (simp_all add: example_shards_def)
  show "unseen t example_cluster"
    by (auto simp: unseen_def example_cluster_def example_shard_def split: if_splits)
qed

text \<open>
  The system never creates money. Any sequence of transfers with distinct new transaction
  identifiers, single-shard and cross-shard mixed, each meeting its own network, schedule and
  disk behaviour, keeps every balance of every shard non-negative and never raises the
  cluster's total.
\<close>

theorem submissions_never_create_money:
  assumes "cluster_ok ns" "addresses_distinct (ro_shardMap r)" "deployed (ro_shardMap r) ns"
    and "distinct (map (\<lambda>(n, env, txn). t_TxnID txn) subs)"
    and "list_all (\<lambda>(n, env, txn). unseen (t_TxnID txn) ns) subs"
  shows "cluster_ok (submit_all r subs ns) \<and> cluster_funds (submit_all r subs ns) \<le> cluster_funds ns"
  by (rule submit_all_money [OF assms])

theorem submissions_never_create_money_witness:
  "cluster_funds (submit_all example_router [(NetOk, example_env, example_txn 30),
     (ReplyLost, example_env, (example_txn 20)\<lparr>t_TxnID := ''t2''\<rparr>)] example_cluster) \<le> 300"
proof -
  have "cluster_funds (submit_all example_router [(NetOk, example_env, example_txn 30),
     (ReplyLost, example_env, (example_txn 20)\<lparr>t_TxnID := ''t2''\<rparr>)] example_cluster) \<le> cluster_funds example_cluster"
    by (rule submissions_never_create_money [OF example_cluster_ok(1) example_router_ok(1,2), THEN conjunct2])
      (simp_all add: example_router_ok(3), simp add: example_txn_def)
  then show ?thesis by (simp add: example_cluster_ok(2))
qed

end
