(* ===== verification/HashValues.thy ===== *)
theory HashValues
  imports Hash
begin

text \<open>
  SHA-256 of \<open>Hash\<close> computed in the logic. The defining formulas of the constants (roots of primes) are turned
  into numbers by checking two inequalities for each; the rounds are rewritten on integers below \<open>2 ^ 32\<close>. The
  test message of FIPS 180-4 has the digest the standard gives, and two accounts get the partitions the
  examples of the other theories use.
\<close>

section \<open>The constants\<close>

lemma iroot_bounds:
  assumes "0 < k" "acc ^ k \<le> n" "n < (acc + 2 ^ b) ^ k"
  shows "iroot k b n acc ^ k \<le> n \<and> n < (iroot k b n acc + 1) ^ k"
  using assms
proof (induction b arbitrary: acc)
  case (Suc b)
  show ?case
  proof (cases "(acc + 2 ^ b) ^ k \<le> n")
    case True
    have "n < (acc + 2 ^ b + 2 ^ b) ^ k" using Suc.prems(3) by (simp add: mult_2 add.assoc)
    then show ?thesis using Suc.IH [of "acc + 2 ^ b"] Suc.prems True by simp
  next
    case False
    then show ?thesis using Suc.IH [of acc] Suc.prems by simp
  qed
qed simp

lemma iroot_eqI:
  fixes r :: nat
  assumes "0 < k" "n < 2 ^ (b * k)" "r ^ k \<le> n" "n < (r + 1) ^ k"
  shows "iroot k b n 0 = r"
proof -
  let ?r = "iroot k b n 0"
  have "?r ^ k \<le> n \<and> n < (?r + 1) ^ k"
    using assms(1,2) by (intro iroot_bounds) (auto simp: power_mult zero_power)
  then have "?r < r + 1" "r < ?r + 1" using assms(1,3,4)
    by (meson le_less_trans power_less_imp_less_base zero_le)+
  then show ?thesis by simp
qed

text \<open>Below 324 a number is prime if none of seven primes divides it properly.\<close>

lemma small_divisor:
  fixes p :: nat
  assumes "p < 324" "2 \<le> d" "d < p" "d dvd p"
  shows "\<exists>e \<in> {2, 3, 5, 7, 11, 13, 17}. e < p \<and> e dvd p"
proof -
  have "\<exists>e. 2 \<le> e \<and> e < 18 \<and> e < p \<and> e dvd p"
  proof (cases "d < 18")
    case True
    then show ?thesis using assms by (intro exI [of _ d]) auto
  next
    case False
    obtain e where e: "p = d * e" using assms(4) by auto
    have "e \<noteq> 0" "e \<noteq> 1" using e assms(3) by auto
    moreover have "e < 18"
    proof (rule ccontr)
      assume "\<not> e < 18"
      then have "18 * 18 \<le> d * e" using False by (intro mult_le_mono) auto
      then show False using assms(1) e by simp
    qed
    moreover have "e < p" using e assms(2) \<open>e \<noteq> 0\<close> by simp
    ultimately show ?thesis using e by (intro exI [of _ e]) auto
  qed
  then obtain e where e: "2 \<le> e" "e < 18" "e < p" "e dvd p" by blast
  have "e \<in> set [2..<18]" using e(1,2) by (simp only: set_upt atLeastLessThan_iff)
  then have "e = 2 \<or> e = 3 \<or> e = 4 \<or> e = 5 \<or> e = 6 \<or> e = 7 \<or> e = 8 \<or> e = 9 \<or> e = 10 \<or> e = 11 \<or> e = 12 \<or> e = 13 \<or> e = 14
      \<or> e = 15 \<or> e = 16 \<or> e = 17" by simp
  then have "2 dvd e \<or> 3 dvd e \<or> 5 dvd e \<or> 7 dvd e \<or> e = 11 \<or> e = 13 \<or> e = 17"
    by (elim disjE; hypsubst; simp)
  then have "\<exists>f \<in> {2, 3, 5, 7, 11, 13, 17}. f dvd e" by (elim disjE) simp_all
  then obtain f where f: "f \<in> {2, 3, 5, 7, 11, 13, 17}" "f dvd e" by blast
  then have "f \<le> e" using e(1) by (intro dvd_imp_le) auto
  then show ?thesis using f e(3) dvd_trans [OF f(2) e(4)] by (intro bexI [of _ f]) auto
qed

lemma small_at_least: "e \<in> {2, 3, 5, 7, 11, 13, 17 :: nat} \<Longrightarrow> 2 \<le> e"
  by auto

definition small_prime :: "nat \<Rightarrow> bool" where
  "small_prime p \<longleftrightarrow> list_all (\<lambda>d. p \<le> d \<or> p mod d \<noteq> 0) [2, 3, 5, 7, 11, 13, 17]"

lemma sha_primes_small: "sha_primes = filter small_prime [2..<312]"
  unfolding sha_primes_def
proof (rule filter_cong)
  fix p assume "p \<in> set [2..<312 :: nat]"
  then have "2 \<le> p \<and> p < 312" by (simp only: set_upt atLeastLessThan_iff)
  then have "p < 324" by simp
  then have "(\<exists>d. 2 \<le> d \<and> d < p \<and> d dvd p) \<longleftrightarrow> (\<exists>e \<in> {2, 3, 5, 7, 11, 13, 17}. e < p \<and> e dvd p)"
    using small_divisor [of p] small_at_least by (intro iffI) (blast, meson)
  moreover have "list_all (\<lambda>d. p mod d \<noteq> 0) [2..<p] \<longleftrightarrow> \<not> (\<exists>d. 2 \<le> d \<and> d < p \<and> d dvd p)"
    by (auto simp: list_all_iff mod_eq_0_iff_dvd)
  moreover have "small_prime p \<longleftrightarrow> \<not> (\<exists>e \<in> {2, 3, 5, 7, 11, 13, 17}. e < p \<and> e dvd p)"
    by (simp add: small_prime_def mod_eq_0_iff_dvd imp_conv_disj not_less)
  ultimately show "list_all (\<lambda>d. p mod d \<noteq> 0) [2..<p] = small_prime p" by simp
qed simp

lemma small_primes:
  "filter small_prime [2..<33] = [2, 3, 5, 7, 11, 13, 17, 19, 23, 29, 31]"
  "filter small_prime [33..<64] = [37, 41, 43, 47, 53, 59, 61]"
  "filter small_prime [64..<95] = [67, 71, 73, 79, 83, 89]"
  "filter small_prime [95..<126] = [97, 101, 103, 107, 109, 113]"
  "filter small_prime [126..<157] = [127, 131, 137, 139, 149, 151]"
  "filter small_prime [157..<188] = [157, 163, 167, 173, 179, 181]"
  "filter small_prime [188..<219] = [191, 193, 197, 199, 211]"
  "filter small_prime [219..<250] = [223, 227, 229, 233, 239, 241]"
  "filter small_prime [250..<281] = [251, 257, 263, 269, 271, 277]"
  "filter small_prime [281..<312] = [281, 283, 293, 307, 311]"
  by (simp_all add: upt_rec_numeral small_prime_def)

lemma upt_split: "i \<le> j \<Longrightarrow> j \<le> k \<Longrightarrow> [i..<k] = [i..<j] @ [j..<k]"
  using upt_add_eq_append [of i j "k - j"] by simp

lemma sha_primes_eval: "sha_primes = [2, 3, 5, 7, 11, 13, 17, 19, 23, 29, 31, 37, 41, 43, 47, 53, 59, 61, 67, 71, 73, 79, 83, 89, 97, 101, 103, 107, 109, 113, 127, 131, 137, 139, 149, 151, 157, 163, 167, 173, 179, 181, 191, 193, 197, 199, 211, 223, 227, 229, 233, 239, 241, 251, 257, 263, 269, 271, 277, 281, 283, 293, 307, 311]"
proof -
  have "[2..<312 :: nat] = [2..<33] @ [33..<64] @ [64..<95] @ [95..<126] @ [126..<157] @ [157..<188] @ [188..<219] @ [219..<250] @ [250..<281] @ [281..<312]"
    by (simp add: upt_split [symmetric])
  then show ?thesis unfolding sha_primes_small by (simp only: filter_append small_primes append.simps)
qed

lemma cube_roots:
  "iroot 3 36 (2 * 2 ^ 96) 0 = 5411319704"
  "iroot 3 36 (3 * 2 ^ 96) 0 = 6194414737"
  "iroot 3 36 (5 * 2 ^ 96) 0 = 7344290767"
  "iroot 3 36 (7 * 2 ^ 96) 0 = 8215976869"
  "iroot 3 36 (11 * 2 ^ 96) 0 = 9551921755"
  "iroot 3 36 (13 * 2 ^ 96) 0 = 10098905585"
  "iroot 3 36 (17 * 2 ^ 96) 0 = 11043570340"
  "iroot 3 36 (19 * 2 ^ 96) 0 = 11460697813"
  "iroot 3 36 (23 * 2 ^ 96) 0 = 12214315672"
  "iroot 3 36 (29 * 2 ^ 96) 0 = 13195500289"
  "iroot 3 36 (31 * 2 ^ 96) 0 = 13492127166"
  "iroot 3 36 (37 * 2 ^ 96) 0 = 14311783875"
  "iroot 3 36 (41 * 2 ^ 96) 0 = 14809980276"
  "iroot 3 36 (43 * 2 ^ 96) 0 = 15046980094"
  "iroot 3 36 (47 * 2 ^ 96) 0 = 15499789991"
  "iroot 3 36 (53 * 2 ^ 96) 0 = 16133124468"
  "iroot 3 36 (59 * 2 ^ 96) 0 = 16720292289"
  "iroot 3 36 (61 * 2 ^ 96) 0 = 16907126662"
  "iroot 3 36 (67 * 2 ^ 96) 0 = 17444216262"
  "iroot 3 36 (71 * 2 ^ 96) 0 = 17784676812"
  "iroot 3 36 (73 * 2 ^ 96) 0 = 17950125167"
  "iroot 3 36 (79 * 2 ^ 96) 0 = 18429019306"
  "iroot 3 36 (83 * 2 ^ 96) 0 = 18734950876"
  "iroot 3 36 (89 * 2 ^ 96) 0 = 19175934170"
  "iroot 3 36 (97 * 2 ^ 96) 0 = 19734090066"
  "iroot 3 36 (101 * 2 ^ 96) 0 = 20001703533"
  "iroot 3 36 (103 * 2 ^ 96) 0 = 20132865992"
  "iroot 3 36 (107 * 2 ^ 96) 0 = 20390182855"
  "iroot 3 36 (109 * 2 ^ 96) 0 = 20516441075"
  "iroot 3 36 (113 * 2 ^ 96) 0 = 20764397895"
  "iroot 3 36 (127 * 2 ^ 96) 0 = 21588763473"
  "iroot 3 36 (131 * 2 ^ 96) 0 = 21813078375"
  "iroot 3 36 (137 * 2 ^ 96) 0 = 22141143685"
  "iroot 3 36 (139 * 2 ^ 96) 0 = 22248366392"
  "iroot 3 36 (149 * 2 ^ 96) 0 = 22769593852"
  "iroot 3 36 (151 * 2 ^ 96) 0 = 22871018771"
  "iroot 3 36 (157 * 2 ^ 96) 0 = 23170020180"
  "iroot 3 36 (163 * 2 ^ 96) 0 = 23461497531"
  "iroot 3 36 (167 * 2 ^ 96) 0 = 23651862830"
  "iroot 3 36 (173 * 2 ^ 96) 0 = 23931792517"
  "iroot 3 36 (179 * 2 ^ 96) 0 = 24205322401"
  "iroot 3 36 (181 * 2 ^ 96) 0 = 24295138891"
  "iroot 3 36 (191 * 2 ^ 96) 0 = 24734567280"
  "iroot 3 36 (193 * 2 ^ 96) 0 = 24820601251"
  "iroot 3 36 (197 * 2 ^ 96) 0 = 24990902297"
  "iroot 3 36 (199 * 2 ^ 96) 0 = 25075189284"
  "iroot 3 36 (211 * 2 ^ 96) 0 = 25569408389"
  "iroot 3 36 (223 * 2 ^ 96) 0 = 26045227120"
  "iroot 3 36 (227 * 2 ^ 96) 0 = 26200031510"
  "iroot 3 36 (229 * 2 ^ 96) 0 = 26276752392"
  "iroot 3 36 (233 * 2 ^ 96) 0 = 26428864332"
  "iroot 3 36 (239 * 2 ^ 96) 0 = 26653801653"
  "iroot 3 36 (241 * 2 ^ 96) 0 = 26727943347"
  "iroot 3 36 (251 * 2 ^ 96) 0 = 27092625994"
  "iroot 3 36 (257 * 2 ^ 96) 0 = 27306805839"
  "iroot 3 36 (263 * 2 ^ 96) 0 = 27517677555"
  "iroot 3 36 (269 * 2 ^ 96) 0 = 27725365998"
  "iroot 3 36 (271 * 2 ^ 96) 0 = 27793908591"
  "iroot 3 36 (277 * 2 ^ 96) 0 = 27997534228"
  "iroot 3 36 (281 * 2 ^ 96) 0 = 28131656200"
  "iroot 3 36 (283 * 2 ^ 96) 0 = 28198240250"
  "iroot 3 36 (293 * 2 ^ 96) 0 = 28526537963"
  "iroot 3 36 (307 * 2 ^ 96) 0 = 28973835255"
  "iroot 3 36 (311 * 2 ^ 96) 0 = 29099129074"
  by (rule iroot_eqI; simp)+

lemma square_roots:
  "iroot 2 36 (2 * 2 ^ 64) 0 = 6074000999"
  "iroot 2 36 (3 * 2 ^ 64) 0 = 7439101573"
  "iroot 2 36 (5 * 2 ^ 64) 0 = 9603838834"
  "iroot 2 36 (7 * 2 ^ 64) 0 = 11363415354"
  "iroot 2 36 (11 * 2 ^ 64) 0 = 14244795007"
  "iroot 2 36 (13 * 2 ^ 64) 0 = 15485724812"
  "iroot 2 36 (17 * 2 ^ 64) 0 = 17708603819"
  "iroot 2 36 (19 * 2 ^ 64) 0 = 18721328409"
  by (rule iroot_eqI; simp)+

section \<open>Words as integers\<close>

definition W :: "int \<Rightarrow> word32" where
  "W n = word_of_int n"

lemma W_arith:
  "W a + W b = W (take_bit 32 (a + b))"
  "W a XOR W b = W (a XOR b)"
  "W a AND W b = W (a AND b)"
  "NOT (W a) = W (4294967295 - a)"
  "drop_bit n (W a) = W (drop_bit n (take_bit 32 a))"
proof -
  have take: "word_of_int (take_bit 32 c) = (word_of_int c :: word32)" for c
    by (rule bit_word_eqI) (simp add: bit_simps)
  show "W a + W b = W (take_bit 32 (a + b))" by (simp add: W_def take)
  show "W a XOR W b = W (a XOR b)" by (rule bit_word_eqI) (simp add: W_def bit_simps)
  show "W a AND W b = W (a AND b)" by (rule bit_word_eqI) (simp add: W_def bit_simps)
  have "(4294967295 :: word32) = - 1" by simp
  then show "NOT (W a) = W (4294967295 - a)" by (simp add: W_def not_eq_complement)
  show "drop_bit n (W a) = W (drop_bit n (take_bit 32 a))"
    by (rule bit_word_eqI) (auto simp: W_def bit_simps)
qed

lemma W_rotr:
  assumes "n < 32"
  shows "word_rotr n (W a) = W (drop_bit n (take_bit 32 a) + push_bit (32 - n) (take_bit n a))"
proof -
  have "uint (word_rotr n (W a)) = concat_bit (32 - n) (drop_bit n (take_bit 32 a)) (take_bit n a)"
    using assms by (simp add: uint_word_rotr_eq W_def unsigned_take_bit_eq unsigned_of_int min_def take_bit_take_bit)
  also have "\<dots> = drop_bit n (take_bit 32 a) + push_bit (32 - n) (take_bit n a)"
    using assms by (simp add: concat_bit_eq take_bit_drop_bit)
  finally show ?thesis by (metis W_def word_of_int_uint)
qed

section \<open>The schedule through a window of sixteen words\<close>

definition sha_next :: "word32 list \<Rightarrow> word32" where
  "sha_next ws = last (sha_sched_step ws)"

primrec sha_window :: "nat \<Rightarrow> word32 list \<Rightarrow> word32 list" where
  "sha_window 0 ws = ws"
| "sha_window (Suc n) ws = hd ws # sha_window n (tl ws @ [sha_next ws])"

lemma sha_sched_prefix:
  assumes "length ws = 16"
  shows "sha_sched_step (ps @ ws) = (ps @ [hd ws]) @ tl ws @ [sha_next ws]"
  using assms by (cases ws) (auto simp: sha_next_def sha_sched_step_def Let_def nth_append)

lemma sha_sched_window:
  assumes "length ws = 16"
  shows "(sha_sched_step ^^ n) (ps @ ws) = ps @ sha_window n ws"
  using assms
proof (induction n arbitrary: ps ws)
  case (Suc n)
  then have "length (tl ws @ [sha_next ws]) = 16" by simp
  from Suc.IH [OF this, of "ps @ [hd ws]"] show ?case
    unfolding funpow_Suc_right comp_apply sha_sched_prefix [OF Suc.prems] by simp
qed simp

lemma length_chunks [simp]: "length (chunks n k xs) = n"
  by (induction n arbitrary: xs) auto

lemma sha_schedule_window: "sha_schedule block = sha_window 48 (map be_word (chunks 16 4 block))"
  using sha_sched_window [of "map be_word (chunks 16 4 block)" 48 "[]"]
  by (simp add: sha_schedule_def)

lemma sha_window_numeral: "sha_window (numeral k) ws = hd ws # sha_window (pred_numeral k) (tl ws @ [sha_next ws])"
  by (simp add: numeral_eq_Suc)

lemma sha_next_eval:
  "sha_next [w0, w1, w2, w3, w4, w5, w6, w7, w8, w9, w10, w11, w12, w13, w14, w15] =
     w0 + (word_rotr 7 w1 XOR word_rotr 18 w1 XOR drop_bit 3 w1) + w9 + (word_rotr 17 w14 XOR word_rotr 19 w14 XOR drop_bit 10 w14)"
  by (simp add: sha_next_def sha_sched_step_def)

lemmas W_eval = W_arith W_rotr Let_def

section \<open>Hashes of one block\<close>

lemma of_nat_W: "of_nat n = W (take_bit 32 (int n))"
  by (rule bit_word_eqI) (simp add: W_def bit_simps)

lemma be_W: "be_word bs = W (foldl (\<lambda>acc b. 256 * acc + uint b) 0 bs)"
proof (induction bs rule: rev_induct)
  case (snoc b bs)
  have "W (256 * a + uint b) = push_bit 8 (W a) + ucast b" for a and b :: byte
    by (simp add: W_def push_bit_eq_mult unsigned_ucast_eq)
  with snoc show ?case by (simp add: be_word_def)
qed (simp add: be_word_def W_def)

lemma numeral_lists:
  "chunks (numeral n) k xs = take k xs # chunks (pred_numeral n) k (drop k xs)"
  "replicate (numeral n) x = x # replicate (pred_numeral n) x"
  "rev [0..<8] = [7, 6, 5, 4, 3, 2, 1, 0 :: nat]"
  "rev [0..<4] = [3, 2, 1, 0 :: nat]"
  by (simp_all add: numeral_eq_Suc)

lemmas pad_eval = sha_pad_def bytes_of_def be_bytes_def numeral_lists be_W

lemma take_eight: "take 8 (a # b # c # d # e # f # g # h # xs) = [a, b, c, d, e, f, g, h]"
  by simp

lemma sha_constants:
  "sha_H0 = [W 1779033703, W 3144134277, W 1013904242, W 2773480762, W 1359893119, W 2600822924, W 528734635, W
  1541459225]"
  "sha_K = [W 1116352408, W 1899447441, W 3049323471, W 3921009573, W 961987163, W 1508970993, W 2453635748, W
  2870763221, W 3624381080, W 310598401, W 607225278, W 1426881987, W 1925078388, W 2162078206, W 2614888103, W
  3248222580, W 3835390401, W 4022224774, W 264347078, W 604807628, W 770255983, W 1249150122, W 1555081692, W
  1996064986, W 2554220882, W 2821834349, W 2952996808, W 3210313671, W 3336571891, W 3584528711, W 113926993, W
  338241895, W 666307205, W 773529912, W 1294757372, W 1396182291, W 1695183700, W 1986661051, W 2177026350, W
  2456956037, W 2730485921, W 2820302411, W 3259730800, W 3345764771, W 3516065817, W 3600352804, W 4094571909,
  W 275423344, W 430227734, W 506948616, W 659060556, W 883997877, W 958139571, W 1322822218, W 1537002063, W
  1747873779, W 1955562222, W 2024104815, W 2227730452, W 2361852424, W 2428436474, W 2756734187, W 3204031479,
  W 3329325298]"
  unfolding sha_H0_def sha_K_def sha_primes_eval by (simp_all only: take_eight list.map square_roots cube_roots) (simp_all add: of_nat_W)

lemmas block_eval = sha_block_def sha_constants sha_schedule_window sha_window_numeral sha_next_eval W_eval pad_eval

lemma sha_one_block:
  assumes "length s < 56"
  shows "sha256_Sum256 (bytes_of s) = concat (map (be_bytes 4) (sha_block sha_H0 (sha_pad (bytes_of s))))"
proof -
  let ?m = "bytes_of s"
  have less: "length ?m < 56" using assms by (simp add: bytes_of_def)
  have "(119 - length ?m) mod 64 = (55 - length ?m + 64) mod 64" using less by simp
  also have "\<dots> = 55 - length ?m" unfolding mod_add_self2 using less by (intro mod_less) simp
  finally have "length (sha_pad ?m) = 64" using less by (simp add: sha_pad_def be_bytes_def)
  then show ?thesis by (simp add: sha256_Sum256_def)
qed

lemma alice_block: "sha_block sha_H0 (sha_pad (bytes_of ''alice'')) =
  [W 735577801, W 2131624111, W 438289202, W 2410111913, W 647439304, W 3683626063, W 2477748699, W 409824912]"
  by (simp add: block_eval)

lemma bob_block: "sha_block sha_H0 (sha_pad (bytes_of ''bob'')) =
  [W 2176202712, W 4241671898, W 1666836118, W 823370007, W 233280996, W 3072702541, W 504057085, W 2663746793]"
  by (simp add: block_eval)

lemma abc_block: "sha_block sha_H0 (sha_pad (bytes_of ''abc'')) =
  [W 3128432319, W 2399260650, W 1094795486, W 1571693091, W 2953011619, W 2518121116, W 3021012833, W
  4060091821]"
  by (simp add: block_eval)

lemma bytes_W: "be_bytes 4 (W n) = [word_of_int (drop_bit 24 n), word_of_int (drop_bit 16 n), word_of_int (drop_bit 8 n), word_of_int n]"
  by (simp add: be_bytes_def numeral_lists W_def) (auto intro!: bit_word_eqI simp: bit_simps)

text \<open>The one-block example of the standard.\<close>

lemma sha256_abc: "sha256_Sum256 (bytes_of ''abc'') =
  [186, 120, 22, 191, 143, 1, 207, 234, 65, 65, 64, 222, 93, 174, 34, 35, 176, 3, 97, 163, 150, 23, 122, 156,
  180, 16, 255, 97, 242, 0, 21, 173]"
  by (simp add: sha_one_block abc_block bytes_W)

lemma alice_partition: "PartitionMapper_GetPartition ''alice'' \<lparr>mp_numPartitions = 30\<rparr> = 17"
  by (simp add: PartitionMapper_GetPartition_def sha_one_block alice_block bytes_W be_word_def go_int_id)

lemma bob_partition: "PartitionMapper_GetPartition ''bob'' \<lparr>mp_numPartitions = 30\<rparr> = 20"
  by (simp add: PartitionMapper_GetPartition_def sha_one_block bob_block bytes_W be_word_def go_int_id)

end
