(* ===== verification/Cluster.thy ===== *)
theory Cluster
  imports Handlers Router HashValues
begin

text \<open>
  The coordinators and the shards as one concurrent system. Any number of submissions is at work at the same
  time, in one coordinator or in several, each going through \<^verbatim>\<open>Route\<close> of \<^verbatim>\<open>coordinator/router/router.go\<close> and
  \<^verbatim>\<open>Execute\<close> of \<^verbatim>\<open>coordinator/twopc/coordinator.go\<close> with goroutines of its own; every shard works on the
  requests that reached it with the handlers of \<open>Handlers\<close>, one access to its state at a time. A request can
  be lost, and the client can give up on it at any moment (\<^verbatim>\<open>http.Client.Timeout\<close>, \<^verbatim>\<open>messaging/client.go\<close>): the
  handler then goes on without anybody waiting for its answer, and may be served after the coordinator has
  decided. A coordinator that dies is a submission that takes no further step.

  That the runs of \<open>Router_Route\<close> are among the schedules is shown in \<open>ClusterRoute\<close>. Submissions with different identifiers
  never leave a transaction committed on one shard and aborted on the other, whatever networks and disks do,
  and every schedule comes to an end with every submission answered.
\<close>

section \<open>Model\<close>

subsection \<open>Calls\<close>

text \<open>The shards by address, each with the handlers of the requests that have reached it.\<close>

type_synonym cnodes = "string \<rightharpoonup> handler list \<times> ShardServer"

text \<open>A call of the client: not made yet, waiting for the handler with this number, or returned.\<close>

datatype 'r call = Unsent | Waiting nat | Returned 'r

datatype call_event = Send | Lose | Receive | GiveUp

text \<open>What \<^verbatim>\<open>doPost\<close> makes of a response with this error status or with none.\<close>

definition post_result :: "nat \<Rightarrow> shard_error option \<Rightarrow> client_error option" where
  "post_result status r = map_option (\<lambda>e. ClientStatus status (ErrorBody (ServerError e))) r"

fun op_answer :: "handler \<Rightarrow> client_error option" where
  "op_answer (Prepare p (PDone r)) = post_result StatusConflict r"
| "op_answer (Commit p (CDone r)) = post_result StatusConflict r"
| "op_answer (Abort p (ADone r)) = post_result StatusInternalServerError r"
| "op_answer h = Some ClientRequestFailed"

fun exec_answer :: "handler \<Rightarrow> client_error + ledger_error TransactionResult" where
  "exec_answer (Exec txn (EDone out (Inl err))) = Inl (ClientStatus StatusInternalServerError (ErrorBody (ServerError err)))"
| "exec_answer (Exec txn (EDone out (Inr res))) = Inr res"
| "exec_answer h = Inl ClientRequestFailed"

text \<open>What can happen to a call: the request \<open>h\<close> arrives or is lost, the answer arrives or the client gives up.\<close>

fun call_move :: "call_event \<Rightarrow> string \<Rightarrow> handler \<Rightarrow> (handler \<Rightarrow> 'r) \<Rightarrow> 'r \<Rightarrow> 'r call \<Rightarrow> cnodes \<Rightarrow> ('r call \<times> cnodes) option" where
  "call_move Send addr h answer failed Unsent ns =
     (case ns addr of None \<Rightarrow> None | Some (hs, s) \<Rightarrow> Some (Waiting (length hs), ns(addr \<mapsto> (hs @ [h], s))))"
| "call_move Lose addr h answer failed Unsent ns = Some (Returned failed, ns)"
| "call_move Receive addr h answer failed (Waiting j) ns =
     (case ns addr of
        None \<Rightarrow> None
      | Some (hs, s) \<Rightarrow> if j < length hs \<and> at_end (hs ! j) then Some (Returned (answer (hs ! j)), ns) else None)"
| "call_move GiveUp addr h answer failed (Waiting j) ns = Some (Returned failed, ns)"
| "call_move _ addr h answer failed c ns = None"

definition op_call :: "call_event \<Rightarrow> string \<Rightarrow> handler \<Rightarrow> client_error option call \<Rightarrow> cnodes \<Rightarrow> (client_error option call \<times> cnodes) option" where
  "op_call ev addr h = call_move ev addr h op_answer (Some ClientRequestFailed)"

subsection \<open>Submissions\<close>

text \<open>A goroutine of \<^verbatim>\<open>commitWithRetry\<close>: how many attempts it has after this one, and the call of this one.\<close>

type_synonym committing = "nat \<times> client_error option call"

definition retry :: "nat \<Rightarrow> client_error option call \<Rightarrow> committing" where
  "retry n c = (case c of Returned (Some err) \<Rightarrow> if n = 0 then (0, c) else (n - 1, Unsent) | _ \<Rightarrow> (n, c))"

datatype run_phase =
    Routing
  | Executing ShardInfo "(client_error + ledger_error TransactionResult) call"
  | Preparing ShardInfo ShardInfo "client_error option call" "client_error option call"
  | Committing ShardInfo ShardInfo committing committing
  | AbortingSource ShardInfo ShardInfo bool "client_error option call"
  | AbortingDest ShardInfo ShardInfo "client_error option call"
  | Finished "route_error + ledger_error TransactionResult"

definition route_start :: "Router \<Rightarrow> Transaction \<Rightarrow> run_phase" where
  "route_start r txn =
     (case ShardMap_GetShardForAccount (t_Source txn) (ro_mapper r) (ro_shardMap r) of
        Inl err \<Rightarrow> Finished (Inl (SourceUnresolved err))
      | Inr srcShard \<Rightarrow>
        (case ShardMap_GetShardForAccount (t_Destination txn) (ro_mapper r) (ro_shardMap r) of
           Inl err \<Rightarrow> Finished (Inl (DestinationUnresolved err))
         | Inr dstShard \<Rightarrow>
             if si_ShardID srcShard = si_ShardID dstShard
             then Executing srcShard Unsent else Preparing srcShard dstShard Unsent Unsent))"

definition committed_result :: "Transaction \<Rightarrow> ledger_error TransactionResult" where
  "committed_result txn = \<lparr>r_TxnID = t_TxnID txn, r_State = StateCommitted, r_Message = Text ''cross-shard: committed on all shards''\<rparr>"

definition aborted_result :: "Transaction \<Rightarrow> ledger_error TransactionResult" where
  "aborted_result txn = \<lparr>r_TxnID = t_TxnID txn, r_State = StateAborted, r_Message = Text ''cross-shard: one or more shards rejected''\<rparr>"

definition decide :: "Transaction \<Rightarrow> ShardInfo \<Rightarrow> ShardInfo \<Rightarrow> bool \<Rightarrow> bool \<Rightarrow> run_phase" where
  "decide txn a b sourcePrepared destPrepared =
     (if sourcePrepared \<and> destPrepared then Committing a b (2, Unsent) (2, Unsent)
      else if sourcePrepared then AbortingSource a b destPrepared Unsent
      else if destPrepared then AbortingDest a b Unsent
      else Finished (Inr (aborted_result txn)))"

definition src_part :: "Transaction \<Rightarrow> participant" where
  "src_part txn = (t_TxnID txn, OpDebit, t_Source txn, t_Amount txn)"

definition dst_part :: "Transaction \<Rightarrow> participant" where
  "dst_part txn = (t_TxnID txn, OpCredit, t_Destination txn, t_Amount txn)"

text \<open>Who goes on: the goroutine that talks to the source (or to the only) shard, the one that talks to the
  destination, or the function that waits for both.\<close>

datatype choice = Source call_event | Dest call_event | Go

fun run_move :: "choice \<Rightarrow> Router \<Rightarrow> Transaction \<Rightarrow> run_phase \<Rightarrow> cnodes \<Rightarrow> (run_phase \<times> cnodes) option" where
  "run_move Go r txn Routing ns = Some (route_start r txn, ns)"
| "run_move (Source ev) r txn (Executing a c) ns =
     map_option (map_prod (Executing a) id)
       (call_move ev (si_Address a) (Exec txn EBegin) exec_answer (Inl ClientRequestFailed) c ns)"
| "run_move Go r txn (Executing a (Returned out)) ns =
     Some (Finished (case out of Inl err \<Rightarrow> Inl (SingleShardFailed err) | Inr res \<Rightarrow> Inr res), ns)"
| "run_move (Source ev) r txn (Preparing a b c d) ns =
     map_option (map_prod (\<lambda>c'. Preparing a b c' d) id) (op_call ev (si_Address a) (Prepare (src_part txn) PBegin) c ns)"
| "run_move (Dest ev) r txn (Preparing a b c d) ns =
     map_option (map_prod (\<lambda>d'. Preparing a b c d') id) (op_call ev (si_Address b) (Prepare (dst_part txn) PBegin) d ns)"
| "run_move Go r txn (Preparing a b (Returned e1) (Returned e2)) ns =
     (case collect_prepares (si_ShardID a) [(si_ShardID a, e1), (si_ShardID b, e2)] (False, False) of
        (sourcePrepared, destPrepared) \<Rightarrow> Some (decide txn a b sourcePrepared destPrepared, ns))"
| "run_move (Source ev) r txn (Committing a b (n, c) d) ns =
     map_option (map_prod (\<lambda>c'. Committing a b (retry n c') d) id) (op_call ev (si_Address a) (Commit (src_part txn) CBegin) c ns)"
| "run_move (Dest ev) r txn (Committing a b c (n, d)) ns =
     map_option (map_prod (\<lambda>d'. Committing a b c (retry n d')) id) (op_call ev (si_Address b) (Commit (dst_part txn) CBegin) d ns)"
| "run_move Go r txn (Committing a b (n, Returned e1) (m, Returned e2)) ns = Some (Finished (Inr (committed_result txn)), ns)"
| "run_move (Source ev) r txn (AbortingSource a b dp c) ns =
     map_option (map_prod (AbortingSource a b dp) id) (op_call ev (si_Address a) (Abort (src_part txn) ABegin) c ns)"
| "run_move Go r txn (AbortingSource a b dp (Returned e)) ns =
     Some (if dp then AbortingDest a b Unsent else Finished (Inr (aborted_result txn)), ns)"
| "run_move (Dest ev) r txn (AbortingDest a b d) ns =
     map_option (map_prod (AbortingDest a b) id) (op_call ev (si_Address b) (Abort (dst_part txn) ABegin) d ns)"
| "run_move Go r txn (AbortingDest a b (Returned e)) ns = Some (Finished (Inr (aborted_result txn)), ns)"
| "run_move _ r txn ph ns = None"

subsection \<open>The system\<close>

type_synonym submission = "Router \<times> Transaction \<times> run_phase"

type_synonym cluster = "submission list \<times> cnodes"

inductive cluster_step :: "cluster \<Rightarrow> cluster \<Rightarrow> bool" where
  run: "i < length rs \<Longrightarrow> rs ! i = (r, txn, ph) \<Longrightarrow> run_move ch r txn ph ns = Some (ph', ns') \<Longrightarrow>
    cluster_step (rs, ns) (rs[i := (r, txn, ph')], ns')"
| serve: "ns addr = Some c \<Longrightarrow> shard_conc c c' \<Longrightarrow> cluster_step (rs, ns) (rs, ns(addr \<mapsto> c'))"

inductive_cases cluster_stepE: "cluster_step (rs, ns) c"

text \<open>A system run by a schedule; what cannot be done is skipped.\<close>

datatype cluster_event = Run nat choice | Serve string nat

fun cluster_exec :: "cluster_event list \<Rightarrow> cluster \<Rightarrow> cluster" where
  "cluster_exec [] c = c"
| "cluster_exec (Run i ch # es) (rs, ns) =
     cluster_exec es
       (if i < length rs then
          case rs ! i of (r, txn, ph) \<Rightarrow>
            case run_move ch r txn ph ns of None \<Rightarrow> (rs, ns) | Some (ph', ns') \<Rightarrow> (rs[i := (r, txn, ph')], ns')
        else (rs, ns))"
| "cluster_exec (Serve addr i # es) (rs, ns) =
     cluster_exec es (case ns addr of None \<Rightarrow> (rs, ns) | Some c \<Rightarrow> (rs, ns(addr \<mapsto> handlers_exec [i] c)))"

lemma cluster_exec_run: "cluster_step\<^sup>*\<^sup>* c (cluster_exec es c)"
proof (induction es c rule: cluster_exec.induct)
  case (2 i ch es rs ns)
  show ?case
  proof (cases "i < length rs")
    case True
    obtain r txn ph where r: "rs ! i = (r, txn, ph)" by (cases "rs ! i")
    show ?thesis
    proof (cases "run_move ch r txn ph ns")
      case None
      then show ?thesis using 2 True r by simp
    next
      case (Some c')
      obtain ph' ns' where c': "c' = (ph', ns')" by (cases c')
      then have "cluster_step (rs, ns) (rs[i := (r, txn, ph')], ns')" using True r Some by (auto intro: cluster_step.run)
      then show ?thesis using 2 True r Some c' by (simp add: converse_rtranclp_into_rtranclp)
    qed
  qed (use 2 in simp)
next
  case (3 addr i es rs ns)
  show ?case
  proof (cases "ns addr")
    case (Some c)
    have "cluster_step\<^sup>*\<^sup>* (rs, ns) (rs, ns(addr \<mapsto> c'))" if "shard_conc\<^sup>*\<^sup>* c c'" for c'
      using that
    proof (induction rule: rtranclp_induct)
      case (step c1 c2)
      from cluster_step.serve [of "ns(addr \<mapsto> c1)" addr c1 c2 rs] step(2)
      have "cluster_step (rs, ns(addr \<mapsto> c1)) (rs, ns(addr \<mapsto> c2))" by simp
      with step(3) show ?case by (rule rtranclp.rtrancl_into_rtrancl)
    qed (use Some in \<open>simp add: fun_upd_idem\<close>)
    from this [OF handlers_exec_run] 3 Some show ?thesis by (auto simp del: handlers_exec.simps intro: rtranclp_trans)
  qed (use 3 in simp)
qed simp

section \<open>Where a submission stands\<close>

text \<open>The handlers of a transaction on a shard, and what the shard's table says of it.\<close>

definition of_txn :: "string \<Rightarrow> handler list \<Rightarrow> handler list" where
  "of_txn t hs = filter (\<lambda>h. txn_of h = Some t) hs"

definition hs_at :: "cnodes \<Rightarrow> string \<Rightarrow> handler list" where
  "hs_at ns addr = (case ns addr of None \<Rightarrow> [] | Some (hs, s) \<Rightarrow> hs)"

definition seen_at :: "cnodes \<Rightarrow> string \<Rightarrow> string \<Rightarrow> TransactionState option" where
  "seen_at ns addr t = (case ns addr of None \<Rightarrow> None | Some (hs, s) \<Rightarrow> s_seenTxns s t)"

lemma at_Some [simp]: "ns addr = Some (hs, s) \<Longrightarrow> hs_at ns addr = hs" "ns addr = Some (hs, s) \<Longrightarrow> seen_at ns addr t = s_seenTxns s t"
  by (simp_all add: hs_at_def seen_at_def)

lemma at_upd [simp]:
  "hs_at (ns(addr \<mapsto> (hs, s))) b = (if b = addr then hs else hs_at ns b)"
  "seen_at (ns(addr \<mapsto> (hs, s))) b t = (if b = addr then s_seenTxns s t else seen_at ns b t)"
  by (simp_all add: hs_at_def seen_at_def)

lemma of_txn_append [simp]: "of_txn t (hs @ hs') = of_txn t hs @ of_txn t hs'"
  by (simp add: of_txn_def)

lemma of_txn_single [simp]: "of_txn t [h] = (if txn_of h = Some t then [h] else [])"
  by (simp add: of_txn_def)

lemma of_txn_update_other: "txn_of (hs ! i) \<noteq> Some t \<Longrightarrow> txn_of h' = txn_of (hs ! i) \<Longrightarrow> of_txn t (hs[i := h']) = of_txn t hs"
  unfolding of_txn_def
proof (induction hs arbitrary: i)
  case (Cons h hs)
  then show ?case by (cases i) auto
qed simp

lemma of_txn_update_single:
  assumes "of_txn t hs = [h]" "i < length hs" "txn_of (hs ! i) = Some t" "txn_of h' = Some t"
  shows "h = hs ! i" "of_txn t (hs[i := h']) = [h']"
proof -
  have e: "of_txn t (take i hs) @ hs ! i # of_txn t (drop (Suc i) hs) = [h]"
    using arg_cong [OF id_take_nth_drop [OF assms(2)], of "of_txn t"] assms(1,3) by (simp add: of_txn_def)
  then have "of_txn t (take i hs) = []" "of_txn t (drop (Suc i) hs) = []" "h = hs ! i" by (auto simp: append_eq_Cons_conv)
  then show "h = hs ! i" "of_txn t (hs[i := h']) = [h']"
    using assms(2,4) by (simp_all add: upd_conv_take_nth_drop) (simp add: of_txn_def)
qed

lemma of_txn_update_set: "h \<in> set (of_txn t (hs[i := h'])) \<Longrightarrow> h = h' \<or> h \<in> set (of_txn t hs)"
  using set_update_subset_insert [of hs i h'] by (auto simp: of_txn_def)

fun is_Prepare :: "handler \<Rightarrow> bool" where
  "is_Prepare (Prepare p ph) = True"
| "is_Prepare h = False"

fun is_Commit :: "handler \<Rightarrow> bool" where
  "is_Commit (Commit p ph) = True"
| "is_Commit h = False"

fun is_Abort :: "handler \<Rightarrow> bool" where
  "is_Abort (Abort p ph) = True"
| "is_Abort h = False"

fun is_Exec :: "handler \<Rightarrow> bool" where
  "is_Exec (Exec txn ph) = True"
| "is_Exec h = False"

fun voted_yes :: "handler \<Rightarrow> bool" where
  "voted_yes (Prepare p (PDone None)) = True"
| "voted_yes h = False"

lemma voted_yes_end: "voted_yes h \<Longrightarrow> at_end h \<and> is_Prepare h \<and> op_answer h = None"
  by (cases h rule: voted_yes.cases) (auto simp: post_result_def)

lemma answered_yes: "is_Prepare h \<Longrightarrow> op_answer h = None \<Longrightarrow> voted_yes h"
  by (cases h rule: op_answer.cases) (auto simp: post_result_def)

text \<open>The two shards of a transaction that has two.\<close>

definition cross :: "Router \<Rightarrow> Transaction \<Rightarrow> (ShardInfo \<times> ShardInfo) option" where
  "cross r txn = (case route_start r txn of Preparing a b c d \<Rightarrow> Some (a, b) | _ \<Rightarrow> None)"

definition answered_committed :: "route_error + ledger_error TransactionResult \<Rightarrow> bool" where
  "answered_committed out = (case out of Inl err \<Rightarrow> False | Inr res \<Rightarrow> r_State res = StateCommitted)"

definition idle_ok :: "string \<Rightarrow> handler list \<Rightarrow> TransactionState option \<Rightarrow> bool" where
  "idle_ok t hs st \<longleftrightarrow> of_txn t hs = [] \<and> st \<noteq> Some StateCommitted"

text \<open>A shard whose PREPARE is or was on its way.\<close>

fun asked_ok :: "string \<Rightarrow> client_error option call \<Rightarrow> handler list \<Rightarrow> bool" where
  "asked_ok t Unsent hs \<longleftrightarrow> of_txn t hs = []"
| "asked_ok t (Waiting j) hs \<longleftrightarrow> (\<exists>h. of_txn t hs = [h] \<and> is_Prepare h) \<and> j < length hs \<and> txn_of (hs ! j) = Some t"
| "asked_ok t (Returned None) hs \<longleftrightarrow> (\<exists>h. of_txn t hs = [h] \<and> voted_yes h)"
| "asked_ok t (Returned (Some e)) hs \<longleftrightarrow> of_txn t hs = [] \<or> (\<exists>h. of_txn t hs = [h] \<and> is_Prepare h)"

definition voting_ok :: "string \<Rightarrow> handler list \<Rightarrow> TransactionState option \<Rightarrow> bool" where
  "voting_ok t hs st \<longleftrightarrow> st \<noteq> Some StateCommitted \<and> (\<forall>h \<in> set (of_txn t hs). voted_yes h \<longrightarrow> st = Some StatePrepared)"

definition committed_ok :: "string \<Rightarrow> handler list \<Rightarrow> TransactionState option \<Rightarrow> bool" where
  "committed_ok t hs st \<longleftrightarrow> st \<in> {Some StatePrepared, Some StateCommitted}
     \<and> (\<forall>h \<in> set (of_txn t hs). voted_yes h \<or> is_Commit h)"

definition aborted_ok :: "string \<Rightarrow> handler list \<Rightarrow> TransactionState option \<Rightarrow> bool" where
  "aborted_ok t hs st \<longleftrightarrow> st \<noteq> Some StateCommitted
     \<and> (\<forall>h \<in> set (of_txn t hs). is_Prepare h \<or> is_Abort h)"

definition single_ok :: "string \<Rightarrow> handler list \<Rightarrow> bool" where
  "single_ok t hs \<longleftrightarrow> (\<forall>h \<in> set (of_txn t hs). is_Exec h)"

fun pair_ok :: "string \<Rightarrow> run_phase \<Rightarrow> bool \<Rightarrow> handler list \<Rightarrow> TransactionState option \<Rightarrow> bool" where
  "pair_ok t Routing src hs st \<longleftrightarrow> idle_ok t hs st"
| "pair_ok t (Preparing a b c d) src hs st \<longleftrightarrow> asked_ok t (if src then c else d) hs \<and> voting_ok t hs st"
| "pair_ok t (Committing a b c d) src hs st \<longleftrightarrow> committed_ok t hs st"
| "pair_ok t (Finished out) src hs st \<longleftrightarrow> (if answered_committed out then committed_ok t hs st else aborted_ok t hs st)"
| "pair_ok t ph src hs st \<longleftrightarrow> aborted_ok t hs st"


fun phase_ok :: "(ShardInfo \<times> ShardInfo) option \<Rightarrow> run_phase \<Rightarrow> bool" where
  "phase_ok w Routing = True"
| "phase_ok w (Executing a c) = (w = None)"
| "phase_ok w (Preparing a b c d) = (w = Some (a, b))"
| "phase_ok w (Committing a b c d) = (w = Some (a, b))"
| "phase_ok w (AbortingSource a b dp c) = (w = Some (a, b))"
| "phase_ok w (AbortingDest a b c) = (w = Some (a, b))"
| "phase_ok w (Finished out) = True"

definition control :: "submission \<Rightarrow> cnodes \<Rightarrow> bool" where
  "control rn ns = (case rn of (r, txn, ph) \<Rightarrow> phase_ok (cross r txn) ph
     \<and> (case cross r txn of
          None \<Rightarrow> \<forall>addr. single_ok (t_TxnID txn) (hs_at ns addr)
        | Some (a, b) \<Rightarrow> si_Address a \<noteq> si_Address b \<and> si_ShardID a \<noteq> si_ShardID b
            \<and> pair_ok (t_TxnID txn) ph True (hs_at ns (si_Address a)) (seen_at ns (si_Address a) (t_TxnID txn))
            \<and> pair_ok (t_TxnID txn) ph False (hs_at ns (si_Address b)) (seen_at ns (si_Address b) (t_TxnID txn))
            \<and> (\<forall>c. c \<noteq> si_Address a \<longrightarrow> c \<noteq> si_Address b \<longrightarrow> idle_ok (t_TxnID txn) (hs_at ns c) (seen_at ns c (t_TxnID txn)))))"

subsection \<open>Steps that are not about the transaction\<close>

definition same_for :: "string \<Rightarrow> handler list \<Rightarrow> handler list \<Rightarrow> bool" where
  "same_for t hs hs' \<longleftrightarrow> of_txn t hs' = of_txn t hs \<and> length hs \<le> length hs'
     \<and> (\<forall>j < length hs. txn_of (hs ! j) = Some t \<longrightarrow> hs' ! j = hs ! j)"

lemma same_for_refl [simp]: "same_for t hs hs"
  by (simp add: same_for_def)

lemma same_for_append: "txn_of h \<noteq> Some t \<Longrightarrow> same_for t hs (hs @ [h])"
  by (simp add: same_for_def nth_append)

lemma same_for_update: "txn_of (hs ! i) \<noteq> Some t \<Longrightarrow> txn_of h' = txn_of (hs ! i) \<Longrightarrow> same_for t hs (hs[i := h'])"
  using of_txn_update_other [of hs i t h'] by (auto simp: same_for_def) (metis nth_list_update_neq)

lemma asked_ok_same: "same_for t hs hs' \<Longrightarrow> asked_ok t c hs \<Longrightarrow> asked_ok t c hs'"
  by (cases "(t, c, hs)" rule: asked_ok.cases) (auto simp: same_for_def)

lemma pair_ok_same: "same_for t hs hs' \<Longrightarrow> pair_ok t ph src hs st \<Longrightarrow> pair_ok t ph src hs' st"
  using asked_ok_same [of t hs hs']
  by (cases ph) (auto simp: idle_ok_def voting_ok_def committed_ok_def aborted_ok_def same_for_def split: if_splits)

lemma control_same:
  assumes "control (r, txn, ph) ns" "\<And>addr. same_for (t_TxnID txn) (hs_at ns addr) (hs_at ns' addr)"
    and "\<And>addr. seen_at ns' addr (t_TxnID txn) = seen_at ns addr (t_TxnID txn)"
  shows "control (r, txn, ph) ns'"
  using assms pair_ok_same [OF assms(2)]
  by (auto simp: control_def single_ok_def idle_ok_def same_for_def split: option.splits)

subsection \<open>Steps of a handler\<close>

lemma prepare_step_table:
  assumes "prepare_step p ph s = (ph', s')" "s_seenTxns s (fst p) \<noteq> Some StateCommitted" "\<And>r. ph \<noteq> PDone r"
  shows "s_seenTxns s' (fst p) \<noteq> Some StateCommitted \<and> (ph' = PDone None \<longrightarrow> s_seenTxns s' (fst p) = Some StatePrepared)"
  using assms
  by (cases "(p, ph, s)" rule: prepare_step.cases)
    (auto simp: Let_def server_state_defs split: option.splits prod.splits sum.splits if_splits)

lemma commit_step_table:
  "commit_step p ph s = (ph', s') \<Longrightarrow> s_seenTxns s' (fst p) \<in> {s_seenTxns s (fst p), Some StateCommitted}"
  by (cases "(p, ph, s)" rule: commit_step.cases)
    (auto simp: Let_def server_state_defs replicate_eq split: option.splits prod.splits sum.splits if_splits)

lemma abort_step_table:
  "abort_step p ph s = (ph', s') \<Longrightarrow> s_seenTxns s' (fst p) \<in> {s_seenTxns s (fst p), Some StateAborted}"
  by (cases "(p, ph, s)" rule: abort_step.cases)
    (auto simp: Let_def server_state_defs split: option.splits prod.splits sum.splits if_splits)

text \<open>A step of one of the transaction's own handlers.\<close>

lemma handler_step_kind:
  assumes "handler_step h s = (h', s')" "txn_of h = Some t" "\<not> at_end h"
  shows "is_Prepare h \<Longrightarrow> is_Prepare h' \<and> (s_seenTxns s t \<noteq> Some StateCommitted \<longrightarrow>
      s_seenTxns s' t \<noteq> Some StateCommitted \<and> (voted_yes h' \<longrightarrow> s_seenTxns s' t = Some StatePrepared))"
    and "is_Commit h \<Longrightarrow> is_Commit h' \<and> s_seenTxns s' t \<in> {s_seenTxns s t, Some StateCommitted}"
    and "is_Abort h \<Longrightarrow> is_Abort h' \<and> s_seenTxns s' t \<in> {s_seenTxns s t, Some StateAborted}"
    and "is_Exec h \<Longrightarrow> is_Exec h'"
    and "is_Prepare h \<or> is_Commit h \<or> is_Abort h \<or> is_Exec h"
proof -
  have "(\<exists>r. ph = PDone r) \<Longrightarrow> at_end (Prepare p ph)" for p ph by auto
  note at_done = this
  have yes: "voted_yes (Prepare p ph) \<Longrightarrow> ph = PDone None" for p ph by (cases "Prepare p ph" rule: voted_yes.cases) auto
  show "is_Prepare h \<Longrightarrow> is_Prepare h' \<and> (s_seenTxns s t \<noteq> Some StateCommitted \<longrightarrow>
      s_seenTxns s' t \<noteq> Some StateCommitted \<and> (voted_yes h' \<longrightarrow> s_seenTxns s' t = Some StatePrepared))"
    using assms at_done by (cases h) (auto simp: map_prod_def split: prod.splits dest: yes dest!: prepare_step_table)
  show "is_Commit h \<Longrightarrow> is_Commit h' \<and> s_seenTxns s' t \<in> {s_seenTxns s t, Some StateCommitted}"
    using assms by (cases h) (auto simp: map_prod_def split: prod.splits dest!: commit_step_table)
  show "is_Abort h \<Longrightarrow> is_Abort h' \<and> s_seenTxns s' t \<in> {s_seenTxns s t, Some StateAborted}"
    using assms by (cases h) (auto simp: map_prod_def split: prod.splits dest!: abort_step_table)
  show "is_Exec h \<Longrightarrow> is_Exec h'" "is_Prepare h \<or> is_Commit h \<or> is_Abort h \<or> is_Exec h"
    using assms by (cases h; auto simp: map_prod_def split: prod.splits)+
qed

lemma handler_here:
  "i < length hs \<Longrightarrow> txn_of (hs ! i) = Some t \<Longrightarrow> hs ! i \<in> set (of_txn t hs)"
  by (simp add: of_txn_def)

lemma txn_update: "txn_of h' = txn_of (hs ! i) \<Longrightarrow> txn_of (hs[i := h'] ! j) = txn_of (hs ! j)"
  by (cases "j = i"; cases "i < length hs") (simp_all add: list_update_beyond)

lemma pair_ok_step:
  assumes "pair_ok t ph src hs (s_seenTxns s t)" "i < length hs" "handler_step (hs ! i) s = (h', s')" "\<not> at_end (hs ! i)"
    and "txn_of (hs ! i) = Some t"
  shows "pair_ok t ph src (hs[i := h']) (s_seenTxns s' t)"
proof -
  have t': "txn_of h' = Some t" using handler_step_keeps(1) [OF assms(3)] assms(5) by simp
  note kind = handler_step_kind [OF assms(3,5,4)]
  note here = handler_here [OF assms(2,5)]
  have committed: "committed_ok t (hs[i := h']) (s_seenTxns s' t)" if "committed_ok t hs (s_seenTxns s t)"
    using that here kind(2) voted_yes_end [of "hs ! i"] assms(4) of_txn_update_set [of _ t hs i h'] by (auto simp: committed_ok_def)
  have aborted: "aborted_ok t (hs[i := h']) (s_seenTxns s' t)" if "aborted_ok t hs (s_seenTxns s t)"
    using that here kind(1,3) of_txn_update_set [of _ t hs i h'] by (auto simp: aborted_ok_def)
  have voting: "asked_ok t c (hs[i := h']) \<and> voting_ok t (hs[i := h']) (s_seenTxns s' t)"
    if ok: "asked_ok t c hs" "voting_ok t hs (s_seenTxns s t)" for c
  proof -
    have "of_txn t hs \<noteq> []" using here by auto
    then obtain h where p: "of_txn t hs = [h]" "is_Prepare h"
      using ok(1) voted_yes_end by (cases "(t, c, hs)" rule: asked_ok.cases) auto
    note single = of_txn_update_single [OF p(1) assms(2,5) t']
    have "\<not> voted_yes h" using assms(4) voted_yes_end single(1) by blast
    with ok single kind(1) p t' show ?thesis
      using assms(5) by (cases "(t, c, hs)" rule: asked_ok.cases) (auto simp: voting_ok_def txn_update)
  qed
  show ?thesis
    using assms(1) here committed aborted voting by (cases ph) (auto simp: idle_ok_def)
qed


lemma control_serve:
  assumes "control (r, txn, ph) ns" "ns addr = Some (hs, s)" "shard_conc (hs, s) (hs', s')"
    and "\<And>h. h \<in> set hs \<Longrightarrow> txn_of h = None \<Longrightarrow> writes_txn h \<noteq> t_TxnID txn"
  shows "control (r, txn, ph) (ns(addr \<mapsto> (hs', s')))"
  using assms(3)
proof cases
  case (step i h')
  let ?t = "t_TxnID txn"
  note keeps = handler_step_keeps(1) [OF step(5)]
  show ?thesis
  proof (cases "txn_of (hs ! i) = Some ?t")
    case False
    then have "writes_txn (hs ! i) \<noteq> ?t" using assms(4) [OF nth_mem [OF step(2)]] by (cases "hs ! i") auto
    then have "s_seenTxns s' ?t = s_seenTxns s ?t" using handler_step_frame [OF step(5)] by auto
    moreover have "same_for ?t hs hs'" unfolding step(1) by (rule same_for_update [OF False keeps])
    ultimately show ?thesis using assms(2) by (intro control_same [OF assms(1)]) auto
  next
    case True
    note kind = handler_step_kind [OF step(5) True step(3)]
    have single: "single_ok ?t (hs[i := h'])" if "single_ok ?t hs"
      using that handler_here [OF step(2) True] kind(4) of_txn_update_set [of _ ?t hs i h'] by (auto simp: single_ok_def)
    have busy: "\<not> idle_ok ?t hs st" for st using handler_here [OF step(2) True] by (auto simp: idle_ok_def)
    show ?thesis
      using assms(1,2) single busy pair_ok_step [OF _ step(2,5,3) True] unfolding step(1)
      by (auto simp: control_def split: option.splits) (metis at_Some(1), metis at_Some)
  qed
qed

subsection \<open>Moves of a submission\<close>

lemma call_move_cases:
  assumes "call_move ev addr h answer failed c ns = Some (c', ns')"
  obtains (sent) hs s where "c = Unsent" "ns addr = Some (hs, s)" "c' = Waiting (length hs)" "ns' = ns(addr \<mapsto> (hs @ [h], s))"
  | (lost) "c = Unsent" "c' = Returned failed" "ns' = ns"
  | (received) j hs s where "c = Waiting j" "ns addr = Some (hs, s)" "j < length hs" "at_end (hs ! j)" "c' = Returned (answer (hs ! j))" "ns' = ns"
  | (gave_up) j where "c = Waiting j" "c' = Returned failed" "ns' = ns"
proof -
  have "(\<exists>hs s. c = Unsent \<and> ns addr = Some (hs, s) \<and> c' = Waiting (length hs) \<and> ns' = ns(addr \<mapsto> (hs @ [h], s)))
    \<or> c = Unsent \<and> c' = Returned failed \<and> ns' = ns
    \<or> (\<exists>j hs s. c = Waiting j \<and> ns addr = Some (hs, s) \<and> j < length hs \<and> at_end (hs ! j) \<and> c' = Returned (answer (hs ! j)) \<and> ns' = ns)
    \<or> (\<exists>j. c = Waiting j \<and> c' = Returned failed \<and> ns' = ns)"
    using assms by (cases "(ev, addr, h, answer, failed, c, ns)" rule: call_move.cases) (simp_all split: option.splits prod.splits if_splits)
  then show thesis by (elim disjE exE conjE) (rule that; assumption)+
qed

text \<open>A move leaves the shards alone or brings one of them a request of the transaction.\<close>

definition arrives :: "string \<Rightarrow> handler \<Rightarrow> cnodes \<Rightarrow> cnodes \<Rightarrow> bool" where
  "arrives addr h ns ns' \<longleftrightarrow> (\<exists>hs s. ns addr = Some (hs, s) \<and> ns' = ns(addr \<mapsto> (hs @ [h], s)))"

lemma call_move_arrives: "call_move ev addr h answer failed c ns = Some (c', ns') \<Longrightarrow> ns' = ns \<or> arrives addr h ns ns'"
  by (erule call_move_cases) (auto simp: arrives_def)

lemma arrives_at:
  assumes "arrives addr h ns ns'"
  shows "hs_at ns' addr = hs_at ns addr @ [h]" "b \<noteq> addr \<Longrightarrow> hs_at ns' b = hs_at ns b" "seen_at ns' b t = seen_at ns b t"
  using assms by (auto simp: arrives_def)

text \<open>The request that a move can bring, and the shard it goes to.\<close>

fun request_of :: "Transaction \<Rightarrow> run_phase \<Rightarrow> string \<Rightarrow> handler \<Rightarrow> bool" where
  "request_of txn (Executing a c) addr h \<longleftrightarrow> addr = si_Address a \<and> h = Exec txn EBegin"
| "request_of txn (Preparing a b c d) addr h \<longleftrightarrow> addr = si_Address a \<and> h = Prepare (src_part txn) PBegin \<and> c = Unsent
     \<or> addr = si_Address b \<and> h = Prepare (dst_part txn) PBegin \<and> d = Unsent"
| "request_of txn (Committing a b c d) addr h \<longleftrightarrow> addr = si_Address a \<and> h = Commit (src_part txn) CBegin
     \<or> addr = si_Address b \<and> h = Commit (dst_part txn) CBegin"
| "request_of txn (AbortingSource a b dp c) addr h \<longleftrightarrow> addr = si_Address a \<and> h = Abort (src_part txn) ABegin"
| "request_of txn (AbortingDest a b c) addr h \<longleftrightarrow> addr = si_Address b \<and> h = Abort (dst_part txn) ABegin"
| "request_of txn ph addr h \<longleftrightarrow> False"

lemma run_move_request:
  assumes "run_move ch r txn ph ns = Some (ph', ns')"
  shows "ns' = ns \<or> (\<exists>addr h. arrives addr h ns ns' \<and> request_of txn ph addr h)"
  using assms
  by (cases "(ch, r, txn, ph, ns)" rule: run_move.cases)
    (auto simp: op_call_def arrives_def split: prod.splits elim!: call_move_cases)

lemma request_of_props: "request_of txn ph addr h \<Longrightarrow> txn_of h = Some (t_TxnID txn) \<and> at_start h"
  by (cases "(txn, ph, addr, h)" rule: request_of.cases) (auto simp: src_part_def dst_part_def)

lemma control_other_run:
  assumes "control (r, txn, ph) ns" "run_move ch r' txn' ph' ns = Some (ph'', ns')" "t_TxnID txn \<noteq> t_TxnID txn'"
  shows "control (r, txn, ph) ns'"
proof -
  have "same_for (t_TxnID txn) (hs_at ns addr) (hs_at ns' addr) \<and> seen_at ns' addr (t_TxnID txn) = seen_at ns addr (t_TxnID txn)" for addr
    using run_move_request [OF assms(2)]
  proof (elim disjE exE conjE)
    fix b h assume "arrives b h ns ns'" "request_of txn' ph' b h"
    then show ?thesis
      using arrives_at [of b h ns ns'] request_of_props [of txn' ph' b h] assms(3) same_for_append [of h "t_TxnID txn"]
      by (cases "addr = b") auto
  qed simp
  then show ?thesis by (intro control_same [OF assms(1)]) auto
qed


lemma asked_move:
  assumes "op_call ev addr (Prepare p PBegin) c ns = Some (c', ns')" "fst p = t"
    and "asked_ok t c (hs_at ns addr)" "voting_ok t (hs_at ns addr) (seen_at ns addr t)"
  shows "asked_ok t c' (hs_at ns' addr) \<and> voting_ok t (hs_at ns' addr) (seen_at ns' addr t)"
  using assms(1) [unfolded op_call_def]
proof (cases rule: call_move_cases)
  case (received j hs s)
  then obtain h where h: "of_txn t hs = [h]" "is_Prepare h" "txn_of (hs ! j) = Some t" using assms(3) by auto
  then have "hs ! j = h" using handler_here [OF received(3), of t] by simp
  with h received assms(4) answered_yes [of h] show ?thesis by (cases "op_answer h") auto
qed (use assms(2-4) in \<open>auto simp: voting_ok_def\<close>)

lemma committed_arrives: "committed_ok t hs st \<Longrightarrow> is_Commit h \<Longrightarrow> committed_ok t (hs @ [h]) st"
  by (auto simp: committed_ok_def)

lemma aborted_arrives: "aborted_ok t hs st \<Longrightarrow> is_Abort h \<Longrightarrow> aborted_ok t (hs @ [h]) st"
  by (auto simp: aborted_ok_def)

lemma single_arrives: "single_ok t hs \<Longrightarrow> is_Exec h \<Longrightarrow> single_ok t (hs @ [h])"
  by (auto simp: single_ok_def)

lemma decided_committed:
  "asked_ok t (Returned None) hs \<Longrightarrow> voting_ok t hs st \<Longrightarrow> committed_ok t hs st"
  by (auto simp: voting_ok_def committed_ok_def)

lemma decided_aborted: "asked_ok t (Returned e) hs \<Longrightarrow> voting_ok t hs st \<Longrightarrow> aborted_ok t hs st"
  using voted_yes_end by (cases e) (auto simp: voting_ok_def aborted_ok_def)

lemma answered_results [simp]:
  "answered_committed (Inr (committed_result txn))" "\<not> answered_committed (Inr (aborted_result txn))" "\<not> answered_committed (Inl err)"
  by (simp_all add: answered_committed_def committed_result_def aborted_result_def)

lemma control_route:
  assumes "control (r, txn, Routing) ns"
  shows "control (r, txn, route_start r txn) ns"
proof (cases "cross r txn")
  case None
  then have "phase_ok None (route_start r txn)" by (auto simp: cross_def route_start_def split: sum.splits if_splits)
  with assms None show ?thesis by (simp add: control_def)
next
  case (Some w)
  then obtain a b where "w = (a, b)" "route_start r txn = Preparing a b Unsent Unsent"
    by (auto simp: cross_def route_start_def split: sum.splits if_splits)
  with assms Some show ?thesis by (auto simp: control_def idle_ok_def voting_ok_def)
qed

text \<open>A move that changes the phase and at most one shard.\<close>

lemma control_pair:
  assumes "control (r, txn, ph) ns" "cross r txn = Some (a, b)" "phase_ok (Some (a, b)) ph'"
    and "ns' = ns \<or> arrives addr h ns ns'" "addr = si_Address a \<or> addr = si_Address b"
    and "pair_ok (t_TxnID txn) ph' True (hs_at ns' (si_Address a)) (seen_at ns' (si_Address a) (t_TxnID txn))"
    and "pair_ok (t_TxnID txn) ph' False (hs_at ns' (si_Address b)) (seen_at ns' (si_Address b) (t_TxnID txn))"
  shows "control (r, txn, ph') ns'"
proof -
  have "hs_at ns' c = hs_at ns c" "seen_at ns' c t = seen_at ns c t" if "c \<noteq> si_Address a" "c \<noteq> si_Address b" for c t
    using assms(4,5) that arrives_at [of addr h ns ns'] by auto
  then show ?thesis using assms(1-3,6,7) by (simp add: control_def)
qed

lemma op_call_arrives: "op_call ev addr h c ns = Some (c', ns') \<Longrightarrow> ns' = ns \<or> arrives addr h ns ns'"
  unfolding op_call_def by (rule call_move_arrives)

lemma op_call_effect:
  assumes "op_call ev addr h c ns = Some (c', ns')"
  shows "hs_at ns' addr = hs_at ns addr \<or> hs_at ns' addr = hs_at ns addr @ [h]"
    "b \<noteq> addr \<Longrightarrow> hs_at ns' b = hs_at ns b" "seen_at ns' b t = seen_at ns b t"
  using op_call_arrives [OF assms] arrives_at [of addr h ns ns'] by auto

lemma control_parts:
  assumes "control (r, txn, ph) ns" "cross r txn = Some (a, b)"
  shows "pair_ok (t_TxnID txn) ph True (hs_at ns (si_Address a)) (seen_at ns (si_Address a) (t_TxnID txn))"
    "pair_ok (t_TxnID txn) ph False (hs_at ns (si_Address b)) (seen_at ns (si_Address b) (t_TxnID txn))"
    "si_Address a \<noteq> si_Address b" "si_ShardID a \<noteq> si_ShardID b"
  using assms by (simp_all add: control_def)

text \<open>A call by the goroutine of the source (\<open>src\<close>) or of the destination.\<close>

lemma control_call:
  assumes "control (r, txn, ph) ns" "cross r txn = Some (a, b)" "phase_ok (Some (a, b)) ph'"
    and "op_call ev (if src then si_Address a else si_Address b) h c ns = Some (c', ns')"
    and "\<And>hs st. pair_ok (t_TxnID txn) ph (\<not> src) hs st \<Longrightarrow> pair_ok (t_TxnID txn) ph' (\<not> src) hs st"
    and "\<And>addr. op_call ev addr h c ns = Some (c', ns') \<Longrightarrow> pair_ok (t_TxnID txn) ph src (hs_at ns addr) (seen_at ns addr (t_TxnID txn)) \<Longrightarrow>
      pair_ok (t_TxnID txn) ph' src (hs_at ns' addr) (seen_at ns addr (t_TxnID txn))"
  shows "control (r, txn, ph') ns'"
proof -
  note parts = control_parts [OF assms(1,2)] and eff = op_call_effect(2,3) [OF assms(4)]
  show ?thesis
    by (rule control_pair [OF assms(1-3) op_call_arrives [OF assms(4)]])
      (use parts eff assms(4,5) assms(6) [OF assms(4)] in \<open>cases src; simp\<close>)+
qed

lemma asked_call:
  assumes "op_call ev addr (Prepare p PBegin) c ns = Some (c', ns')" "fst p = t"
    and "asked_ok t c (hs_at ns addr) \<and> voting_ok t (hs_at ns addr) (seen_at ns addr t)"
  shows "asked_ok t c' (hs_at ns' addr) \<and> voting_ok t (hs_at ns' addr) (seen_at ns addr t)"
  using asked_move [OF assms(1,2)] assms(3) op_call_effect(3) [OF assms(1), of addr t] by simp

lemma committed_call:
  "op_call ev addr (Commit p CBegin) c ns = Some (c', ns') \<Longrightarrow> committed_ok t (hs_at ns addr) st \<Longrightarrow> committed_ok t (hs_at ns' addr) st"
  using op_call_effect(1) [of ev addr "Commit p CBegin" c ns c' ns'] committed_arrives [of t "hs_at ns addr" st "Commit p CBegin"] by auto

lemma aborted_call:
  "op_call ev addr (Abort p ABegin) c ns = Some (c', ns') \<Longrightarrow> aborted_ok t (hs_at ns addr) st \<Longrightarrow> aborted_ok t (hs_at ns' addr) st"
  using op_call_effect(1) [of ev addr "Abort p ABegin" c ns c' ns'] aborted_arrives [of t "hs_at ns addr" st "Abort p ABegin"] by auto

lemma control_decide:
  assumes "control (r, txn, Preparing a b (Returned e1) (Returned e2)) ns"
  shows "control (r, txn, decide txn a b (e1 = None) (e2 = None)) ns"
proof -
  have w: "cross r txn = Some (a, b)" using assms by (simp add: control_def)
  note parts = control_parts [OF assms w]
  show ?thesis
    by (rule control_pair [OF assms w, where addr = "si_Address a"])
      (use parts decided_committed decided_aborted in \<open>auto simp: decide_def simp del: asked_ok.simps\<close>)
qed

lemma control_own:
  assumes "run_move ch r txn ph ns = Some (ph', ns')" "control (r, txn, ph) ns"
  shows "control (r, txn, ph') ns'"
proof -
  have part: "fst (src_part txn) = t_TxnID txn" "fst (dst_part txn) = t_TxnID txn" by (simp_all add: src_part_def dst_part_def)
  have w: "phase_ok (cross r txn) ph" using assms(2) by (simp add: control_def)
  note call_src = control_call [OF assms(2), where src = True] and call_dst = control_call [OF assms(2), where src = False]
  note go = control_pair [OF assms(2), where ns' = ns and ph' = ph']
  show ?thesis
    using assms(1)
  proof (cases "(ch, r, txn, ph, ns)" rule: run_move.cases)
    case (2 ev r' txn' a c ns0)
    then obtain c' where c': "call_move ev (si_Address a) (Exec txn EBegin) exec_answer (Inl ClientRequestFailed) c ns = Some (c', ns')"
        "ph' = Executing a c'" using assms(1) by auto
    have "cross r txn = None" "\<forall>addr. single_ok (t_TxnID txn) (hs_at ns addr)" using assms(2) 2 w by (auto simp: control_def)
    then have "single_ok (t_TxnID txn) (hs_at ns' addr)" for addr
      using call_move_arrives [OF c'(1)] arrives_at [of "si_Address a" "Exec txn EBegin" ns ns']
        single_arrives [of "t_TxnID txn" "hs_at ns (si_Address a)" "Exec txn EBegin"] by (cases "addr = si_Address a") auto
    then show ?thesis using \<open>cross r txn = None\<close> c' by (simp add: control_def)
  next
    case (4 ev r' txn' a b c d ns0)
    then obtain c' where c': "op_call ev (si_Address a) (Prepare (src_part txn) PBegin) c ns = Some (c', ns')" "ph' = Preparing a b c' d" using assms(1) by auto
    show ?thesis
      by (rule call_src [where a = a and b = b and ev = ev and h = "Prepare (src_part txn) PBegin" and c = c and c' = c'])
        (use 4 w c' asked_call [OF _ part(1)] in auto)
  next
    case (5 ev r' txn' a b c d ns0)
    then obtain c' where c': "op_call ev (si_Address b) (Prepare (dst_part txn) PBegin) d ns = Some (c', ns')" "ph' = Preparing a b c c'" using assms(1) by auto
    show ?thesis
      by (rule call_dst [where a = a and b = b and ev = ev and h = "Prepare (dst_part txn) PBegin" and c = d and c' = c'])
        (use 5 w c' asked_call [OF _ part(2)] in auto)
  next
    case (6 r' txn' a b e1 e2 ns0)
    then have "si_ShardID a \<noteq> si_ShardID b" using control_parts(4) [OF assms(2)] w by simp
    then show ?thesis using assms control_decide [of r txn a b e1 e2 ns] 6 by (simp add: collect_two)
  next
    case (7 ev r' txn' a b n c d ns0)
    then obtain c' where c': "op_call ev (si_Address a) (Commit (src_part txn) CBegin) c ns = Some (c', ns')" "ph' = Committing a b (retry n c') d" using assms(1) by auto
    show ?thesis
      by (rule call_src [where a = a and b = b and ev = ev and h = "Commit (src_part txn) CBegin" and c = c and c' = c'])
        (use 7 w c' committed_call in auto)
  next
    case (8 ev r' txn' a b c n d ns0)
    then obtain c' where c': "op_call ev (si_Address b) (Commit (dst_part txn) CBegin) d ns = Some (c', ns')" "ph' = Committing a b c (retry n c')" using assms(1) by auto
    show ?thesis
      by (rule call_dst [where a = a and b = b and ev = ev and h = "Commit (dst_part txn) CBegin" and c = d and c' = c'])
        (use 8 w c' committed_call in auto)
  next
    case (10 ev r' txn' a b dp c ns0)
    then obtain c' where c': "op_call ev (si_Address a) (Abort (src_part txn) ABegin) c ns = Some (c', ns')" "ph' = AbortingSource a b dp c'" using assms(1) by auto
    show ?thesis
      by (rule call_src [where a = a and b = b and ev = ev and h = "Abort (src_part txn) ABegin" and c = c and c' = c'])
        (use 10 w c' aborted_call in auto)
  next
    case (12 ev r' txn' a b d ns0)
    then obtain c' where c': "op_call ev (si_Address b) (Abort (dst_part txn) ABegin) d ns = Some (c', ns')" "ph' = AbortingDest a b c'" using assms(1) by auto
    show ?thesis
      by (rule call_dst [where a = a and b = b and ev = ev and h = "Abort (dst_part txn) ABegin" and c = d and c' = c'])
        (use 12 w c' aborted_call in auto)
  qed (use assms w control_route in \<open>auto simp: control_def split: if_splits\<close>)
qed

section \<open>The invariant of the system\<close>

definition txn_ids :: "submission list \<Rightarrow> string list" where
  "txn_ids rs = map (\<lambda>(r, txn, ph). t_TxnID txn) rs"

lemma txn_ids_mem: "(r, txn, ph) \<in> set rs \<Longrightarrow> t_TxnID txn \<in> set (txn_ids rs)"
  by (force simp: txn_ids_def)

lemma txn_ids_update: "i < length rs \<Longrightarrow> rs ! i = (r, txn, ph) \<Longrightarrow> txn_ids (rs[i := (r, txn, ph')]) = txn_ids rs"
  by (simp add: txn_ids_def map_update list_update_same_conv)

lemma txn_ids_apart:
  assumes "distinct (txn_ids rs)" "i < length rs" "j < length rs" "i \<noteq> j" "rs ! i = (r, txn, ph)" "rs ! j = (r', txn', ph')"
  shows "t_TxnID txn' \<noteq> t_TxnID txn"
  using assms nth_eq_iff_index_eq [of "txn_ids rs" i j] by (auto simp: txn_ids_def)

text \<open>The accounts being created have names of their own in the transaction tables.\<close>

definition creates_apart :: "string set \<Rightarrow> cnodes \<Rightarrow> bool" where
  "creates_apart ids ns \<longleftrightarrow> (\<forall>addr. \<forall>h \<in> set (hs_at ns addr). txn_of h = None \<longrightarrow> writes_txn h \<notin> ids)"

fun cluster_inv :: "cluster \<Rightarrow> bool" where
  "cluster_inv (rs, ns) \<longleftrightarrow> distinct (txn_ids rs) \<and> (\<forall>rn \<in> set rs. control rn ns) \<and> creates_apart (set (txn_ids rs)) ns"

lemma control_system_run:
  assumes "cluster_inv (rs, ns)" "i < length rs" "rs ! i = (r, txn, ph)" "run_move ch r txn ph ns = Some (ph', ns')"
    and "rn \<in> set (rs[i := (r, txn, ph')])"
  shows "control rn ns'"
proof -
  obtain j where j: "j < length rs" "rn = rs[i := (r, txn, ph')] ! j" using assms(5) by (auto simp: in_set_conv_nth)
  show ?thesis
  proof (cases "j = i")
    case True
    have "control (r, txn, ph) ns" using assms(1-3) nth_mem [OF assms(2)] by auto
    then show ?thesis using control_own [OF assms(4)] True j assms(2) by simp
  next
    case False
    obtain r' txn' ph1 where r': "rs ! j = (r', txn', ph1)" by (cases "rs ! j")
    have "t_TxnID txn' \<noteq> t_TxnID txn" using txn_ids_apart [of rs i j] assms(1-3) False j r' by simp
    moreover have "control (r', txn', ph1) ns" using assms(1) nth_mem [OF j(1)] r' by simp
    ultimately show ?thesis using control_other_run [OF _ assms(4)] False j r' by simp
  qed
qed

lemma creates_apart_step:
  assumes "cluster_step (rs, ns) (rs', ns')" "creates_apart ids ns"
  shows "creates_apart ids ns'"
  using assms(1)
proof cases
  case (run i r txn ph ch ph')
  have "h \<in> set (hs_at ns addr) \<or> txn_of h \<noteq> None" if "h \<in> set (hs_at ns' addr)" for addr h
    using run_move_request [OF run(4)]
  proof (elim disjE exE conjE)
    fix b g assume g: "arrives b g ns ns'" "request_of txn ph b g"
    show ?thesis using that arrives_at(1,2) [OF g(1)] request_of_props [OF g(2)] by (cases "addr = b") auto
  qed (use that in simp)
  then show ?thesis using assms(2) unfolding creates_apart_def by blast
next
  case (serve addr c c')
  obtain hs s where c: "c = (hs, s)" by (cases c)
  with serve(4) obtain i h' s' where st: "c' = (hs[i := h'], s')" "i < length hs" "handler_step (hs ! i) s = (h', s')"
    by (auto elim: shard_conc.cases)
  have old: "txn_of h = None \<longrightarrow> writes_txn h \<notin> ids" if "h \<in> set hs" for h
    using that at_Some(1) [of ns addr hs s] assms(2) serve(3) c unfolding creates_apart_def by metis
  have "txn_of h = None \<longrightarrow> writes_txn h \<notin> ids" if "h \<in> set (hs[i := h'])" for h
    using that set_update_subset_insert [of hs i h'] handler_step_keeps [OF st(3)] old [OF nth_mem [OF st(2)]] old by auto
  then show ?thesis using assms(2) serve(2) st(1) by (auto simp: creates_apart_def)
qed

lemma cluster_inv_step: "cluster_step c c' \<Longrightarrow> cluster_inv c \<Longrightarrow> cluster_inv c'"
proof (induction rule: cluster_step.induct)
  case (run i rs r txn ph ch ns ph' ns')
  then show ?case
    using control_system_run [OF run(4,1-3)] creates_apart_step [OF cluster_step.run [OF run(1-3)]] txn_ids_update [OF run(1,2)] by auto
next
  case (serve ns addr c c' rs)
  obtain hs s hs' s' where c: "c = (hs, s)" "c' = (hs', s')" by (cases c, cases c')
  have "control rn (ns(addr \<mapsto> c'))" if rn: "rn \<in> set rs" for rn
  proof -
    obtain r txn ph where r: "rn = (r, txn, ph)" by (cases rn)
    have "writes_txn h \<noteq> t_TxnID txn" if "h \<in> set hs" "txn_of h = None" for h
    proof -
      have "hs_at ns addr = hs" using serve(1) c by simp
      then have "writes_txn h \<notin> set (txn_ids rs)" using serve(3) that unfolding cluster_inv.simps creates_apart_def by metis
      then show ?thesis using txn_ids_mem rn r by metis
    qed
    then show ?thesis
      using serve rn control_serve [of r txn ph ns addr hs s hs' s'] unfolding c r by auto
  qed
  then show ?case using serve creates_apart_step [OF cluster_step.serve [where ns = ns and addr = addr, OF serve(1,2)]] by auto
qed

lemma cluster_inv_run: "cluster_step\<^sup>*\<^sup>* c c' \<Longrightarrow> cluster_inv c \<Longrightarrow> cluster_inv c'"
  by (induction rule: rtranclp_induct) (auto intro: cluster_inv_step)

lemma txn_ids_step: "cluster_step c c' \<Longrightarrow> txn_ids (fst c') = txn_ids (fst c)"
  by (induction rule: cluster_step.induct) (simp_all add: txn_ids_update)

lemma txn_ids_run: "cluster_step\<^sup>*\<^sup>* c c' \<Longrightarrow> txn_ids (fst c') = txn_ids (fst c)"
  by (induction rule: rtranclp_induct) (simp_all add: txn_ids_step)

text \<open>
  How the system starts: new submissions with different identifiers that no shard knows; each coordinator's
  table gives different shards different addresses. The shards may have other executions and account
  creations waiting.
\<close>

definition fresh_node :: "string set \<Rightarrow> handler list \<Rightarrow> ShardServer \<Rightarrow> bool" where
  "fresh_node ids hs s \<longleftrightarrow> (\<forall>h \<in> set hs. at_start h \<and> (is_Exec h \<or> txn_of h = None) \<and> writes_txn h \<notin> ids)
     \<and> (\<forall>t \<in> ids. s_seenTxns s t = None)"

definition fresh_start :: "submission list \<Rightarrow> cnodes \<Rightarrow> bool" where
  "fresh_start rs ns \<longleftrightarrow> distinct (txn_ids rs)
     \<and> (\<forall>(r, txn, ph) \<in> set rs. ph = Routing \<and> addresses_distinct (ro_shardMap r))
     \<and> (\<forall>addr hs s. ns addr = Some (hs, s) \<longrightarrow> fresh_node (set (txn_ids rs)) hs s)"

lemma cross_apart:
  assumes "cross r txn = Some (a, b)" "addresses_distinct (ro_shardMap r)"
  shows "si_ShardID a \<noteq> si_ShardID b" "si_Address a \<noteq> si_Address b"
proof -
  have g: "ShardMap_GetShardForAccount (t_Source txn) (ro_mapper r) (ro_shardMap r) = Inr a"
    "ShardMap_GetShardForAccount (t_Destination txn) (ro_mapper r) (ro_shardMap r) = Inr b" "si_ShardID a \<noteq> si_ShardID b"
    using assms(1) by (auto simp: cross_def route_start_def split: sum.splits if_splits)
  then show "si_ShardID a \<noteq> si_ShardID b" "si_Address a \<noteq> si_Address b"
    using assms(2) GetShard_in_map [OF g(1)] GetShard_in_map [OF g(2)] unfolding addresses_distinct_def by blast+
qed

lemma fresh_at:
  assumes "fresh_start rs ns"
  shows "h \<in> set (hs_at ns addr) \<Longrightarrow> at_start h \<and> (is_Exec h \<or> txn_of h = None) \<and> writes_txn h \<notin> set (txn_ids rs)"
    "t \<in> set (txn_ids rs) \<Longrightarrow> seen_at ns addr t = None"
proof -
  have "ns addr = Some (hs, s) \<Longrightarrow> fresh_node (set (txn_ids rs)) hs s" for hs s using assms by (simp add: fresh_start_def)
  then show "h \<in> set (hs_at ns addr) \<Longrightarrow> at_start h \<and> (is_Exec h \<or> txn_of h = None) \<and> writes_txn h \<notin> set (txn_ids rs)"
    "t \<in> set (txn_ids rs) \<Longrightarrow> seen_at ns addr t = None"
    by (cases "ns addr"; auto simp: hs_at_def seen_at_def fresh_node_def split: prod.splits)+
qed

lemma fresh_start_inv:
  assumes "fresh_start rs ns"
  shows "cluster_inv (rs, ns)"
proof -
  have idle: "of_txn t (hs_at ns addr) = []" "seen_at ns addr t = None" if "t \<in> set (txn_ids rs)" for t addr
  proof -
    have "\<forall>h \<in> set (hs_at ns addr). writes_txn h \<noteq> t" using fresh_at(1) [OF assms] that by blast
    moreover have "writes_txn h = u" if "txn_of h = Some u" for h u using that by (cases h) auto
    ultimately show "of_txn t (hs_at ns addr) = []" by (auto simp: of_txn_def filter_empty_conv)
    show "seen_at ns addr t = None" using fresh_at(2) [OF assms that] .
  qed
  have "control (r, txn, ph) ns" if "(r, txn, ph) \<in> set rs" for r txn ph
  proof -
    have "ph = Routing" "addresses_distinct (ro_shardMap r)" "t_TxnID txn \<in> set (txn_ids rs)"
      using assms that txn_ids_mem by (auto simp: fresh_start_def)
    then show ?thesis using idle [of "t_TxnID txn"] cross_apart [of r txn]
      by (auto simp: control_def idle_ok_def single_ok_def split: option.splits)
  qed
  moreover have "creates_apart (set (txn_ids rs)) ns"
    using fresh_at(1) [OF assms] unfolding creates_apart_def by blast
  ultimately show ?thesis using assms by (auto simp: fresh_start_def)
qed

section \<open>Agreement\<close>

fun decided_commit :: "run_phase \<Rightarrow> bool" where
  "decided_commit (Committing a b c d) = True"
| "decided_commit (Finished out) = answered_committed out"
| "decided_commit ph = False"

lemma pair_ok_table:
  assumes "pair_ok t ph src hs st"
  shows "decided_commit ph \<Longrightarrow> st \<in> {Some StatePrepared, Some StateCommitted}" "\<not> decided_commit ph \<Longrightarrow> st \<noteq> Some StateCommitted"
  using assms by (cases ph; auto simp: idle_ok_def voting_ok_def committed_ok_def aborted_ok_def split: if_splits)+

text \<open>
  C1: Atomic commitment. However many submissions are at work in however many coordinators, however their
  requests and the handlers of the shards interleave, whichever requests are lost, served late or given up
  on, and whatever the disks do: a shard holds a cross-shard transaction as committed only if its
  coordinator has decided to commit it, and then both shards hold it as prepared or committed. So it is
  never committed on one shard and aborted on the other, and a transaction answered ABORTED is committed
  nowhere.
\<close>

theorem cluster_agreement:
  assumes "fresh_start rs ns" "cluster_step\<^sup>*\<^sup>* (rs, ns) (rs', ns')"
    and "(r, txn, ph) \<in> set rs'" "cross r txn = Some (a, b)"
  defines "stA \<equiv> seen_at ns' (si_Address a) (t_TxnID txn)" and "stB \<equiv> seen_at ns' (si_Address b) (t_TxnID txn)"
  shows "(decided_commit ph \<longrightarrow> {stA, stB} \<subseteq> {Some StatePrepared, Some StateCommitted})
    \<and> (\<not> decided_commit ph \<longrightarrow> Some StateCommitted \<notin> {stA, stB})
    \<and> {stA, stB} \<noteq> {Some StateCommitted, Some StateAborted}
    \<and> (\<forall>c. c \<noteq> si_Address a \<longrightarrow> c \<noteq> si_Address b \<longrightarrow> seen_at ns' c (t_TxnID txn) \<noteq> Some StateCommitted)"
proof -
  have "cluster_inv (rs', ns')" by (rule cluster_inv_run [OF assms(2) fresh_start_inv [OF assms(1)]])
  then have inv: "control (r, txn, ph) ns'" using assms(3) by simp
  note parts = control_parts [OF inv assms(4)]
  note A = pair_ok_table [OF parts(1), folded stA_def] and B = pair_ok_table [OF parts(2), folded stB_def]
  have "seen_at ns' c (t_TxnID txn) \<noteq> Some StateCommitted" if "c \<noteq> si_Address a" "c \<noteq> si_Address b" for c
    using inv assms(4) that by (simp add: control_def idle_ok_def)
  moreover have "{stA, stB} \<noteq> {Some StateCommitted, Some StateAborted}" using A B by (auto simp: doubleton_eq_iff)
  ultimately show ?thesis using A B by auto
qed


section \<open>Every schedule ends\<close>

text \<open>How many phases a handler has before it, and how much work a submission can still cause.\<close>

fun handler_left :: "handler \<Rightarrow> nat" where
  "handler_left (Exec txn ph) = (case ph of EBegin \<Rightarrow> 9 | EValidate \<Rightarrow> 8 | EDebit \<Rightarrow> 7 | EReplDebit n \<Rightarrow> 6 | ECredit \<Rightarrow> 5
     | EReplCredit n \<Rightarrow> 4 | EApply \<Rightarrow> 3 | EReject err \<Rightarrow> 2 | EAbortMark err \<Rightarrow> 2 | ECommitMark \<Rightarrow> 2 | EDone out r \<Rightarrow> 0 | _ \<Rightarrow> 1)"
| "handler_left (Prepare p ph) = (case ph of PBegin \<Rightarrow> 7 | PPending \<Rightarrow> 6 | PValidate \<Rightarrow> 5 | PReserve \<Rightarrow> 4 | PExists \<Rightarrow> 4
     | PAppend \<Rightarrow> 3 | PRollback err \<Rightarrow> 2 | PRejectMark err \<Rightarrow> 2 | PDone r \<Rightarrow> 0 | _ \<Rightarrow> 1)"
| "handler_left (Commit p ph) = (case ph of CBegin \<Rightarrow> 7 | CAborted \<Rightarrow> 6 | CAppend \<Rightarrow> 5 | CReplicate n \<Rightarrow> 4 | CCredit \<Rightarrow> 3
     | CMark \<Rightarrow> 2 | CState r \<Rightarrow> 1 | CDone r \<Rightarrow> 0)"
| "handler_left (Abort p ph) = (case ph of ABegin \<Rightarrow> 5 | AExists \<Rightarrow> 4 | ARollback \<Rightarrow> 3 | AMark \<Rightarrow> 2 | AState \<Rightarrow> 1 | ADone r \<Rightarrow> 0)"
| "handler_left (Create a x ph) = (case ph of KBegin \<Rightarrow> 5 | KAppend \<Rightarrow> 4 | KCreate \<Rightarrow> 3 | KMarkAborted err \<Rightarrow> 2 | KMark \<Rightarrow> 2
     | KDone r \<Rightarrow> 0 | _ \<Rightarrow> 1)"

fun call_left :: "'r call \<Rightarrow> nat" where
  "call_left Unsent = 11"
| "call_left (Waiting j) = 1"
| "call_left (Returned r) = 0"

fun committing_left :: "committing \<Rightarrow> nat" where
  "committing_left (n, c) = 12 * n + call_left c"

fun run_left :: "run_phase \<Rightarrow> nat" where
  "run_left Routing = 95"
| "run_left (Executing a c) = call_left c + 1"
| "run_left (Preparing a b c d) = call_left c + call_left d + 72"
| "run_left (Committing a b c d) = committing_left c + committing_left d + 1"
| "run_left (AbortingSource a b dp c) = call_left c + 13"
| "run_left (AbortingDest a b c) = call_left c + 1"
| "run_left (Finished out) = 0"

lemma handler_step_left:
  assumes "handler_step h s = (h', s')" "\<not> at_end h"
  shows "handler_left h' < handler_left h"
proof (cases h)
  case (Exec txn ph)
  then show ?thesis using assms
    by (cases "(txn, ph, s)" rule: exec_step.cases) (auto simp: Let_def split: option.splits prod.splits sum.splits bool.splits)
next
  case (Prepare p ph)
  then show ?thesis using assms
    by (cases "(p, ph, s)" rule: prepare_step.cases) (auto simp: Let_def split: option.splits prod.splits sum.splits if_splits)
next
  case (Commit p ph)
  then show ?thesis using assms
    by (cases "(p, ph, s)" rule: commit_step.cases) (auto simp: Let_def split: option.splits prod.splits sum.splits if_splits)
next
  case (Abort p ph)
  then show ?thesis using assms
    by (cases "(p, ph, s)" rule: abort_step.cases) (auto simp: Let_def split: option.splits prod.splits sum.splits if_splits)
next
  case (Create a x ph)
  then show ?thesis using assms
    by (cases "(a, x, ph, s)" rule: create_step.cases) (auto simp: Let_def split: option.splits prod.splits sum.splits if_splits)
qed

definition node_left :: "cnodes \<Rightarrow> string \<Rightarrow> nat" where
  "node_left ns addr = sum_list (map handler_left (hs_at ns addr))"

fun work_left :: "cluster \<Rightarrow> nat" where
  "work_left (rs, ns) = sum_list (map (\<lambda>(r, txn, ph). run_left ph) rs) + (\<Sum>addr\<in>dom ns. node_left ns addr)"

lemma sum_list_update_less:
  fixes f :: "'a \<Rightarrow> nat"
  shows "i < length xs \<Longrightarrow> sum_list (map f (xs[i := x])) + f (xs ! i) = sum_list (map f xs) + f x"
proof (induction xs arbitrary: i)
  case (Cons y ys)
  then show ?case by (cases i) auto
qed simp

lemma nodes_left_update:
  assumes "finite (dom ns)" "ns addr = Some c"
  shows "(\<Sum>b\<in>dom (ns(addr \<mapsto> c')). node_left (ns(addr \<mapsto> c')) b) + node_left ns addr
    = (\<Sum>b\<in>dom ns. node_left ns b) + node_left (ns(addr \<mapsto> c')) addr"
proof -
  have addr: "addr \<in> dom ns" "dom (ns(addr \<mapsto> c')) = dom ns" using assms(2) by auto
  have "node_left (ns(addr \<mapsto> c')) b = node_left ns b" if "b \<noteq> addr" for b
    using that by (simp add: node_left_def hs_at_def)
  then have "(\<Sum>b\<in>dom ns - {addr}. node_left (ns(addr \<mapsto> c')) b) = (\<Sum>b\<in>dom ns - {addr}. node_left ns b)"
    by (intro sum.cong) auto
  then show ?thesis unfolding addr(2) using addr(1) assms(1) by (simp add: sum.remove)
qed

text \<open>What a call and a move of a submission use up: more than the handler that they may start has to do.\<close>

definition load_of :: "cnodes \<Rightarrow> nat" where
  "load_of ns = (\<Sum>addr\<in>dom ns. node_left ns addr)"

lemma arrives_load:
  assumes "arrives addr h ns ns'" "finite (dom ns)"
  shows "load_of ns' = load_of ns + handler_left h" "finite (dom ns')"
proof -
  obtain hs s where a: "ns addr = Some (hs, s)" "ns' = ns(addr \<mapsto> (hs @ [h], s))" using assms(1) by (auto simp: arrives_def)
  have "node_left ns' addr = node_left ns addr + handler_left h" using a by (simp add: node_left_def)
  then show "load_of ns' = load_of ns + handler_left h"
    using nodes_left_update [OF assms(2) a(1), of "(hs @ [h], s)"] a(2) by (simp add: load_of_def)
  show "finite (dom ns')" using a assms(2) by simp
qed

lemma call_move_left:
  assumes "call_move ev addr h answer failed c ns = Some (c', ns')" "finite (dom ns)" "handler_left h \<le> 9"
  shows "call_left c' + load_of ns' < call_left c + load_of ns \<and> finite (dom ns')"
  using assms(1)
proof (cases rule: call_move_cases)
  case (sent hs s)
  then have "arrives addr h ns ns'" by (auto simp: arrives_def)
  from arrives_load [OF this assms(2)] sent assms(3) show ?thesis by simp
qed (use assms(2) in auto)

lemma retry_left: "committing_left (retry n c) \<le> 12 * n + call_left c"
  by (auto simp: retry_def split: call.splits option.splits)

lemma run_move_left:
  assumes "run_move ch r txn ph ns = Some (ph', ns')" "finite (dom ns)"
  shows "run_left ph' + load_of ns' < run_left ph + load_of ns \<and> finite (dom ns')"
proof -
  note left = call_move_left [OF _ assms(2)]
  show ?thesis
    using assms(1)
  proof (cases "(ch, r, txn, ph, ns)" rule: run_move.cases)
    case (1 r' txn' ns0)
    then show ?thesis using assms by (auto simp: route_start_def split: sum.splits)
  next
    case (6 r' txn' a b e1 e2 ns0)
    then show ?thesis using assms by (auto simp: decide_def split: prod.splits)
  next
    case (7 ev r' txn' a b n c d ns0)
    then obtain c' where "op_call ev (si_Address a) (Commit (src_part txn) CBegin) c ns = Some (c', ns')" "ph' = Committing a b (retry n c') d"
      using assms(1) by auto
    with 7 left [OF this(1) [unfolded op_call_def]] retry_left [of n c'] show ?thesis by simp
  next
    case (8 ev r' txn' a b c n d ns0)
    then obtain d' where "op_call ev (si_Address b) (Commit (dst_part txn) CBegin) d ns = Some (d', ns')" "ph' = Committing a b c (retry n d')"
      using assms(1) by auto
    with 8 left [OF this(1) [unfolded op_call_def]] retry_left [of n d'] show ?thesis by simp
  qed (use assms in \<open>auto simp: op_call_def dest!: left split: if_splits\<close>)
qed

lemma work_left_step:
  assumes "cluster_step (rs, ns) (rs', ns')" "finite (dom ns)"
  shows "work_left (rs', ns') < work_left (rs, ns) \<and> finite (dom ns')"
  using assms(1)
proof cases
  case (run i r txn ph ch ph')
  then show ?thesis
    using run_move_left [OF run(4) assms(2)] sum_list_update_less [OF run(2), of "\<lambda>(r, txn, ph). run_left ph" "(r, txn, ph')"]
    by (simp add: load_of_def)
next
  case (serve addr c c')
  obtain hs s where c: "c = (hs, s)" by (cases c)
  with serve(4) obtain i h' s' where st: "c' = (hs[i := h'], s')" "i < length hs" "handler_step (hs ! i) s = (h', s')" "\<not> at_end (hs ! i)"
    by (auto elim: shard_conc.cases)
  have "node_left (ns(addr \<mapsto> c')) addr < node_left ns addr"
    using sum_list_update_less [OF st(2), of handler_left h'] handler_step_left [OF st(3,4)] st(1) c serve(3) by (simp add: node_left_def)
  then show ?thesis using nodes_left_update [OF assms(2) serve(3), of c'] serve(1,2) assms(2) by simp
qed

text \<open>Progress without faults: no request is lost and no client gives up.\<close>

definition patient :: "choice \<Rightarrow> bool" where
  "patient ch \<longleftrightarrow> ch \<notin> {Source Lose, Source GiveUp, Dest Lose, Dest GiveUp}"

inductive patient_step :: "cluster \<Rightarrow> cluster \<Rightarrow> bool" where
  run: "i < length rs \<Longrightarrow> rs ! i = (r, txn, ph) \<Longrightarrow> patient ch \<Longrightarrow> run_move ch r txn ph ns = Some (ph', ns') \<Longrightarrow>
    patient_step (rs, ns) (rs[i := (r, txn, ph')], ns')"
| serve: "ns addr = Some c \<Longrightarrow> shard_conc c c' \<Longrightarrow> patient_step (rs, ns) (rs, ns(addr \<mapsto> c'))"

lemma patient_cluster_step: "patient_step c c' \<Longrightarrow> cluster_step c c'"
  by (induction rule: patient_step.induct) (auto intro: cluster_step.intros)

lemma shard_progress:
  assumes "i < length hs" "\<not> at_end (hs ! i)"
  shows "\<exists>c'. shard_conc (hs, s) c'"
proof -
  have step: "\<exists>c'. shard_conc (hs, s) c'" if "j < length hs" "\<not> at_end (hs ! j)" "at_start (hs ! j) \<Longrightarrow> lock_free j hs" for j
    using that shard_conc.step [of j hs s "fst (handler_step (hs ! j) s)" "snd (handler_step (hs ! j) s)"] by auto
  show ?thesis
  proof (cases "lock_free i hs")
    case False
    then obtain j where "j < length hs" "active (hs ! j)" by (auto simp: lock_free_def)
    then show ?thesis using step [of j] by (auto simp: active_def)
  qed (use step [OF assms] in blast)
qed


text \<open>A submission talks to the shards of its table, and waits for handlers that exist.\<close>

definition wait_ok :: "cnodes \<Rightarrow> string \<Rightarrow> 'r call \<Rightarrow> bool" where
  "wait_ok ns addr c = (case c of Waiting j \<Rightarrow> j < length (hs_at ns addr) | _ \<Rightarrow> True)"

fun placed :: "submission \<Rightarrow> cnodes \<Rightarrow> bool" where
  "placed (r, txn, Executing a c) ns \<longleftrightarrow> route_start r txn = Executing a Unsent \<and> wait_ok ns (si_Address a) c"
| "placed (r, txn, Preparing a b c d) ns \<longleftrightarrow> cross r txn = Some (a, b) \<and> wait_ok ns (si_Address a) c \<and> wait_ok ns (si_Address b) d"
| "placed (r, txn, Committing a b c d) ns \<longleftrightarrow> cross r txn = Some (a, b) \<and> wait_ok ns (si_Address a) (snd c) \<and> wait_ok ns (si_Address b) (snd d)"
| "placed (r, txn, AbortingSource a b dp c) ns \<longleftrightarrow> cross r txn = Some (a, b) \<and> wait_ok ns (si_Address a) c"
| "placed (r, txn, AbortingDest a b c) ns \<longleftrightarrow> cross r txn = Some (a, b) \<and> wait_ok ns (si_Address b) c"
| "placed (r, txn, ph) ns \<longleftrightarrow> True"

definition longer :: "cnodes \<Rightarrow> cnodes \<Rightarrow> bool" where
  "longer ns ns' \<longleftrightarrow> dom ns' = dom ns \<and> (\<forall>addr. length (hs_at ns addr) \<le> length (hs_at ns' addr))"

lemma wait_ok_longer: "wait_ok ns addr c \<Longrightarrow> longer ns ns' \<Longrightarrow> wait_ok ns' addr c"
  by (cases c) (auto simp: wait_ok_def longer_def intro: less_le_trans)

lemma placed_longer: "placed rn ns \<Longrightarrow> longer ns ns' \<Longrightarrow> placed rn ns'"
  by (cases "(rn, ns)" rule: placed.cases) (auto intro: wait_ok_longer)

lemma call_move_wait:
  assumes "call_move ev addr h answer failed c ns = Some (c', ns')"
  shows "wait_ok ns' addr c' \<and> longer ns ns'"
  using assms by (cases rule: call_move_cases) (auto simp: wait_ok_def longer_def split: if_splits)

lemma wait_simps [simp]: "wait_ok ns addr Unsent" "wait_ok ns addr (Returned r)" "longer ns ns"
  by (simp_all add: wait_ok_def longer_def)

lemma wait_retry: "wait_ok ns addr c \<Longrightarrow> wait_ok ns addr (snd (retry n c))"
  by (auto simp: retry_def split: call.splits option.splits)

lemma placed_own:
  assumes "run_move ch r txn ph ns = Some (ph', ns')" "placed (r, txn, ph) ns"
  shows "placed (r, txn, ph') ns' \<and> longer ns ns'"
  using assms
  by (cases "(ch, r, txn, ph, ns)" rule: run_move.cases)
    (auto simp: op_call_def decide_def route_start_def cross_def split: sum.splits if_splits prod.splits
      dest!: call_move_wait intro: wait_ok_longer wait_retry)

lemma cluster_step_longer: "cluster_step c c' \<Longrightarrow> \<forall>rn \<in> set (fst c). placed rn (snd c) \<Longrightarrow>
    (\<forall>rn \<in> set (fst c'). placed rn (snd c')) \<and> longer (snd c) (snd c')"
proof (induction rule: cluster_step.induct)
  case (run i rs r txn ph ch ns ph' ns')
  have "placed (r, txn, ph) ns" using run(1,2,4) nth_mem [OF run(1)] by auto
  note own = placed_own [OF run(3) this]
  have "placed rn ns'" if "rn \<in> set (rs[i := (r, txn, ph')])" for rn
    using that own run(4) set_update_subset_insert [of rs i "(r, txn, ph')"] placed_longer [of rn ns ns'] unfolding fst_conv snd_conv by blast
  with own show ?case by simp
next
  case (serve ns addr c c' rs)
  obtain hs s where c: "c = (hs, s)" by (cases c)
  with serve(2) obtain i h' s' where "c' = (hs[i := h'], s')" by (auto elim: shard_conc.cases)
  then have "longer ns (ns(addr \<mapsto> c'))" using serve(1) c by (auto simp: longer_def)
  with serve(3) placed_longer [OF _ this] show ?case unfolding fst_conv snd_conv by blast
qed

lemma call_progress:
  assumes "\<And>r. c \<noteq> Returned r" "ns addr \<noteq> None" "wait_ok ns addr c"
  shows "(\<exists>ev c' ns'. ev \<in> {Send, Receive} \<and> call_move ev addr h answer failed c ns = Some (c', ns'))
    \<or> (\<exists>hs s c'. ns addr = Some (hs, s) \<and> shard_conc (hs, s) c')"
proof -
  obtain hs s where n: "ns addr = Some (hs, s)" using assms(2) by auto
  show ?thesis
  proof (cases c)
    case Unsent
    then have "call_move Send addr h answer failed c ns = Some (Waiting (length hs), ns(addr \<mapsto> (hs @ [h], s)))" using n by simp
    then show ?thesis by blast
  next
    case (Waiting j)
    then have j: "j < length hs" using assms(3) n by (simp add: wait_ok_def)
    show ?thesis
    proof (cases "at_end (hs ! j)")
      case True
      then have "call_move Receive addr h answer failed c ns = Some (Returned (answer (hs ! j)), ns)" using n j Waiting by simp
      then show ?thesis by blast
    next
      case False
      then show ?thesis using shard_progress [OF j, of s] n by blast
    qed
  qed (use assms(1) in blast)
qed

text \<open>The tables of the coordinators list shards that run.\<close>

definition shards_up :: "submission list \<Rightarrow> cnodes \<Rightarrow> bool" where
  "shards_up rs ns \<longleftrightarrow> (\<forall>r \<in> set (map fst rs). \<forall>i info. sm_partitions (ro_shardMap r) i = Some info \<longrightarrow> si_Address info \<in> dom ns)"

lemma route_start_in_map:
  assumes "route_start r txn = ph"
  shows "ph = Executing a c \<Longrightarrow> \<exists>i. sm_partitions (ro_shardMap r) i = Some a"
    "ph = Preparing a b c' d \<Longrightarrow> (\<exists>i. sm_partitions (ro_shardMap r) i = Some a) \<and> (\<exists>i. sm_partitions (ro_shardMap r) i = Some b)"
  using assms by (auto simp: route_start_def dest!: GetShard_in_map split: sum.splits if_splits)

lemma cross_in_map:
  "cross r txn = Some (a, b) \<Longrightarrow> (\<exists>i. sm_partitions (ro_shardMap r) i = Some a) \<and> (\<exists>i. sm_partitions (ro_shardMap r) i = Some b)"
  using route_start_in_map(2) [OF refl, of r txn a b] by (auto simp: cross_def split: run_phase.splits)

text \<open>A submission can go on without a fault, or a shard can.\<close>

definition can_go :: "Router \<Rightarrow> Transaction \<Rightarrow> run_phase \<Rightarrow> cnodes \<Rightarrow> bool" where
  "can_go r txn ph ns \<longleftrightarrow> (\<exists>ch ph' ns'. patient ch \<and> run_move ch r txn ph ns = Some (ph', ns'))
     \<or> (\<exists>addr c c'. ns addr = Some c \<and> shard_conc c c')"

lemma can_go_on: "run_move Go r txn ph ns \<noteq> None \<Longrightarrow> can_go r txn ph ns"
  unfolding can_go_def by (auto simp: patient_def intro!: exI [of _ Go])

text \<open>A goroutine whose call has not returned can go on, or the shard it waits for can.\<close>

lemma can_go_call:
  assumes "ns addr \<noteq> None" "wait_ok ns addr c" "\<And>e. c = Returned e \<Longrightarrow> can_go r txn ph ns"
    and move: "\<And>ev c' ns'. call_move ev addr h answer failed c ns = Some (c', ns') \<Longrightarrow>
      \<exists>ph'. run_move (D ev) r txn ph ns = Some (ph', ns')" "D \<in> {Source, Dest}"
  shows "can_go r txn ph ns"
proof (cases "\<exists>e. c = Returned e")
  case False
  then have "c \<noteq> Returned e" for e by blast
  from call_progress [OF this assms(1,2), of h answer failed] show ?thesis
  proof (elim disjE exE conjE)
    fix ev c' ns' assume ev: "ev \<in> {Send, Receive}" "call_move ev addr h answer failed c ns = Some (c', ns')"
    have "patient (D ev)" using ev(1) assms(5) by (auto simp: patient_def)
    then show ?thesis using move(1) [OF ev(2)] unfolding can_go_def by blast
  qed (unfold can_go_def, blast)
qed (use assms(3) in blast)

lemma run_progress:
  assumes "placed (r, txn, ph) ns" "\<And>i info. sm_partitions (ro_shardMap r) i = Some info \<Longrightarrow> ns (si_Address info) \<noteq> None"
    and "\<And>out. ph \<noteq> Finished out"
  shows "can_go r txn ph ns"
proof -
  have up: "cross r txn = Some (a, b) \<Longrightarrow> ns (si_Address a) \<noteq> None" "cross r txn = Some (a, b) \<Longrightarrow> ns (si_Address b) \<noteq> None" for a b
    using cross_in_map [of r txn a b] assms(2) by blast+
  show ?thesis
  proof (cases ph)
    case Routing
    then show ?thesis by (simp add: can_go_on)
  next
    case (Executing a c)
    then have "route_start r txn = Executing a Unsent" and w: "wait_ok ns (si_Address a) c" using assms(1) by simp_all
    then have "ns (si_Address a) \<noteq> None" using route_start_in_map(1) [OF refl, of r txn a Unsent] assms(2) by blast
    then show ?thesis
      by (rule can_go_call [OF _ w, of r txn ph "Exec txn EBegin" exec_answer _ Source])
        (auto simp: Executing intro!: can_go_on)
  next
    case (Preparing a b c d)
    then have w: "cross r txn = Some (a, b)" "wait_ok ns (si_Address a) c" "wait_ok ns (si_Address b) d" using assms(1) by simp_all
    show ?thesis
      by (rule can_go_call [OF up(1) [OF w(1)] w(2), of r txn ph "Prepare (src_part txn) PBegin" op_answer _ Source],
          rule can_go_call [OF up(2) [OF w(1)] w(3), of r txn ph "Prepare (dst_part txn) PBegin" op_answer _ Dest])
        (auto simp: Preparing op_call_def intro!: can_go_on split: prod.splits)
  next
    case (Committing a b c d)
    obtain n c' m d' where cd: "c = (n, c')" "d = (m, d')" by (cases c, cases d)
    have w: "cross r txn = Some (a, b)" "wait_ok ns (si_Address a) c'" "wait_ok ns (si_Address b) d'" using assms(1) Committing cd by simp_all
    show ?thesis
      by (rule can_go_call [OF up(1) [OF w(1)] w(2), of r txn ph "Commit (src_part txn) CBegin" op_answer _ Source],
          rule can_go_call [OF up(2) [OF w(1)] w(3), of r txn ph "Commit (dst_part txn) CBegin" op_answer _ Dest])
        (auto simp: Committing cd op_call_def intro!: can_go_on)
  next
    case (AbortingSource a b dp c)
    then have w: "cross r txn = Some (a, b)" "wait_ok ns (si_Address a) c" using assms(1) by simp_all
    show ?thesis
      by (rule can_go_call [OF up(1) [OF w(1)] w(2), of r txn ph "Abort (src_part txn) ABegin" op_answer _ Source])
        (auto simp: AbortingSource op_call_def intro!: can_go_on)
  next
    case (AbortingDest a b c)
    then have w: "cross r txn = Some (a, b)" "wait_ok ns (si_Address b) c" using assms(1) by simp_all
    show ?thesis
      by (rule can_go_call [OF up(2) [OF w(1)] w(2), of r txn ph "Abort (dst_part txn) ABegin" op_answer _ Dest])
        (auto simp: AbortingDest op_call_def intro!: can_go_on)
  qed (use assms(3) in blast)
qed

text \<open>A step that is no fault is possible as long as somebody waits for an answer.\<close>

lemma patient_progress:
  assumes "\<forall>rn \<in> set rs. placed rn ns" "shards_up rs ns" "(r, txn, ph) \<in> set rs" "\<And>out. ph \<noteq> Finished out"
  shows "\<exists>c'. patient_step (rs, ns) c'"
proof -
  obtain i where i: "i < length rs" "rs ! i = (r, txn, ph)" using assms(3) by (auto simp: in_set_conv_nth)
  have "can_go r txn ph ns"
  proof (rule run_progress)
    show "ns (si_Address info) \<noteq> None" if "sm_partitions (ro_shardMap r) j = Some info" for j info
      using assms(2,3) that unfolding shards_up_def by force
  qed (use assms(1,3,4) in auto)
  then show ?thesis using patient_step.run [OF i] patient_step.serve [of ns] unfolding can_go_def by blast
qed

lemma work_left_runs:
  assumes "(cluster_step ^^ n) (rs, ns) (rs', ns')" "finite (dom ns)"
  shows "n + work_left (rs', ns') \<le> work_left (rs, ns)" "finite (dom ns')"
proof -
  have "n + work_left c' \<le> work_left c \<and> finite (dom (snd c'))" if "(cluster_step ^^ n) c c'" "finite (dom (snd c))" for n c c'
    using that
  proof (induction n arbitrary: c')
    case (Suc n)
    then obtain c1 where "(cluster_step ^^ n) c c1" "cluster_step c1 c'" by auto
    with Suc.IH [of c1] Suc.prems(2) work_left_step [of "fst c1" "snd c1" "fst c'" "snd c'"] show ?case by simp
  qed simp
  from this [OF assms(1)] assms(2) show "n + work_left (rs', ns') \<le> work_left (rs, ns)" "finite (dom ns')" by simp_all
qed

lemma placed_runs:
  assumes "cluster_step\<^sup>*\<^sup>* c c'" "\<forall>rn \<in> set (fst c). placed rn (snd c)"
  shows "(\<forall>rn \<in> set (fst c'). placed rn (snd c')) \<and> dom (snd c') = dom (snd c) \<and> map fst (fst c') = map fst (fst c)"
  using assms(1)
proof (induction rule: rtranclp_induct)
  case (step c1 c2)
  have "map fst (fst c2) = map fst (fst c1)"
    using step(2) by (induction rule: cluster_step.induct) (simp_all add: map_update list_update_same_conv)
  with step cluster_step_longer [OF step(2)] show ?case by (simp add: longer_def)
qed (use assms(2) in simp)

text \<open>
  C3: Every schedule ends, and nobody is left waiting. \<open>k\<close> new submissions make at most 95 steps each, the
  work of their handlers included, on top of what the shards had to do already, under every interleaving and
  with every fault. And if a state can only be left by losing a request or giving up on one, every
  submission has been answered: the locks of the shards and the waiting goroutines never block each other.
\<close>

theorem cluster_schedules_end:
  assumes "fresh_start rs ns" "finite (dom ns)" "shards_up rs ns" "(cluster_step ^^ n) (rs, ns) (rs', ns')"
  shows "n \<le> 95 * length rs + load_of ns
    \<and> ((\<nexists>c. patient_step (rs', ns') c) \<longrightarrow> (\<forall>(r, txn, ph) \<in> set rs'. \<exists>out. ph = Finished out))"
proof
  have routing: "\<forall>(r, txn, ph) \<in> set rs. ph = Routing" using assms(1) by (auto simp: fresh_start_def)
  then have "sum_list (map (\<lambda>(r, txn, ph). run_left ph) rs) = 95 * length rs" by (induction rs) auto
  then show "n \<le> 95 * length rs + load_of ns" using work_left_runs(1) [OF assms(4,2)] by (simp add: load_of_def)
  have "cluster_step\<^sup>*\<^sup>* (rs, ns) (rs', ns')" using assms(4) by (rule relpowp_imp_rtranclp)
  moreover have "\<forall>rn \<in> set rs. placed rn ns" using routing by auto
  ultimately have run: "\<forall>rn \<in> set rs'. placed rn ns'" "dom ns' = dom ns" "map fst rs' = map fst rs"
    using placed_runs [of "(rs, ns)" "(rs', ns')"] by simp_all
  have up: "shards_up rs' ns'" using assms(3) unfolding shards_up_def run(2,3) .
  show "(\<nexists>c. patient_step (rs', ns') c) \<longrightarrow> (\<forall>(r, txn, ph) \<in> set rs'. \<exists>out. ph = Finished out)"
    using patient_progress [OF run(1) up] by fast
qed

section \<open>An example\<close>

text \<open>
  Two transfers between the same accounts meet: 30 from alice's shard to bob's and 20 back. The PREPARE for
  the destination of the second is lost, so it is aborted while the first is committed.
\<close>

definition example_return :: Transaction where
  "example_return = (example_txn 20)\<lparr>t_TxnID := ''t2'', t_Source := ''bob'', t_Destination := ''alice''\<rparr>"

definition example_runs :: "run_phase \<Rightarrow> run_phase \<Rightarrow> submission list" where
  "example_runs p q = [(example_router, example_txn 30, p), (example_router, example_return, q)]"

definition example_nodes :: cnodes where
  "example_nodes = [''s1:8081'' \<mapsto> ([], example_shard []), ''s2:8082'' \<mapsto> ([], example_shard [])]"

definition example_events :: "cluster_event list" where
  "example_events = [Run 0 (Source Send), Run 1 (Source Send), Run 0 (Dest Send), Run 1 (Dest Lose)]
     @ concat (replicate 6 [Serve ''s1:8081'' 0, Serve ''s2:8082'' 0, Serve ''s1:8081'' 1])
     @ [Run 0 (Source Receive), Run 0 (Dest Receive), Run 0 Go, Run 1 (Source Receive), Run 1 Go,
        Run 1 (Source Send), Run 0 (Source Send), Run 0 (Dest Send)]
     @ concat (replicate 7 [Serve ''s2:8082'' 1, Serve ''s1:8081'' 3, Serve ''s1:8081'' 2])
     @ [Run 0 (Dest Receive), Run 0 (Source Receive), Run 0 Go, Run 1 (Source Receive), Run 1 Go]"

definition example_end :: cluster where
  "example_end = cluster_exec (Run 0 Go # Run 1 Go # example_events) (example_runs Routing Routing, example_nodes)"

lemma example_routes:
  "route_start example_router (example_txn 30) = Preparing (example_shards ! 1) (example_shards ! 0) Unsent Unsent"
  "route_start example_router example_return = Preparing (example_shards ! 0) (example_shards ! 1) Unsent Unsent"
  by (simp_all add: route_start_def ShardMap_GetShardForAccount_def example_router_def example_txn_def example_return_def
    alice_partition bob_partition round_robin_apply example_shards_def flip: numeral_2_eq_2)

lemma example_end_routed:
  "example_end = cluster_exec example_events (example_runs (Preparing (example_shards ! 1) (example_shards ! 0) Unsent Unsent)
     (Preparing (example_shards ! 0) (example_shards ! 1) Unsent Unsent), example_nodes)"
  by (simp add: example_end_def example_runs_def example_routes)

fun answer_of :: "run_phase \<Rightarrow> ledger_error TransactionResult option" where
  "answer_of (Finished (Inr res)) = Some res"
| "answer_of ph = None"

lemma answer_of_Some [simp]: "answer_of ph = Some res \<longleftrightarrow> ph = Finished (Inr res)"
  by (cases ph rule: answer_of.cases) auto

lemma example_end_eval:
  "case example_end of (rs, ns) \<Rightarrow>
     map (\<lambda>(r, txn, ph). (txn, answer_of ph)) rs = [(example_txn 30, Some (committed_result (example_txn 30))),
       (example_return, Some (aborted_result example_return))]
     \<and> (\<forall>addr \<in> set [''s1:8081'', ''s2:8082'']. no_abort_failed (hs_at ns addr) \<and> opened (hs_at ns addr) = 0
       \<and> (\<forall>t \<in> set [''t1'', ''t2'']. at_rest (hs_at ns addr) t \<and> seen_at ns addr t \<noteq> Some StatePrepared))"
  unfolding example_end_routed by code_simp

lemma example_start_ok:
  "fresh_start (example_runs Routing Routing) example_nodes" "finite (dom example_nodes)" "dom example_nodes = {''s1:8081'', ''s2:8082''}"
  "shards_up (example_runs Routing Routing) example_nodes" "load_of example_nodes = 0"
proof -
  show "fresh_start (example_runs Routing Routing) example_nodes"
    using example_router_ok(1)
    by (auto simp: fresh_start_def example_runs_def txn_ids_def example_txn_def example_return_def example_nodes_def
        fresh_node_def example_shard_def split: if_splits)
  show dom: "dom example_nodes = {''s1:8081'', ''s2:8082''}" by (auto simp: example_nodes_def)
  then show "finite (dom example_nodes)" by simp
  show "shards_up (example_runs Routing Routing) example_nodes"
    using example_router_ok(2) unfolding shards_up_def deployed_def dom by (fastforce simp: example_runs_def example_cluster_def split: if_splits)
  show "load_of example_nodes = 0" by (simp add: load_of_def dom node_left_def) (simp add: hs_at_def example_nodes_def)
qed

lemma example_end_run: "cluster_step\<^sup>*\<^sup>* (example_runs Routing Routing, example_nodes) (fst example_end, snd example_end)"
  by (simp add: example_end_def cluster_exec_run del: cluster_exec.simps)

lemma example_end_runs:
  "fst example_end = example_runs (Finished (Inr (committed_result (example_txn 30)))) (Finished (Inr (aborted_result example_return)))"
proof -
  have "map fst (fst example_end) = [example_router, example_router]"
    using placed_runs [OF example_end_run] by (simp add: example_runs_def)
  moreover have "map (\<lambda>(r, txn, ph). (txn, answer_of ph)) (fst example_end) = [(example_txn 30, Some (committed_result (example_txn 30))),
       (example_return, Some (aborted_result example_return))]"
    using example_end_eval by (simp add: case_prod_unfold)
  then have "map snd (fst example_end) = [(example_txn 30, Finished (Inr (committed_result (example_txn 30)))),
       (example_return, Finished (Inr (aborted_result example_return)))]"
    by (auto simp: map_eq_Cons_conv)
  ultimately have "zip (map fst (fst example_end)) (map snd (fst example_end)) =
      example_runs (Finished (Inr (committed_result (example_txn 30)))) (Finished (Inr (aborted_result example_return)))"
    by (simp add: example_runs_def)
  then show ?thesis by (simp add: zip_map_fst_snd)
qed

lemma example_end_nodes: "dom (snd example_end) = {''s1:8081'', ''s2:8082''}"
  using placed_runs [OF example_end_run] by (simp add: example_runs_def example_start_ok(3))

theorem cluster_agreement_witness:
  "{seen_at (snd example_end) ''s2:8082'' ''t1'', seen_at (snd example_end) ''s1:8081'' ''t1''}
     \<subseteq> {Some StatePrepared, Some StateCommitted}
   \<and> Some StateCommitted \<notin> {seen_at (snd example_end) ''s1:8081'' ''t2'', seen_at (snd example_end) ''s2:8082'' ''t2''}"
proof -
  note ok = cluster_agreement [OF example_start_ok(1) example_end_run, unfolded example_end_runs]
  have "cross example_router (example_txn 30) = Some (example_shards ! 1, example_shards ! 0)"
    "cross example_router example_return = Some (example_shards ! 0, example_shards ! 1)"
    by (simp_all add: cross_def example_routes)
  from ok [OF _ this(1), of "Finished (Inr (committed_result (example_txn 30)))"]
    ok [OF _ this(2), of "Finished (Inr (aborted_result example_return))"]
  have "{seen_at (snd example_end) (si_Address (example_shards ! 1)) (t_TxnID (example_txn 30)),
      seen_at (snd example_end) (si_Address (example_shards ! 0)) (t_TxnID (example_txn 30))} \<subseteq> {Some StatePrepared, Some StateCommitted}"
    "Some StateCommitted \<notin> {seen_at (snd example_end) (si_Address (example_shards ! 0)) (t_TxnID example_return),
      seen_at (snd example_end) (si_Address (example_shards ! 1)) (t_TxnID example_return)}"
    by (simp_all add: example_runs_def)
  then show ?thesis by (simp add: example_shards_def example_txn_def example_return_def)
qed

theorem cluster_schedules_end_witness:
  "\<exists>n \<le> 190. (cluster_step ^^ n) (example_runs Routing Routing, example_nodes) example_end"
proof -
  from example_end_run obtain n where n: "(cluster_step ^^ n) (example_runs Routing Routing, example_nodes) (fst example_end, snd example_end)"
    by (auto dest: rtranclp_imp_relpowp)
  from cluster_schedules_end [OF example_start_ok(1,2,4) this] have "n \<le> 190"
    by (simp add: example_start_ok(5)) (simp add: example_runs_def)
  with n show ?thesis by auto
qed

end
