(* ===== verification/ClusterFunds.thy ===== *)
theory ClusterFunds
  imports Cluster
begin

text \<open>
  The money of the concurrent system of \<open>Cluster\<close>. On every shard the handlers refine the escrow machine of
  \<open>Handlers\<close>; which part a submission plays on a shard is its leg. The coordinators make sure that money is
  deposited at the destination only when it is held or paid out at the source, so that the balances of the
  cluster and what is on its way add up to the same total at every moment.
\<close>

section \<open>Legs\<close>

definition strip :: "cnodes \<Rightarrow> nodes" where
  "strip ns addr = map_option snd (ns addr)"

lemma strip_simps [simp]:
  "strip (ns(addr \<mapsto> (hs, s))) = (strip ns)(addr \<mapsto> s)" "dom (strip ns) = dom ns" "ns addr = Some (hs, s) \<Longrightarrow> strip ns addr = Some s"
  by (auto simp: strip_def fun_eq_iff)

lemma strip_Some: "strip ns addr = Some s \<longleftrightarrow> (\<exists>hs. ns addr = Some (hs, s))"
  by (auto simp: strip_def)

definition jobs :: "submission list \<Rightarrow> (Router \<times> Transaction) list" where
  "jobs rs = map (\<lambda>(r, txn, ph). (r, txn)) rs"

text \<open>What a transaction does on the shard at an address.\<close>

definition leg :: "(Router \<times> Transaction) list \<Rightarrow> string \<Rightarrow> string \<Rightarrow> OperationType \<times> string \<times> int64" where
  "leg js addr t = (case find (\<lambda>(r, txn). t_TxnID txn = t) js of
       None \<Rightarrow> (OpCredit, '''', 0)
     | Some (r, txn) \<Rightarrow> (case cross r txn of
           None \<Rightarrow> (OpCredit, '''', 0)
         | Some (a, b) \<Rightarrow> if addr = si_Address a then snd (src_part txn) else snd (dst_part txn)))"

lemma jobs_ids: "map (\<lambda>(r, txn). t_TxnID txn) (jobs rs) = txn_ids rs"
  by (simp add: jobs_def txn_ids_def case_prod_beta comp_def)

lemma find_job: "distinct (map (\<lambda>(r, txn). t_TxnID txn) js) \<Longrightarrow> (r, txn) \<in> set js \<Longrightarrow>
    find (\<lambda>(r, txn'). t_TxnID txn' = t_TxnID txn) js = Some (r, txn)"
proof (induction js)
  case (Cons j js)
  show ?case
  proof (cases "j = (r, txn)")
    case False
    then have "(r, txn) \<in> set js" using Cons.prems by auto
    moreover have "t_TxnID (snd j) \<noteq> t_TxnID txn" using Cons.prems calculation by (force simp: case_prod_beta)
    ultimately show ?thesis using Cons by (simp add: case_prod_beta)
  qed simp
qed simp

lemma leg_here:
  assumes "distinct (txn_ids rs)" "(r, txn, ph) \<in> set rs"
  shows "leg (jobs rs) addr (t_TxnID txn) = (case cross r txn of None \<Rightarrow> (OpCredit, '''', 0)
    | Some (a, b) \<Rightarrow> if addr = si_Address a then snd (src_part txn) else snd (dst_part txn))"
proof -
  have "(r, txn) \<in> set (jobs rs)" using assms(2) by (force simp: jobs_def)
  from find_job [OF _ this] assms(1) show ?thesis by (simp add: leg_def jobs_ids)
qed

lemma jobs_step: "cluster_step c c' \<Longrightarrow> jobs (fst c') = jobs (fst c)"
  by (induction rule: cluster_step.induct) (simp_all add: jobs_def map_update list_update_same_conv)

section \<open>The accounts of a submission\<close>

text \<open>\<open>P\<close> says where each transaction's money is on each shard.\<close>

type_synonym positions = "string \<Rightarrow> string \<Rightarrow> escrow"

definition pair_money :: "bool \<Rightarrow> int64 \<Rightarrow> escrow \<Rightarrow> escrow \<Rightarrow> TransactionState option \<Rightarrow> bool" where
  "pair_money commit x qa qb st \<longleftrightarrow>
     (if commit then qa \<in> {Reserved, Settled} \<and> 0 < sint x \<and> qb \<in> {Idle, Deposited} \<and> (st = Some StateCommitted \<longrightarrow> qb = Deposited)
      else qa \<in> {Idle, Reserved, Released} \<and> qb = Idle)"

definition money_ok :: "positions \<Rightarrow> submission \<Rightarrow> cnodes \<Rightarrow> bool" where
  "money_ok P rn ns = (case rn of (r, txn, ph) \<Rightarrow> case cross r txn of
       None \<Rightarrow> \<forall>addr. P addr (t_TxnID txn) = Idle
     | Some (a, b) \<Rightarrow> (\<forall>c. c \<noteq> si_Address a \<longrightarrow> c \<noteq> si_Address b \<longrightarrow> P c (t_TxnID txn) = Idle)
         \<and> pair_money (decided_commit ph) (t_Amount txn) (P (si_Address a) (t_TxnID txn)) (P (si_Address b) (t_TxnID txn))
             (seen_at ns (si_Address b) (t_TxnID txn)))"

definition node_sim :: "(Router \<times> Transaction) list \<Rightarrow> string set \<Rightarrow> positions \<Rightarrow> cnodes \<Rightarrow> bool" where
  "node_sim js ids P ns \<longleftrightarrow> (\<forall>addr. ns addr = None \<longrightarrow> P addr = (\<lambda>t. Idle))
     \<and> (\<forall>addr hs s. ns addr = Some (hs, s) \<longrightarrow> escrow_sim ids (leg js addr) (hs, s) (s_ledger s, P addr, opened hs))"

lemma node_simD: "node_sim js ids P ns \<Longrightarrow> ns addr = Some (hs, s) \<Longrightarrow> escrow_sim ids (leg js addr) (hs, s) (s_ledger s, P addr, opened hs)"
  unfolding node_sim_def by blast

lemma node_sim_update:
  assumes "node_sim js ids P ns" "escrow_sim ids (leg js addr) (hs, s) (s_ledger s, p, opened hs)"
  shows "node_sim js ids (P(addr := p)) (ns(addr \<mapsto> (hs, s)))"
  using assms by (simp add: node_sim_def del: escrow_sim.simps)

text \<open>A request that arrives.\<close>

lemma escrow_sim_arrives:
  assumes "escrow_sim ids part (hs, s) (l, p, n)" "at_start h" "request_ok ids part h"
  shows "escrow_sim ids part (hs @ [h], s) (l, p, n)" "opened (hs @ [h]) = opened hs"
proof -
  have inactive: "\<not> active h" using assms(2) by (simp add: active_def)
  have o: "opened_by h = 0" using assms(2) by (cases h) auto
  then show op: "opened (hs @ [h]) = opened hs" by (simp add: opened_def)
  have "exclusive (hs @ [h])"
    using assms(1) inactive by (auto simp: exclusive_def nth_append less_Suc_eq)
  moreover have "phases_match part (hs @ [h]) p (s_seenTxns s) t" if "phases_match part hs p (s_seenTxns s) t" for t
    using that inactive by (auto simp: phases_match_def)
  ultimately show "escrow_sim ids part (hs @ [h], s) (l, p, n)" using assms(1,3) op by auto
qed

section \<open>Moves of a submission\<close>

lemma request_ok_here:
  assumes "cluster_inv (rs, ns)" "(r, txn, ph) \<in> set rs" "request_of txn ph addr h"
  shows "request_ok (set (txn_ids rs)) (leg (jobs rs) addr) h"
proof -
  have c: "phase_ok (cross r txn) ph" "distinct (txn_ids rs)" "t_TxnID txn \<in> set (txn_ids rs)"
    and ab: "cross r txn = Some (a, b) \<Longrightarrow> si_Address a \<noteq> si_Address b" for a b
    using assms(1,2) txn_ids_mem by (auto simp: control_def)
  have "fst (src_part txn) = t_TxnID txn" "fst (dst_part txn) = t_TxnID txn" by (simp_all add: src_part_def dst_part_def)
  with c ab leg_here [OF c(2) assms(2), of addr] assms(3) show ?thesis
    by (cases "(txn, ph, addr, h)" rule: request_of.cases) auto
qed

lemma node_sim_run:
  assumes "cluster_inv (rs, ns)" "(r, txn, ph) \<in> set rs" "run_move ch r txn ph ns = Some (ph', ns')"
    and "node_sim (jobs rs) (set (txn_ids rs)) P ns"
  shows "node_sim (jobs rs) (set (txn_ids rs)) P ns'" "opened (hs_at ns' addr) = opened (hs_at ns addr)" "strip ns' = strip ns"
    "dom ns' = dom ns" "seen_at ns' addr t = seen_at ns addr t"
proof -
  have "node_sim (jobs rs) (set (txn_ids rs)) P ns' \<and> opened (hs_at ns' addr) = opened (hs_at ns addr) \<and> strip ns' = strip ns
    \<and> dom ns' = dom ns \<and> seen_at ns' addr t = seen_at ns addr t"
    using run_move_request [OF assms(3)]
  proof (elim disjE exE conjE)
    fix b h assume h: "arrives b h ns ns'" "request_of txn ph b h"
    then obtain hs s where n: "ns b = Some (hs, s)" "ns' = ns(b \<mapsto> (hs @ [h], s))" by (auto simp: arrives_def)
    have "at_start h" using request_of_props [OF h(2)] by simp
    note arr = escrow_sim_arrives [OF node_simD [OF assms(4) n(1)] this request_ok_here [OF assms(1,2) h(2)]]
    have "node_sim (jobs rs) (set (txn_ids rs)) (P(b := P b)) (ns(b \<mapsto> (hs @ [h], s)))"
      by (rule node_sim_update [OF assms(4)]) (use arr in \<open>simp del: escrow_sim.simps\<close>)
    moreover have "strip ns' = strip ns" using n by (simp add: fun_upd_idem)
    ultimately show ?thesis using n arr(2) arrives_at(3) [OF h(1)] by auto
  qed (use assms(4) in simp)
  then show "node_sim (jobs rs) (set (txn_ids rs)) P ns'" "opened (hs_at ns' addr) = opened (hs_at ns addr)" "strip ns' = strip ns"
    "dom ns' = dom ns" "seen_at ns' addr t = seen_at ns addr t" by simp_all
qed

lemma decided_move:
  assumes "run_move ch r txn ph ns = Some (ph', ns')" "control (r, txn, ph) ns" "cross r txn = Some (a, b)"
  shows "decided_commit ph' \<longleftrightarrow> decided_commit ph \<or> ph = Preparing a b (Returned None) (Returned None) \<and> ns' = ns"
proof -
  have w: "phase_ok (Some (a, b)) ph" using assms(2,3) by (simp add: control_def)
  have start: "route_start r txn = Preparing a b Unsent Unsent"
    using assms(3) by (auto simp: cross_def route_start_def split: sum.splits if_splits)
  show ?thesis
    using assms(1)
  proof (cases "(ch, r, txn, ph, ns)" rule: run_move.cases)
    case (6 r' txn' a' b' e1 e2 ns0)
    then have "si_ShardID a \<noteq> si_ShardID b" "a' = a" "b' = b" using control_parts(4) [OF assms(2,3)] w by simp_all
    then show ?thesis using 6 assms(1) by (cases e1; cases e2) (auto simp: collect_two decide_def)
  qed (use assms(1) w start in \<open>auto simp: op_call_def split: if_splits elim: call_move_cases\<close>)
qed

text \<open>When the coordinator decides to commit, the source holds the money.\<close>

lemma voted_reserved:
  assumes "cluster_inv (rs, ns)" "(r, txn, Preparing a b (Returned None) d) \<in> set rs" "cross r txn = Some (a, b)"
    and "node_sim (jobs rs) (set (txn_ids rs)) P ns"
  shows "P (si_Address a) (t_TxnID txn) = Reserved" "0 < sint (t_Amount txn)"
proof -
  let ?A = "si_Address a" and ?t = "t_TxnID txn"
  have "control (r, txn, Preparing a b (Returned None) d) ns" using assms(1,2) by simp
  from control_parts(1) [OF this assms(3)] obtain h
    where h: "of_txn ?t (hs_at ns ?A) = [h]" "voted_yes h" "seen_at ns ?A ?t = Some StatePrepared"
    by (auto simp: voting_ok_def)
  then obtain hs s where n: "ns ?A = Some (hs, s)" by (cases "ns ?A") (auto simp: hs_at_def of_txn_def)
  have "\<not> active g" if "g \<in> set hs" "txn_of g = Some ?t" for g
  proof -
    have "g \<in> set (of_txn ?t hs)" using that by (simp add: of_txn_def)
    then show ?thesis using h n voted_yes_end [of h] by (simp add: active_def)
  qed
  moreover have t: "?t \<in> set (txn_ids rs)" by (rule txn_ids_mem [OF assms(2)])
  moreover have leg: "leg (jobs rs) ?A ?t = (OpDebit, t_Source txn, t_Amount txn)"
    using leg_here [OF _ assms(2), of ?A] assms(1,3) by (simp add: src_part_def)
  ultimately have "idle_match OpDebit (P ?A ?t) (s_seenTxns s ?t)" "P ?A ?t = Reserved \<longrightarrow> backed (OpDebit, t_Source txn, t_Amount txn) (s_ledger s)"
    using node_simD [OF assms(4) n] by (auto simp: phases_match_def)
  then show "P ?A ?t = Reserved" "0 < sint (t_Amount txn)" using h(3) n by (auto simp: idle_match_def backed_def signed_order)
qed

lemma money_own:
  assumes "cluster_inv (rs, ns)" "(r, txn, ph) \<in> set rs" "run_move ch r txn ph ns = Some (ph', ns')"
    and "node_sim (jobs rs) (set (txn_ids rs)) P ns" "money_ok P (r, txn, ph) ns"
  shows "money_ok P (r, txn, ph') ns'"
proof (cases "cross r txn")
  case None
  then show ?thesis using assms(5) by (simp add: money_ok_def)
next
  case (Some w)
  obtain a b where w: "cross r txn = Some (a, b)" using Some by (cases w) auto
  have ctl: "control (r, txn, ph) ns" using assms(1,2) by simp
  note dec = decided_move [OF assms(3) ctl w] and seen = node_sim_run(5) [OF assms(1-4)]
  show ?thesis
  proof (cases "\<not> decided_commit ph \<and> decided_commit ph'")
    case True
    then have ph: "ph = Preparing a b (Returned None) (Returned None)" "ns' = ns" using dec by auto
    have "seen_at ns (si_Address b) (t_TxnID txn) \<noteq> Some StateCommitted"
      using control_parts(2) [OF ctl w] ph by (auto simp: voting_ok_def)
    then show ?thesis
      using voted_reserved [OF assms(1) assms(2) [unfolded ph(1)] w assms(4)] assms(5) True w ph(2) by (simp add: money_ok_def pair_money_def)
  next
    case False
    then have "decided_commit ph' = decided_commit ph" using dec by auto
    then show ?thesis using assms(5) w seen by (simp add: money_ok_def)
  qed
qed

section \<open>Steps of a handler\<close>

lemma escrow_handler:
  assumes "escrow_sim ids part (hs, s) (l, p, n)" "i < length hs" "handler_step (hs ! i) s = (h', s')" "\<not> at_end (hs ! i)"
    and "at_start (hs ! i) \<Longrightarrow> lock_free i hs" "\<not> abort_failed h'"
  shows "\<exists>p'. escrow_sim ids part (hs[i := h'], s') (s_ledger s', p', opened (hs[i := h']))
    \<and> ((s_ledger s', p', opened (hs[i := h'])) = (l, p, n) \<or> escrow_step ids part (l, p, n) (s_ledger s', p', opened (hs[i := h'])))
    \<and> (\<forall>u. txn_of (hs ! i) \<noteq> Some u \<longrightarrow> p' u = p u) \<and> (\<forall>t. txn_of (hs ! i) = Some t \<longrightarrow> may_move (hs ! i) (p t) (p' t))"
proof -
  have free: "lock_free i hs" using exclusive_free [of hs i] assms(1,2,4,5) by simp
  have "\<exists>a'. escrow_sim ids part (hs[i := h'], s') a' \<and> (a' = (l, p, n) \<or> escrow_step ids part (l, p, n) a')
    \<and> (\<forall>u. txn_of (hs ! i) \<noteq> Some u \<longrightarrow> fst (snd a') u = p u) \<and> (\<forall>t. txn_of (hs ! i) = Some t \<longrightarrow> may_move (hs ! i) (p t) (fst (snd a') t))"
  proof (cases "txn_of (hs ! i)")
    case None
    from escrow_sim_create [OF assms(1) free assms(2,3,4) None] None show ?thesis by (metis option.distinct(1))
  next
    case (Some t)
    from escrow_sim_txn [OF assms(1) free assms(2,3,4,6) Some] Some show ?thesis by (metis fun_upd_apply option.inject)
  qed
  then obtain l' p' n' where a': "escrow_sim ids part (hs[i := h'], s') (l', p', n')" "(l', p', n') = (l, p, n) \<or> escrow_step ids part (l, p, n) (l', p', n')"
    "\<forall>u. txn_of (hs ! i) \<noteq> Some u \<longrightarrow> p' u = p u" "\<forall>t. txn_of (hs ! i) = Some t \<longrightarrow> may_move (hs ! i) (p t) (p' t)" by auto
  then have "l' = s_ledger s'" "n' = opened (hs[i := h'])" by simp_all
  with a' show ?thesis by (intro exI [of _ p']) blast
qed

lemma commit_sets:
  assumes "commit_step p ph s = (ph', s')" "s_seenTxns s' (fst p) \<noteq> s_seenTxns s (fst p)"
  shows "\<exists>r. ph = CState r"
  using assms
  by (cases "(p, ph, s)" rule: commit_step.cases)
    (auto simp: Let_def server_state_defs replicate_eq split: option.splits prod.splits sum.splits if_splits)

text \<open>The destination marks the transaction committed after it has deposited the money.\<close>

lemma committed_deposited:
  assumes "escrow_sim ids part (hs, s) (l, p, n)" "i < length hs" "handler_step (hs ! i) s = (h', s')"
    and "txn_of (hs ! i) = Some t" "is_Commit (hs ! i)" "t \<in> ids" "fst (part t) = OpCredit"
    and "s_seenTxns s' t \<noteq> s_seenTxns s t"
  shows "p t = Deposited"
proof -
  obtain w ph where h: "hs ! i = Commit w ph" "fst w = t" using assms(4,5) by (cases "hs ! i") auto
  with assms(3,8) commit_sets [of w ph s _ s'] obtain r where "ph = CState r" by (auto simp: map_prod_def split: prod.splits)
  then have "active (hs ! i)" "hs ! i \<in> set hs" "handler_match OpCredit (hs ! i) (p t) st \<Longrightarrow> p t = Deposited" for st
    using h nth_mem [OF assms(2)] by (auto simp: active_def)
  moreover from this have "handler_match (fst (part t)) (hs ! i) (p t) (s_seenTxns s t)"
    using assms(1,4,6) unfolding escrow_sim.simps phases_match_def by blast
  ultimately show ?thesis using assms(7) by simp
qed

lemma asked_ok_Prepare: "asked_ok t c hs \<Longrightarrow> h \<in> set (of_txn t hs) \<Longrightarrow> is_Prepare h"
  using voted_yes_end by (cases "(t, c, hs)" rule: asked_ok.cases) auto

lemma pair_ok_handler:
  assumes "pair_ok t ph src hs st" "h \<in> set (of_txn t hs)"
  shows "if decided_commit ph then voted_yes h \<or> is_Commit h else is_Prepare h \<or> is_Abort h"
proof -
  have "committed_ok t hs st \<Longrightarrow> voted_yes h \<or> is_Commit h" "aborted_ok t hs st \<Longrightarrow> is_Prepare h \<or> is_Abort h" "\<not> idle_ok t hs st"
    using assms(2) by (auto simp: committed_ok_def aborted_ok_def idle_ok_def)
  then show ?thesis using assms by (cases ph) (auto split: if_splits dest: asked_ok_Prepare)
qed

lemma money_serve:
  assumes "cluster_inv (rs, ns)" "(r, txn, ph) \<in> set rs" "ns addr = Some (hs, s)" "node_sim (jobs rs) (set (txn_ids rs)) P ns"
    and "i < length hs" "handler_step (hs ! i) s = (h', s')" "\<not> at_end (hs ! i)" "money_ok P (r, txn, ph) ns"
    and "escrow_sim (set (txn_ids rs)) (leg (jobs rs) addr) (hs[i := h'], s') (s_ledger s', p', opened (hs[i := h']))"
    and "\<forall>u. txn_of (hs ! i) \<noteq> Some u \<longrightarrow> p' u = P addr u" "\<forall>t. txn_of (hs ! i) = Some t \<longrightarrow> may_move (hs ! i) (P addr t) (p' t)"
  shows "money_ok (P(addr := p')) (r, txn, ph) (ns(addr \<mapsto> (hs[i := h'], s')))"
proof -
  let ?t = "t_TxnID txn" and ?ns = "ns(addr \<mapsto> (hs[i := h'], s'))"
  have ctl: "control (r, txn, ph) ns" and t: "?t \<in> set (txn_ids rs)" and dist: "distinct (txn_ids rs)"
    using assms(1,2) txn_ids_mem by auto
  have kind: "kind_match (fst (leg (jobs rs) addr ?t)) (p' ?t)" using assms(9) t by simp
  show ?thesis
  proof (cases "txn_of (hs ! i) = Some ?t")
    case False
    have "\<forall>h \<in> set (hs_at ns addr). txn_of h = None \<longrightarrow> writes_txn h \<notin> set (txn_ids rs)"
      using assms(1) by (simp add: creates_apart_def)
    then have "writes_txn (hs ! i) \<noteq> ?t" using False assms(3) nth_mem [OF assms(5)] t by (cases "hs ! i") auto
    then have "seen_at ?ns c ?t = seen_at ns c ?t" for c using handler_step_frame [OF assms(6)] assms(3) by auto
    moreover have "(P(addr := p')) c ?t = P c ?t" for c using False assms(10) by simp
    ultimately show ?thesis using assms(8) unfolding money_ok_def by (simp del: at_upd fun_upd_apply split: option.splits prod.splits)
  next
    case True
    note here = handler_here [OF assms(5) True]
    have may: "may_move (hs ! i) (P addr ?t) (p' ?t)" using True assms(11) by blast
    show ?thesis
    proof (cases "cross r txn")
      case None
      then have "single_ok ?t (hs_at ns addr)" using ctl by (simp add: control_def)
      then have "is_Exec (hs ! i)" using assms(3) here by (simp add: single_ok_def)
      then have "p' ?t = P addr ?t" using may by (cases "hs ! i") auto
      then show ?thesis using None assms(8) by (simp add: money_ok_def)
    next
      case (Some w)
      obtain a b where w: "cross r txn = Some (a, b)" using Some by (cases w) auto
      note parts = control_parts [OF ctl w]
      have addr: "addr = si_Address a \<or> addr = si_Address b"
        using ctl w assms(3) here by (auto simp: control_def idle_ok_def)
      have leg: "fst (leg (jobs rs) addr ?t) = (if addr = si_Address a then OpDebit else OpCredit)"
        using leg_here [OF dist assms(2), of addr] w by (simp add: src_part_def dst_part_def)
      have "if decided_commit ph then voted_yes (hs ! i) \<or> is_Commit (hs ! i) else is_Prepare (hs ! i) \<or> is_Abort (hs ! i)"
        using addr pair_ok_handler [OF parts(1), of "hs ! i"] pair_ok_handler [OF parts(2), of "hs ! i"] here assms(3) by auto
      then have step: "decided_commit ph \<Longrightarrow> is_Commit (hs ! i)" and step': "\<not> decided_commit ph \<Longrightarrow> is_Prepare (hs ! i) \<or> is_Abort (hs ! i)"
        using voted_yes_end [of "hs ! i"] assms(7) by (auto split: if_splits)
      have m: "pair_money (decided_commit ph) (t_Amount txn) (P (si_Address a) ?t) (P (si_Address b) ?t) (seen_at ns (si_Address b) ?t)"
        and rest: "\<forall>c. c \<noteq> si_Address a \<longrightarrow> c \<noteq> si_Address b \<longrightarrow> P c ?t = Idle"
        using assms(8) w by (simp_all add: money_ok_def)
      have src: "pair_money (decided_commit ph) (t_Amount txn) (p' ?t) (P (si_Address b) ?t) (seen_at ns (si_Address b) ?t)"
        if "addr = si_Address a"
        using m may kind step step' that leg by (cases "hs ! i") (auto simp: pair_money_def kind_match_def split: if_splits)
      have dst: "pair_money (decided_commit ph) (t_Amount txn) (P (si_Address a) ?t) (p' ?t) (s_seenTxns s' ?t)"
        if b: "addr = si_Address b"
      proof -
        have "P addr ?t = Deposited" if "decided_commit ph" "s_seenTxns s' ?t \<noteq> s_seenTxns s ?t"
          using committed_deposited [OF node_simD [OF assms(4,3)] assms(5,6) True step [OF that(1)] t _ that(2)] leg b parts(3) by simp
        then show ?thesis
          using m may kind step step' b leg parts(3) assms(3)
          by (cases "hs ! i") (auto simp: pair_money_def kind_match_def split: if_splits)
      qed
      show ?thesis using addr src dst parts(3) rest w by (auto simp: money_ok_def)
    qed
  qed
qed

section \<open>The balance sheet\<close>

definition total_opened :: "cnodes \<Rightarrow> int" where
  "total_opened ns = (\<Sum>addr\<in>dom ns. opened (hs_at ns addr))"

definition total_worth :: "(Router \<times> Transaction) list \<Rightarrow> string set \<Rightarrow> positions \<Rightarrow> cnodes \<Rightarrow> int" where
  "total_worth js ids P ns = (\<Sum>addr\<in>dom ns. \<Sum>t\<in>ids. worth (leg js addr t) (P addr t))"

definition nodes_ok :: "nodes \<Rightarrow> bool" where
  "nodes_ok ns \<longleftrightarrow> finite (dom ns) \<and> (\<forall>addr s. ns addr = Some s \<longrightarrow> shard_ok s)"

text \<open>What a submission has on its way.\<close>

definition in_transit :: "positions \<Rightarrow> submission \<Rightarrow> bool" where
  "in_transit P rn = (case rn of (r, txn, ph) \<Rightarrow> case cross r txn of
       None \<Rightarrow> False
     | Some (a, b) \<Rightarrow> P (si_Address a) (t_TxnID txn) \<in> {Reserved, Settled} \<and> P (si_Address b) (t_TxnID txn) \<noteq> Deposited)"

definition amount_of :: "submission \<Rightarrow> int" where
  "amount_of rn = (case rn of (r, txn, ph) \<Rightarrow> sint (t_Amount txn))"

lemma sum_two:
  fixes f :: "'a \<Rightarrow> int"
  assumes "finite D" "\<And>c. c \<noteq> a \<Longrightarrow> c \<noteq> b \<Longrightarrow> f c = 0" "\<And>c. c \<notin> D \<Longrightarrow> f c = 0" "a \<noteq> b"
  shows "sum f D = f a + f b"
proof -
  have "sum f D = sum f (insert a (insert b D))" using assms(1,3) by (intro sum.mono_neutral_left) auto
  also have "\<dots> = sum f {a, b}" using assms(1,2) by (intro sum.mono_neutral_right) auto
  finally show ?thesis using assms(4) by simp
qed

lemma submission_worth:
  assumes "cluster_inv (rs, ns)" "rn \<in> set rs" "node_sim (jobs rs) ids P ns" "money_ok P rn ns" "finite (dom ns)"
  shows "(\<Sum>addr\<in>dom ns. worth (leg (jobs rs) addr (t_TxnID (fst (snd rn)))) (P addr (t_TxnID (fst (snd rn)))))
    = - (if in_transit P rn then amount_of rn else 0)"
proof -
  obtain r txn ph where rn: "rn = (r, txn, ph)" by (cases rn)
  let ?f = "\<lambda>addr. worth (leg (jobs rs) addr (t_TxnID txn)) (P addr (t_TxnID txn))"
  have idle: "P c (t_TxnID txn) = Idle \<Longrightarrow> ?f c = 0" for c by (cases "leg (jobs rs) c (t_TxnID txn)") simp
  have outside: "?f c = 0" if "c \<notin> dom ns" for c
  proof (rule idle)
    have "ns c = None" using that unfolding domIff by blast
    then show "P c (t_TxnID txn) = Idle" using assms(3) by (simp add: node_sim_def)
  qed
  show ?thesis
  proof (cases "cross r txn")
    case None
    then have "?f c = 0" for c using assms(4) idle by (simp add: rn money_ok_def)
    then show ?thesis using None by (simp add: rn in_transit_def)
  next
    case (Some w)
    obtain a b where w: "cross r txn = Some (a, b)" using Some by (cases w) auto
    have ab: "si_Address a \<noteq> si_Address b" using control_parts(3) [of r txn ph ns a b] assms(1,2) w by (simp add: rn)
    have m: "\<And>c. c \<noteq> si_Address a \<Longrightarrow> c \<noteq> si_Address b \<Longrightarrow> P c (t_TxnID txn) = Idle"
        "pair_money (decided_commit ph) (t_Amount txn) (P (si_Address a) (t_TxnID txn)) (P (si_Address b) (t_TxnID txn))
           (seen_at ns (si_Address b) (t_TxnID txn))"
      using assms(4) w by (simp_all add: rn money_ok_def)
    have "sum ?f (dom ns) = ?f (si_Address a) + ?f (si_Address b)"
      using m(1) idle outside by (intro sum_two [OF assms(5) _ _ ab]) auto
    moreover have "leg (jobs rs) c (t_TxnID txn) = (if c = si_Address a then snd (src_part txn) else snd (dst_part txn))" for c
      using leg_here [of rs r txn ph c] assms(1,2) w by (simp add: rn)
    ultimately show ?thesis
      using m(2) ab w by (auto simp: rn in_transit_def amount_of_def src_part_def dst_part_def pair_money_def split: if_splits)
  qed
qed

lemma sum_ids:
  assumes "distinct (txn_ids rs)"
  shows "(\<Sum>t\<in>set (txn_ids rs). f t) = (\<Sum>rn\<in>set rs. f (t_TxnID (fst (snd rn))))"
proof -
  have ids: "txn_ids rs = map (\<lambda>rn. t_TxnID (fst (snd rn))) rs" by (simp add: txn_ids_def case_prod_beta)
  then have "inj_on (\<lambda>rn. t_TxnID (fst (snd rn))) (set rs)" using assms by (simp add: distinct_map)
  then show ?thesis by (simp add: ids sum.reindex)
qed

lemma total_worth_transit:
  assumes "cluster_inv (rs, ns)" "node_sim (jobs rs) (set (txn_ids rs)) P ns" "\<forall>rn \<in> set rs. money_ok P rn ns" "finite (dom ns)"
  shows "total_worth (jobs rs) (set (txn_ids rs)) P ns = - (\<Sum>rn | rn \<in> set rs \<and> in_transit P rn. amount_of rn)"
proof -
  have dist: "distinct (txn_ids rs)" using assms(1) by simp
  have "total_worth (jobs rs) (set (txn_ids rs)) P ns
      = (\<Sum>t\<in>set (txn_ids rs). \<Sum>addr\<in>dom ns. worth (leg (jobs rs) addr t) (P addr t))"
    unfolding total_worth_def by (rule sum.swap)
  also have "\<dots> = (\<Sum>rn\<in>set rs. - (if in_transit P rn then amount_of rn else 0))"
    unfolding sum_ids [OF dist] using submission_worth [OF assms(1) _ assms(2)] assms(3,4) by (intro sum.cong) auto
  also have "\<dots> = - (\<Sum>rn\<in>set rs. if in_transit P rn then amount_of rn else 0)" by (simp add: sum_negf)
  also have "(\<Sum>rn\<in>set rs. if in_transit P rn then amount_of rn else 0) = (\<Sum>rn | rn \<in> set rs \<and> in_transit P rn. amount_of rn)"
    using sum.inter_filter [of "set rs" amount_of "in_transit P"] by simp
  finally show ?thesis .
qed

lemma transit_positive:
  assumes "node_sim (jobs rs) (set (txn_ids rs)) P ns" "cluster_inv (rs, ns)" "money_ok P rn ns" "rn \<in> set rs" "in_transit P rn"
  shows "0 < amount_of rn"
proof -
  obtain r txn ph where rn: "rn = (r, txn, ph)" by (cases rn)
  obtain a b where w: "cross r txn = Some (a, b)" using assms(5) by (auto simp: rn in_transit_def split: option.splits)
  let ?A = "si_Address a" and ?t = "t_TxnID txn"
  have q: "P ?A ?t \<in> {Reserved, Settled}" using assms(5) w by (simp add: rn in_transit_def)
  show ?thesis
  proof (cases "P ?A ?t = Reserved")
    case True
    then obtain hs s where n: "ns ?A = Some (hs, s)" using assms(1) by (cases "ns ?A") (auto simp: node_sim_def)
    have "?t \<in> set (txn_ids rs)" using assms(4) txn_ids_mem by (simp add: rn)
    then have "backed (leg (jobs rs) ?A ?t) (s_ledger s)" using node_simD [OF assms(1) n] True by simp
    moreover have "leg (jobs rs) ?A ?t = (OpDebit, t_Source txn, t_Amount txn)"
      using leg_here [of rs r txn ph ?A] assms(2,4) w by (simp add: rn src_part_def)
    ultimately show ?thesis by (simp add: rn amount_of_def backed_def signed_order)
  next
    case False
    then show ?thesis using q assms(3) w by (auto simp: rn money_ok_def pair_money_def amount_of_def split: if_splits)
  qed
qed

section \<open>The invariant\<close>

fun funds_inv :: "int \<Rightarrow> cluster \<Rightarrow> positions \<Rightarrow> bool" where
  "funds_inv base (rs, ns) P \<longleftrightarrow> cluster_inv (rs, ns) \<and> node_sim (jobs rs) (set (txn_ids rs)) P ns
     \<and> (\<forall>rn \<in> set rs. money_ok P rn ns) \<and> nodes_ok (strip ns)
     \<and> cluster_funds (strip ns) = base + total_opened ns + total_worth (jobs rs) (set (txn_ids rs)) P ns"

text \<open>No abort failed to write its marker, and the money of the system fits into 63 bits.\<close>

definition within :: "int \<Rightarrow> cnodes \<Rightarrow> bool" where
  "within base ns \<longleftrightarrow> (\<forall>addr. no_abort_failed (hs_at ns addr)) \<and> base + total_opened ns < 2 ^ 63"

lemma sum_update:
  fixes f g :: "'a \<Rightarrow> int"
  assumes "finite D" "a \<in> D" "\<And>x. x \<noteq> a \<Longrightarrow> g x = f x"
  shows "sum g D = sum f D - f a + g a"
proof -
  have "sum g (D - {a}) = sum f (D - {a})" using assms(3) by (intro sum.cong) auto
  then show ?thesis using assms(1,2) by (simp add: sum.remove)
qed

lemma totals_update:
  assumes "finite (dom ns)" "ns addr = Some (hs, s)"
  shows "total_opened (ns(addr \<mapsto> (hs', s'))) = total_opened ns - opened hs + opened hs'"
    "total_worth js ids (P(addr := p')) (ns(addr \<mapsto> (hs', s')))
      = total_worth js ids P ns - (\<Sum>t\<in>ids. worth (leg js addr t) (P addr t)) + (\<Sum>t\<in>ids. worth (leg js addr t) (p' t))"
proof -
  have d: "dom (ns(addr \<mapsto> (hs', s'))) = dom ns" "addr \<in> dom ns" using assms(2) by auto
  show "total_opened (ns(addr \<mapsto> (hs', s'))) = total_opened ns - opened hs + opened hs'"
    unfolding total_opened_def d(1) using assms(2)
    by (subst sum_update [OF assms(1) d(2), where f = "\<lambda>c. opened (hs_at ns c)"]) auto
  show "total_worth js ids (P(addr := p')) (ns(addr \<mapsto> (hs', s')))
      = total_worth js ids P ns - (\<Sum>t\<in>ids. worth (leg js addr t) (P addr t)) + (\<Sum>t\<in>ids. worth (leg js addr t) (p' t))"
    unfolding total_worth_def d(1)
    by (subst sum_update [OF assms(1) d(2), where f = "\<lambda>c. \<Sum>t\<in>ids. worth (leg js c t) (P c t)"]) auto
qed

lemma opened_mono:
  assumes "shard_conc (hs, s) (hs', s')"
  shows "opened hs \<le> opened hs'"
  using assms
proof cases
  case (step i h')
  have "opened_by (hs ! i) \<le> opened_by h'"
  proof (cases "txn_of (hs ! i)")
    case None
    from create_step_opens [OF step(5) None step(3)] show ?thesis
      by (auto simp: Ledger_CreateAccount_def signed_order split: if_splits)
  next
    case (Some t)
    then show ?thesis using txn_opens_nothing [of "hs ! i"] txn_opens_nothing [of h'] handler_step_keeps(1) [OF step(5)] by simp
  qed
  then show ?thesis using opened_update [OF step(2), of h'] step(1) by simp
qed

lemma transit_nonneg:
  assumes "cluster_inv (rs, ns)" "node_sim (jobs rs) (set (txn_ids rs)) P ns" "\<forall>rn \<in> set rs. money_ok P rn ns" "finite (dom ns)"
  shows "total_worth (jobs rs) (set (txn_ids rs)) P ns \<le> 0"
proof -
  have "0 \<le> (\<Sum>rn | rn \<in> set rs \<and> in_transit P rn. amount_of rn)"
    using transit_positive [OF assms(2,1)] assms(3) by (intro sum_nonneg) (auto intro: less_imp_le)
  then show ?thesis unfolding total_worth_transit [OF assms] by simp
qed

lemma funds_inv_serve:
  assumes inv: "funds_inv base (rs, ns) P" and n: "ns addr = Some (hs, s)" and st: "shard_conc (hs, s) (hs', s')"
    and ok: "within base (ns(addr \<mapsto> (hs', s')))"
  shows "\<exists>P'. funds_inv base (rs, ns(addr \<mapsto> (hs', s'))) P'"
  using st
proof cases
  case (step i h')
  let ?js = "jobs rs" and ?ids = "set (txn_ids rs)" and ?ns = "ns(addr \<mapsto> (hs', s'))"
  have parts: "cluster_inv (rs, ns)" "node_sim ?js ?ids P ns" "\<forall>rn \<in> set rs. money_ok P rn ns" "nodes_ok (strip ns)"
    "cluster_funds (strip ns) = base + total_opened ns + total_worth ?js ?ids P ns" using inv by simp_all
  have fin: "finite (dom ns)" and sok: "shard_ok s" using parts(4) n by (auto simp: nodes_ok_def strip_Some)
  have "no_abort_failed (hs_at ?ns addr)" using ok unfolding within_def by blast
  then have "\<not> abort_failed h'" using step(1,2) by (simp add: no_abort_failed_def set_update_memI)
  from escrow_handler [OF node_simD [OF parts(2) n] step(2,5,3,4) this] obtain p'
    where sim: "escrow_sim ?ids (leg ?js addr) (hs', s') (s_ledger s', p', opened hs')"
      and move: "(s_ledger s', p', opened hs') = (s_ledger s, P addr, opened hs)
        \<or> escrow_step ?ids (leg ?js addr) (s_ledger s, P addr, opened hs) (s_ledger s', p', opened hs')"
      and own: "\<forall>u. txn_of (hs ! i) \<noteq> Some u \<longrightarrow> p' u = P addr u" "\<forall>t. txn_of (hs ! i) = Some t \<longrightarrow> may_move (hs ! i) (P addr t) (p' t)"
    unfolding step(1) by blast
  let ?P = "P(addr := p')"
  have inv': "cluster_inv (rs, ?ns)"
    using cluster_inv_step [OF cluster_step.serve [where ns = ns and addr = addr, OF n st] parts(1)] .
  have sim': "node_sim ?js ?ids ?P ?ns" by (rule node_sim_update [OF parts(2) sim])
  have money': "\<forall>rn \<in> set rs. money_ok ?P rn ?ns"
    using money_serve [OF parts(1) _ n parts(2) step(2,5,3) _ sim [unfolded step(1)] own] parts(3) unfolding step(1) by auto
  note tot = totals_update [OF fin n, where hs' = hs' and s' = s']
  have neg: "total_worth ?js ?ids ?P ?ns \<le> 0" by (rule transit_nonneg [OF inv' sim' money']) (use fin in simp)
  have "base + total_opened ns < 2 ^ 63" using ok tot(1) opened_mono [OF st] by (simp add: within_def)
  then have "cluster_ok (strip ns)"
    using parts(4,5) transit_nonneg [OF parts(1-3) fin] by (simp add: cluster_ok_def nodes_ok_def)
  from shard_funds_le_cluster [OF this, of addr s] strip_simps(3) [of ns addr hs s, OF n]
  have bound: "shard_funds s + (opened hs' - opened hs) + (\<Sum>t\<in>?ids. worth (leg ?js addr t) (p' t)) - (\<Sum>t\<in>?ids. worth (leg ?js addr t) (P addr t)) < 2 ^ 63"
    using parts(5) tot(1) tot(2) [where js = ?js and ids = ?ids and P = P and p' = p'] neg ok by (simp add: within_def)
  have "ledger_ok (s_ledger s') \<and> ledger_funds (s_ledger s') = ledger_funds (s_ledger s) + (opened hs' - opened hs)
      + (\<Sum>t\<in>?ids. worth (leg ?js addr t) (p' t)) - (\<Sum>t\<in>?ids. worth (leg ?js addr t) (P addr t))"
    using move
  proof
    assume "escrow_step ?ids (leg ?js addr) (s_ledger s, P addr, opened hs) (s_ledger s', p', opened hs')"
    from escrow_step_funds [OF this] sok bound show ?thesis by (simp add: shard_ok_def shard_funds_def)
  qed (use sok in \<open>simp add: shard_ok_def\<close>)
  then have "shard_ok s'" "shard_funds s' = shard_funds s + (opened hs' - opened hs)
      + (\<Sum>t\<in>?ids. worth (leg ?js addr t) (p' t)) - (\<Sum>t\<in>?ids. worth (leg ?js addr t) (P addr t))"
    by (simp_all add: shard_ok_def shard_funds_def)
  then have "cluster_funds (strip ?ns) = base + total_opened ?ns + total_worth ?js ?ids ?P ?ns" "nodes_ok (strip ?ns)"
    using cluster_update [of "strip ns" addr s s'] fin n parts(4,5) tot by (auto simp: nodes_ok_def)
  then show ?thesis using inv' sim' money' by (intro exI [of _ ?P]) simp
qed

lemma funds_inv_run:
  assumes inv: "funds_inv base (rs, ns) P" and i: "i < length rs" "rs ! i = (r, txn, ph)" and mv: "run_move ch r txn ph ns = Some (ph', ns')"
  shows "funds_inv base (rs[i := (r, txn, ph')], ns') P"
proof -
  let ?rs = "rs[i := (r, txn, ph')]"
  have parts: "cluster_inv (rs, ns)" "node_sim (jobs rs) (set (txn_ids rs)) P ns" "\<forall>rn \<in> set rs. money_ok P rn ns" "nodes_ok (strip ns)"
    "cluster_funds (strip ns) = base + total_opened ns + total_worth (jobs rs) (set (txn_ids rs)) P ns" using inv by simp_all
  have mem: "(r, txn, ph) \<in> set rs" using i nth_mem by metis
  note st = cluster_step.run [OF i mv]
  note eff = node_sim_run [OF parts(1) mem mv parts(2)]
  have ids: "txn_ids ?rs = txn_ids rs" "jobs ?rs = jobs rs" using txn_ids_step [OF st] jobs_step [OF st] by simp_all
  have "money_ok P rn ns'" if "rn \<in> set ?rs" for rn
  proof (cases "rn = (r, txn, ph')")
    case True
    then show ?thesis using money_own [OF parts(1) mem mv parts(2)] parts(3) mem by blast
  next
    case False
    then have "money_ok P rn ns" using that parts(3) set_update_subset_insert [of rs i "(r, txn, ph')"] by blast
    then show ?thesis using eff(5) by (auto simp: money_ok_def split: option.splits)
  qed
  then show ?thesis
    using cluster_inv_step [OF st parts(1)] parts(4,5) eff by (simp add: ids total_opened_def total_worth_def)
qed

lemma within_before:
  assumes "cluster_step c c'" "within base (snd c')" "finite (dom (snd c))"
  shows "within base (snd c)"
  using assms
proof (induction rule: cluster_step.induct)
  case (run i rs r txn ph ch ns ph' ns')
  have "opened (hs_at ns' addr) = opened (hs_at ns addr) \<and> set (hs_at ns addr) \<subseteq> set (hs_at ns' addr) \<and> dom ns' = dom ns" for addr
    using run_move_request [OF run(3)]
  proof (elim disjE exE conjE)
    fix b h assume h: "arrives b h ns ns'" "request_of txn ph b h"
    have "opened_by h = 0" using request_of_props [OF h(2)] by (cases h) auto
    moreover have "dom ns' = dom ns" using h(1) by (auto simp: arrives_def split: if_splits)
    ultimately show ?thesis using arrives_at(1,2) [OF h(1)] by (cases "addr = b") (auto simp: opened_def)
  qed simp
  then show ?case using run(4) by (simp add: within_def total_opened_def no_abort_failed_def) blast
next
  case (serve ns addr c c' rs)
  obtain hs s hs' s' where c: "c = (hs, s)" "c' = (hs', s')" by (cases c, cases c')
  have st: "shard_conc (hs, s) (hs', s')" and n: "ns addr = Some (hs, s)" using serve c by simp_all
  have "no_abort_failed (hs_at ns b)" for b
  proof (cases "b = addr")
    case True
    have "no_abort_failed (hs_at (ns(addr \<mapsto> (hs', s'))) addr)" using serve(3) unfolding within_def c snd_conv by blast
    then show ?thesis using no_abort_failed_before [OF st] True n by simp
  next
    case False
    have "no_abort_failed (hs_at (ns(addr \<mapsto> (hs', s'))) b)" using serve(3) unfolding within_def c snd_conv by blast
    then show ?thesis using False by simp
  qed
  moreover have "base + total_opened ns < 2 ^ 63"
    using serve(3,4) [unfolded snd_conv c within_def] totals_update(1) [of ns addr hs s hs' s'] n opened_mono [OF st] by linarith
  ultimately show ?case by (simp add: within_def)
qed

lemma funds_inv_steps:
  assumes "cluster_step\<^sup>*\<^sup>* c c'" "funds_inv base c P0" "finite (dom (snd c))"
  shows "finite (dom (snd c')) \<and> (within base (snd c') \<longrightarrow> (\<exists>P. funds_inv base c' P))"
  using assms(1)
proof (induction rule: rtranclp_induct)
  case (step c1 c2)
  have fin: "finite (dom (snd c2))" using step work_left_step [of "fst c1" "snd c1" "fst c2" "snd c2"] by simp
  have "\<exists>P. funds_inv base c2 P" if ok: "within base (snd c2)"
  proof -
    obtain P where P: "funds_inv base c1 P" using step(2,3) within_before [OF step(2) ok] by blast
    show ?thesis
      using step(2)
    proof cases
      case (run i rs r txn ph ch ns ph' ns')
      then show ?thesis using funds_inv_run [of base rs ns P] P by blast
    next
      case (serve ns addr d d' rs)
      then show ?thesis using funds_inv_serve [of base rs ns P addr "fst d" "snd d" "fst d'" "snd d'"] P ok by simp
    qed
  qed
  with fin show ?case by blast
qed (use assms(2,3) in blast)

lemma fresh_funds:
  assumes "fresh_start rs ns" "nodes_ok (strip ns)"
  shows "funds_inv (cluster_funds (strip ns)) (rs, ns) (\<lambda>addr t. Idle)"
proof -
  have idle: "worth w Idle = 0" for w by (cases w) simp
  have start: "at_start h" "is_Exec h \<or> txn_of h = None" "writes_txn h \<notin> set (txn_ids rs)" if "h \<in> set (hs_at ns addr)" for h addr
    using fresh_at(1) [OF assms(1) that] by auto
  have "opened (hs_at ns addr) = 0" for addr using start(1) start_opened by blast
  then have zero: "total_opened ns = 0" "total_worth (jobs rs) (set (txn_ids rs)) (\<lambda>addr t. Idle) ns = 0"
    by (simp_all add: total_opened_def total_worth_def idle)
  have "escrow_sim (set (txn_ids rs)) (leg (jobs rs) addr) (hs, s) (s_ledger s, \<lambda>t. Idle, opened hs)" if n: "ns addr = Some (hs, s)" for addr hs s
  proof -
    have hs: "hs_at ns addr = hs" using n by simp
    have inactive: "\<not> active h" if "h \<in> set hs" for h using start(1) [of h addr] that hs by (simp add: active_def)
    have "request_ok (set (txn_ids rs)) (leg (jobs rs) addr) h" if "h \<in> set hs" for h
      using start(2,3) [of h addr] that hs by (cases h) auto
    moreover have "s_seenTxns s t = None" if "t \<in> set (txn_ids rs)" for t using fresh_at(2) [OF assms(1) that, of addr] n by simp
    ultimately show ?thesis
      using inactive by (auto simp: exclusive_def kind_match_def phases_match_def idle_match_def)
  qed
  moreover have "money_ok (\<lambda>addr t. Idle) (r, txn, ph) ns" if "(r, txn, ph) \<in> set rs" for r txn ph
  proof -
    have "ph = Routing" using assms(1) that by (auto simp: fresh_start_def)
    then show ?thesis by (simp add: money_ok_def pair_money_def split: option.splits)
  qed
  ultimately show ?thesis
    using fresh_start_inv [OF assms(1)] assms(2) zero by (auto simp: node_sim_def simp del: escrow_sim.simps)
qed

section \<open>Conservation\<close>

text \<open>A transaction is in progress while some shard holds it as prepared or is working on a request of it.\<close>

definition in_progress :: "string \<Rightarrow> cnodes \<Rightarrow> bool" where
  "in_progress t ns \<longleftrightarrow> (\<exists>addr hs s. ns addr = Some (hs, s) \<and> (s_seenTxns s t = Some StatePrepared \<or> \<not> at_rest hs t))"

lemma transit_in_progress:
  assumes "cluster_inv (rs, ns)" "node_sim (jobs rs) (set (txn_ids rs)) P ns" "(r, txn, ph) \<in> set rs" "money_ok P (r, txn, ph) ns"
    and "in_transit P (r, txn, ph)"
  shows "in_progress (t_TxnID txn) ns"
proof -
  obtain a b where w: "cross r txn = Some (a, b)" using assms(5) by (auto simp: in_transit_def split: option.splits)
  let ?A = "si_Address a" and ?B = "si_Address b" and ?t = "t_TxnID txn"
  have q: "P ?A ?t \<in> {Reserved, Settled}" "P ?B ?t \<noteq> Deposited" using assms(5) w by (simp_all add: in_transit_def)
  have m: "pair_money (decided_commit ph) (t_Amount txn) (P ?A ?t) (P ?B ?t) (seen_at ns ?B ?t)" using assms(4) w by (simp add: money_ok_def)
  have ctl: "control (r, txn, ph) ns" using assms(1,3) by simp
  show ?thesis
  proof (cases "decided_commit ph")
    case True
    then have "seen_at ns ?B ?t = Some StatePrepared" using pair_ok_table(1) [OF control_parts(2) [OF ctl w] True] m q(2) by (auto simp: pair_money_def)
    then show ?thesis by (auto simp: in_progress_def seen_at_def split: option.splits)
  next
    case False
    then have res: "P ?A ?t = Reserved" using m q(1) by (auto simp: pair_money_def)
    then obtain hs s where n: "ns ?A = Some (hs, s)" using assms(2) by (cases "ns ?A") (auto simp: node_sim_def)
    have "?t \<in> set (txn_ids rs)" by (rule txn_ids_mem [OF assms(3)])
    then have "at_rest hs ?t \<Longrightarrow> idle_match (fst (leg (jobs rs) ?A ?t)) Reserved (s_seenTxns s ?t)"
      using node_simD [OF assms(2) n] res by (auto simp: phases_match_def at_rest_def)
    then show ?thesis using n by (auto simp: in_progress_def idle_match_def)
  qed
qed

text \<open>
  C2: Money in the concurrent system. Any number of submissions with different new identifiers is at work in
  any number of coordinators, the shards work on their requests one access at a time, requests are lost,
  served late or given up on, and accounts are opened meanwhile. At every moment no balance is negative, and
  the balances of all shards and the amounts that some of the submissions have on their way add up to what
  the shards had at the start and accounts were opened with; a submission has money on its way only while a
  shard holds its transaction as prepared or works on it. So the system never creates money, and once
  nothing is prepared and no handler is at work the total is exact.
\<close>

theorem cluster_conserves_money:
  assumes "fresh_start rs ns" "nodes_ok (strip ns)" "cluster_step\<^sup>*\<^sup>* (rs, ns) (rs', ns')"
    and "\<forall>addr. no_abort_failed (hs_at ns' addr)" "cluster_funds (strip ns) + total_opened ns' < 2 ^ 63"
  shows "nodes_ok (strip ns') \<and> (\<exists>T \<subseteq> set rs'.
      cluster_funds (strip ns') + (\<Sum>rn\<in>T. amount_of rn) = cluster_funds (strip ns) + total_opened ns'
    \<and> (\<forall>(r, txn, ph) \<in> T. 0 < sint (t_Amount txn) \<and> in_progress (t_TxnID txn) ns'))"
proof -
  let ?base = "cluster_funds (strip ns)"
  have fin: "finite (dom ns)" using assms(2) by (simp add: nodes_ok_def)
  have "within ?base ns'" using assms(4,5) by (simp add: within_def)
  then obtain P where inv: "funds_inv ?base (rs', ns') P"
    using funds_inv_steps [OF assms(3) fresh_funds [OF assms(1,2)]] fin by auto
  then have parts: "cluster_inv (rs', ns')" "node_sim (jobs rs') (set (txn_ids rs')) P ns'" "\<forall>rn \<in> set rs'. money_ok P rn ns'" "nodes_ok (strip ns')"
    "cluster_funds (strip ns') = ?base + total_opened ns' + total_worth (jobs rs') (set (txn_ids rs')) P ns'" by simp_all
  let ?T = "{rn. rn \<in> set rs' \<and> in_transit P rn}"
  have "finite (dom ns')" using parts(4) by (simp add: nodes_ok_def)
  then have "cluster_funds (strip ns') + (\<Sum>rn\<in>?T. amount_of rn) = ?base + total_opened ns'"
    using parts(5) total_worth_transit [OF parts(1-3)] by simp
  moreover have "0 < sint (t_Amount txn) \<and> in_progress (t_TxnID txn) ns'" if "(r, txn, ph) \<in> ?T" for r txn ph
    using transit_positive [OF parts(2,1), of "(r, txn, ph)"] transit_in_progress [OF parts(1,2), of r txn ph] parts(3) that by (auto simp: amount_of_def)
  ultimately show ?thesis using parts(4) by (intro conjI exI [of _ ?T]) auto
qed

theorem cluster_conserves_money_witness: "cluster_funds (strip (snd example_end)) = 300"
proof -
  have strip: "strip example_nodes = example_cluster"
    by (auto simp: strip_def example_nodes_def example_cluster_def fun_eq_iff)
  have base: "nodes_ok (strip example_nodes)" "cluster_funds (strip example_nodes) = 300"
    using example_cluster_ok unfolding strip by (auto simp: nodes_ok_def cluster_ok_def)
  have e: "no_abort_failed (hs_at (snd example_end) addr) \<and> opened (hs_at (snd example_end) addr) = 0
      \<and> (\<forall>t \<in> {''t1'', ''t2''}. at_rest (hs_at (snd example_end) addr) t \<and> seen_at (snd example_end) addr t \<noteq> Some StatePrepared)"
    if "addr \<in> dom (snd example_end)" for addr
    using example_end_eval that unfolding example_end_nodes by (auto simp: case_prod_unfold)
  have "no_abort_failed (hs_at (snd example_end) addr)" for addr
    using e [of addr] by (cases "snd example_end addr") (auto simp: hs_at_def no_abort_failed_def)
  moreover have opened: "total_opened (snd example_end) = 0" using e by (simp add: total_opened_def)
  ultimately obtain T where T: "T \<subseteq> set (fst example_end)"
    "cluster_funds (strip (snd example_end)) + (\<Sum>rn\<in>T. amount_of rn) = 300"
    "\<forall>(r, txn, ph) \<in> T. 0 < sint (t_Amount txn) \<and> in_progress (t_TxnID txn) (snd example_end)"
    using cluster_conserves_money [OF example_start_ok(1) base(1) example_end_run] unfolding base(2) opened by auto
  have "\<not> in_progress t (snd example_end)" if "t \<in> {''t1'', ''t2''}" for t
  proof
    assume "in_progress t (snd example_end)"
    then obtain addr hs s where at: "snd example_end addr = Some (hs, s)" "s_seenTxns s t = Some StatePrepared \<or> \<not> at_rest hs t"
      by (auto simp: in_progress_def)
    then show False using e [of addr] that by auto
  qed
  moreover have "t_TxnID txn \<in> {''t1'', ''t2''} \<and> in_progress (t_TxnID txn) (snd example_end)" if "(r, txn, ph) \<in> T" for r txn ph
  proof
    have "txn = example_txn 30 \<or> txn = example_return"
      using subsetD [OF T(1) that] unfolding example_end_runs by (auto simp: example_runs_def)
    then show "t_TxnID txn \<in> {''t1'', ''t2''}" by (auto simp: example_txn_def example_return_def)
    show "in_progress (t_TxnID txn) (snd example_end)" using bspec [OF T(3) that] by simp
  qed
  ultimately have "(r, txn, ph) \<notin> T" for r txn ph by meson
  then have "T = {}" by auto
  then show ?thesis using T(2) by simp
qed

end
