(* ===== verification/ClusterRoute.thy ===== *)
theory ClusterRoute
  imports ClusterFunds
begin

text \<open>
  The runs of \<open>Router_Route\<close>, in which every request is served as a whole, are runs of the concurrent system: for
  every network and every interleaving of a run there is a schedule of \<open>Cluster\<close> that gives the same answer and
  leaves the same shards. What holds of every schedule holds of \<open>Router_Route\<close>.
\<close>

section \<open>A request served as a whole\<close>

text \<open>A system in which no handler is waiting or at work.\<close>

definition quiet :: "cnodes \<Rightarrow> bool" where
  "quiet ns \<longleftrightarrow> (\<forall>addr hs s. ns addr = Some (hs, s) \<longrightarrow> (\<forall>h \<in> set hs. at_end h))"

lemma quiet_upd: "quiet ns \<Longrightarrow> \<forall>h \<in> set hs. at_end h \<Longrightarrow> quiet (ns(addr \<mapsto> (hs, s)))"
  by (simp add: quiet_def)

text \<open>The request with the effect \<open>f\<close> on its server, over a network.\<close>

definition net_call :: "net \<Rightarrow> string \<Rightarrow> (ShardServer \<Rightarrow> ShardServer \<times> 'r) \<Rightarrow> 'r \<Rightarrow> nodes \<Rightarrow> nodes \<times> 'r" where
  "net_call n addr f failed m =
     (case m addr of
        None \<Rightarrow> (m, failed)
      | Some s \<Rightarrow> if n = RequestLost then (m, failed)
          else (m(addr \<mapsto> fst (f s)), if n = ReplyLost then failed else snd (f s)))"

text \<open>The handler that starts as \<open>h\<close> does \<open>f\<close> when nothing disturbs it.\<close>

definition performs :: "handler \<Rightarrow> (handler \<Rightarrow> 'r) \<Rightarrow> (ShardServer \<Rightarrow> ShardServer \<times> 'r) \<Rightarrow> bool" where
  "performs h answer f \<longleftrightarrow> at_start h
     \<and> (\<forall>s. \<exists>k h'. handler_run k (h, s) = (h', fst (f s)) \<and> at_end h' \<and> answer h' = snd (f s))"

lemma handler_run_conc:
  assumes "\<forall>h \<in> set hs. at_end h" "handler_run k (g, s) = (g', s')"
  shows "shard_conc\<^sup>*\<^sup>* (hs @ [g], s) (hs @ [g'], s')"
  using assms(2)
proof (induction k arbitrary: g s)
  case (Suc k)
  show ?case
  proof (cases "at_end g")
    case True
    then show ?thesis using Suc.prems by (auto simp: step_at_end)
  next
    case False
    obtain g1 s1 where step: "handler_step g s = (g1, s1)" by force
    have "lock_free (length hs) (hs @ [g])"
      using assms(1) by (auto simp: lock_free_def active_def nth_append)
    then have "shard_conc (hs @ [g], s) ((hs @ [g])[length hs := g1], s1)"
      using False step by (intro shard_conc.step) simp_all
    moreover have "shard_conc\<^sup>*\<^sup>* (hs @ [g1], s1) (hs @ [g'], s')" using Suc.IH Suc.prems step by simp
    ultimately show ?thesis by (simp add: converse_rtranclp_into_rtranclp)
  qed
qed simp

lemma serve_run:
  assumes "ns addr = Some c" "shard_conc\<^sup>*\<^sup>* c c'"
  shows "cluster_step\<^sup>*\<^sup>* (rs, ns) (rs, ns(addr \<mapsto> c'))"
  using assms(2)
proof (induction rule: rtranclp_induct)
  case (step c1 c2)
  have "cluster_step (rs, ns(addr \<mapsto> c1)) (rs, (ns(addr \<mapsto> c1))(addr \<mapsto> c2))"
    using step(2) by (intro cluster_step.serve) simp
  with step(3) show ?case by (simp add: rtranclp.rtrancl_into_rtrancl del: fun_upd_apply)
qed (use assms(1) in \<open>simp add: fun_upd_idem\<close>)

text \<open>A call in the middle of a submission, through to its answer. \<open>K\<close> is the phase around the call and \<open>K'\<close>
  what the goroutine makes of its return.\<close>

lemma call_runs:
  assumes "quiet ns" "performs h answer f" "net_call n addr f failed (strip ns) = (m, e)" "i < length rs"
    and move: "\<And>ev c ns. run_move (D ev) r txn (K c) ns = map_option (map_prod K' id) (call_move ev addr h answer failed c ns)"
    and wait: "\<And>j. K' (Waiting j) = K (Waiting j)"
  shows "\<exists>ns'. quiet ns' \<and> strip ns' = m
    \<and> cluster_step\<^sup>*\<^sup>* (rs[i := (r, txn, K Unsent)], ns) (rs[i := (r, txn, K' (Returned e))], ns')"
proof -
  have run: "cluster_step (rs[i := (r, txn, K c)], ns1) (rs[i := (r, txn, K' c')], ns2)"
    if "call_move ev addr h answer failed c ns1 = Some (c', ns2)" for ev c c' ns1 ns2
    using cluster_step.run [of i "rs[i := (r, txn, K c)]" r txn "K c" "D ev" ns1 "K' c'" ns2] assms(4) that
    by (simp add: move)
  show ?thesis
  proof (cases "ns addr = None \<or> n = RequestLost")
    case True
    then have "m = strip ns" "e = failed" using assms(3) by (auto simp: net_call_def strip_def split: option.splits)
    moreover have "cluster_step (rs[i := (r, txn, K Unsent)], ns) (rs[i := (r, txn, K' (Returned failed))], ns)"
      by (rule run [of Lose]) simp
    ultimately show ?thesis using assms(1) by blast
  next
    case False
    then obtain hs s where at: "ns addr = Some (hs, s)" by (cases "ns addr") auto
    obtain k h' where h': "handler_run k (h, s) = (h', fst (f s))" "at_end h'" "answer h' = snd (f s)"
      using assms(2) unfolding performs_def by blast
    have m: "m = (strip ns)(addr \<mapsto> fst (f s))" "e = (if n = ReplyLost then failed else snd (f s))"
      using assms(3) False at by (auto simp: net_call_def strip_def)
    let ?ns1 = "ns(addr \<mapsto> (hs @ [h], s))" and ?ns2 = "ns(addr \<mapsto> (hs @ [h'], fst (f s)))" and ?j = "length hs"
    have ended: "\<forall>h \<in> set hs. at_end h" using assms(1) at unfolding quiet_def by blast
    have "cluster_step (rs[i := (r, txn, K Unsent)], ns) (rs[i := (r, txn, K (Waiting ?j))], ?ns1)"
      unfolding wait [symmetric] by (rule run [of Send]) (simp add: at)
    also have "cluster_step\<^sup>*\<^sup>* (rs[i := (r, txn, K (Waiting ?j))], ?ns1) (rs[i := (r, txn, K (Waiting ?j))], ?ns2)"
      using serve_run [of ?ns1 addr, OF _ handler_run_conc [OF ended h'(1)]] by simp
    also have "cluster_step (rs[i := (r, txn, K (Waiting ?j))], ?ns2) (rs[i := (r, txn, K' (Returned e))], ?ns2)"
      by (cases "n = ReplyLost"; rule run [of "if n = ReplyLost then GiveUp else Receive"]) (simp_all add: m h')
    finally have "cluster_step\<^sup>*\<^sup>* (rs[i := (r, txn, K Unsent)], ns) (rs[i := (r, txn, K' (Returned e))], ?ns2)" by simp
    moreover have "quiet ?ns2" using ended h'(2) assms(1) by (intro quiet_upd) auto
    moreover have "strip ?ns2 = m" by (simp add: m)
    ultimately show ?thesis by blast
  qed
qed

section \<open>The requests of the coordinator\<close>

lemma request_performs:
  "performs (Prepare (t, op, a, x) PBegin) op_answer (apsnd (post_result StatusConflict) \<circ> ShardServer_PrepareTransaction t op a x)"
  "performs (Commit (t, op, a, x) CBegin) op_answer (apsnd (post_result StatusConflict) \<circ> ShardServer_CommitTransaction t op a x)"
  "performs (Abort (t, op, a, x) ABegin) op_answer (apsnd (post_result StatusInternalServerError) \<circ> ShardServer_AbortTransaction t op a x)"
  using prepare_alone [of t op a x, OF prod.collapse [symmetric]] commit_alone [of t op a x, OF prod.collapse [symmetric]]
    abort_alone [of t op a x, OF prod.collapse [symmetric]]
  unfolding performs_def by (fastforce)+

lemma request_calls:
  "ShardClient_Prepare n addr t op a x = net_call n addr (apsnd (post_result StatusConflict) \<circ> ShardServer_PrepareTransaction t op a x) (Some ClientRequestFailed)"
  "ShardClient_Commit n addr t op a x = net_call n addr (apsnd (post_result StatusConflict) \<circ> ShardServer_CommitTransaction t op a x) (Some ClientRequestFailed)"
  "ShardClient_Abort n addr t op a x = net_call n addr (apsnd (post_result StatusInternalServerError) \<circ> ShardServer_AbortTransaction t op a x) (Some ClientRequestFailed)"
  by (auto simp: fun_eq_iff net_call_def ShardClient_Prepare_def ShardClient_Commit_def ShardClient_Abort_def ShardClient_postJSON_def
      ShardClient_doPost_def handlePrepare_def handleCommit_def handleAbort_def op_request_def post_result_def
      split: option.splits prod.splits)

definition exec_result :: "Transaction \<Rightarrow> ShardServer \<Rightarrow> ShardServer \<times> (client_error + ledger_error TransactionResult)" where
  "exec_result txn s = (case ShardServer_ExecuteSingleShard txn s of
     (s', Inl err) \<Rightarrow> (s', Inl (ClientStatus StatusInternalServerError (ErrorBody (ServerError err))))
   | (s', Inr res) \<Rightarrow> (s', Inr res))"

lemma execute_calls: "ShardClient_Execute n addr txn = net_call n addr (exec_result txn) (Inl ClientRequestFailed)"
  by (auto simp: fun_eq_iff net_call_def exec_result_def ShardClient_Execute_def ShardClient_doPost_def handleExecute_def
      split: option.splits prod.splits sum.splits)

lemma exec_handler_run: "exec_run k txn (ph, s) = (ph', s') \<Longrightarrow> handler_run k (Exec txn ph, s) = (Exec txn ph', s')"
proof (induction k arbitrary: ph s)
  case (Suc k)
  then show ?case by (cases "exec_step txn ph s") simp
qed simp

lemma execute_performs: "performs (Exec txn EBegin) exec_answer (exec_result txn)"
proof -
  have "\<exists>k h'. handler_run k (Exec txn EBegin, s) = (h', fst (exec_result txn s)) \<and> at_end h' \<and> exec_answer h' = snd (exec_result txn s)" for s
  proof -
    obtain s' res where e: "ShardServer_ExecuteSingleShard txn s = (s', res)" by force
    then obtain out where "exec_run 9 txn (EBegin, s) = (EDone out res, s')" using exec_alone by blast
    from exec_handler_run [OF this] show ?thesis
      by (intro exI [of _ 9] exI [of _ "Exec txn (EDone out res)"]) (cases res; simp add: exec_result_def e)
  qed
  then show ?thesis by (simp add: performs_def)
qed

section \<open>The phases of a submission\<close>

text \<open>Between two quiet states submission \<open>i\<close> gets from one phase to another, and the shards are those of \<open>m\<close>.\<close>

definition leads :: "submission list \<Rightarrow> nat \<Rightarrow> Router \<Rightarrow> Transaction \<Rightarrow> run_phase \<Rightarrow> cnodes \<Rightarrow> run_phase \<Rightarrow> nodes \<Rightarrow> bool" where
  "leads rs i r txn ph ns ph' m \<longleftrightarrow>
     (\<exists>ns'. quiet ns' \<and> strip ns' = m \<and> cluster_step\<^sup>*\<^sup>* (rs[i := (r, txn, ph)], ns) (rs[i := (r, txn, ph')], ns'))"

lemma leads_refl: "quiet ns \<Longrightarrow> leads rs i r txn ph ns ph (strip ns)"
  unfolding leads_def by blast

lemma leads_trans:
  assumes "leads rs i r txn ph ns ph' m" "\<And>ns'. quiet ns' \<Longrightarrow> strip ns' = m \<Longrightarrow> leads rs i r txn ph' ns' ph'' m'"
  shows "leads rs i r txn ph ns ph'' m'"
proof -
  obtain ns' where ns': "quiet ns'" "strip ns' = m" "cluster_step\<^sup>*\<^sup>* (rs[i := (r, txn, ph)], ns) (rs[i := (r, txn, ph')], ns')"
    using assms(1) unfolding leads_def by blast
  from assms(2) [OF ns'(1,2)] obtain ns'' where ns'': "quiet ns''" "strip ns'' = m'"
    "cluster_step\<^sup>*\<^sup>* (rs[i := (r, txn, ph')], ns') (rs[i := (r, txn, ph'')], ns'')"
    unfolding leads_def by blast
  show ?thesis unfolding leads_def using ns''(1,2) rtranclp_trans [OF ns'(3) ns''(3)] by blast
qed

lemma leads_go:
  assumes "i < length rs" "run_move Go r txn ph ns = Some (ph', ns)" "quiet ns"
  shows "leads rs i r txn ph ns ph' (strip ns)"
proof -
  have "cluster_step (rs[i := (r, txn, ph)], ns) (rs[i := (r, txn, ph')], ns)"
    using cluster_step.run [of i "rs[i := (r, txn, ph)]" r txn ph Go ns ph' ns] assms(1,2) by simp
  then show ?thesis using assms(3) unfolding leads_def by blast
qed

text \<open>One request of a goroutine, in whatever phase around it.\<close>

lemma leads_request:
  assumes "quiet ns" "i < length rs" "performs h op_answer f"
    and "net_call n addr f (Some ClientRequestFailed) (strip ns) = (m, e)"
    and "\<And>ev c ns. run_move (D ev) r txn (K c) ns = map_option (map_prod K' id) (op_call ev addr h c ns)"
    and "\<And>j. K' (Waiting j) = K (Waiting j)"
  shows "leads rs i r txn (K Unsent) ns (K' (Returned e)) m"
  using call_runs [OF assms(1,3,4,2), of D r txn K K'] assms(5,6) unfolding leads_def op_call_def by blast

lemma leads_prepare:
  assumes "quiet ns" "i < length rs"
  shows "ShardClient_Prepare n (si_Address a) (t_TxnID txn) OpDebit (t_Source txn) (t_Amount txn) (strip ns) = (m, e) \<Longrightarrow>
      leads rs i r txn (Preparing a b Unsent d) ns (Preparing a b (Returned e) d) m"
    and "ShardClient_Prepare n (si_Address b) (t_TxnID txn) OpCredit (t_Destination txn) (t_Amount txn) (strip ns) = (m, e) \<Longrightarrow>
      leads rs i r txn (Preparing a b c Unsent) ns (Preparing a b c (Returned e)) m"
  unfolding request_calls
  by (rule leads_request [OF assms request_performs(1), where D = Source and K = "\<lambda>c. Preparing a b c d" and K' = "\<lambda>c. Preparing a b c d"];
      simp add: src_part_def)
    (rule leads_request [OF assms request_performs(1), where D = Dest and K = "Preparing a b c" and K' = "Preparing a b c"];
      simp add: dst_part_def)

lemma leads_prepares:
  assumes "quiet ns" "i < length rs" "si_ShardID a \<noteq> si_ShardID b"
    and "Coordinator_sendPrepares first n1 n2 txn a b (strip ns) = (m, sp, dp)"
  shows "leads rs i r txn (Preparing a b Unsent Unsent) ns (decide txn a b sp dp) m"
proof -
  let ?pA = "ShardClient_Prepare n1 (si_Address a) (t_TxnID txn) OpDebit (t_Source txn) (t_Amount txn)"
  let ?pB = "ShardClient_Prepare n2 (si_Address b) (t_TxnID txn) OpCredit (t_Destination txn) (t_Amount txn)"
  have decided: "leads rs i r txn (Preparing a b (Returned e1) (Returned e2)) ns' (decide txn a b (e1 = None) (e2 = None)) (strip ns')"
    if "quiet ns'" for e1 e2 ns'
    using assms(2,3) that by (intro leads_go) (simp_all add: collect_two)
  show ?thesis
  proof (cases first)
    case True
    obtain m1 e1 e2 where m: "?pA (strip ns) = (m1, e1)" "?pB m1 = (m, e2)" "sp = (e1 = None)" "dp = (e2 = None)"
      using assms(3,4) True by (auto simp: Coordinator_sendPrepares_def collect_two split: prod.splits)
    show ?thesis unfolding m(3,4)
      by (rule leads_trans [OF leads_prepare(1) [OF assms(1,2) m(1)]], rule leads_trans, rule leads_prepare(2) [OF _ assms(2)])
        (use m(2) decided in auto)
  next
    case False
    obtain m1 e1 e2 where m: "?pB (strip ns) = (m1, e2)" "?pA m1 = (m, e1)" "sp = (e1 = None)" "dp = (e2 = None)"
      using assms(3,4) False by (auto simp: Coordinator_sendPrepares_def collect_two split: prod.splits)
    show ?thesis unfolding m(3,4)
      by (rule leads_trans [OF leads_prepare(2) [OF assms(1,2) m(1)]], rule leads_trans, rule leads_prepare(1) [OF _ assms(2)])
        (use m(2) decided in auto)
  qed
qed

text \<open>How the two models of \<^verbatim>\<open>commitWithRetry\<close> correspond between attempts.\<close>

definition commit_rel :: "committer \<Rightarrow> committing \<Rightarrow> bool" where
  "commit_rel cm p \<longleftrightarrow> (if cm_left cm = 0 then \<exists>e. snd p = Returned e else p = (cm_left cm - 1, Unsent))"

lemma leads_attempt:
  assumes "quiet ns" "i < length rs" "commit_rel cm p" "cm_left cm \<noteq> 0"
    and "Coordinator_commitAttempt addr t op acc x cm (strip ns) = (cm', m)"
    and move: "\<And>ev n c ns. run_move (D ev) r txn (G (n, c)) ns =
      map_option (map_prod (\<lambda>c'. G (retry n c')) id) (op_call ev addr (Commit (t, op, acc, x) CBegin) c ns)"
  shows "\<exists>p'. commit_rel cm' p' \<and> leads rs i r txn (G p) ns (G p') m"
proof -
  obtain e where e: "ShardClient_Commit (next_net (cm_nets cm)) addr t op acc x (strip ns) = (m, e)"
    using assms(5) by (auto simp: Coordinator_commitAttempt_def split: prod.splits option.splits)
  let ?n = "cm_left cm - 1"
  have "leads rs i r txn (G (?n, Unsent)) ns (G (retry ?n (Returned e))) m"
    by (rule leads_request [where K = "\<lambda>c. G (?n, c)" and K' = "\<lambda>c. G (retry ?n c)",
          OF assms(1,2) request_performs(2) e [unfolded request_calls] move]) (simp add: retry_def)
  moreover have "commit_rel cm' (retry ?n (Returned e))"
    using assms(5) e by (auto simp: Coordinator_commitAttempt_def commit_rel_def retry_def split: option.splits)
  moreover have "p = (?n, Unsent)" using assms(3,4) by (simp add: commit_rel_def)
  ultimately show ?thesis by blast
qed

lemma leads_commits:
  assumes "i < length rs" "commit_rel c p" "commit_rel d q" "quiet ns" "strip ns = m0"
    and "commit_both sched txn a b c d m0 = (m, e1, e2)"
  shows "leads rs i r txn (Committing a b p q) ns (Finished (Inr (committed_result txn))) m"
  using assms(2-6)
proof (induction sched txn a b c d m0 arbitrary: p q ns rule: commit_both.induct)
  case (1 sched txn a b c d m0)
  note run = 1(7) [unfolded commit_both.simps [of sched txn a b c d]]
  let ?finish = "Finished (Inr (committed_result txn))"
  show ?case
  proof (cases "cm_left c = 0 \<and> cm_left d = 0")
    case True
    then obtain n e n' e' where "p = (n, Returned e)" "q = (n', Returned e')" "m = strip ns"
      using 1(3,4,6) run by (cases p; cases q) (auto simp: commit_rel_def)
    then show ?thesis using leads_go [OF assms(1), of r txn _ ns] 1(5) by simp
  next
    case running: False
    show ?thesis
    proof (cases "cm_left d = 0 \<or> 0 < cm_left c \<and> (sched = [] \<or> hd sched)")
      case True
      obtain c' m1 where att: "Coordinator_commitAttempt (si_Address a) (t_TxnID txn) OpDebit (t_Source txn) (t_Amount txn) c m0 = (c', m1)"
        by force
      from leads_attempt [OF 1(5) assms(1) 1(3) _ att [folded 1(6)], of Source r txn "\<lambda>p. Committing a b p q"] True running
      obtain p' where p': "commit_rel c' p'" "leads rs i r txn (Committing a b p q) ns (Committing a b p' q) m1"
        by (auto simp: src_part_def)
      have "leads rs i r txn (Committing a b p' q) ns' ?finish m" if "quiet ns'" "strip ns' = m1" for ns'
        using 1(1) [OF running True att [symmetric] p'(1) 1(4) that] run running True att by simp
      then show ?thesis using leads_trans [OF p'(2)] by blast
    next
      case False
      obtain d' m1 where att: "Coordinator_commitAttempt (si_Address b) (t_TxnID txn) OpCredit (t_Destination txn) (t_Amount txn) d m0 = (d', m1)"
        by force
      from leads_attempt [OF 1(5) assms(1) 1(4) _ att [folded 1(6)], of Dest r txn "\<lambda>q. Committing a b p q"] False
      obtain q' where q': "commit_rel d' q'" "leads rs i r txn (Committing a b p q) ns (Committing a b p q') m1"
        by (auto simp: dst_part_def)
      have "leads rs i r txn (Committing a b p q') ns' ?finish m" if "quiet ns'" "strip ns' = m1" for ns'
        using 1(2) [OF running False att [symmetric] 1(3) q'(1) that] run running False att by simp
      then show ?thesis using leads_trans [OF q'(2)] by blast
    qed
  qed
qed

lemma leads_abort:
  assumes "quiet ns" "i < length rs"
  shows "leads rs i r txn (AbortingDest a b Unsent) ns (Finished (Inr (aborted_result txn)))
      (fst (ShardClient_Abort n (si_Address b) (t_TxnID txn) OpCredit (t_Destination txn) (t_Amount txn) (strip ns)))"
    and "leads rs i r txn (AbortingSource a b dp Unsent) ns (if dp then AbortingDest a b Unsent else Finished (Inr (aborted_result txn)))
      (fst (ShardClient_Abort n (si_Address a) (t_TxnID txn) OpDebit (t_Source txn) (t_Amount txn) (strip ns)))"
proof -
  obtain m e where e: "ShardClient_Abort n (si_Address b) (t_TxnID txn) OpCredit (t_Destination txn) (t_Amount txn) (strip ns) = (m, e)" by force
  have "leads rs i r txn (AbortingDest a b Unsent) ns (AbortingDest a b (Returned e)) m"
    by (rule leads_request [where K = "AbortingDest a b" and K' = "AbortingDest a b" and D = Dest,
          OF assms request_performs(3) e [unfolded request_calls]]) (simp_all add: dst_part_def)
  then show "leads rs i r txn (AbortingDest a b Unsent) ns (Finished (Inr (aborted_result txn)))
      (fst (ShardClient_Abort n (si_Address b) (t_TxnID txn) OpCredit (t_Destination txn) (t_Amount txn) (strip ns)))"
    unfolding e fst_conv by (rule leads_trans) (use leads_go [OF assms(2)] in auto)
next
  obtain m e where e: "ShardClient_Abort n (si_Address a) (t_TxnID txn) OpDebit (t_Source txn) (t_Amount txn) (strip ns) = (m, e)" by force
  have "leads rs i r txn (AbortingSource a b dp Unsent) ns (AbortingSource a b dp (Returned e)) m"
    by (rule leads_request [where K = "AbortingSource a b dp" and K' = "AbortingSource a b dp" and D = Source,
          OF assms request_performs(3) e [unfolded request_calls]]) (simp_all add: src_part_def)
  then show "leads rs i r txn (AbortingSource a b dp Unsent) ns (if dp then AbortingDest a b Unsent else Finished (Inr (aborted_result txn)))
      (fst (ShardClient_Abort n (si_Address a) (t_TxnID txn) OpDebit (t_Source txn) (t_Amount txn) (strip ns)))"
    unfolding e fst_conv by (rule leads_trans) (use leads_go [OF assms(2)] in auto)
qed

lemma leads_aborts:
  assumes "quiet ns" "i < length rs" "\<not> (sp \<and> dp)" "Coordinator_abortAll n1 n2 txn a b sp dp (strip ns) = (m, res)"
  shows "leads rs i r txn (decide txn a b sp dp) ns (Finished (Inr res)) m"
proof -
  have "res = aborted_result txn" using assms(4) by (simp add: Coordinator_abortAll_def aborted_result_def Let_def)
  then show ?thesis
    using assms leads_abort(1) [OF assms(1,2), of r txn a b n2] leads_abort(2) [OF assms(1,2), of r txn a b False n1] leads_refl [OF assms(1)]
    by (cases sp; cases dp) (auto simp: Coordinator_abortAll_def decide_def)
qed

lemma leads_execute:
  assumes "quiet ns" "i < length rs" "si_ShardID a \<noteq> si_ShardID b" "Coordinator_Execute env txn a b (strip ns) = (m, res)"
  shows "leads rs i r txn (Preparing a b Unsent Unsent) ns (Finished (Inr res)) m"
proof -
  obtain m1 sp dp where p: "Coordinator_sendPrepares (env_srcFirst env) (fst (env_prepares env)) (snd (env_prepares env)) txn a b (strip ns) = (m1, sp, dp)"
    by (metis prod_cases3)
  have "leads rs i r txn (decide txn a b sp dp) ns' (Finished (Inr res)) m" if q: "quiet ns'" "strip ns' = m1" for ns'
  proof (cases "sp \<and> dp")
    case True
    let ?cs = "env_commits env"
    obtain e1 e2 where c: "commit_both (env_sched env) txn a b (commit_start (fst ?cs)) (commit_start (snd ?cs)) m1 = (m, e1, e2)" "res = committed_result txn"
      using assms(4) p True by (auto simp: Coordinator_Execute_def Coordinator_commitAll_def committed_result_def split: prod.splits)
    have "leads rs i r txn (Committing a b (2, Unsent) (2, Unsent)) ns' (Finished (Inr (committed_result txn))) m"
      by (rule leads_commits [OF assms(2) _ _ q c(1)]) (simp_all add: commit_rel_def commit_start_def)
    then show ?thesis using True c(2) by (simp add: decide_def)
  next
    case False
    then have "Coordinator_abortAll (fst (env_aborts env)) (snd (env_aborts env)) txn a b sp dp (strip ns') = (m, res)"
      using assms(4) p q(2) by (auto simp: Coordinator_Execute_def)
    then show ?thesis using leads_aborts [OF q(1) assms(2) False] by blast
  qed
  then show ?thesis using leads_trans [OF leads_prepares [OF assms(1-3) p]] by blast
qed

lemma leads_single:
  assumes "quiet ns" "i < length rs" "Router_executeSingleShard n txn a (strip ns) = (m, out)"
  shows "leads rs i r txn (Executing a Unsent) ns (Finished out) m"
proof -
  obtain e where e: "net_call n (si_Address a) (exec_result txn) (Inl ClientRequestFailed) (strip ns) = (m, e)"
    "out = (case e of Inl err \<Rightarrow> Inl (SingleShardFailed err) | Inr res \<Rightarrow> Inr res)"
    using assms(3) unfolding Router_executeSingleShard_def execute_calls by (auto split: prod.splits sum.splits)
  have "leads rs i r txn (Executing a Unsent) ns (Executing a (Returned e)) m"
    using call_runs [OF assms(1) execute_performs e(1) assms(2), where D = Source and K = "Executing a" and K' = "Executing a" and r = r and txn = txn]
    by (simp add: leads_def)
  then show ?thesis by (rule leads_trans) (use leads_go [OF assms(2)] e(2) in auto)
qed

section \<open>Refinement\<close>

text \<open>
  C4: Every run of \<open>Router_Route\<close> is a schedule of the concurrent system. Whatever the network does to the requests,
  in whichever order the PREPAREs are served and however the COMMIT loops interleave: from every state in
  which no handler is at work there is a schedule in which the submission gets the same answer, the shards end
  in the same states and no handler is left at work, whatever other submissions there are.
\<close>

theorem route_refined_by_cluster:
  assumes "quiet ns" "i < length rs" "rs ! i = (r, txn, Routing)" "Router_Route n env r txn (strip ns) = (m, out)"
  shows "\<exists>ns'. cluster_step\<^sup>*\<^sup>* (rs, ns) (rs[i := (r, txn, Finished out)], ns') \<and> strip ns' = m \<and> quiet ns'"
proof -
  have start: "leads rs i r txn Routing ns (route_start r txn) (strip ns)"
    using assms(1,2) by (intro leads_go) simp_all
  have "leads rs i r txn (route_start r txn) ns' (Finished out) m" if "quiet ns'" "strip ns' = strip ns" for ns'
    using assms(4) leads_single [OF that(1) assms(2)] leads_execute [OF that(1) assms(2)] leads_refl [OF that(1)]
    unfolding that(2) Router_Route_def route_start_def Router_executeCrossShard_def
    by (auto split: sum.splits if_splits prod.splits)
  then have "leads rs i r txn Routing ns (Finished out) m" using leads_trans [OF start] by blast
  then show ?thesis using assms(3) list_update_id [of rs i] by (auto simp: leads_def)
qed

lemma example_route:
  "snd (Router_Route NetOk example_env example_router (example_txn 30) example_cluster) = Inr (committed_result (example_txn 30))"
proof -
  have "snd (Coordinator_Execute example_env (example_txn 30) (example_shards ! 1) (example_shards ! 0) example_cluster) = committed_result (example_txn 30)"
    by (simp add: twopc_eval committed_result_def)
  moreover have "snd (Router_Route NetOk example_env example_router (example_txn 30) example_cluster) =
      Inr (snd (Coordinator_Execute example_env (example_txn 30) (example_shards ! 1) (example_shards ! 0) example_cluster))"
    using example_routes(1) by (auto simp: Router_Route_def route_start_def Router_executeCrossShard_def split: sum.splits if_splits prod.splits)
  ultimately show ?thesis by simp
qed

theorem route_refined_by_cluster_witness:
  "\<exists>ns'. cluster_step\<^sup>*\<^sup>* (example_runs Routing Routing, example_nodes)
       (example_runs (Finished (Inr (committed_result (example_txn 30)))) Routing, ns')
     \<and> strip ns' = fst (Router_Route NetOk example_env example_router (example_txn 30) example_cluster) \<and> quiet ns'"
proof -
  have "quiet example_nodes" by (simp add: quiet_def example_nodes_def)
  moreover have "strip example_nodes = example_cluster"
    by (auto simp: strip_def example_nodes_def example_cluster_def fun_eq_iff)
  ultimately show ?thesis
    using route_refined_by_cluster [of example_nodes 0 "example_runs Routing Routing" example_router "example_txn 30" NetOk example_env,
        OF _ _ _ prod.collapse [symmetric]]
    by (simp add: example_route) (simp add: example_runs_def)
qed

end
