(* ===== verification/Redelivery.thy ===== *)
theory Redelivery
  imports TwoPC CrashSafety
begin

text \<open>
  Transfers that are submitted again. Neither the gateway nor the coordinator remembers the transactions it
  has handled: a client that resubmits, or a Kafka broker that redelivers, makes the coordinator run two-phase
  commit once more for the same identifier, on shards that may have prepared, committed or aborted it.
  The theory follows a transaction through any number of runs, each with a network and goroutines of its own,
  on shards with working logs.
\<close>

section \<open>A participant between runs\<close>

text \<open>\<open>l\<close> is the ledger before the first run; the status of the transaction determines the ledger.\<close>

definition stands :: "string \<Rightarrow> OperationType \<Rightarrow> string \<Rightarrow> int64 \<Rightarrow> Ledger \<Rightarrow> TransactionState option \<Rightarrow> ShardServer \<Rightarrow> bool" where
  "stands t op a x l st s \<longleftrightarrow> wal_healthy (s_walLog s) \<and> s_seenTxns s t = st
     \<and> (st \<in> {None, Some StateAborted} \<and> s_ledger s = l
       \<or> st = Some StatePrepared \<and> reservable op a x l \<and> s_ledger s = reserve op a x l
       \<or> st = Some StateCommitted \<and> reservable op a x l \<and> deliverable op a x (reserve op a x l)
         \<and> s_ledger s = deliver op a x (reserve op a x l))"

definition agreed :: "TransactionState option set" where
  "agreed = {Some StatePrepared, Some StateCommitted}"

definition unsettled :: "TransactionState option set" where
  "unsettled = {None, Some StatePrepared, Some StateAborted}"

text \<open>The status after a PREPARE that arrives.\<close>

definition asked :: "bool \<Rightarrow> TransactionState option \<Rightarrow> TransactionState option" where
  "asked can st = (case st of None \<Rightarrow> Some (if can then StatePrepared else StateAborted) | Some _ \<Rightarrow> st)"

lemma asked_Some [simp]: "asked can (Some st) = Some st"
  by (simp add: asked_def)

lemmas log_kept = app.healthy_write(1) com.healthy_write(1) abo.healthy_write(1)

lemma stands_prepare:
  assumes "stands t op a x l st s"
  shows "stands t op a x l (asked (reservable op a x l) st) (fst (ShardServer_PrepareTransaction t op a x s))"
    and "snd (ShardServer_PrepareTransaction t op a x s) = None \<longleftrightarrow> asked (reservable op a x l) st \<in> agreed"
proof -
  obtain s' r where p: "ShardServer_PrepareTransaction t op a x s = (s', r)" by force
  have h: "wal_healthy (s_walLog s)" "s_seenTxns s t = st" using assms by (simp_all add: stands_def)
  have "stands t op a x l (asked (reservable op a x l) st) s' \<and> (r = None \<longleftrightarrow> asked (reservable op a x l) st \<in> agreed)"
  proof (cases st)
    case None
    then have l: "s_ledger s = l" using assms by (simp add: stands_def)
    have "r = None \<longleftrightarrow> reservable op a x l"
      using Prepare_log(1) [OF h(1) _ p] Prepare_healthy(1) [OF h(1), of t op a x] h None l p by auto
    with Prepare_log [OF h(1) _ p] h None l show ?thesis
      by (auto simp: stands_def asked_def agreed_def log_kept)
  next
    case (Some u)
    then have "s' = s \<and> (r = None \<longleftrightarrow> u \<in> {StatePrepared, StateCommitted})"
      using p h(2) by (auto simp: ShardServer_PrepareTransaction_def server_state_defs split: if_splits)
    with Some assms show ?thesis by (auto simp: asked_def agreed_def)
  qed
  then show "stands t op a x l (asked (reservable op a x l) st) (fst (ShardServer_PrepareTransaction t op a x s))"
    and "snd (ShardServer_PrepareTransaction t op a x s) = None \<longleftrightarrow> asked (reservable op a x l) st \<in> agreed"
    by (simp_all add: p)
qed

lemma stands_commit:
  assumes "stands t op a x l st s" "st \<in> agreed" "deliverable op a x (reserve op a x l)"
  shows "stands t op a x l (Some StateCommitted) (fst (ShardServer_CommitTransaction t op a x s))"
    and "snd (ShardServer_CommitTransaction t op a x s) = None"
proof -
  obtain s' r where c: "ShardServer_CommitTransaction t op a x s = (s', r)" by force
  have "stands t op a x l (Some StateCommitted) s' \<and> r = None"
  proof (cases "st = Some StateCommitted")
    case True
    then have "ShardServer_CommitTransaction t op a x s = (s, None)" using assms(1) by (simp add: stands_def Commit_committed)
    with True assms(1) c show ?thesis by simp
  next
    case False
    then have p: "wal_healthy (s_walLog s)" "s_seenTxns s t = Some StatePrepared" "reservable op a x l" "s_ledger s = reserve op a x l"
      using assms(1,2) by (auto simp: stands_def agreed_def)
    then have r: "r = None" using Commit_healthy [OF p(1,2), of op a x] assms(3) c by simp
    have "s_seenTxns s t \<noteq> Some StateCommitted" using p(2) by simp
    from Commit_log [OF p(1) this, of op a x s'] r c p assms(3) show ?thesis by (auto simp: stands_def log_kept)
  qed
  then show "stands t op a x l (Some StateCommitted) (fst (ShardServer_CommitTransaction t op a x s))"
    and "snd (ShardServer_CommitTransaction t op a x s) = None" by (simp_all add: c)
qed

lemma stands_abort:
  assumes "stands t op a x l st s" "st \<in> unsettled"
  shows "stands t op a x l (Some StateAborted) (fst (ShardServer_AbortTransaction t op a x s))"
proof -
  obtain s' r where c: "ShardServer_AbortTransaction t op a x s = (s', r)" by force
  show ?thesis
  proof (cases "st = Some StateAborted")
    case True
    then have "ShardServer_AbortTransaction t op a x s = (s, None)"
      using assms(1) by (auto simp: stands_def ShardServer_AbortTransaction_def server_state_defs)
    with True assms(1) show ?thesis by simp
  next
    case False
    with assms have "s_seenTxns s t \<noteq> Some StateAborted" "wal_healthy (s_walLog s)" by (auto simp: stands_def)
    from Abort_log [OF this(2,1) c] this assms False release_reserve [of op a x l] show ?thesis
      by (auto simp: stands_def unsettled_def c log_kept)
  qed
qed

section \<open>Remote calls\<close>

lemma prepare_stands:
  assumes "ns addr = Some s" "stands t op a x l st s"
  shows "\<exists>s'. fst (ShardClient_Prepare n addr t op a x ns) = ns(addr \<mapsto> s')
    \<and> stands t op a x l (if n = RequestLost then st else asked (reservable op a x l) st) s'
    \<and> (snd (ShardClient_Prepare n addr t op a x ns) = None \<longleftrightarrow> n = NetOk \<and> asked (reservable op a x l) st \<in> agreed)"
proof -
  let ?s' = "if n = RequestLost then s else fst (ShardServer_PrepareTransaction t op a x s)"
  have "fst (ShardClient_Prepare n addr t op a x ns) = ns(addr \<mapsto> ?s')"
    using assms(1) by (auto simp: prep.call_effect served_def fun_upd_idem)
  with stands_prepare [OF assms(2)] assms prep.call_ok [of n addr t op a x ns] show ?thesis
    by (intro exI [of _ ?s']) auto
qed

lemma abort_stands:
  assumes "ns addr = Some s" "stands t op a x l st s" "send \<Longrightarrow> st \<in> unsettled"
  shows "\<exists>s'. (if send then fst (ShardClient_Abort n addr t op a x ns) else ns) = ns(addr \<mapsto> s')
    \<and> stands t op a x l (if send \<and> n \<noteq> RequestLost then Some StateAborted else st) s'"
proof -
  let ?s' = "if send \<and> n \<noteq> RequestLost then fst (ShardServer_AbortTransaction t op a x s) else s"
  have "(if send then fst (ShardClient_Abort n addr t op a x ns) else ns) = ns(addr \<mapsto> ?s')"
    using assms(1) by (auto simp: abrt.call_effect served_def fun_upd_idem)
  with stands_abort [OF assms(2)] assms(2,3) show ?thesis by (intro exI [of _ ?s']) auto
qed

definition commits_stand :: "string \<Rightarrow> OperationType \<Rightarrow> string \<Rightarrow> int64 \<Rightarrow> Ledger \<Rightarrow> client_error option \<Rightarrow> ShardServer \<Rightarrow> bool" where
  "commits_stand t op a x l e s \<longleftrightarrow> (\<exists>st \<in> agreed. stands t op a x l st s)"

lemma commitAttempt_stands:
  assumes "deliverable op a x (reserve op a x l)" "ns addr = Some s" "commits_stand t op a x l e s"
    and "Coordinator_commitAttempt addr t op a x c ns = (c', ns')"
  shows "\<exists>s'. ns' = ns(addr \<mapsto> s') \<and> commits_stand t op a x l (cm_result c') s'"
proof -
  let ?s' = "if next_net (cm_nets c) = RequestLost then s else fst (ShardServer_CommitTransaction t op a x s)"
  have "ns' = ns(addr \<mapsto> ?s')"
    using assms(2,4) by (auto simp: Coordinator_commitAttempt_def comm.call_effect served_def fun_upd_idem
        dest!: arg_cong [where f = fst] split: prod.splits option.splits)
  with stands_commit(1) [OF _ _ assms(1)] assms(3) show ?thesis by (auto simp: commits_stand_def agreed_def)
qed

section \<open>Both participants\<close>

definition pair_stands :: "Transaction \<Rightarrow> ShardInfo \<Rightarrow> ShardInfo \<Rightarrow> Ledger \<Rightarrow> Ledger
    \<Rightarrow> TransactionState option \<Rightarrow> TransactionState option \<Rightarrow> nodes \<Rightarrow> bool" where
  "pair_stands txn source dest lA lB stA stB ns \<longleftrightarrow> si_Address source \<noteq> si_Address dest \<and> si_ShardID source \<noteq> si_ShardID dest
     \<and> (\<exists>sA sB. ns (si_Address source) = Some sA \<and> ns (si_Address dest) = Some sB
       \<and> stands (t_TxnID txn) OpDebit (t_Source txn) (t_Amount txn) lA stA sA
       \<and> stands (t_TxnID txn) OpCredit (t_Destination txn) (t_Amount txn) lB stB sB)"

lemma pair_standsI:
  assumes "si_Address source \<noteq> si_Address dest" "si_ShardID source \<noteq> si_ShardID dest"
    and "ns' = ns(si_Address source \<mapsto> sA, si_Address dest \<mapsto> sB)"
    and "stands (t_TxnID txn) OpDebit (t_Source txn) (t_Amount txn) lA stA sA"
    and "stands (t_TxnID txn) OpCredit (t_Destination txn) (t_Amount txn) lB stB sB"
  shows "pair_stands txn source dest lA lB stA stB ns'" "others_same ns ns' (si_Address source) (si_Address dest)"
  using assms by (simp_all add: pair_stands_def others_same_def)

lemma sendPrepares_stands:
  fixes txn source dest lA lB stA stB
  defines "A \<equiv> si_Address source" and "B \<equiv> si_Address dest"
    and "stA' \<equiv> asked (reservable OpDebit (t_Source txn) (t_Amount txn) lA) stA"
    and "stB' \<equiv> asked (reservable OpCredit (t_Destination txn) (t_Amount txn) lB) stB"
  assumes "pair_stands txn source dest lA lB stA stB ns"
    and "Coordinator_sendPrepares first n1 n2 txn source dest ns = (ns', sp, dp)"
  shows "pair_stands txn source dest lA lB (if n1 = RequestLost then stA else stA') (if n2 = RequestLost then stB else stB') ns'"
    and "others_same ns ns' A B" "sp \<longleftrightarrow> n1 = NetOk \<and> stA' \<in> agreed" "dp \<longleftrightarrow> n2 = NetOk \<and> stB' \<in> agreed"
proof -
  let ?t = "t_TxnID txn" and ?x = "t_Amount txn"
  let ?pA = "ShardClient_Prepare n1 A ?t OpDebit (t_Source txn) ?x"
  let ?pB = "ShardClient_Prepare n2 B ?t OpCredit (t_Destination txn) ?x"
  obtain sA sB where AB: "A \<noteq> B" "si_ShardID source \<noteq> si_ShardID dest" "ns A = Some sA" "ns B = Some sB"
    "stands ?t OpDebit (t_Source txn) ?x lA stA sA" "stands ?t OpCredit (t_Destination txn) ?x lB stB sB"
    using assms(5) by (auto simp: pair_stands_def A_def B_def)
  let ?a = "if n1 = RequestLost then stA else stA'" and ?b = "if n2 = RequestLost then stB else stB'"
  have a: "\<exists>sA'. fst (?pA m) = m(A \<mapsto> sA') \<and> stands ?t OpDebit (t_Source txn) ?x lA ?a sA'
      \<and> (snd (?pA m) = None \<longleftrightarrow> n1 = NetOk \<and> stA' \<in> agreed)" if "m A = Some sA" for m
    unfolding stA'_def by (rule prepare_stands [where ns = m and addr = A, OF that AB(5)])
  have b: "\<exists>sB'. fst (?pB m) = m(B \<mapsto> sB') \<and> stands ?t OpCredit (t_Destination txn) ?x lB ?b sB'
      \<and> (snd (?pB m) = None \<longleftrightarrow> n2 = NetOk \<and> stB' \<in> agreed)" if "m B = Some sB" for m
    unfolding stB'_def by (rule prepare_stands [where ns = m and addr = B, OF that AB(6)])
  have "\<exists>sA' sB'. ns' = ns(A \<mapsto> sA', B \<mapsto> sB') \<and> stands ?t OpDebit (t_Source txn) ?x lA ?a sA'
    \<and> stands ?t OpCredit (t_Destination txn) ?x lB ?b sB'
    \<and> (sp \<longleftrightarrow> n1 = NetOk \<and> stA' \<in> agreed) \<and> (dp \<longleftrightarrow> n2 = NetOk \<and> stB' \<in> agreed)"
  proof (cases first)
    case True
    have ns': "ns' = fst (?pB (fst (?pA ns)))" "sp = (snd (?pA ns) = None)" "dp = (snd (?pB (fst (?pA ns))) = None)"
      using assms(6) AB(2) True
      by (auto simp: Coordinator_sendPrepares_def collect_two A_def B_def split: prod.splits)
    obtain sA' where sA': "fst (?pA ns) = ns(A \<mapsto> sA')" "stands ?t OpDebit (t_Source txn) ?x lA ?a sA'"
      "snd (?pA ns) = None \<longleftrightarrow> n1 = NetOk \<and> stA' \<in> agreed" using a [of ns, OF AB(3)] by (elim exE conjE) (rule that; assumption)
    have "(ns(A \<mapsto> sA')) B = Some sB" using AB by simp
    from b [of "ns(A \<mapsto> sA')", OF this] obtain sB' where sB': "fst (?pB (ns(A \<mapsto> sA'))) = ns(A \<mapsto> sA', B \<mapsto> sB')" "stands ?t OpCredit (t_Destination txn) ?x lB ?b sB'"
      "snd (?pB (ns(A \<mapsto> sA'))) = None \<longleftrightarrow> n2 = NetOk \<and> stB' \<in> agreed" by (elim exE conjE) (rule that; assumption)
    show ?thesis
      unfolding ns' sA'(1,3) sB'(1,3) by (intro exI [of _ sA'] exI [of _ sB'] conjI refl sA'(2) sB'(2))
  next
    case False
    have ns': "ns' = fst (?pA (fst (?pB ns)))" "sp = (snd (?pA (fst (?pB ns))) = None)" "dp = (snd (?pB ns) = None)"
      using assms(6) AB(2) False
      by (auto simp: Coordinator_sendPrepares_def collect_two A_def B_def split: prod.splits)
    obtain sB' where sB': "fst (?pB ns) = ns(B \<mapsto> sB')" "stands ?t OpCredit (t_Destination txn) ?x lB ?b sB'"
      "snd (?pB ns) = None \<longleftrightarrow> n2 = NetOk \<and> stB' \<in> agreed" using b [of ns, OF AB(4)] by (elim exE conjE) (rule that; assumption)
    have "(ns(B \<mapsto> sB')) A = Some sA" using AB by simp
    from a [of "ns(B \<mapsto> sB')", OF this] obtain sA' where sA': "fst (?pA (ns(B \<mapsto> sB'))) = ns(B \<mapsto> sB', A \<mapsto> sA')" "stands ?t OpDebit (t_Source txn) ?x lA ?a sA'"
      "snd (?pA (ns(B \<mapsto> sB'))) = None \<longleftrightarrow> n1 = NetOk \<and> stA' \<in> agreed" by (elim exE conjE) (rule that; assumption)
    show ?thesis
      unfolding ns' sB'(1,3) sA'(1,3) fun_upd_twist [OF AB(1)]
      by (intro exI [of _ sA'] exI [of _ sB'] conjI refl sA'(2) sB'(2))
  qed
  then obtain sA' sB' where r: "ns' = ns(A \<mapsto> sA', B \<mapsto> sB')" "stands ?t OpDebit (t_Source txn) ?x lA ?a sA'"
    "stands ?t OpCredit (t_Destination txn) ?x lB ?b sB'" "sp \<longleftrightarrow> n1 = NetOk \<and> stA' \<in> agreed" "dp \<longleftrightarrow> n2 = NetOk \<and> stB' \<in> agreed"
    by blast
  show "pair_stands txn source dest lA lB ?a ?b ns'" "others_same ns ns' A B"
    using pair_standsI [OF AB(1) [unfolded A_def B_def] AB(2) r(1) [unfolded A_def B_def] r(2,3)] by (simp_all add: A_def B_def)
  show "sp \<longleftrightarrow> n1 = NetOk \<and> stA' \<in> agreed" "dp \<longleftrightarrow> n2 = NetOk \<and> stB' \<in> agreed" by (rule r(4), rule r(5))
qed

lemma abortAll_stands:
  assumes "pair_stands txn source dest lA lB stA stB ns" "sp \<Longrightarrow> stA \<in> unsettled" "dp \<Longrightarrow> stB \<in> unsettled"
    and "Coordinator_abortAll n1 n2 txn source dest sp dp ns = (ns', res)"
  shows "pair_stands txn source dest lA lB (if sp \<and> n1 \<noteq> RequestLost then Some StateAborted else stA)
      (if dp \<and> n2 \<noteq> RequestLost then Some StateAborted else stB) ns'
    \<and> others_same ns ns' (si_Address source) (si_Address dest) \<and> r_State res = StateAborted"
proof -
  let ?t = "t_TxnID txn" and ?x = "t_Amount txn" and ?A = "si_Address source" and ?B = "si_Address dest"
  obtain sA sB where AB: "?A \<noteq> ?B" "si_ShardID source \<noteq> si_ShardID dest" "ns ?A = Some sA" "ns ?B = Some sB"
    "stands ?t OpDebit (t_Source txn) ?x lA stA sA" "stands ?t OpCredit (t_Destination txn) ?x lB stB sB"
    using assms(1) by (auto simp: pair_stands_def)
  define ns1 where "ns1 = (if sp then fst (ShardClient_Abort n1 ?A ?t OpDebit (t_Source txn) ?x ns) else ns)"
  have ns': "ns' = (if dp then fst (ShardClient_Abort n2 ?B ?t OpCredit (t_Destination txn) ?x ns1) else ns1)" "r_State res = StateAborted"
    using assms(4) by (auto simp: Coordinator_abortAll_def ns1_def Let_def)
  obtain sA' where sA': "ns1 = ns(?A \<mapsto> sA')"
    "stands ?t OpDebit (t_Source txn) ?x lA (if sp \<and> n1 \<noteq> RequestLost then Some StateAborted else stA) sA'"
    using abort_stands [where ns = ns and addr = ?A, OF AB(3,5) assms(2)] unfolding ns1_def by blast
  then have B: "ns1 ?B = Some sB" using AB by simp
  obtain sB' where sB': "ns' = ns1(?B \<mapsto> sB')"
    "stands ?t OpCredit (t_Destination txn) ?x lB (if dp \<and> n2 \<noteq> RequestLost then Some StateAborted else stB) sB'"
    using abort_stands [where ns = ns1 and addr = ?B, OF B AB(6) assms(3)] unfolding ns'(1) by blast
  from pair_standsI [OF AB(1,2) sB'(1) [unfolded sA'(1)] sA'(2) sB'(2)] ns'(2) show ?thesis by blast
qed

lemma commitAll_stands:
  assumes "pair_stands txn source dest lA lB stA stB ns" "stA \<in> agreed" "stB \<in> agreed"
    and "Coordinator_commitAll sched nets1 nets2 txn source dest ns = (ns', res)"
  shows "(\<exists>stA' \<in> agreed. \<exists>stB' \<in> agreed. pair_stands txn source dest lA lB stA' stB' ns')
    \<and> others_same ns ns' (si_Address source) (si_Address dest) \<and> r_State res = StateCommitted"
    and "next_net nets1 = NetOk \<Longrightarrow> next_net nets2 = NetOk \<Longrightarrow>
      pair_stands txn source dest lA lB (Some StateCommitted) (Some StateCommitted) ns'"
proof -
  let ?t = "t_TxnID txn" and ?x = "t_Amount txn" and ?A = "si_Address source" and ?B = "si_Address dest"
  obtain sA sB where AB: "?A \<noteq> ?B" "si_ShardID source \<noteq> si_ShardID dest" "ns ?A = Some sA" "ns ?B = Some sB"
    "stands ?t OpDebit (t_Source txn) ?x lA stA sA" "stands ?t OpCredit (t_Destination txn) ?x lB stB sB"
    using assms(1) by (auto simp: pair_stands_def)
  have "reservable OpDebit (t_Source txn) ?x lA" "reservable OpCredit (t_Destination txn) ?x lB"
    using AB(5,6) assms(2,3) by (auto simp: stands_def agreed_def)
  from credit_deliverable [OF this]
  have d: "deliverable OpDebit (t_Source txn) ?x (reserve OpDebit (t_Source txn) ?x lA)"
    "deliverable OpCredit (t_Destination txn) ?x (reserve OpCredit (t_Destination txn) ?x lB)"
    by (simp_all add: deliverable_def)
  obtain e1 e2 where cb: "commit_both sched txn source dest (commit_start nets1) (commit_start nets2) ns = (ns', e1, e2)"
    and res: "r_State res = StateCommitted"
    using assms(4) by (auto simp: Coordinator_commitAll_def split: prod.splits)
  let ?pA = "commits_stand ?t OpDebit (t_Source txn) ?x lA" and ?pB = "commits_stand ?t OpCredit (t_Destination txn) ?x lB"
  have start: "?pA e sA" "?pB e sB" for e using AB(5,6) assms(2,3) by (auto simp: commits_stand_def)
  have "\<exists>sA' sB'. ns' ?A = Some sA' \<and> ns' ?B = Some sB' \<and> others_same ns ns' ?A ?B \<and> ?pA e1 sA' \<and> ?pB e2 sB'"
    by (rule commit_both_inv [where pA = ?pA and pB = ?pB, OF AB(1) _ _ AB(3) start(1) AB(4) start(2) cb])
      (rule commitAttempt_stands [OF d(1)] commitAttempt_stands [OF d(2)]; assumption)+
  then show "(\<exists>stA' \<in> agreed. \<exists>stB' \<in> agreed. pair_stands txn source dest lA lB stA' stB' ns')
    \<and> others_same ns ns' (si_Address source) (si_Address dest) \<and> r_State res = StateCommitted"
    using AB(1,2) res by (auto simp: commits_stand_def pair_stands_def)
  assume "next_net nets1 = NetOk" "next_net nets2 = NetOk"
  with commit_both_accepted [where ns = ns, OF AB(3) stands_commit(2) [OF AB(5) assms(2) d(1)] AB(4) stands_commit(2) [OF AB(6) assms(3) d(2)] AB(1)]
  have "ns' = ns(?A \<mapsto> fst (ShardServer_CommitTransaction ?t OpDebit (t_Source txn) ?x sA),
      ?B \<mapsto> fst (ShardServer_CommitTransaction ?t OpCredit (t_Destination txn) ?x sB))"
    using cb by auto
  with stands_commit(1) [OF AB(5) assms(2) d(1)] stands_commit(1) [OF AB(6) assms(3) d(2)] AB(1,2)
  show "pair_stands txn source dest lA lB (Some StateCommitted) (Some StateCommitted) ns'"
    by (simp add: pair_stands_def)
qed

section \<open>Runs\<close>

lemma asked_agreed [simp]: "st \<in> agreed \<Longrightarrow> asked can st = st"
  by (auto simp: agreed_def)

lemma asked_unsettled: "st \<in> unsettled \<Longrightarrow> asked can st \<in> {Some StatePrepared, Some StateAborted}"
  by (auto simp: unsettled_def asked_def)

text \<open>A run for a transaction that no shard has committed leaves it so, or both shards have agreed.\<close>

lemma Execute_unsettled:
  assumes "pair_stands txn source dest lA lB stA stB ns" "stA \<in> unsettled" "stB \<in> unsettled"
    and "Coordinator_Execute env txn source dest ns = (ns', res)"
  shows "\<exists>stA' stB'. pair_stands txn source dest lA lB stA' stB' ns' \<and> others_same ns ns' (si_Address source) (si_Address dest)
    \<and> (r_State res = StateCommitted \<and> stA' \<in> agreed \<and> stB' \<in> agreed
       \<or> r_State res = StateAborted \<and> stA' \<in> unsettled \<and> stB' \<in> unsettled)"
proof -
  obtain ns1 sp dp where p: "Coordinator_sendPrepares (env_srcFirst env) (fst (env_prepares env))
      (snd (env_prepares env)) txn source dest ns = (ns1, sp, dp)" by (metis prod_cases3)
  note sp = sendPrepares_stands [OF assms(1) p]
  show ?thesis
  proof (cases "sp \<and> dp")
    case True
    then have "Coordinator_commitAll (env_sched env) (fst (env_commits env)) (snd (env_commits env)) txn source dest ns1 = (ns', res)"
      using assms(4) p by (simp add: Coordinator_Execute_def)
    from commitAll_stands(1) [OF sp(1) _ _ this] True sp(2-4) show ?thesis by (auto simp: others_same_def)
  next
    case False
    then have run: "Coordinator_abortAll (fst (env_aborts env)) (snd (env_aborts env)) txn source dest sp dp ns1 = (ns', res)"
      using assms(4) p by (auto simp: Coordinator_Execute_def)
    obtain a b where ab: "pair_stands txn source dest lA lB a b ns1" "a \<in> unsettled" "b \<in> unsettled"
      using sp(1) asked_unsettled [OF assms(2)] asked_unsettled [OF assms(3)] assms(2,3) by (auto simp: unsettled_def split: if_splits)
    have "Some StateAborted \<in> unsettled" by (simp add: unsettled_def)
    with abortAll_stands [OF ab run] sp(2) ab(2,3) show ?thesis by (auto simp: others_same_def split: if_splits)
  qed
qed

text \<open>A network that delivers what a run needs; replies to COMMIT and ABORT may be lost afterwards.\<close>

definition delivering :: "run_env \<Rightarrow> bool" where
  "delivering env \<longleftrightarrow> env_prepares env = (NetOk, NetOk)
     \<and> next_net (fst (env_commits env)) = NetOk \<and> next_net (snd (env_commits env)) = NetOk
     \<and> fst (env_aborts env) \<noteq> RequestLost \<and> snd (env_aborts env) \<noteq> RequestLost"

lemma Execute_delivering:
  assumes "pair_stands txn source dest lA lB stA stB ns" "{stA, stB} \<subseteq> unsettled \<or> {stA, stB} \<subseteq> agreed" "delivering env"
    and "Coordinator_Execute env txn source dest ns = (ns', res)"
  shows "others_same ns ns' (si_Address source) (si_Address dest)
    \<and> (r_State res = StateCommitted \<and> pair_stands txn source dest lA lB (Some StateCommitted) (Some StateCommitted) ns'
       \<or> r_State res = StateAborted \<and> pair_stands txn source dest lA lB (Some StateAborted) (Some StateAborted) ns')"
proof -
  let ?a = "asked (reservable OpDebit (t_Source txn) (t_Amount txn) lA) stA"
  let ?b = "asked (reservable OpCredit (t_Destination txn) (t_Amount txn) lB) stB"
  note env = assms(3) [unfolded delivering_def]
  obtain ns1 sp dp where p: "Coordinator_sendPrepares (env_srcFirst env) NetOk NetOk txn source dest ns = (ns1, sp, dp)"
    by (metis prod_cases3)
  note sp = sendPrepares_stands [OF assms(1) p, simplified]
  show ?thesis
  proof (cases "?a \<in> agreed \<and> ?b \<in> agreed")
    case True
    then have "Coordinator_commitAll (env_sched env) (fst (env_commits env)) (snd (env_commits env)) txn source dest ns1 = (ns', res)"
      using assms(4) p sp(3,4) env by (simp add: Coordinator_Execute_def)
    from commitAll_stands [OF sp(1) _ _ this] True env sp(2) show ?thesis by (simp add: others_same_def)
  next
    case False
    then have u: "stA \<in> unsettled" "stB \<in> unsettled" using assms(2) by auto
    have run: "Coordinator_abortAll (fst (env_aborts env)) (snd (env_aborts env)) txn source dest sp dp ns1 = (ns', res)"
      using assms(4) p sp(3,4) env False by (auto simp: Coordinator_Execute_def)
    have ab: "?a \<in> unsettled" "?b \<in> unsettled" "\<not> sp \<Longrightarrow> ?a = Some StateAborted" "\<not> dp \<Longrightarrow> ?b = Some StateAborted"
      using asked_unsettled [OF u(1)] asked_unsettled [OF u(2)] sp(3,4) by (auto simp: unsettled_def agreed_def)
    have "(if sp \<and> fst (env_aborts env) \<noteq> RequestLost then Some StateAborted else ?a) = Some StateAborted"
      "(if dp \<and> snd (env_aborts env) \<noteq> RequestLost then Some StateAborted else ?b) = Some StateAborted"
      using ab(3,4) env by auto
    with abortAll_stands [OF sp(1) ab(1,2) run] sp(2) show ?thesis by (auto simp: others_same_def)
  qed
qed

section \<open>Submitted again and again\<close>

text \<open>The runs for one transaction, and the state each of them answers.\<close>

fun submissions :: "run_env list \<Rightarrow> Transaction \<Rightarrow> ShardInfo \<Rightarrow> ShardInfo \<Rightarrow> nodes \<Rightarrow> nodes \<times> TransactionState list" where
  "submissions [] txn source dest ns = (ns, [])"
| "submissions (env # envs) txn source dest ns =
     (case Coordinator_Execute env txn source dest ns of (ns1, res) \<Rightarrow>
      case submissions envs txn source dest ns1 of (ns', rs) \<Rightarrow> (ns', r_State res # rs))"

lemma submissions_stand:
  assumes "pair_stands txn source dest lA lB stA stB ns" "stA \<in> unsettled" "stB \<in> unsettled"
    and "submissions envs txn source dest ns = (ns', rs)" "StateCommitted \<notin> set (butlast rs)"
  shows "\<exists>stA' stB'. pair_stands txn source dest lA lB stA' stB' ns' \<and> others_same ns ns' (si_Address source) (si_Address dest)
    \<and> ({stA', stB'} \<subseteq> unsettled \<or> {stA', stB'} \<subseteq> agreed)"
  using assms
proof (induction envs arbitrary: stA stB ns rs)
  case (Cons env envs)
  obtain ns1 res where r: "Coordinator_Execute env txn source dest ns = (ns1, res)" by force
  obtain rs1 where s: "submissions envs txn source dest ns1 = (ns', rs1)" "rs = r_State res # rs1"
    using Cons.prems(4) r by (auto split: prod.splits)
  obtain a b where ab: "pair_stands txn source dest lA lB a b ns1" "others_same ns ns1 (si_Address source) (si_Address dest)"
    "r_State res = StateCommitted \<and> a \<in> agreed \<and> b \<in> agreed \<or> r_State res = StateAborted \<and> a \<in> unsettled \<and> b \<in> unsettled"
    using Execute_unsettled [OF Cons.prems(1-3) r] by blast
  show ?case
  proof (cases envs)
    case Nil
    then show ?thesis using ab s by auto
  next
    case (Cons e es)
    then have "rs1 \<noteq> []" using s(1) by (auto split: prod.splits)
    then have "a \<in> unsettled" "b \<in> unsettled" "StateCommitted \<notin> set (butlast rs1)" using ab(3) s(2) Cons.prems(5) by auto
    from Cons.IH [OF ab(1) this(1,2) s(1) this(3)] ab(2) show ?thesis by (auto simp: others_same_def)
  qed
qed (auto simp: others_same_def)

text \<open>Where the participants stand determines the money.\<close>

lemma pair_money:
  fixes txn source dest
  defines "A \<equiv> si_Address source" and "B \<equiv> si_Address dest"
  assumes "cluster_ok ns" "fresh_run ns txn source dest sA sB"
    and "pair_stands txn source dest (s_ledger sA) (s_ledger sB) stA stB ns'" "others_same ns ns' A B"
    and "{stA, stB} \<subseteq> unsettled \<or> {stA, stB} \<subseteq> agreed"
  shows "cluster_ok ns'" "cluster_funds ns' \<le> cluster_funds ns"
    and "stA = stB \<Longrightarrow> stA \<in> {Some StateAborted, Some StateCommitted} \<Longrightarrow> cluster_funds ns' = cluster_funds ns"
proof -
  note fr = assms(4) [unfolded fresh_run_def]
  obtain sA' sB' where new: "ns' A = Some sA'" "ns' B = Some sB'"
    "stands (t_TxnID txn) OpDebit (t_Source txn) (t_Amount txn) (s_ledger sA) stA sA'"
    "stands (t_TxnID txn) OpCredit (t_Destination txn) (t_Amount txn) (s_ledger sB) stB sB'"
    using assms(5) by (auto simp: pair_stands_def A_def B_def)
  have fin: "committing (t_TxnID txn) OpDebit (t_Source txn) (t_Amount txn) (s_ledger sA) sA'
      \<and> committing (t_TxnID txn) OpCredit (t_Destination txn) (t_Amount txn) (s_ledger sB) sB'
    \<or> s_ledger sB' = s_ledger sB \<and> (s_ledger sA' = s_ledger sA
       \<or> reservable OpDebit (t_Source txn) (t_Amount txn) (s_ledger sA)
         \<and> s_ledger sA' = reserve OpDebit (t_Source txn) (t_Amount txn) (s_ledger sA))"
    using assms(7) new(3,4)
    by (auto simp: stands_def unsettled_def agreed_def committing_def reserved_def done_commit_def)
  note m = outcome_money [OF assms(3) _ _ _ new(1,2) [unfolded A_def B_def] assms(6) [unfolded A_def B_def] fin]
  show "cluster_ok ns'" "cluster_funds ns' \<le> cluster_funds ns" using m(1,3) fr by simp_all
  assume "stA = stB" "stA \<in> {Some StateAborted, Some StateCommitted}"
  then consider "s_ledger sA' = s_ledger sA" "s_ledger sB' = s_ledger sB"
    | "reservable OpDebit (t_Source txn) (t_Amount txn) (s_ledger sA)"
      "s_ledger sA' = reserve OpDebit (t_Source txn) (t_Amount txn) (s_ledger sA)"
      "deliverable OpCredit (t_Destination txn) (t_Amount txn) (s_ledger sB)"
      "s_ledger sB' = deliver OpCredit (t_Destination txn) (t_Amount txn) (s_ledger sB)"
    using new(3,4) by (auto simp: stands_def)
  then have "shard_funds sA' + shard_funds sB' = shard_funds sA + shard_funds sB"
  proof cases
    case 2
    have sh: "shard_ok sA" "shard_ok sB" "shard_funds sA + shard_funds sB < 2 ^ 63"
      using fr assms(3) cluster_pair_le [OF assms(3), of A sA B sB] by (auto simp: cluster_ok_def A_def B_def)
    note d = reserve_debit_funds [OF sh(1) 2(1,2)]
    show ?thesis using d(2,4) deliver_credit_funds(2) [OF sh(2) 2(3,4)] sh(3) by simp
  qed (simp add: shard_funds_def)
  then show "cluster_funds ns' = cluster_funds ns" using m(4) fr by simp
qed

text \<open>All COMMITs to the source shard are lost, and the destination commits at once.\<close>

lemma commit_both_source_lost:
  fixes txn source dest
  defines "B \<equiv> si_Address dest" and "cB \<equiv> ShardServer_CommitTransaction (t_TxnID txn) OpCredit (t_Destination txn) (t_Amount txn)"
  assumes "ns B = Some sB" "snd (cB sB) = None" "next_net nets = NetOk"
  shows "fst (commit_both sched txn source dest (commit_start [RequestLost, RequestLost, RequestLost]) (commit_start nets) ns)
    = ns(B \<mapsto> fst (cB sB))"
proof -
  have A: "Coordinator_commitAttempt (si_Address source) (t_TxnID txn) OpDebit (t_Source txn) (t_Amount txn)
      \<lparr>cm_left = k, cm_nets = RequestLost # ms, cm_err = e\<rparr> m
      = (\<lparr>cm_left = k - 1, cm_nets = ms, cm_err = Some ClientRequestFailed\<rparr>, m)" for k ms e m
    by (simp add: Coordinator_commitAttempt_def next_net_def ShardClient_Commit_def ShardClient_postJSON_def
        ShardClient_doPost_def split: option.split)
  note tryB = commitAttempt_accepted [where ns = ns and addr = B and op = OpCredit and a = "t_Destination txn",
      OF assms(3) assms(4) [unfolded cB_def], folded cB_def]
  from tryB [of "commit_start nets"] assms(5) show ?thesis
    by (simp add: commit_both.simps commit_start_def A flip: B_def)
qed

lemma partial_commit:
  assumes "pair_stands txn source dest lA lB None None ns"
    and can: "reservable OpDebit (t_Source txn) (t_Amount txn) lA" "reservable OpCredit (t_Destination txn) (t_Amount txn) lB"
    and "env_prepares env = (NetOk, NetOk)" "fst (env_commits env) = [RequestLost, RequestLost, RequestLost]"
      "next_net (snd (env_commits env)) = NetOk"
    and "Coordinator_Execute env txn source dest ns = (ns', res)"
  shows "pair_stands txn source dest lA lB (Some StatePrepared) (Some StateCommitted) ns'"
    "others_same ns ns' (si_Address source) (si_Address dest)" "r_State res = StateCommitted"
proof -
  let ?x = "t_Amount txn" and ?A = "si_Address source" and ?B = "si_Address dest"
  let ?cB = "ShardServer_CommitTransaction (t_TxnID txn) OpCredit (t_Destination txn) ?x"
  obtain m sp dp where p: "Coordinator_sendPrepares (env_srcFirst env) NetOk NetOk txn source dest ns = (m, sp, dp)"
    by (metis prod_cases3)
  have m: "pair_stands txn source dest lA lB (Some StatePrepared) (Some StatePrepared) m" "sp" "dp" "others_same ns m ?A ?B"
    using sendPrepares_stands [OF assms(1) p] can by (simp_all add: asked_def agreed_def)
  obtain sA1 sB1 where AB: "?A \<noteq> ?B" "si_ShardID source \<noteq> si_ShardID dest" "m ?A = Some sA1" "m ?B = Some sB1"
    "stands (t_TxnID txn) OpDebit (t_Source txn) ?x lA (Some StatePrepared) sA1"
    "stands (t_TxnID txn) OpCredit (t_Destination txn) ?x lB (Some StatePrepared) sB1"
    using m(1) by (auto simp: pair_stands_def)
  have "Some StatePrepared \<in> agreed" "deliverable OpCredit (t_Destination txn) ?x (reserve OpCredit (t_Destination txn) ?x lB)"
    using credit_deliverable [OF can] by (simp_all add: agreed_def)
  note c = stands_commit [OF AB(6) this]
  have "Coordinator_commitAll (env_sched env) (fst (env_commits env)) (snd (env_commits env)) txn source dest m = (ns', res)"
    using assms(4,7) p m(2,3) by (simp add: Coordinator_Execute_def)
  then have ns': "ns' = m(?B \<mapsto> fst (?cB sB1))" and "r_State res = StateCommitted"
    using commit_both_source_lost [where ns = m and source = source, OF AB(4) c(2) assms(6), of "env_sched env"] assms(5)
    by (auto simp: Coordinator_commitAll_def split: prod.splits)
  then show "r_State res = StateCommitted" by simp
  have "ns' = m(?A \<mapsto> sA1, ?B \<mapsto> fst (?cB sB1))" using ns' AB(1,3) by (simp add: fun_upd_idem)
  from pair_standsI [OF AB(1,2) this AB(5) c(1)] m(4)
  show "pair_stands txn source dest lA lB (Some StatePrepared) (Some StateCommitted) ns'" "others_same ns ns' ?A ?B"
    by (simp_all add: others_same_def)
qed

section \<open>Properties\<close>

text \<open>
  C15: Submitting a transfer again settles it. However often a cross-shard transfer is submitted, with whatever the
  network loses each time and however the goroutines interleave, as long as the submitter stops at the first
  answer COMMITTED: no money is created, and one more submission over a network that delivers settles it
  exactly: either both shards have made the transfer, once, and the answer is COMMITTED, or both are as if it
  had never been submitted, and the answer is ABORTED. Nothing stays reserved or in transit.
\<close>

theorem resubmission_settles:
  assumes "cluster_ok ns" "fresh_run ns txn source dest sA sB" "wal_healthy (s_walLog sA)" "wal_healthy (s_walLog sB)"
    and "submissions envs txn source dest ns = (ns1, rs)" "StateCommitted \<notin> set (butlast rs)"
    and "delivering env" "Coordinator_Execute env txn source dest ns1 = (ns2, res)"
  shows "cluster_ok ns1 \<and> cluster_funds ns1 \<le> cluster_funds ns \<and> cluster_ok ns2 \<and> cluster_funds ns2 = cluster_funds ns
    \<and> (\<exists>sA' sB'. ns2 (si_Address source) = Some sA' \<and> ns2 (si_Address dest) = Some sB'
      \<and> (r_State res = StateCommitted
          \<and> Ledger_ApplyDebit (t_Source txn) (t_Amount txn) (s_ledger sA) = (s_ledger sA', None)
          \<and> Ledger_ApplyCredit (t_Destination txn) (t_Amount txn) (s_ledger sB) = (s_ledger sB', None)
        \<or> r_State res = StateAborted \<and> s_ledger sA' = s_ledger sA \<and> s_ledger sB' = s_ledger sB))"
proof -
  let ?st = "pair_stands txn source dest (s_ledger sA) (s_ledger sB)"
  have start: "?st None None ns" "None \<in> unsettled"
    using assms(2-4) by (auto simp: pair_stands_def stands_def fresh_run_def unsettled_def)
  obtain a b where ab: "?st a b ns1" "others_same ns ns1 (si_Address source) (si_Address dest)"
    "{a, b} \<subseteq> unsettled \<or> {a, b} \<subseteq> agreed"
    using submissions_stand [OF start(1,2,2) assms(5,6)] by blast
  obtain c where c: "?st c c ns2" "others_same ns1 ns2 (si_Address source) (si_Address dest)"
    "r_State res = StateCommitted \<and> c = Some StateCommitted \<or> r_State res = StateAborted \<and> c = Some StateAborted"
    using Execute_delivering [OF ab(1,3) assms(7,8)] by blast
  have o: "others_same ns ns2 (si_Address source) (si_Address dest)" using ab(2) c(2) by (simp add: others_same_def)
  have s: "{c, c} \<subseteq> unsettled \<or> {c, c} \<subseteq> agreed" using c(3) by (auto simp: unsettled_def agreed_def)
  have "c \<in> {Some StateAborted, Some StateCommitted}" using c(3) by auto
  with pair_money [OF assms(1,2) ab] pair_money [OF assms(1,2) c(1) o s]
  have "cluster_ok ns1 \<and> cluster_funds ns1 \<le> cluster_funds ns \<and> cluster_ok ns2 \<and> cluster_funds ns2 = cluster_funds ns" by simp
  with c(1,3) show ?thesis
    by (auto simp: pair_stands_def stands_def reservable_def reserve_def deliverable_def deliver_def prod_eq_iff)
qed

text \<open>
  C36: Submitting a transfer again after the answer COMMITTED can create money. If the COMMITs to the source
  shard were lost, it still holds the transaction as prepared; when in a second run the answer of the
  destination shard to PREPARE is lost, the source is told to abort and gives the money back, which the
  destination has already credited: the cluster has more than before, by the amount of the transfer.
\<close>

theorem resubmission_creates_money:
  assumes "cluster_ok ns" "fresh_run ns txn source dest sA sB" "wal_healthy (s_walLog sA)" "wal_healthy (s_walLog sB)"
    and "Ledger_ValidateDebit (t_Source txn) (t_Amount txn) (s_ledger sA) = None"
    and "Ledger_AccountExists (t_Destination txn) (s_ledger sB)"
    and "env_prepares env1 = (NetOk, NetOk)" "fst (env_commits env1) = [RequestLost, RequestLost, RequestLost]"
      "next_net (snd (env_commits env1)) = NetOk"
    and "fst (env_prepares env2) = NetOk" "snd (env_prepares env2) \<noteq> NetOk" "fst (env_aborts env2) \<noteq> RequestLost"
    and "Coordinator_Execute env1 txn source dest ns = (ns1, res1)" "Coordinator_Execute env2 txn source dest ns1 = (ns2, res2)"
    and "shard_funds sB + sint (t_Amount txn) < 2 ^ 63"
  shows "r_State res1 = StateCommitted \<and> r_State res2 = StateAborted
    \<and> cluster_funds ns2 = cluster_funds ns + sint (t_Amount txn) \<and> 0 < sint (t_Amount txn)"
proof -
  let ?x = "t_Amount txn" and ?A = "si_Address source" and ?B = "si_Address dest"
  let ?st = "pair_stands txn source dest (s_ledger sA) (s_ledger sB)"
  note fr = assms(2) [unfolded fresh_run_def]
  have can: "reservable OpDebit (t_Source txn) ?x (s_ledger sA)" "reservable OpCredit (t_Destination txn) ?x (s_ledger sB)"
    using assms(5,6) Validate_predicts_Apply [of "t_Source txn" ?x "s_ledger sA"] by (simp_all add: reservable_def)
  have "?st None None ns" using assms(2-4) by (auto simp: pair_stands_def stands_def fresh_run_def)
  note run1 = partial_commit [OF this can assms(7-9,13)]
  obtain m sp dp where p: "Coordinator_sendPrepares (env_srcFirst env2) (fst (env_prepares env2)) (snd (env_prepares env2)) txn source dest ns1 = (m, sp, dp)"
    by (metis prod_cases3)
  have m: "?st (Some StatePrepared) (Some StateCommitted) m" "sp" "\<not> dp" "others_same ns1 m ?A ?B"
    using sendPrepares_stands [OF run1(1) p] assms(10,11) by (simp_all add: agreed_def split: if_splits)
  then have "Coordinator_abortAll (fst (env_aborts env2)) (snd (env_aborts env2)) txn source dest sp dp m = (ns2, res2)"
    using assms(14) p by (simp add: Coordinator_Execute_def)
  from abortAll_stands [OF m(1) _ _ this] m(2,3) assms(12)
  have ns2: "?st (Some StateAborted) (Some StateCommitted) ns2" "others_same m ns2 ?A ?B" "r_State res2 = StateAborted"
    by (simp_all add: unsettled_def)
  obtain sA2 sB2 where f: "ns2 ?A = Some sA2" "ns2 ?B = Some sB2" "s_ledger sA2 = s_ledger sA"
    "s_ledger sB2 = deliver OpCredit (t_Destination txn) ?x (s_ledger sB)"
    using ns2(1) by (auto simp: pair_stands_def stands_def)
  have "ns2 = ns(?A \<mapsto> sA2, ?B \<mapsto> sB2)"
    using f(1,2) run1(2) m(4) ns2(2) by (auto simp: others_same_def fun_eq_iff)
  moreover have "shard_ok sB" "finite (dom ns)" "(ns(?A \<mapsto> sA2)) ?B = Some sB" using assms(1) fr by (auto simp: cluster_ok_def)
  ultimately have "cluster_funds ns2 = cluster_funds ns + sint ?x"
    using cluster_update [of ns ?A sA sA2] cluster_update [of "ns(?A \<mapsto> sA2)" ?B sB sB2] fr f(3)
      deliver_credit_funds(2) [OF _ credit_deliverable [OF can] f(4) assms(15)] by (simp add: shard_funds_def)
  with run1(3) ns2(3) reservable_debit_pos [OF can(1)] show ?thesis by simp
qed

theorem resubmission_settles_witness:
  "cluster_funds (fst (Coordinator_Execute example_env (example_txn 30) (example_shards ! 0) (example_shards ! 1)
     (fst (submissions [example_env\<lparr>env_prepares := (ReplyLost, NetOk)\<rparr>,
         example_env\<lparr>env_prepares := (NetOk, RequestLost), env_aborts := (RequestLost, NetOk)\<rparr>]
       (example_txn 30) (example_shards ! 0) (example_shards ! 1) example_cluster)))) = 300"
proof -
  let ?envs = "[example_env\<lparr>env_prepares := (ReplyLost, NetOk)\<rparr>,
      example_env\<lparr>env_prepares := (NetOk, RequestLost), env_aborts := (RequestLost, NetOk)\<rparr>]"
  have h: "wal_healthy (s_walLog (example_shard []))" by (simp add: wal_healthy_def example_shard_def)
  have nc: "StateCommitted \<notin> set (butlast (snd (submissions ?envs (example_txn 30) (example_shards ! 0) (example_shards ! 1) example_cluster)))"
    by (simp add: twopc_eval)
  have "delivering example_env" by (simp add: delivering_def example_env_def next_net_def)
  from resubmission_settles [OF example_cluster_ok(1) example_fresh h h prod.collapse [symmetric] nc this prod.collapse [symmetric]]
  show ?thesis using example_cluster_ok(2) by (simp del: submissions.simps)
qed

theorem resubmission_creates_money_witness:
  "cluster_funds (fst (Coordinator_Execute (example_env\<lparr>env_prepares := (NetOk, ReplyLost)\<rparr>) (example_txn 30) (example_shards ! 0) (example_shards ! 1)
     (fst (Coordinator_Execute (example_env\<lparr>env_commits := ([RequestLost, RequestLost, RequestLost], [])\<rparr>)
       (example_txn 30) (example_shards ! 0) (example_shards ! 1) example_cluster)))) = 330"
proof -
  let ?e1 = "example_env\<lparr>env_commits := ([RequestLost, RequestLost, RequestLost], [])\<rparr>"
  let ?e2 = "example_env\<lparr>env_prepares := (NetOk, ReplyLost)\<rparr>"
  have h: "wal_healthy (s_walLog (example_shard []))" by (simp add: wal_healthy_def example_shard_def)
  have v: "Ledger_ValidateDebit (t_Source (example_txn 30)) (t_Amount (example_txn 30)) (s_ledger (example_shard [])) = None"
    "Ledger_AccountExists (t_Destination (example_txn 30)) (s_ledger (example_shard []))"
    by (simp_all add: example_txn_def example_shard_def Ledger_ValidateDebit_def Ledger_AccountExists_def signed_order)
  show ?thesis
    using resubmission_creates_money [OF example_cluster_ok(1) example_fresh h h v _ _ _ _ _ _ prod.collapse [symmetric] prod.collapse [symmetric], of ?e1 ?e2]
      example_cluster_ok(2) example_funds [of "[]"] by (simp add: example_env_def next_net_def example_txn_def)
qed

end
