(* ===== verification/Consumer.thy ===== *)
theory Consumer
  imports Router
begin

text \<open>
  \<^verbatim>\<open>coordinator/consumer\<close>: how transactions enter the coordinator, over HTTP (\<^verbatim>\<open>consumer.go\<close>) and
  from Kafka (\<^verbatim>\<open>kafka_consumer.go\<close>). An HTTP handler takes the method, what the decoder makes of the
  body (\<open>None\<close>: it does not decode) or the query parameter, the consumer and the cluster. What the
  Kafka reader returns, a third-party library, is the argument \<open>reads\<close> of the consuming loop.
\<close>

section \<open>Model\<close>

record HTTPConsumer =
  hc_router :: Router
  hc_results :: "string \<rightharpoonup> ledger_error TransactionResult"
  hc_recentTxns :: "TxnSummary list"

definition NewHTTPConsumer :: "Router \<Rightarrow> HTTPConsumer" where
  "NewHTTPConsumer r = \<lparr>hc_router = r, hc_results = Map.empty, hc_recentTxns = []\<rparr>"

datatype validation_error =
    TxnIDRequired | SourceRequired | DestinationRequired | SameAccount | AmountNotPositive

definition validateTransaction :: "Transaction \<Rightarrow> validation_error option" where
  "validateTransaction txn =
     (if t_TxnID txn = '''' then Some TxnIDRequired
      else if t_Source txn = '''' then Some SourceRequired
      else if t_Destination txn = '''' then Some DestinationRequired
      else if t_Source txn = t_Destination txn then Some SameAccount
      else if t_Amount txn \<le>s 0 then Some AmountNotPositive
      else None)"

datatype consumer_body =
    ConsumerMethodNotAllowed | ConsumerInvalidBody | ConsumerInvalid validation_error
  | ConsumerRouteError route_error | ConsumerResult "ledger_error TransactionResult"
  | ConsumerTransfer string TransactionState "ledger_error message"
  | ConsumerMissingTxnID | ConsumerNotFound string | ConsumerHistory "TxnSummary list" nat
  | ConsumerCounts nat nat nat

definition HTTPConsumer_addRecentTxn :: "TxnSummary \<Rightarrow> HTTPConsumer \<Rightarrow> HTTPConsumer" where
  "HTTPConsumer_addRecentTxn x c =
     c\<lparr>hc_recentTxns := (if 1000 \<le> length (hc_recentTxns c) then tl (hc_recentTxns c)
                         else hc_recentTxns c) @ [x]\<rparr>"

text \<open>\<open>None\<close> is the panic of \<open>make\<close> on a negative length.\<close>

definition HTTPConsumer_getRecentTxns :: "int \<Rightarrow> HTTPConsumer \<Rightarrow> TxnSummary list option" where
  "HTTPConsumer_getRecentTxns limit c =
     (let n = length (hc_recentTxns c); k = (if int n < limit then int n else limit)
      in if k < 0 then None else Some (drop (n - nat k) (hc_recentTxns c)))"

text \<open>\<open>handleSubmit\<close> and \<open>HandleTransferDirect\<close> run the same code and differ in the label they
  record in the history and in the fields of the answer.\<close>

definition accept_transaction ::
    "string \<Rightarrow> net \<Rightarrow> run_env \<Rightarrow> http_method \<Rightarrow> Transaction option \<Rightarrow> HTTPConsumer \<Rightarrow> nodes
     \<Rightarrow> HTTPConsumer \<times> nodes \<times> nat \<times> consumer_body" where
  "accept_transaction label n env m body c ns =
     (if m \<noteq> MethodPost then (c, ns, StatusMethodNotAllowed, ConsumerMethodNotAllowed)
      else case body of
        None \<Rightarrow> (c, ns, StatusBadRequest, ConsumerInvalidBody)
      | Some txn0 \<Rightarrow>
          (case validateTransaction txn0 of
             Some err \<Rightarrow> (c, ns, StatusBadRequest, ConsumerInvalid err)
           | None \<Rightarrow>
               (let txn = txn0\<lparr>t_State := StatePending\<rparr> in
                case Router_Route n env (hc_router c) txn ns of
                  (ns', Inl err) \<Rightarrow> (c, ns', StatusInternalServerError, ConsumerRouteError err)
                | (ns', Inr res) \<Rightarrow>
                    (let c1 = c\<lparr>hc_results := (hc_results c)(t_TxnID txn \<mapsto> res)\<rparr>;
                         c2 = HTTPConsumer_addRecentTxn
                                \<lparr>sum_TxnID = t_TxnID txn, sum_Source = t_Source txn,
                                 sum_Destination = t_Destination txn, sum_Amount = t_Amount txn,
                                 sum_Type = label, sum_State = r_State res, sum_ShardID = ''''\<rparr> c1
                     in (c2, ns', StatusOK, ConsumerResult res)))))"

definition HTTPConsumer_handleSubmit ::
    "net \<Rightarrow> run_env \<Rightarrow> http_method \<Rightarrow> Transaction option \<Rightarrow> HTTPConsumer \<Rightarrow> nodes
     \<Rightarrow> HTTPConsumer \<times> nodes \<times> nat \<times> consumer_body" where
  "HTTPConsumer_handleSubmit = accept_transaction ''coordinator''"

text \<open>\<open>HandleTransferDirect\<close> answers with the fields of the result under the submitted identifier.\<close>

definition transfer_body :: "Transaction option \<Rightarrow> consumer_body \<Rightarrow> consumer_body" where
  "transfer_body body reply =
     (case (body, reply) of
        (Some txn, ConsumerResult res) \<Rightarrow> ConsumerTransfer (t_TxnID txn) (r_State res) (r_Message res)
      | _ \<Rightarrow> reply)"

definition HTTPConsumer_HandleTransferDirect ::
    "net \<Rightarrow> run_env \<Rightarrow> http_method \<Rightarrow> Transaction option \<Rightarrow> HTTPConsumer \<Rightarrow> nodes
     \<Rightarrow> HTTPConsumer \<times> nodes \<times> nat \<times> consumer_body" where
  "HTTPConsumer_HandleTransferDirect n env m body c ns =
     (case accept_transaction ''transfer'' n env m body c ns of
        (c', ns', status, reply) \<Rightarrow> (c', ns', status, transfer_body body reply))"

definition HTTPConsumer_handleStatus :: "http_method \<Rightarrow> string \<Rightarrow> HTTPConsumer \<Rightarrow> nat \<times> consumer_body" where
  "HTTPConsumer_handleStatus m txnID c =
     (if m \<noteq> MethodGet then (StatusMethodNotAllowed, ConsumerMethodNotAllowed)
      else if txnID = '''' then (StatusBadRequest, ConsumerMissingTxnID)
      else case hc_results c txnID of
        None \<Rightarrow> (StatusNotFound, ConsumerNotFound txnID)
      | Some res \<Rightarrow> (StatusOK, ConsumerResult res))"

definition HTTPConsumer_HandleTransactionsDirect ::
    "http_method \<Rightarrow> string \<Rightarrow> HTTPConsumer \<Rightarrow> (nat \<times> consumer_body) option" where
  "HTTPConsumer_HandleTransactionsDirect m l c =
     (if m \<noteq> MethodGet then Some (StatusMethodNotAllowed, ConsumerMethodNotAllowed)
      else map_option (\<lambda>txns. (StatusOK, ConsumerHistory txns (length txns)))
             (HTTPConsumer_getRecentTxns (query_limit 50 l) c))"

text \<open>The loop that counts committed and aborted transactions in the history.\<close>

fun count_states :: "TxnSummary list \<Rightarrow> nat \<Rightarrow> nat \<Rightarrow> nat \<times> nat" where
  "count_states [] committed_n aborted_n = (committed_n, aborted_n)"
| "count_states (x # xs) committed_n aborted_n =
     (if sum_State x = StateCommitted then count_states xs (committed_n + 1) aborted_n
      else if sum_State x = StateAborted then count_states xs committed_n (aborted_n + 1)
      else count_states xs committed_n aborted_n)"

text \<open>The counters of \<open>handleMetrics\<close>; the rates are computed from the clock in floating point.\<close>

definition HTTPConsumer_handleMetrics :: "http_method \<Rightarrow> HTTPConsumer \<Rightarrow> nat \<times> consumer_body" where
  "HTTPConsumer_handleMetrics m c =
     (if m \<noteq> MethodGet then (StatusMethodNotAllowed, ConsumerMethodNotAllowed)
      else case count_states (hc_recentTxns c) 0 0 of
        (cn, an) \<Rightarrow> (StatusOK, ConsumerCounts (card (dom (hc_results c))) cn an))"

text \<open>The counters of the Prometheus page.\<close>

definition HTTPConsumer_HandlePrometheusMetrics :: "HTTPConsumer \<Rightarrow> nat \<times> nat \<times> nat" where
  "HTTPConsumer_HandlePrometheusMetrics c = (length (hc_recentTxns c), count_states (hc_recentTxns c) 0 0)"

datatype kafka_read = ReadFailed | BadMessage | Message Transaction

text \<open>The consuming loop over what the reader returns; each routed message meets its environment.\<close>

fun KafkaConsumer_loop :: "Router \<Rightarrow> (net \<times> run_env \<times> kafka_read) list \<Rightarrow> nodes \<Rightarrow> nodes" where
  "KafkaConsumer_loop r [] ns = ns"
| "KafkaConsumer_loop r ((n, env, ReadFailed) # reads) ns = ns"
| "KafkaConsumer_loop r ((n, env, BadMessage) # reads) ns = KafkaConsumer_loop r reads ns"
| "KafkaConsumer_loop r ((n, env, Message txn) # reads) ns =
     KafkaConsumer_loop r reads (fst (Router_Route n env r (txn\<lparr>t_State := StatePending\<rparr>) ns))"

section \<open>Facts\<close>

interpretation ring1000: recent_ring HTTPConsumer_addRecentTxn hc_recentTxns 1000
  by unfold_locales (auto simp: HTTPConsumer_addRecentTxn_def)

lemma getRecentTxns_last:
  "0 \<le> limit \<Longrightarrow> HTTPConsumer_getRecentTxns limit c = Some (last_n (nat limit) (hc_recentTxns c))"
  by (auto simp: HTTPConsumer_getRecentTxns_def last_n_def Let_def)

lemma validate_ok:
  "validateTransaction txn = None \<longleftrightarrow> t_TxnID txn \<noteq> '''' \<and> t_Source txn \<noteq> '''' \<and> t_Destination txn \<noteq> ''''
     \<and> t_Source txn \<noteq> t_Destination txn \<and> 0 < sint (t_Amount txn)"
  by (auto simp: validateTransaction_def signed_order)

lemma count_states_acc:
  "count_states xs p q = (p + length (filter (\<lambda>x. sum_State x = StateCommitted) xs),
     q + length (filter (\<lambda>x. sum_State x = StateAborted) xs))"
  by (induction xs p q rule: count_states.induct) auto

lemma results_addRecent [simp]: "hc_results (HTTPConsumer_addRecentTxn x c) = hc_results c"
  by (simp add: HTTPConsumer_addRecentTxn_def)

section \<open>Properties\<close>

text \<open>
  C33: a submission that is not a well-formed transfer (missing identifiers, equal accounts, an
  amount that is not positive) reaches no shard and leaves no trace; a well-formed one that is
  answered with 200 can be polled: the status endpoint returns exactly the answer given.
\<close>

theorem submit_validated_and_pollable:
  assumes "HTTPConsumer_handleSubmit n env m body c ns = (c', ns', status, reply)"
  shows "((\<nexists>txn. m = MethodPost \<and> body = Some txn \<and> t_TxnID txn \<noteq> [] \<and> t_Source txn \<noteq> []
      \<and> t_Destination txn \<noteq> [] \<and> t_Source txn \<noteq> t_Destination txn \<and> 0 < sint (t_Amount txn))
      \<longrightarrow> c' = c \<and> ns' = ns \<and> 400 \<le> status)
    \<and> (status = 200 \<longrightarrow> (\<exists>txn res. body = Some txn \<and> reply = ConsumerResult res
      \<and> HTTPConsumer_handleStatus MethodGet (t_TxnID txn) c' = (200, ConsumerResult res)))"
proof (cases "m = MethodPost \<and> body \<noteq> None \<and> validateTransaction (the body) = None")
  case True
  then obtain txn where txn: "body = Some txn" "validateTransaction txn = None" by auto
  note ok = txn(2) [unfolded validate_ok]
  show ?thesis
    using assms True txn ok
    by (cases "Router_Route n env (hc_router c) (txn\<lparr>t_State := StatePending\<rparr>) ns"; cases "snd (Router_Route n env (hc_router c) (txn\<lparr>t_State := StatePending\<rparr>) ns)")
      (auto simp: HTTPConsumer_handleSubmit_def accept_transaction_def HTTPConsumer_handleStatus_def Let_def)
next
  case False
  then show ?thesis
    using assms validate_ok
    by (auto simp: HTTPConsumer_handleSubmit_def accept_transaction_def split: option.splits if_splits)
qed

theorem submit_validated_and_pollable_witness:
  "\<exists>c' ns' status reply. HTTPConsumer_handleSubmit NetOk example_env MethodPost (Some (example_txn 0))
      (NewHTTPConsumer example_router) example_cluster = (c', ns', status, reply)
    \<and> ns' = example_cluster \<and> 400 \<le> status"
proof -
  obtain c' ns' status reply where r: "HTTPConsumer_handleSubmit NetOk example_env MethodPost (Some (example_txn 0))
      (NewHTTPConsumer example_router) example_cluster = (c', ns', status, reply)"
    by (metis prod_cases4)
  from submit_validated_and_pollable [OF r] have "ns' = example_cluster \<and> 400 \<le> status"
    by (simp add: example_txn_def)
  with r show ?thesis by blast
qed

text \<open>
  The coordinator's history endpoint never panics and serves the most recent of the last
  thousand transactions, whatever the \<open>limit\<close> parameter holds.
\<close>

theorem coordinator_history_serves_latest:
  assumes "hc_recentTxns c = []"
  shows "\<exists>n. 0 < n \<and> HTTPConsumer_HandleTransactionsDirect MethodGet l (fold HTTPConsumer_addRecentTxn xs c) =
    Some (200, ConsumerHistory (last_n n (last_n 1000 xs)) (min n (min 1000 (length xs))))"
proof -
  have pos: "0 < query_limit 50 l" by (simp add: query_limit_pos)
  then show ?thesis
    by (intro exI [of _ "nat (query_limit 50 l)"])
      (simp add: HTTPConsumer_HandleTransactionsDirect_def getRecentTxns_last ring1000.history_is_last [OF assms])
qed

theorem coordinator_history_serves_latest_witness:
  "\<exists>n. 0 < n \<and> HTTPConsumer_HandleTransactionsDirect MethodGet ''7x'' (fold HTTPConsumer_addRecentTxn
      (replicate 1200 example_summary) (NewHTTPConsumer example_router)) =
    Some (200, ConsumerHistory (last_n n (last_n 1000 (replicate 1200 example_summary))) (min n (min 1000 1200)))"
proof -
  have "hc_recentTxns (NewHTTPConsumer example_router) = []" by (simp add: NewHTTPConsumer_def)
  from coordinator_history_serves_latest [OF this, of "''7x''" "replicate 1200 example_summary"]
  show ?thesis unfolding length_replicate .
qed

text \<open>The transfers the loop routes.\<close>

fun read_txns :: "(net \<times> run_env \<times> kafka_read) list \<Rightarrow> (net \<times> run_env \<times> Transaction) list" where
  "read_txns [] = []"
| "read_txns ((n, env, ReadFailed) # reads) = []"
| "read_txns ((n, env, BadMessage) # reads) = read_txns reads"
| "read_txns ((n, env, Message txn) # reads) = (n, env, txn\<lparr>t_State := StatePending\<rparr>) # read_txns reads"

lemma kafka_submits: "KafkaConsumer_loop r reads ns = submit_all r (read_txns reads) ns"
  by (induction r reads ns rule: KafkaConsumer_loop.induct) (simp_all add: submit_all_def)

text \<open>
  The Kafka path is safe too: whatever the reader delivers (broken messages, a failing
  reader, any transfers with distinct new identifiers, validated or not), the consuming loop
  keeps every balance non-negative and never raises the cluster's total.
\<close>

theorem kafka_never_creates_money:
  assumes "cluster_ok ns" "addresses_distinct (ro_shardMap r)" "deployed (ro_shardMap r) ns"
    and "distinct (map (\<lambda>(n, env, txn). t_TxnID txn) (read_txns reads))"
    and "list_all (\<lambda>(n, env, txn). unseen (t_TxnID txn) ns) (read_txns reads)"
  shows "cluster_ok (KafkaConsumer_loop r reads ns)
    \<and> cluster_funds (KafkaConsumer_loop r reads ns) \<le> cluster_funds ns"
  unfolding kafka_submits by (rule submit_all_money [OF assms])

theorem kafka_never_creates_money_witness:
  "cluster_funds (KafkaConsumer_loop example_router [(NetOk, example_env, BadMessage),
     (NetOk, example_env, Message (example_txn 30)), (NetOk, example_env, ReadFailed)] example_cluster) \<le> 300"
proof -
  have "cluster_funds (KafkaConsumer_loop example_router [(NetOk, example_env, BadMessage),
      (NetOk, example_env, Message (example_txn 30)), (NetOk, example_env, ReadFailed)] example_cluster)
    \<le> cluster_funds example_cluster"
    by (rule kafka_never_creates_money [OF example_cluster_ok(1) example_router_ok(1,2), THEN conjunct2])
      (simp_all add: example_router_ok(3))
  then show ?thesis by (simp add: example_cluster_ok(2))
qed

end
