(* ===== verification/Gateway.thy ===== *)
theory Gateway
  imports Strings Consumer
begin

text \<open>
  The API gateway: \<^verbatim>\<open>api/handlers/transaction.go\<close>, \<^verbatim>\<open>api/middleware\<close>, \<^verbatim>\<open>api/kafka/producer.go\<close> and their
  wiring in \<^verbatim>\<open>cmd/api/main.go\<close>. What third-party packages do is a parameter, the record \<open>gateway_lib\<close>:
  parsing and checking a JSON web token, and the limiters of \<^verbatim>\<open>golang.org/x/time/rate\<close>. How the Kafka
  writer fares is the argument \<open>kn\<close> of a request (written, not written, written but reported as
  failed), and \<open>fetch\<close> is the HTTP GET the gateway sends to the coordinator: the status and, if the body
  is a JSON object, the object. Requests are those \<^verbatim>\<open>ServeMux\<close> sees, other than CONNECT.
\<close>

section \<open>Model\<close>

subsection \<open>Third-party packages\<close>

datatype claim = StringClaim string | NumberClaim int | OtherClaim

datatype token_claims = MapClaims "string \<rightharpoonup> claim" | OtherClaims

record jwt_token =
  tk_Valid :: bool
  tk_Claims :: token_claims

text \<open>\<open>lib_Parse\<close> takes the secret, the time and the token; \<open>None\<close> is an error. \<open>lib_Allow\<close> takes the
  time and returns the decision with the limiter after it.\<close>

record ('r, 'l) gateway_lib =
  lib_Parse :: "string \<Rightarrow> nat \<Rightarrow> string \<Rightarrow> jwt_token option"
  lib_NewLimiter :: "'r \<Rightarrow> int \<Rightarrow> 'l"
  lib_Allow :: "nat \<Rightarrow> 'l \<Rightarrow> bool \<times> 'l"

subsection \<open>Requests and answers\<close>

record request =
  rq_Method :: http_method
  rq_Path :: string
  rq_RemoteAddr :: string
  rq_Authorization :: string
  rq_Body :: "Transaction option"

datatype 'j gateway_body =
    GwHealth | GwRedirect | GwNotFound | GwTooMany | GwUnauthorized | GwInvalidToken | GwInvalidClaims | GwForbidden
  | GwInsufficient | GwMethodNotAllowed | GwInvalidBody | GwInvalidFields | GwPublishFailed | GwAccepted string
  | GwMissingTxnID | GwBadGateway | GwForwarded "'j option" | GwAdmin

subsection \<open>The Kafka producer\<close>

datatype publish_error = WriteMessageFailed

definition Producer_Publish ::
    "net \<Rightarrow> Transaction \<Rightarrow> (string \<times> Transaction) list \<Rightarrow> (string \<times> Transaction) list \<times> publish_error option" where
  "Producer_Publish kn txn topic =
     (let topic' = (if kn = RequestLost then topic else topic @ [(t_TxnID txn, txn)])
      in (topic', if kn = NetOk then None else Some WriteMessageFailed))"

subsection \<open>The transaction handler\<close>

definition TransactionHandler_HandleSubmit ::
    "net \<Rightarrow> request \<Rightarrow> (string \<times> Transaction) list \<Rightarrow> (string \<times> Transaction) list \<times> nat \<times> 'j gateway_body" where
  "TransactionHandler_HandleSubmit kn r topic =
     (if rq_Method r \<noteq> MethodPost then (topic, 405, GwMethodNotAllowed)
      else case rq_Body r of
        None \<Rightarrow> (topic, 400, GwInvalidBody)
      | Some txn \<Rightarrow>
          if t_TxnID txn = '''' \<or> t_Source txn = '''' \<or> t_Destination txn = '''' \<or> t_Amount txn \<le>s 0
          then (topic, 400, GwInvalidFields)
          else (case Producer_Publish kn txn topic of
                  (topic', Some err) \<Rightarrow> (topic', 500, GwPublishFailed)
                | (topic', None) \<Rightarrow> (topic', 202, GwAccepted (t_TxnID txn))))"

definition TransactionHandler_HandleStatus ::
    "string \<Rightarrow> (string \<Rightarrow> (nat \<times> 'j option) option) \<Rightarrow> request \<Rightarrow> nat \<times> 'j gateway_body" where
  "TransactionHandler_HandleStatus coordinatorURL fetch r =
     (if rq_Method r \<noteq> MethodGet then (405, GwMethodNotAllowed)
      else let txnID = TrimPrefix (rq_Path r) ''/status/'' in
        if txnID = '''' \<or> txnID = ''/status'' then (400, GwMissingTxnID)
        else (case fetch (coordinatorURL @ ''/status?txn_id='' @ txnID) of
                None \<Rightarrow> (502, GwBadGateway)
              | Some (status, body) \<Rightarrow> (200, GwForwarded body)))"

subsection \<open>Authentication and roles\<close>

definition JWTSecret :: string where
  "JWTSecret = ''super-secret-key''"

text \<open>The claims a request is admitted with, or the answer that refuses it.\<close>

definition RequireAuth ::
    "('r, 'l) gateway_lib \<Rightarrow> nat \<Rightarrow> request \<Rightarrow> (nat \<times> 'j gateway_body) + (string \<rightharpoonup> claim)" where
  "RequireAuth lib now r =
     (if rq_Authorization r = '''' \<or> \<not> HasPrefix (rq_Authorization r) ''Bearer '' then Inl (401, GwUnauthorized)
      else case lib_Parse lib JWTSecret now (TrimPrefix (rq_Authorization r) ''Bearer '') of
        None \<Rightarrow> Inl (401, GwInvalidToken)
      | Some token \<Rightarrow>
          if \<not> tk_Valid token then Inl (401, GwInvalidToken)
          else (case tk_Claims token of
                  OtherClaims \<Rightarrow> Inl (401, GwInvalidClaims)
                | MapClaims claims \<Rightarrow> Inr claims))"

definition RequireRole :: "string \<Rightarrow> (string \<rightharpoonup> claim) option \<Rightarrow> (nat \<times> 'j gateway_body) option" where
  "RequireRole role context =
     (case context of
        None \<Rightarrow> Some (403, GwForbidden)
      | Some claims \<Rightarrow>
          (case claims ''role'' of
             Some (StringClaim userRole) \<Rightarrow> if userRole \<noteq> role then Some (403, GwInsufficient) else None
           | _ \<Rightarrow> Some (403, GwInsufficient)))"

subsection \<open>Rate limiting\<close>

record ('r, 'l) IPTracker =
  ip_limiters :: "string \<rightharpoonup> 'l"
  ip_r :: 'r
  ip_b :: int

definition NewIPTracker :: "'r \<Rightarrow> int \<Rightarrow> ('r, 'l) IPTracker" where
  "NewIPTracker r b = \<lparr>ip_limiters = Map.empty, ip_r = r, ip_b = b\<rparr>"

definition IPTracker_getLimiter ::
    "('r, 'l) gateway_lib \<Rightarrow> string \<Rightarrow> ('r, 'l) IPTracker \<Rightarrow> ('r, 'l) IPTracker \<times> 'l" where
  "IPTracker_getLimiter lib ip t =
     (case ip_limiters t ip of
        Some limiter \<Rightarrow> (t, limiter)
      | None \<Rightarrow>
          (let limiter = lib_NewLimiter lib (ip_r t) (ip_b t)
           in (t\<lparr>ip_limiters := (ip_limiters t)(ip \<mapsto> limiter)\<rparr>, limiter)))"

text \<open>The key under which a client is counted.\<close>

definition client_ip :: "string \<Rightarrow> string" where
  "client_ip addr = (if CHR '':'' \<in> set addr then hd (Split addr (CHR '':'')) else addr)"

text \<open>The tracker after the request, and whether the request passes.\<close>

definition IPTracker_RateLimit ::
    "('r, 'l) gateway_lib \<Rightarrow> nat \<Rightarrow> request \<Rightarrow> ('r, 'l) IPTracker \<Rightarrow> ('r, 'l) IPTracker \<times> bool" where
  "IPTracker_RateLimit lib now r t =
     (let ip = client_ip (rq_RemoteAddr r) in
      case IPTracker_getLimiter lib ip t of
        (t', limiter) \<Rightarrow>
          (case lib_Allow lib now limiter of
             (ok, limiter') \<Rightarrow> (t'\<lparr>ip_limiters := (ip_limiters t')(ip \<mapsto> limiter')\<rparr>, ok)))"

subsection \<open>The wiring\<close>

record ('r, 'l) gateway =
  gw_tracker :: "('r, 'l) IPTracker"
  gw_topic :: "(string \<times> Transaction) list"
  gw_coordinatorURL :: string

text \<open>\<^verbatim>\<open>ServeMux\<close> redirects a path that is not in canonical form.\<close>

definition clean_path :: "string \<Rightarrow> bool" where
  "clean_path p \<longleftrightarrow>
     (case Split p (CHR ''/'') of
        [] # segs \<Rightarrow> segs \<noteq> [] \<and> (\<forall>s \<in> set (butlast segs). s \<notin> {'''', ''.'', ''..''}) \<and> last segs \<notin> {''.'', ''..''}
      | _ \<Rightarrow> False)"

definition protected_mux ::
    "(string \<Rightarrow> (nat \<times> 'j option) option) \<Rightarrow> net \<Rightarrow> request \<Rightarrow> (string \<rightharpoonup> claim) \<Rightarrow> ('r, 'l) gateway
     \<Rightarrow> ('r, 'l) gateway \<times> nat \<times> 'j gateway_body" where
  "protected_mux fetch kn r claims gw =
     (if rq_Path r = ''/submit'' then
        (case TransactionHandler_HandleSubmit kn r (gw_topic gw) of
           (topic', status, body) \<Rightarrow> (gw\<lparr>gw_topic := topic'\<rparr>, status, body))
      else if rq_Path r = ''/admin'' then
        (case RequireRole ''admin'' (Some claims) of
           Some (status, body) \<Rightarrow> (gw, status, body)
         | None \<Rightarrow> (gw, 200, GwAdmin))
      else if HasPrefix (rq_Path r) ''/status/'' then
        (gw, TransactionHandler_HandleStatus (gw_coordinatorURL gw) fetch r)
      else if rq_Path r = ''/status'' then (gw, 301, GwRedirect)
      else (gw, 404, GwNotFound))"

definition gateway_serve ::
    "('r, 'l) gateway_lib \<Rightarrow> (string \<Rightarrow> (nat \<times> 'j option) option) \<Rightarrow> net \<Rightarrow> nat \<Rightarrow> request \<Rightarrow> ('r, 'l) gateway
     \<Rightarrow> ('r, 'l) gateway \<times> nat \<times> 'j gateway_body" where
  "gateway_serve lib fetch kn now r gw =
     (if \<not> clean_path (rq_Path r) then (gw, 301, GwRedirect)
      else if rq_Path r = ''/health'' then (gw, 200, GwHealth)
      else case IPTracker_RateLimit lib now r (gw_tracker gw) of
        (t', ok) \<Rightarrow>
          (let gw' = gw\<lparr>gw_tracker := t'\<rparr> in
           if \<not> ok then (gw', 429, GwTooMany)
           else case RequireAuth lib now r of
             Inl (status, body) \<Rightarrow> (gw', status, body)
           | Inr claims \<Rightarrow> protected_mux fetch kn r claims gw'))"

section \<open>One client's limiter is not touched by another client\<close>

text \<open>
  Cells held under keys, where an operation writes only the cell under its own key and what it writes
  depends only on that cell: the cell under a key after a run of operations is the one after the
  operations on that key alone.
\<close>

locale keyed_cells =
  fixes key :: "'op \<Rightarrow> 'k"
    and cell :: "'st \<Rightarrow> 'k \<Rightarrow> 'v"
    and step :: "'op \<Rightarrow> 'st \<Rightarrow> 'st"
    and same :: "'st \<Rightarrow> 'st \<Rightarrow> bool"
  assumes foreign: "key q \<noteq> k \<Longrightarrow> cell (step q s) k = cell s k"
    and own: "same s s' \<Longrightarrow> cell s (key q) = cell s' (key q) \<Longrightarrow> cell (step q s) (key q) = cell (step q s') (key q)"
    and same_refl: "same s s"
    and same_step: "same s s' \<Longrightarrow> same (step q s) (step q s')"
    and same_skip: "same s s' \<Longrightarrow> same (step q s) s'"
begin

lemma isolated_from:
  assumes "same s s'" and "cell s k = cell s' k"
  shows "cell (fold step qs s) k = cell (fold step (filter (\<lambda>q. key q = k) qs) s') k"
  using assms
proof (induction qs arbitrary: s s')
  case (Cons q qs)
  show ?case
  proof (cases "key q = k")
    case True
    then show ?thesis
      using Cons.IH [OF same_step [OF Cons.prems(1)], of q] own [OF Cons.prems(1), of q] Cons.prems(2) by simp
  next
    case False
    then show ?thesis using Cons.IH [OF same_skip [OF Cons.prems(1)], of q] foreign Cons.prems(2) by simp
  qed
qed simp

lemma isolated: "cell (fold step qs s) k = cell (fold step (filter (\<lambda>q. key q = k) qs) s) k"
  by (rule isolated_from [OF same_refl refl])

end

text \<open>Two trackers with the same rate and burst.\<close>

definition same_limits :: "('r, 'l) IPTracker \<Rightarrow> ('r, 'l) IPTracker \<Rightarrow> bool" where
  "same_limits t t' \<longleftrightarrow> ip_r t = ip_r t' \<and> ip_b t = ip_b t'"

lemma rate_limit_tracker:
  "fst (IPTracker_RateLimit lib now r t) = t\<lparr>ip_limiters := (ip_limiters t)(client_ip (rq_RemoteAddr r) \<mapsto>
     snd (lib_Allow lib now (case ip_limiters t (client_ip (rq_RemoteAddr r)) of
       Some l \<Rightarrow> l | None \<Rightarrow> lib_NewLimiter lib (ip_r t) (ip_b t))))\<rparr>"
  by (simp add: IPTracker_RateLimit_def IPTracker_getLimiter_def Let_def split: option.splits prod.splits)

lemma rate_limit_decision:
  "snd (IPTracker_RateLimit lib now r t) =
     fst (lib_Allow lib now (case ip_limiters t (client_ip (rq_RemoteAddr r)) of
       Some l \<Rightarrow> l | None \<Rightarrow> lib_NewLimiter lib (ip_r t) (ip_b t)))"
  by (simp add: IPTracker_RateLimit_def IPTracker_getLimiter_def Let_def split: option.splits prod.splits)

text \<open>The requests of a run, each with the time it arrives at.\<close>

definition rate_step :: "('r, 'l) gateway_lib \<Rightarrow> nat \<times> request \<Rightarrow> ('r, 'l) IPTracker \<Rightarrow> ('r, 'l) IPTracker" where
  "rate_step lib q t = fst (IPTracker_RateLimit lib (fst q) (snd q) t)"

interpretation limiter: keyed_cells "\<lambda>q. client_ip (rq_RemoteAddr (snd q))" ip_limiters "rate_step lib" same_limits for lib
  by unfold_locales (auto simp: rate_step_def rate_limit_tracker same_limits_def split: option.split)

lemma rate_limits_kept [simp]: "ip_r (fold (rate_step lib) qs t) = ip_r t" "ip_b (fold (rate_step lib) qs t) = ip_b t"
  by (induction qs arbitrary: t) (simp_all add: rate_step_def rate_limit_tracker)

text \<open>
  C25: A client is throttled by its own requests only. After any sequence of requests, from any clients,
  the decision on the next request is the one that would be taken had only the requests counted under
  the same key been made before.
\<close>

theorem rate_limit_isolated:
  "snd (IPTracker_RateLimit lib now r (fold (rate_step lib) qs t)) =
   snd (IPTracker_RateLimit lib now r
     (fold (rate_step lib) (filter (\<lambda>q. client_ip (rq_RemoteAddr (snd q)) = client_ip (rq_RemoteAddr r)) qs) t))"
  using limiter.isolated [of lib qs t "client_ip (rq_RemoteAddr r)"] by (auto simp: rate_limit_decision split: option.split)

lemma client_ip_ipv4: "CHR '':'' \<notin> set ip \<Longrightarrow> client_ip (ip @ '':'' @ port) = ip"
  by (simp add: client_ip_def Split_append)

text \<open>The key of an IPv6 client is the text before the first colon of its address.\<close>

lemma client_ip_ipv6: "CHR '':'' \<notin> set g \<Longrightarrow> client_ip (CHR ''['' # g @ '':'' @ rest) = CHR ''['' # g"
  by (simp add: client_ip_def Split_append)

lemma ipv6_clients_share_a_limiter:
  "client_ip ''[2001:db8::1]:443'' = client_ip ''[2001:470::9]:80''"
  by code_simp

section \<open>Admission\<close>

lemma TrimPrefix_bearer:
  "TrimPrefix (CHR ''B'' # CHR ''e'' # CHR ''a'' # CHR ''r'' # CHR ''e'' # CHR ''r'' # CHR '' '' # s) ''Bearer '' = s"
  by (simp add: TrimPrefix_def HasPrefix_def)

lemma auth_admits:
  "RequireAuth lib now r = Inr claims \<longleftrightarrow>
     (\<exists>tok token. rq_Authorization r = ''Bearer '' @ tok \<and> lib_Parse lib JWTSecret now tok = Some token
        \<and> tk_Valid token \<and> tk_Claims token = MapClaims claims)"
  by (auto simp: RequireAuth_def HasPrefix_iff TrimPrefix_bearer split: option.splits token_claims.splits if_splits)

lemma role_admits: "RequireRole role (Some claims) = None \<longleftrightarrow> claims ''role'' = Some (StringClaim role)"
  by (auto simp: RequireRole_def split: option.splits claim.splits)

definition fields_ok :: "Transaction \<Rightarrow> bool" where
  "fields_ok txn \<longleftrightarrow> t_TxnID txn \<noteq> [] \<and> t_Source txn \<noteq> [] \<and> t_Destination txn \<noteq> [] \<and> 0 < sint (t_Amount txn)"

lemma fields_ok_guard:
  "t_TxnID txn = [] \<or> t_Source txn = [] \<or> t_Destination txn = [] \<or> t_Amount txn \<le>s 0 \<longleftrightarrow> \<not> fields_ok txn"
  by (auto simp: fields_ok_def word_sle_eq)

lemma submit_effect:
  "TransactionHandler_HandleSubmit kn r topic = (topic', status, body) \<Longrightarrow>
     (topic' = topic \<and> (\<nexists>i. body = GwAccepted i))
   \<or> (\<exists>txn. rq_Method r = MethodPost \<and> rq_Body r = Some txn \<and> fields_ok txn \<and> topic' = topic @ [(t_TxnID txn, txn)]
        \<and> (kn = NetOk \<and> body = GwAccepted (t_TxnID txn) \<or> kn \<noteq> NetOk \<and> body = GwPublishFailed))"
  unfolding TransactionHandler_HandleSubmit_def fields_ok_guard Producer_Publish_def Let_def
  by (auto split: option.splits if_splits)

text \<open>What a request that reaches the protected routes passed on the way.\<close>

definition admitted :: "('r, 'l) gateway_lib \<Rightarrow> nat \<Rightarrow> request \<Rightarrow> ('r, 'l) gateway \<Rightarrow> (string \<rightharpoonup> claim) \<Rightarrow> bool" where
  "admitted lib now r gw claims \<longleftrightarrow>
     snd (IPTracker_RateLimit lib now r (gw_tracker gw))
   \<and> (\<exists>tok token. rq_Authorization r = ''Bearer '' @ tok \<and> lib_Parse lib JWTSecret now tok = Some token
        \<and> tk_Valid token \<and> tk_Claims token = MapClaims claims)"

lemma serve_cases:
  fixes body :: "'j gateway_body"
  assumes "gateway_serve lib fetch kn now r gw = (gw', status, body)"
  shows "(gw_topic gw' = gw_topic gw \<and> (\<nexists>i. body = GwAccepted i) \<and> body \<noteq> GwAdmin)
    \<or> (\<exists>claims gw1. admitted lib now r gw claims \<and> gw_topic gw1 = gw_topic gw
        \<and> protected_mux fetch kn r claims gw1 = (gw', status, body))"
proof (cases "clean_path (rq_Path r) \<and> rq_Path r \<noteq> ''/health''
    \<and> snd (IPTracker_RateLimit lib now r (gw_tracker gw)) \<and> (\<exists>claims. RequireAuth lib now r
        = (Inr claims :: (nat \<times> 'j gateway_body) + (string \<rightharpoonup> claim)))")
  case True
  then obtain claims where ra: "RequireAuth lib now r = (Inr claims :: (nat \<times> 'j gateway_body) + (string \<rightharpoonup> claim))" by blast
  have "admitted lib now r gw claims" using True ra unfolding admitted_def auth_admits by blast
  moreover have "protected_mux fetch kn r claims (gw\<lparr>gw_tracker := fst (IPTracker_RateLimit lib now r (gw_tracker gw))\<rparr>)
      = (gw', status, body)"
    using assms True ra by (simp add: gateway_serve_def Let_def split: prod.splits)
  ultimately show ?thesis by (metis gateway.select_convs(2) gateway.surjective gateway.update_convs(1))
next
  case False
  then show ?thesis
    using assms
    by (auto simp: gateway_serve_def Let_def RequireAuth_def
          split: prod.splits if_splits sum.splits option.splits token_claims.splits)
qed

lemma mux_submit:
  assumes "protected_mux fetch kn r claims gw = (gw', status, body)"
  shows "(gw_topic gw' = gw_topic gw \<and> (\<nexists>i. body = GwAccepted i))
    \<or> (\<exists>txn. rq_Path r = ''/submit'' \<and> rq_Method r = MethodPost \<and> rq_Body r = Some txn \<and> fields_ok txn
        \<and> gw_topic gw' = gw_topic gw @ [(t_TxnID txn, txn)]
        \<and> (kn = NetOk \<and> body = GwAccepted (t_TxnID txn) \<or> kn \<noteq> NetOk \<and> body = GwPublishFailed))"
proof (cases "rq_Path r = ''/submit''")
  case True
  then obtain topic' where s: "TransactionHandler_HandleSubmit kn r (gw_topic gw) = (topic', status, body)"
    and g: "gw_topic gw' = topic'"
    using assms by (auto simp: protected_mux_def split: prod.splits)
  show ?thesis using submit_effect [OF s] True g by auto
next
  case False
  then show ?thesis
    using assms
    by (auto simp: protected_mux_def TransactionHandler_HandleStatus_def RequireRole_def Let_def
          split: prod.splits if_splits option.splits claim.splits)
qed

lemma mux_admin:
  "protected_mux fetch kn r claims gw = (gw', status, GwAdmin) \<Longrightarrow>
     rq_Path r = ''/admin'' \<and> claims ''role'' = Some (StringClaim ''admin'')"
  by (auto simp: protected_mux_def TransactionHandler_HandleStatus_def TransactionHandler_HandleSubmit_def
        Producer_Publish_def RequireRole_def Let_def split: prod.splits if_splits option.splits claim.splits)

lemma serve_publishes:
  assumes "gateway_serve lib fetch kn now r gw = (gw', status, body)" and "gw_topic gw' \<noteq> gw_topic gw"
  shows "\<exists>txn claims. admitted lib now r gw claims \<and> rq_Path r = ''/submit'' \<and> rq_Method r = MethodPost
    \<and> rq_Body r = Some txn \<and> fields_ok txn \<and> gw_topic gw' = gw_topic gw @ [(t_TxnID txn, txn)]"
proof -
  obtain claims gw1 where a: "admitted lib now r gw claims" and t: "gw_topic gw1 = gw_topic gw"
    and m: "protected_mux fetch kn r claims gw1 = (gw', status, body)"
    using serve_cases [OF assms(1)] assms(2) by auto
  show ?thesis using mux_submit [OF m] a t assms(2) by auto
qed

text \<open>
  Only authenticated, admitted and complete submissions reach the topic. If a request changes the
  topic, it was a POST to \<^verbatim>\<open>/submit\<close> that its limiter let through, it carried a bearer token that parsed
  under the gateway's secret and is valid, its body had an ID, both accounts and a positive amount, and
  the one message appended is that transaction under its own ID.
\<close>

theorem only_admitted_submissions_published:
  assumes "gateway_serve lib fetch kn now r gw = (gw', status, body)" and "gw_topic gw' \<noteq> gw_topic gw"
  shows "\<exists>txn claims. admitted lib now r gw claims \<and> rq_Path r = ''/submit'' \<and> rq_Method r = MethodPost
    \<and> rq_Body r = Some txn \<and> fields_ok txn \<and> gw_topic gw' = gw_topic gw @ [(t_TxnID txn, txn)]"
  by (rule serve_publishes [OF assms])

text \<open>
  The gateway's answer is truthful: a request is answered as accepted only when the producer reported
  the message as written, and then the transaction is the last message of the topic.
\<close>

theorem accepted_is_published:
  assumes "gateway_serve lib fetch kn now r gw = (gw', status, GwAccepted txnID)"
  shows "\<exists>txn. rq_Body r = Some txn \<and> t_TxnID txn = txnID \<and> fields_ok txn \<and> kn = NetOk
    \<and> gw_topic gw' = gw_topic gw @ [(txnID, txn)]"
proof -
  obtain claims gw1 where t: "gw_topic gw1 = gw_topic gw"
    and m: "protected_mux fetch kn r claims gw1 = (gw', status, GwAccepted txnID)"
    using serve_cases [OF assms] by auto
  show ?thesis using mux_submit [OF m] t by auto
qed

text \<open>
  The admin area is served only to a client whose valid token carries the role claim
  \<^verbatim>\<open>admin\<close> as a string.
\<close>

theorem admin_requires_role:
  assumes "gateway_serve lib fetch kn now r gw = (gw', status, GwAdmin)"
  shows "\<exists>claims. admitted lib now r gw claims \<and> claims ''role'' = Some (StringClaim ''admin'')"
proof -
  obtain claims gw1 where "admitted lib now r gw claims"
    and "protected_mux fetch kn r claims gw1 = (gw', status, GwAdmin)"
    using serve_cases [OF assms] by auto
  then show ?thesis using mux_admin by fast
qed

subsection \<open>What the coordinator's Kafka consumer can read\<close>

text \<open>A run of the gateway, each request with the time and what became of its write to Kafka.\<close>

fun gateway_run ::
    "('r, 'l) gateway_lib \<Rightarrow> (string \<Rightarrow> (nat \<times> 'j option) option) \<Rightarrow> (net \<times> nat \<times> request) list \<Rightarrow> ('r, 'l) gateway
     \<Rightarrow> ('r, 'l) gateway" where
  "gateway_run lib fetch [] gw = gw"
| "gateway_run lib fetch ((kn, now, r) # qs) gw = gateway_run lib fetch qs (fst (gateway_serve lib fetch kn now r gw))"

definition topic_ok :: "(string \<times> Transaction) list \<Rightarrow> bool" where
  "topic_ok topic \<longleftrightarrow> (\<forall>(k, txn) \<in> set topic. k = t_TxnID txn \<and> fields_ok txn)"

lemma topic_ok_simps [simp]:
  "topic_ok []" "topic_ok (ts @ [(k, txn)]) \<longleftrightarrow> topic_ok ts \<and> k = t_TxnID txn \<and> fields_ok txn"
  by (auto simp: topic_ok_def)

lemma serve_topic_ok:
  assumes "topic_ok (gw_topic gw)"
  shows "topic_ok (gw_topic (fst (gateway_serve lib fetch kn now r gw)))"
proof -
  obtain gw' status body where g: "gateway_serve lib fetch kn now r gw = (gw', status, body)"
    by (cases "gateway_serve lib fetch kn now r gw")
  from serve_cases [OF g] show ?thesis
  proof
    assume "\<exists>claims gw1. admitted lib now r gw claims \<and> gw_topic gw1 = gw_topic gw
        \<and> protected_mux fetch kn r claims gw1 = (gw', status, body)"
    then obtain claims gw1 where t: "gw_topic gw1 = gw_topic gw"
      and m: "protected_mux fetch kn r claims gw1 = (gw', status, body)" by blast
    show ?thesis using mux_submit [OF m] t assms g by auto
  qed (use assms g in auto)
qed

text \<open>
  Whatever requests the gateway serves, the topic holds only transactions with an ID, two accounts and
  a positive amount, each keyed by its ID: the Kafka consumer, which routes what it reads without
  validating it, depends on this invariant.
\<close>

theorem gateway_topic_invariant:
  assumes "topic_ok (gw_topic gw)"
  shows "topic_ok (gw_topic (gateway_run lib fetch qs gw))"
  using assms by (induction lib fetch qs gw rule: gateway_run.induct) (simp_all add: serve_topic_ok)

section \<open>Transaction status\<close>

lemma status_path_trim: "TrimPrefix (''/status/'' @ i) ''/status/'' = i"
  by (rule HasPrefix_append(2))

text \<open>
  The gateway forwards the coordinator's answer but not its status code: for a transaction that the
  coordinator does not know, and for which it answers 404, the gateway answers 200.
\<close>

theorem unknown_transaction_answers_200:
  assumes "txnID \<noteq> []" and "txnID \<noteq> ''/status''" and "hc_results c txnID = None"
    and coordinator: "fetch (coordinatorURL @ ''/status?txn_id='' @ txnID)
      = Some (apsnd Some (HTTPConsumer_handleStatus MethodGet txnID c))"
    and "rq_Method r = MethodGet" and "rq_Path r = ''/status/'' @ txnID"
  shows "fst (HTTPConsumer_handleStatus MethodGet txnID c) = 404
    \<and> TransactionHandler_HandleStatus coordinatorURL fetch r = (200, GwForwarded (Some (ConsumerNotFound txnID)))"
  using assms(1,2,3,5) coordinator status_path_trim [of txnID]
  by (simp add: TransactionHandler_HandleStatus_def HTTPConsumer_handleStatus_def assms(6) Let_def)

section \<open>Witnesses\<close>

text \<open>A limiter that counts down from its burst, and a parser that knows one token.\<close>

definition example_lib :: "(nat, int) gateway_lib" where
  "example_lib = \<lparr>lib_Parse = (\<lambda>secret now tok. if secret = ''super-secret-key'' \<and> tok = ''t1''
       then Some \<lparr>tk_Valid = True, tk_Claims = MapClaims [''role'' \<mapsto> StringClaim ''admin'']\<rparr> else None),
     lib_NewLimiter = (\<lambda>r b. b), lib_Allow = (\<lambda>now l. (0 < l, l - 1))\<rparr>"

definition example_gateway :: "(nat, int) gateway" where
  "example_gateway = \<lparr>gw_tracker = NewIPTracker 50 100, gw_topic = [], gw_coordinatorURL = ''http://coordinator:8080''\<rparr>"

definition example_request :: "http_method \<Rightarrow> string \<Rightarrow> Transaction option \<Rightarrow> request" where
  "example_request m p b = \<lparr>rq_Method = m, rq_Path = p, rq_RemoteAddr = ''10.0.0.7:5123'',
     rq_Authorization = ''Bearer t1'', rq_Body = b\<rparr>"

lemmas example_gateway_eval = example_lib_def example_gateway_def example_request_def example_txn_def
  gateway_serve_def IPTracker_RateLimit_def
  IPTracker_getLimiter_def NewIPTracker_def client_ip_def RequireAuth_def HasPrefix_def TrimPrefix_def JWTSecret_def
  clean_path_def protected_mux_def TransactionHandler_HandleSubmit_def Producer_Publish_def RequireRole_def word_sle_eq

lemma example_submit_served:
  "gateway_serve example_lib (\<lambda>_. None) NetOk 0 (example_request MethodPost ''/submit'' (Some (example_txn 5))) example_gateway
    = (example_gateway\<lparr>gw_tracker := \<lparr>ip_limiters = [''10.0.0.7'' \<mapsto> 99], ip_r = 50, ip_b = 100\<rparr>,
         gw_topic := [(t_TxnID (example_txn 5), example_txn 5)]\<rparr>, 202, GwAccepted (t_TxnID (example_txn 5)))"
  by (simp add: example_gateway_eval)

lemma example_admin_served:
  "gateway_serve example_lib (\<lambda>_. None) NetOk 0 (example_request MethodGet ''/admin'' None) example_gateway
    = (example_gateway\<lparr>gw_tracker := \<lparr>ip_limiters = [''10.0.0.7'' \<mapsto> 99], ip_r = 50, ip_b = 100\<rparr>\<rparr>, 200, GwAdmin)"
  by (simp add: example_gateway_eval)

theorem only_admitted_submissions_published_witness:
  "\<exists>txn claims. admitted example_lib 0 (example_request MethodPost ''/submit'' (Some (example_txn 5))) example_gateway claims
    \<and> rq_Body (example_request MethodPost ''/submit'' (Some (example_txn 5))) = Some txn \<and> fields_ok txn"
  using only_admitted_submissions_published [OF example_submit_served] by (auto simp: example_gateway_def)

theorem accepted_is_published_witness:
  "\<exists>txn. rq_Body (example_request MethodPost ''/submit'' (Some (example_txn 5))) = Some txn
    \<and> t_TxnID txn = t_TxnID (example_txn 5) \<and> fields_ok txn"
  using accepted_is_published [OF example_submit_served] by auto

theorem admin_requires_role_witness:
  "\<exists>claims. admitted example_lib 0 (example_request MethodGet ''/admin'' None) example_gateway claims
    \<and> claims ''role'' = Some (StringClaim ''admin'')"
  by (rule admin_requires_role [OF example_admin_served])

theorem gateway_topic_invariant_witness:
  "topic_ok (gw_topic (gateway_run example_lib (\<lambda>_. None)
     [(NetOk, 0, example_request MethodPost ''/submit'' (Some (example_txn 5))),
      (ReplyLost, 1, example_request MethodPost ''/submit'' (Some (example_txn 7)))] example_gateway))"
  by (rule gateway_topic_invariant) (simp add: example_gateway_def)

theorem unknown_transaction_answers_200_witness:
  "TransactionHandler_HandleStatus ''http://coordinator:8080''
     (\<lambda>u. if u = ''http://coordinator:8080/status?txn_id=t9''
          then Some (apsnd Some (HTTPConsumer_handleStatus MethodGet ''t9'' (NewHTTPConsumer example_router))) else None)
     (example_request MethodGet ''/status/t9'' None) = (200, GwForwarded (Some (ConsumerNotFound ''t9'')))"
  using unknown_transaction_answers_200 [of "''t9''" "NewHTTPConsumer example_router"
    "\<lambda>u. if u = ''http://coordinator:8080/status?txn_id=t9''
          then Some (apsnd Some (HTTPConsumer_handleStatus MethodGet ''t9'' (NewHTTPConsumer example_router))) else None"
    "''http://coordinator:8080''" "example_request MethodGet ''/status/t9'' None"]
  by (simp add: NewHTTPConsumer_def example_request_def)

end
