(* ===== verification/Startup.thy ===== *)
theory Startup
  imports CrashSafety HttpHandler Strings Consumer
begin

text \<open>
  The processes of \<^verbatim>\<open>cmd/shard/main.go\<close> and \<^verbatim>\<open>cmd/coordinator/main.go\<close>: what they make of their environment
  variables and how they wire the components. A \<^verbatim>\<open>log.Fatalf\<close> or a panic during start-up is a value of
  \<open>fatal\<close>. What the process finds on its disk is an argument, as for \<open>NewShardServer\<close>, \<open>NewJSONStore\<close>
  and \<open>LoadShardMap\<close>; listening on a socket is not modelled.
\<close>

section \<open>Model\<close>

definition envOrDefault :: "(string \<Rightarrow> string) \<Rightarrow> string \<Rightarrow> string \<Rightarrow> string" where
  "envOrDefault env key fallback = (if env key \<noteq> '''' then env key else fallback)"

datatype fatal =
    InvalidQuorumSize string | InvalidTotalPartitions string | InvalidPartitionID string
  | StorageNotOpened store_error | ShardNotStarted shard_error | MapperPanic
  | ShardMapNotLoaded map_error | NoPartitionsInMap

subsection \<open>The shard process\<close>

text \<open>The loop over the comma-separated partition list.\<close>

fun parse_partitions :: "string list \<Rightarrow> fatal + int list" where
  "parse_partitions [] = Inr []"
| "parse_partitions (p # ps) =
     (let s = TrimSpace p in
      if s = '''' then parse_partitions ps
      else case Atoi s of
        None \<Rightarrow> Inl (InvalidPartitionID s)
      | Some i \<Rightarrow> (case parse_partitions ps of Inl e \<Rightarrow> Inl e | Inr is \<Rightarrow> Inr (i # is)))"

fun add_followers :: "string list \<Rightarrow> PrimaryReplicator \<Rightarrow> PrimaryReplicator" where
  "add_followers [] p = p"
| "add_followers (f # fs) p =
     (let fa = TrimSpace f in
      if fa = '''' then add_followers fs p
      else add_followers fs (PrimaryReplicator_AddFollower fa fa p))"

text \<open>A running shard: the server, and on a follower the receiver, which shares the server's log.\<close>

record shard_process =
  sp_addr :: string
  sp_server :: ShardServer
  sp_receiver :: "FollowerReceiver option"

text \<open>What is on the disk, with how the system answers.\<close>

record shard_disk =
  d_mkdir_ok :: bool
  d_store :: store_file
  d_store_faults :: "bool list"
  d_wal_ok :: bool
  d_wal :: "wal_line list"
  d_wal_faults :: "io_outcome list"

definition shard_replicator :: "(string \<Rightarrow> string) \<Rightarrow> int \<Rightarrow> PrimaryReplicator" where
  "shard_replicator env quorumSize =
     (let replicator = NewPrimaryReplicator (envOrDefault env ''SHARD_ID'' ''shard1'') quorumSize;
          followerAddrs = envOrDefault env ''SHARD_FOLLOWER_ADDRS'' ''''
      in if envOrDefault env ''SHARD_ROLE'' ''PRIMARY'' = ''PRIMARY'' \<and> followerAddrs \<noteq> ''''
         then add_followers (Split followerAddrs (CHR '','')) replicator else replicator)"

definition shard_main ::
    "string list \<Rightarrow> string list \<Rightarrow> (string \<Rightarrow> string) \<Rightarrow> shard_disk \<Rightarrow> fatal + shard_process" where
  "shard_main ks1 ks2 env disk =
     (let shardID = envOrDefault env ''SHARD_ID'' ''shard1'';
          role = envOrDefault env ''SHARD_ROLE'' ''PRIMARY'';
          partitionsStr = envOrDefault env ''SHARD_PARTITIONS'' ''0,1,2,3,4,5,6,7,8,9'';
          quorumStr = envOrDefault env ''SHARD_QUORUM_SIZE'' ''2'';
          totalPartStr = envOrDefault env ''SHARD_TOTAL_PARTITIONS'' ''30''
      in case Atoi quorumStr of
        None \<Rightarrow> Inl (InvalidQuorumSize quorumStr)
      | Some quorumSize \<Rightarrow>
     (case Atoi totalPartStr of
        None \<Rightarrow> Inl (InvalidTotalPartitions totalPartStr)
      | Some totalPartitions \<Rightarrow>
     (case parse_partitions (Split partitionsStr (CHR '','')) of
        Inl e \<Rightarrow> Inl e
      | Inr partitionIDs \<Rightarrow>
     (case NewJSONStore (d_mkdir_ok disk) (d_store disk) (d_store_faults disk) of
        Inl e \<Rightarrow> Inl (StorageNotOpened e)
      | Inr store \<Rightarrow>
     (case NewShardServer [] ks1 ks2 shardID (d_wal_ok disk) (d_wal disk) (d_wal_faults disk) Map.empty of
        Inl e \<Rightarrow> Inl (ShardNotStarted e)
      | Inr s0 \<Rightarrow>
     (case NewPartitionMapper totalPartitions of
        None \<Rightarrow> Inl MapperPanic
      | Some mapper \<Rightarrow>
          (let s1 = ShardServer_SetRole role (ShardServer_SetStorage store s0);
               s2 = ShardServer_SetPartitioning (NewManager shardID partitionIDs) mapper s1;
               s3 = ShardServer_SetReplicator (shard_replicator env quorumSize) s2
           in Inr \<lparr>sp_addr = envOrDefault env ''SHARD_ADDR'' '':8081'', sp_server = s3,
                   sp_receiver = (if role = ''FOLLOWER'' then Some (NewFollowerReceiver shardID (s_walLog s3))
                                  else None)\<rparr>)))))))"

text \<open>\<open>POST /replicate\<close> on the process: registered on a follower only, and appending to the log that
  the server holds as well.\<close>

definition process_replicate :: "http_method \<Rightarrow> WALEntry option \<Rightarrow> shard_process \<Rightarrow> shard_process \<times> nat" where
  "process_replicate m body p =
     (case sp_receiver p of
        None \<Rightarrow> (p, 404)
      | Some f \<Rightarrow>
          (case FollowerReceiver_handleReplicate m body (f\<lparr>f_walLog := s_walLog (sp_server p)\<rparr>) of
             (f', status) \<Rightarrow>
               (p\<lparr>sp_receiver := Some f', sp_server := (sp_server p)\<lparr>s_walLog := f_walLog f'\<rparr>\<rparr>, status)))"

definition process_promote :: "http_method \<Rightarrow> shard_process \<Rightarrow> shard_process \<times> response" where
  "process_promote m p = (case handlePromote m (sp_server p) of (s, r) \<Rightarrow> (p\<lparr>sp_server := s\<rparr>, r))"

subsection \<open>The coordinator process\<close>

record coordinator_process =
  cp_addr :: string
  cp_router :: Router
  cp_consumer :: HTTPConsumer
  cp_kafka :: "(string list \<times> string) option"

text \<open>\<open>keys\<close>, \<open>readable\<close>, \<open>file\<close> and \<open>io\<close> as for \<open>LoadShardMap\<close>.\<close>

definition coordinator_main ::
    "string list \<Rightarrow> bool \<Rightarrow> map_file \<Rightarrow> bool list \<Rightarrow> (string \<Rightarrow> string) \<Rightarrow> fatal + coordinator_process" where
  "coordinator_main keys readable file io env =
     (case LoadShardMap keys readable file io of
        Inl e \<Rightarrow> Inl (ShardMapNotLoaded e)
      | Inr shardMap \<Rightarrow>
          (let totalPartitions = ShardMap_PartitionCount shardMap in
           if totalPartitions = 0 then Inl NoPartitionsInMap
           else case NewPartitionMapper (int totalPartitions) of
             None \<Rightarrow> Inl MapperPanic
           | Some mapper \<Rightarrow>
               (let txnRouter = NewRouter shardMap mapper
                in Inr \<lparr>cp_addr = envOrDefault env ''COORDINATOR_ADDR'' '':8080'',
                        cp_router = txnRouter, cp_consumer = NewHTTPConsumer txnRouter,
                        cp_kafka = (if envOrDefault env ''CONSUMER_TYPE'' ''http'' = ''kafka''
                                    then Some (Split (envOrDefault env ''KAFKA_BROKERS'' ''kafka:9092'') (CHR '',''),
                                               envOrDefault env ''KAFKA_TOPIC'' ''transactions'')
                                    else None)\<rparr>)))"

section \<open>Starting a shard\<close>

text \<open>The environment variables are usable: the numbers parse and the partition count is positive.\<close>

definition env_ok :: "(string \<Rightarrow> string) \<Rightarrow> int list \<Rightarrow> bool" where
  "env_ok env ids \<longleftrightarrow>
     Atoi (envOrDefault env ''SHARD_QUORUM_SIZE'' ''2'') \<noteq> None
   \<and> (\<exists>n > 0. Atoi (envOrDefault env ''SHARD_TOTAL_PARTITIONS'' ''30'') = Some n)
   \<and> parse_partitions (Split (envOrDefault env ''SHARD_PARTITIONS'' ''0,1,2,3,4,5,6,7,8,9'') (CHR '','')) = Inr ids"

lemma shard_main_server:
  assumes "shard_main ks1 ks2 env disk = Inr p"
  obtains s0 store mgr mapper q where
    "NewShardServer [] ks1 ks2 (envOrDefault env ''SHARD_ID'' ''shard1'') (d_wal_ok disk) (d_wal disk) (d_wal_faults disk) Map.empty = Inr s0"
    "sp_server p = ShardServer_SetReplicator (shard_replicator env q) (ShardServer_SetPartitioning mgr mapper
       (ShardServer_SetRole (envOrDefault env ''SHARD_ROLE'' ''PRIMARY'') (ShardServer_SetStorage store s0)))"
    "Atoi (envOrDefault env ''SHARD_QUORUM_SIZE'' ''2'') = Some q"
    "sp_receiver p = (if envOrDefault env ''SHARD_ROLE'' ''PRIMARY'' = ''FOLLOWER''
       then Some (NewFollowerReceiver (envOrDefault env ''SHARD_ID'' ''shard1'') (s_walLog s0)) else None)"
  using assms
  by (auto simp: shard_main_def Let_def ShardServer_SetReplicator_def ShardServer_SetPartitioning_def
      ShardServer_SetRole_def ShardServer_SetStorage_def split: option.splits sum.splits)

lemma shard_main_starts:
  assumes "env_ok env ids" "NewJSONStore (d_mkdir_ok disk) (d_store disk) (d_store_faults disk) = Inr store"
    and "NewShardServer [] ks1 ks2 (envOrDefault env ''SHARD_ID'' ''shard1'') (d_wal_ok disk) (d_wal disk) (d_wal_faults disk) Map.empty = Inr s0"
  obtains p where "shard_main ks1 ks2 env disk = Inr p" "s_ledger (sp_server p) = s_ledger s0"
    "s_seenTxns (sp_server p) = s_seenTxns s0"
    "s_partMgr (sp_server p) = Some (NewManager (envOrDefault env ''SHARD_ID'' ''shard1'') ids)"
  using assms
  by (auto simp: env_ok_def shard_main_def Let_def NewPartitionMapper_def ShardServer_SetReplicator_def
      ShardServer_SetPartitioning_def ShardServer_SetRole_def ShardServer_SetStorage_def)

text \<open>
  C17: A shard process survives its own restart. Let a shard have run from an empty file, in the sense of \<open>shard_run\<close>
  (a working log, no success after a failed attempt of the same transaction that left a record, no \<open>ReceivePartition\<close>), until nothing is
  prepared. A process started on the file it left comes up, has exactly its balances, knows exactly the transactions it
  knew and each of them in the same state, except that a commit which a late ABORT had overruled in the
  transaction table is again committed, and owns exactly the partitions its environment lists.
\<close>

theorem process_restart_restores:
  assumes "shard_run [] s" "restarts [] ks1 ks2 Map.empty s" "env_ok env ids"
    and "NewJSONStore (d_mkdir_ok disk) (d_store disk) (d_store_faults disk) = Inr store"
    and "d_wal_ok disk" "d_wal disk = w_lines (s_walLog s)" "d_wal_faults disk = []"
  shows "\<exists>p mgr. shard_main ks1 ks2 env disk = Inr p \<and> s_ledger (sp_server p) = s_ledger s
    \<and> dom (s_seenTxns (sp_server p)) = dom (s_seenTxns s)
    \<and> (\<forall>t. s_seenTxns (sp_server p) t = (if overruled (s_walLog s) t then Some StateCommitted else s_seenTxns s t))
    \<and> s_partMgr (sp_server p) = Some mgr \<and> (\<forall>i. Manager_OwnsPartition i mgr \<longleftrightarrow> i \<in> set ids)"
proof -
  obtain s0 where s0: "NewShardServer [] ks1 ks2 (envOrDefault env ''SHARD_ID'' ''shard1'') (d_wal_ok disk) (d_wal disk) (d_wal_faults disk) Map.empty = Inr s0"
    "s_ledger s0 = s_ledger s" "dom (s_seenTxns s0) = dom (s_seenTxns s)"
    "\<forall>t. s_seenTxns s0 t = (if overruled (s_walLog s) t then Some StateCommitted else s_seenTxns s t)"
    using restart_restores [OF assms(1,2), of "envOrDefault env ''SHARD_ID'' ''shard1''"] assms(5-7) by auto
  obtain p where p: "shard_main ks1 ks2 env disk = Inr p" "s_ledger (sp_server p) = s_ledger s0"
    "s_seenTxns (sp_server p) = s_seenTxns s0"
    "s_partMgr (sp_server p) = Some (NewManager (envOrDefault env ''SHARD_ID'' ''shard1'') ids)"
    by (rule shard_main_starts [OF assms(3,4) s0(1)])
  show ?thesis using p s0 by (auto simp: NewManager_def Manager_OwnsPartition_def add_active_apply)
qed

section \<open>A follower\<close>

text \<open>A process that received the records of its leader one after the other.\<close>

definition replicated :: "WALEntry list \<Rightarrow> shard_process \<Rightarrow> shard_process" where
  "replicated es p = fold (\<lambda>e p. fst (process_replicate MethodPost (Some e) p)) es p"

definition unpromoted :: "WALEntry list \<Rightarrow> shard_process \<Rightarrow> bool" where
  "unpromoted es p \<longleftrightarrow> sp_receiver p \<noteq> None \<and> wal_healthy (s_walLog (sp_server p)) \<and> s_ledger (sp_server p) = NewLedger
     \<and> map e_OpType (wal_entries (s_walLog (sp_server p))) = map e_OpType es
     \<and> map e_TxnID (wal_entries (s_walLog (sp_server p))) = map e_TxnID es"

declare wal_step.simps [simp del]

lemma replicate_unpromoted:
  assumes "unpromoted es p"
  shows "unpromoted (es @ [e]) (fst (process_replicate MethodPost (Some e) p))"
proof -
  obtain f where f: "sp_receiver p = Some f" using assms by (auto simp: unpromoted_def)
  have w: "wal_healthy (s_walLog (sp_server p))" using assms by (simp add: unpromoted_def)
  define w' where "w' = wal_step (WAppend (e_TxnID e) (e_OpType e) (e_AccountID e) (e_Amount e)) (s_walLog (sp_server p))"
  have w': "wal_healthy w'" "wal_entries w' = wal_entries (s_walLog (sp_server p))
      @ [op_entry (WAppend (e_TxnID e) (e_OpType e) (e_AccountID e) (e_Amount e)) (w_nextLogID (s_walLog (sp_server p)))]"
    unfolding w'_def by (rule step_healthy [OF w])+
  have "sp_server (fst (process_replicate MethodPost (Some e) p)) = (sp_server p)\<lparr>s_walLog := w'\<rparr>"
    "sp_receiver (fst (process_replicate MethodPost (Some e) p)) \<noteq> None"
    using healthy_writes(1) [OF w]
    by (simp_all add: process_replicate_def f FollowerReceiver_handleReplicate_def FollowerReceiver_ReceiveEntry_def w'_def)
  then show ?thesis using assms by (simp add: unpromoted_def w')
qed

lemma replicated_unpromoted: "unpromoted es p \<Longrightarrow> unpromoted (es @ fs) (replicated fs p)"
proof (induction fs arbitrary: es p)
  case (Cons f fs)
  from Cons.IH [OF replicate_unpromoted [OF Cons.prems, of f]] show ?case by (simp add: replicated_def)
qed (simp add: replicated_def)

lemma empty_start:
  "NewShardServer [] ks1 ks2 shardID True [] [] Map.empty = Inr s \<Longrightarrow>
     s_ledger s = NewLedger \<and> wal_healthy (s_walLog s) \<and> wal_entries (s_walLog s) = []"
  by (auto simp: NewShardServer_def WAL_Open_def WAL_findNextLogID_def init_log_def Recover_def WAL_ReadAll_def
      wal_healthy_def wal_entries_def)

lemma follower_start:
  assumes "shard_main ks1 ks2 env disk = Inr p" "envOrDefault env ''SHARD_ROLE'' ''PRIMARY'' = ''FOLLOWER''"
    and "d_wal_ok disk" "d_wal disk = []" "d_wal_faults disk = []"
  shows "unpromoted [] p"
proof (rule shard_main_server [OF assms(1)])
  fix s0 store mgr mapper q
  assume s0: "NewShardServer [] ks1 ks2 (envOrDefault env ''SHARD_ID'' ''shard1'') (d_wal_ok disk) (d_wal disk) (d_wal_faults disk) Map.empty = Inr s0"
    and sv: "sp_server p = ShardServer_SetReplicator (shard_replicator env q) (ShardServer_SetPartitioning mgr mapper
       (ShardServer_SetRole (envOrDefault env ''SHARD_ROLE'' ''PRIMARY'') (ShardServer_SetStorage store s0)))"
    and rc: "sp_receiver p = (if envOrDefault env ''SHARD_ROLE'' ''PRIMARY'' = ''FOLLOWER''
       then Some (NewFollowerReceiver (envOrDefault env ''SHARD_ID'' ''shard1'') (s_walLog s0)) else None)"
  have "s_ledger s0 = NewLedger \<and> wal_healthy (s_walLog s0) \<and> wal_entries (s_walLog s0) = []"
    using s0 assms(3-5) by (intro empty_start) simp
  then show ?thesis
    by (simp add: unpromoted_def sv rc assms(2) ShardServer_SetReplicator_def ShardServer_SetPartitioning_def
      ShardServer_SetRole_def ShardServer_SetStorage_def)
qed

lemma recovers_nothing: "(\<And>t. \<not> committed es t) \<Longrightarrow> recovered_balance es = Map.empty"
  unfolding recovered_balance_def balance_under_def creates_def moves_def by simp

text \<open>
  C39: A follower does not hold the leader's balances, and promoting it does not bring them back. The
  leader replicates the debit and credit records of its transfers and neither commit markers nor account
  creations. So a follower started on an empty disk that has received and logged any number of such
  records knows no account when it is promoted, and restarting it recovers no account either.
\<close>

theorem promoted_follower_knows_no_account:
  assumes "shard_main ks1 ks2 env disk = Inr p" "envOrDefault env ''SHARD_ROLE'' ''PRIMARY'' = ''FOLLOWER''"
    and "d_wal_ok disk" "d_wal disk = []" "d_wal_faults disk = []"
    and "\<forall>e \<in> set es. e_OpType e = OpDebit \<or> e_OpType e = OpCredit"
    and "process_promote MethodPost (replicated es p) = (p', reply)"
    and "visits ks2' (rp_deltas (replay_entries (wal_entries (s_walLog (sp_server p'))) NewLedger))"
  shows "s_role (sp_server p') = RolePrimary \<and> length (wal_entries (s_walLog (sp_server p'))) = length es
    \<and> ShardServer_GetBalance a (sp_server p') = (0, False)
    \<and> (\<exists>res. Recover ks1' ks2' (s_walLog (sp_server p')) NewLedger = Inr (res, NewLedger))"
proof -
  have u: "unpromoted es (replicated es p)"
    using replicated_unpromoted [OF follower_start [OF assms(1-5)], of es] by simp
  have p': "sp_server p' = ShardServer_Promote (sp_server (replicated es p))"
    using assms(7) by (auto simp: process_promote_def handlePromote_def Let_def)
  have ops: "map e_OpType (wal_entries (s_walLog (sp_server p'))) = map e_OpType es"
    and w: "wal_healthy (s_walLog (sp_server p'))" and l: "s_ledger (sp_server p') = NewLedger"
    using u by (simp_all add: unpromoted_def p' ShardServer_Promote_def)
  have nc: "\<not> committed (wal_entries (s_walLog (sp_server p'))) t" for t
  proof
    assume "committed (wal_entries (s_walLog (sp_server p'))) t"
    then have "OpCommitted \<in> set (map e_OpType es)" unfolding ops [symmetric] by (force simp: marked_def)
    then show False using assms(6) by auto
  qed
  note read = ReadAll_healthy [OF w]
  obtain res l' where r: "Recover ks1' ks2' (s_walLog (sp_server p')) NewLedger = Inr (res, l')"
    using Recover_total [OF read] by blast
  have "l_balances l' = Map.empty"
    using Recover_closed_form [OF read assms(8) r] recovers_nothing [OF nc] by simp
  then have "l' = NewLedger" by (simp add: NewLedger_def)
  with r l ops show ?thesis
    by (auto simp: p' ShardServer_Promote_def ShardServer_GetBalance_def Ledger_GetBalance_def NewLedger_def
        dest: map_eq_imp_length_eq)
qed

lemma lonely_replicator:
  assumes "s_replicator s = Some r" "pr_followers r = []" "1 < pr_quorumSize r"
    and "s_seenTxns s (t_TxnID txn) = None" "ShardServer_ExecuteSingleShard txn s = (s', reply)"
  shows "s_ledger s' = s_ledger s \<and> (\<forall>res. reply = Inr res \<longrightarrow> r_State res = StateAborted)"
  using assms
  by (auto simp: ShardServer_ExecuteSingleShard_def Let_def server_state_defs replicate_eq repl_after_def
      PrimaryReplicator_Replicate_def split: prod.splits option.splits sum.splits)

text \<open>
  A promoted follower accepts no transfer. A follower process is given a replicator without
  followers, and promotion does not add any; with a quorum of two or more every new single-shard
  transfer then fails or is aborted, and moves no money.
\<close>

theorem promoted_follower_rejects_transfers:
  assumes "shard_main ks1 ks2 env disk = Inr p" "envOrDefault env ''SHARD_ROLE'' ''PRIMARY'' = ''FOLLOWER''"
    and "Atoi (envOrDefault env ''SHARD_QUORUM_SIZE'' ''2'') = Some q" "1 < q"
    and "s_replicator s = s_replicator (ShardServer_Promote (sp_server p))" "s_seenTxns s (t_TxnID txn) = None"
    and "ShardServer_ExecuteSingleShard txn s = (s', reply)"
  shows "s_ledger s' = s_ledger s \<and> (\<forall>res. reply = Inr res \<longrightarrow> r_State res = StateAborted)"
proof (rule shard_main_server [OF assms(1)])
  fix s0 store mgr mapper q'
  assume sv: "sp_server p = ShardServer_SetReplicator (shard_replicator env q') (ShardServer_SetPartitioning mgr mapper
       (ShardServer_SetRole (envOrDefault env ''SHARD_ROLE'' ''PRIMARY'') (ShardServer_SetStorage store s0)))"
    and q': "Atoi (envOrDefault env ''SHARD_QUORUM_SIZE'' ''2'') = Some q'"
  have "s_replicator s = Some (NewPrimaryReplicator (envOrDefault env ''SHARD_ID'' ''shard1'') q)"
    using assms(2,3,5) q' by (simp add: sv shard_replicator_def Let_def ShardServer_Promote_def ShardServer_SetReplicator_def)
  then show ?thesis
    by (rule lonely_replicator [OF _ _ _ assms(6,7)]) (simp_all add: NewPrimaryReplicator_def assms(4))
qed

section \<open>Starting the coordinator\<close>

text \<open>
  A coordinator started on a shard map that \<open>NewShardMap\<close> saved comes up and can route every account:
  the partition count it derives from the file is the one the map was built with, and each account
  resolves to one of the configured shards.
\<close>

theorem coordinator_routes_every_account:
  assumes "NewShardMap ks dir_ok file io shards n = Inr sm" "0 < n" "n < 2 ^ 63" "visits ks (sm_partitions sm)"
    and "sm_file sm = MapFile data" "visits keys data"
  shows "\<exists>cp. coordinator_main keys True (sm_file sm) io' env = Inr cp
    \<and> mp_numPartitions (ro_mapper (cp_router cp)) = n
    \<and> (\<exists>sh \<in> set shards. ShardMap_GetShardForAccount a (ro_mapper (cp_router cp)) (ro_shardMap (cp_router cp)) = Inr sh)"
proof -
  have ps: "sm_partitions sm = round_robin shards (nat n)" "shards \<noteq> []"
    and d: "data = save_keys ks (sm_partitions sm) Map.empty"
    using assms(1,5) by (auto simp: NewShardMap_def ShardMap_Save_def ShardMap_saveLocked_def Let_def split: if_splits)
  have dom: "dom (sm_partitions sm) \<subseteq> go_ints"
    using assms(3) by (auto simp: ps round_robin_dom go_ints_def)
  define sm2 where "sm2 = \<lparr>sm_partitions = sm_partitions sm, sm_file = MapFile data, sm_io = io'\<rparr>"
  have load: "LoadShardMap keys True (sm_file sm) io' = Inr sm2"
    using load_save [OF assms(4) dom assms(6) [unfolded d]] by (simp add: assms(5) LoadShardMap_def d sm2_def)
  have cnt: "ShardMap_PartitionCount sm2 = nat n"
    by (simp add: ShardMap_PartitionCount_def sm2_def ps round_robin_dom)
  define mp where "mp = \<lparr>mp_numPartitions = n\<rparr>"
  have "mapper_ok mp" using assms(2,3) by (simp add: mp_def mapper_ok_def)
  from GetPartition_range [OF this, of a]
  have "\<exists>sh \<in> set shards. ShardMap_GetShardForAccount a mp sm2 = Inr sh"
    using ps(2) by (auto simp: ShardMap_GetShardForAccount_def sm2_def ps round_robin_apply mp_def)
  moreover have "\<exists>cp. coordinator_main keys True (sm_file sm) io' env = Inr cp \<and> cp_router cp = NewRouter sm2 mp"
    using assms(2) by (auto simp: coordinator_main_def load cnt NewPartitionMapper_def mp_def Let_def)
  ultimately show ?thesis by (auto simp: NewRouter_def mp_def)
qed

section \<open>Witnesses\<close>

definition example_disk :: "wal_line list \<Rightarrow> shard_disk" where
  "example_disk ls = \<lparr>d_mkdir_ok = True, d_store = Storage.NoFile, d_store_faults = [], d_wal_ok = True,
     d_wal = ls, d_wal_faults = []\<rparr>"

definition shard_env :: "string \<Rightarrow> string \<Rightarrow> string" where
  "shard_env role key = (if key = ''SHARD_ROLE'' then role else if key = ''SHARD_PARTITIONS'' then ''4, 5'' else '''')"

lemma shard_env_ok: "env_ok (shard_env role) [4, 5]"
proof -
  have "parse_partitions (Split ''4, 5'' (CHR '','')) = Inr [4, 5]" "Atoi ''2'' = Some 2" "Atoi ''30'' = Some 30"
    by code_simp+
  then show ?thesis by (simp add: env_ok_def envOrDefault_def shard_env_def)
qed

lemma example_store: "\<exists>store. NewJSONStore (d_mkdir_ok (example_disk ls)) (d_store (example_disk ls)) (d_store_faults (example_disk ls)) = Inr store"
  by (simp add: example_disk_def NewJSONStore_def)

theorem process_restart_restores_witness:
  "\<exists>ks1 ks2 p mgr. shard_main ks1 ks2 (shard_env ''PRIMARY'') (example_disk (w_lines (s_walLog example_funded))) = Inr p
     \<and> l_balances (s_ledger (sp_server p)) ''alice'' = Some 100 \<and> s_seenTxns (sp_server p) (create_txn ''alice'') = Some StateCommitted
     \<and> s_partMgr (sp_server p) = Some mgr \<and> Manager_OwnsPartition 5 mgr \<and> \<not> Manager_OwnsPartition 3 mgr"
proof -
  let ?d = "example_disk (w_lines (s_walLog example_funded))"
  obtain ks1 ks2 where "visits ks1 (buildFinalStateMap (wal_entries (s_walLog example_funded)))"
    "visits ks2 (rp_deltas (replay_entries (wal_entries (s_walLog example_funded)) NewLedger))"
    by (rule orders_exist)
  then have "restarts [] ks1 ks2 Map.empty example_funded" by (simp add: restarts_def)
  moreover obtain store where "NewJSONStore (d_mkdir_ok ?d) (d_store ?d) (d_store_faults ?d) = Inr store"
    using example_store by blast
  moreover have "d_wal_ok ?d" "d_wal ?d = w_lines (s_walLog example_funded)" "d_wal_faults ?d = []"
    by (simp_all add: example_disk_def)
  ultimately obtain p mgr where "shard_main ks1 ks2 (shard_env ''PRIMARY'') ?d = Inr p" "s_ledger (sp_server p) = s_ledger example_funded"
    "s_partMgr (sp_server p) = Some mgr" "\<forall>i. Manager_OwnsPartition i mgr \<longleftrightarrow> i \<in> set [4, 5]"
    "\<forall>t. s_seenTxns (sp_server p) t = (if overruled (s_walLog example_funded) t then Some StateCommitted else s_seenTxns example_funded t)"
    using process_restart_restores [OF example_runs(1) _ shard_env_ok [of "''PRIMARY''"]] by blast
  moreover have "s_seenTxns example_funded (create_txn ''alice'') = Some StateCommitted" by (simp add: crash_eval)
  ultimately show ?thesis using example_balances(1) by (intro exI [of _ ks1] exI [of _ ks2] exI [of _ p] exI [of _ mgr]) simp
qed

lemma example_follower: "\<exists>p. shard_main [] [] (shard_env ''FOLLOWER'') (example_disk []) = Inr p"
proof -
  obtain store where "NewJSONStore (d_mkdir_ok (example_disk [])) (d_store (example_disk [])) (d_store_faults (example_disk [])) = Inr store"
    using example_store by blast
  moreover have "\<exists>s0. NewShardServer [] [] [] shardID (d_wal_ok (example_disk [])) (d_wal (example_disk [])) (d_wal_faults (example_disk [])) Map.empty = Inr s0" for shardID
    by (simp add: example_disk_def NewShardServer_def WAL_Open_def WAL_findNextLogID_def init_log_def Recover_def WAL_ReadAll_def)
  ultimately show ?thesis using shard_main_starts [OF shard_env_ok [of "''FOLLOWER''"]] by metis
qed

lemma example_role: "envOrDefault (shard_env ''FOLLOWER'') ''SHARD_ROLE'' ''PRIMARY'' = ''FOLLOWER''"
  by (simp add: envOrDefault_def shard_env_def)

theorem promoted_follower_knows_no_account_witness:
  "\<exists>p p' reply. shard_main [] [] (shard_env ''FOLLOWER'') (example_disk []) = Inr p
     \<and> process_promote MethodPost (replicated [wire_entry 0 ''t1'' OpDebit ''alice'' 5, wire_entry 1 ''t1'' OpCredit ''bob'' 5] p) = (p', reply)
     \<and> length (wal_entries (s_walLog (sp_server p'))) = 2 \<and> ShardServer_GetBalance ''alice'' (sp_server p') = (0, False)"
proof -
  let ?es = "[wire_entry 0 ''t1'' OpDebit ''alice'' 5, wire_entry 1 ''t1'' OpCredit ''bob'' 5]"
  obtain p where p: "shard_main [] [] (shard_env ''FOLLOWER'') (example_disk []) = Inr p" using example_follower by blast
  obtain p' reply where r: "process_promote MethodPost (replicated ?es p) = (p', reply)"
    by (cases "process_promote MethodPost (replicated ?es p)")
  obtain ks1' ks2' where v: "visits ks2' (rp_deltas (replay_entries (wal_entries (s_walLog (sp_server p'))) NewLedger))"
    by (rule orders_exist)
  have "length (wal_entries (s_walLog (sp_server p'))) = length ?es \<and> ShardServer_GetBalance ''alice'' (sp_server p') = (0, False)"
    using promoted_follower_knows_no_account [OF p example_role _ _ _ _ r v, of "''alice''"]
    by (simp add: example_disk_def wire_entry_def)
  then show ?thesis using p r by auto
qed

theorem promoted_follower_rejects_transfers_witness:
  "\<exists>p s' reply. shard_main [] [] (shard_env ''FOLLOWER'') (example_disk []) = Inr p
     \<and> ShardServer_ExecuteSingleShard (example_txn 5)
         ((example_shard [])\<lparr>s_replicator := s_replicator (sp_server p)\<rparr>) = (s', reply)
     \<and> s_ledger s' = s_ledger (example_shard [])"
proof -
  obtain p where p: "shard_main [] [] (shard_env ''FOLLOWER'') (example_disk []) = Inr p" using example_follower by blast
  let ?s = "(example_shard [])\<lparr>s_replicator := s_replicator (sp_server p)\<rparr>"
  obtain s' reply where r: "ShardServer_ExecuteSingleShard (example_txn 5) ?s = (s', reply)"
    by (cases "ShardServer_ExecuteSingleShard (example_txn 5) ?s")
  have a: "Atoi (envOrDefault (shard_env ''FOLLOWER'') ''SHARD_QUORUM_SIZE'' ''2'') = Some 2" by code_simp
  have "s_ledger s' = s_ledger ?s \<and> (\<forall>res. reply = Inr res \<longrightarrow> r_State res = StateAborted)"
    by (rule promoted_follower_rejects_transfers [OF p example_role a _ _ _ r])
      (simp_all add: ShardServer_Promote_def example_shard_def)
  then show ?thesis using p r by auto
qed

theorem coordinator_routes_every_account_witness:
  "\<exists>sm data keys cp. NewShardMap (map int [0..<30]) True NoFile [] example_shards 30 = Inr sm \<and> sm_file sm = MapFile data
     \<and> coordinator_main keys True (sm_file sm) [] (\<lambda>_. '''') = Inr cp \<and> mp_numPartitions (ro_mapper (cp_router cp)) = 30"
proof -
  define sm where "sm = \<lparr>sm_partitions = round_robin example_shards 30,
    sm_file = MapFile (save_keys (map int [0..<30]) (round_robin example_shards 30) Map.empty), sm_io = []\<rparr>"
  have n: "NewShardMap (map int [0..<30]) True NoFile [] example_shards 30 = Inr sm"
    by (simp add: NewShardMap_def ShardMap_Save_def ShardMap_saveLocked_def example_shards_def sm_def)
  have v: "visits (map int [0..<30]) (sm_partitions sm)"
    by (auto simp: visits_def sm_def round_robin_dom distinct_map image_iff intro!: bexI [of _ "nat _"])
  obtain keys where k: "visits keys (save_keys (map int [0..<30]) (round_robin example_shards 30) Map.empty)"
    using visits_exists [of "save_keys (map int [0..<30]) (round_robin example_shards 30) Map.empty"] by (auto simp: save_keys_dom)
  have f: "sm_file sm = MapFile (save_keys (map int [0..<30]) (round_robin example_shards 30) Map.empty)" by (simp add: sm_def)
  obtain cp where "coordinator_main keys True (sm_file sm) [] (\<lambda>_. '''') = Inr cp" "mp_numPartitions (ro_mapper (cp_router cp)) = 30"
    using coordinator_routes_every_account [OF n _ _ v f k, of "[]" "\<lambda>_. ''''" "''alice''"] by auto
  then show ?thesis using n f by blast
qed

end
