(* ===== verification/GatewayProcess.thy ===== *)
theory GatewayProcess
  imports Gateway Startup
begin

text \<open>
  The gateway as a process: \<^verbatim>\<open>main\<close> of \<^verbatim>\<open>cmd/api\<close>, and the tool \<^verbatim>\<open>cmd/devtoken\<close> that prints a token for it. Signing
  a token is a function of the JWT library, so it is an argument, as parsing is in \<open>gateway_lib\<close>; what
  the library documents about the two is the hypothesis \<open>jwt_verifies\<close>. Times are in seconds.
\<close>

section \<open>Model\<close>

record Producer =
  pd_Addr :: "string list"
  pd_Topic :: string

definition NewProducer :: "string list \<Rightarrow> string \<Rightarrow> Producer" where
  "NewProducer brokers topic = \<lparr>pd_Addr = brokers, pd_Topic = topic\<rparr>"

record ('r, 'l) gateway_process =
  gp_addr :: string
  gp_producer :: Producer
  gp_gateway :: "('r, 'l) gateway"

text \<open>\<open>limit\<close> is \<^verbatim>\<open>rate.Limit\<close>; \<open>written\<close> is what the topic holds when the process starts.\<close>

definition gateway_main :: "(nat \<Rightarrow> 'r) \<Rightarrow> (string \<times> Transaction) list \<Rightarrow> (string \<Rightarrow> string) \<Rightarrow> ('r, 'l) gateway_process" where
  "gateway_main limit written env =
     (let kafkaBrokers = Split (envOrDefault env ''KAFKA_BROKERS'' ''kafka:9092'') (CHR '','');
          kafkaTopic = envOrDefault env ''KAFKA_TOPIC'' ''transactions'';
          coordinatorURL = envOrDefault env ''COORDINATOR_URL'' ''http://coordinator:8080''
      in \<lparr>gp_addr = envOrDefault env ''API_ADDR'' '':8000'',
          gp_producer = NewProducer kafkaBrokers kafkaTopic,
          gp_gateway = \<lparr>gw_tracker = NewIPTracker (limit 50) 100, gw_topic = written, gw_coordinatorURL = coordinatorURL\<rparr>\<rparr>)"

text \<open>The two readings of the clock are taken one after the other. \<open>None\<close>: signing fails, and the tool panics.\<close>

definition devtoken_claims :: "nat \<Rightarrow> nat \<Rightarrow> string \<rightharpoonup> claim" where
  "devtoken_claims t1 t2 = [''sub'' \<mapsto> StringClaim ''loadtester'', ''role'' \<mapsto> StringClaim ''admin'',
     ''exp'' \<mapsto> NumberClaim (int t1 + 24 * 60 * 60), ''iat'' \<mapsto> NumberClaim (int t2)]"

definition devtoken_main :: "(string \<Rightarrow> (string \<rightharpoonup> claim) \<Rightarrow> string option) \<Rightarrow> nat \<Rightarrow> nat \<Rightarrow> string option" where
  "devtoken_main sign t1 t2 = sign ''super-secret-key'' (devtoken_claims t1 t2)"

section \<open>What the JWT library documents\<close>

text \<open>
  A token signed under a key parses under the same key to its claims until it expires, and not after that. The library
  decodes numbers as \<^verbatim>\<open>float64\<close>, replaces text that is not UTF-8, refuses a token before the time of a claim \<^verbatim>\<open>nbf\<close>, and takes
  an expiry of 0 for none, so this is asked of it only for claims that it gives back as they are: texts
  in ASCII, numbers that a \<^verbatim>\<open>float64\<close> holds exactly, no \<^verbatim>\<open>nbf\<close> and a positive expiry. The time of issue is not
  verified unless the parser is told to.
\<close>

definition ascii :: "string \<Rightarrow> bool" where
  "ascii s \<longleftrightarrow> (\<forall>c \<in> set s. of_char c < (128 :: nat))"

definition plain_claims :: "(string \<rightharpoonup> claim) \<Rightarrow> int \<Rightarrow> bool" where
  "plain_claims claims e \<longleftrightarrow> claims ''exp'' = Some (NumberClaim e) \<and> 0 < e \<and> claims ''nbf'' = None \<and> finite (dom claims)
     \<and> (\<forall>k c. claims k = Some c \<longrightarrow> ascii k \<and>
          (case c of StringClaim v \<Rightarrow> ascii v | NumberClaim n \<Rightarrow> \<bar>n\<bar> \<le> 2 ^ 53 | OtherClaim \<Rightarrow> False))"

definition jwt_verifies :: "(string \<Rightarrow> (string \<rightharpoonup> claim) \<Rightarrow> string option) \<Rightarrow> ('r, 'l) gateway_lib \<Rightarrow> bool" where
  "jwt_verifies sign lib \<longleftrightarrow> (\<forall>key claims e tok now. sign key claims = Some tok \<longrightarrow> plain_claims claims e \<longrightarrow>
     lib_Parse lib key now tok = (if int now < e then Some \<lparr>tk_Valid = True, tk_Claims = MapClaims claims\<rparr> else None))"

lemma devtoken_plain:
  assumes "t1 + 86400 \<le> 2 ^ 53" "t2 \<le> 2 ^ 53"
  shows "plain_claims (devtoken_claims t1 t2) (int t1 + 86400)"
proof -
  have "int t1 + 86400 \<le> 2 ^ 53" "int t2 \<le> 2 ^ 53" using assms by (simp_all flip: of_nat_le_iff)
  moreover have "ascii ''sub''" "ascii ''role''" "ascii ''exp''" "ascii ''iat''" "ascii ''loadtester''" "ascii ''admin''"
    by (simp_all add: ascii_def)
  ultimately show ?thesis by (auto simp: plain_claims_def devtoken_claims_def split: if_splits)
qed

lemma devtoken_auth:
  assumes "jwt_verifies sign lib" "devtoken_main sign t1 t2 = Some tok" "t1 + 86400 \<le> 2 ^ 53" "t2 \<le> 2 ^ 53"
    and "rq_Authorization r = ''Bearer '' @ tok"
  shows "RequireAuth lib now r = (if now < t1 + 86400 then Inr (devtoken_claims t1 t2) else Inl (401, GwInvalidToken))"
proof -
  have "lib_Parse lib JWTSecret now tok = (if int now < int t1 + 86400
      then Some \<lparr>tk_Valid = True, tk_Claims = MapClaims (devtoken_claims t1 t2)\<rparr> else None)"
    using assms(1,2) devtoken_plain [OF assms(3,4)] unfolding jwt_verifies_def devtoken_main_def JWTSecret_def by blast
  then show ?thesis
    using assms(5) by (auto simp: RequireAuth_def HasPrefix_def TrimPrefix_bearer)
qed

section \<open>Properties\<close>

text \<open>
  C26: The development token opens the gateway for a day and no longer. With a JWT library that gives back what it signed until it
  expires (\<open>jwt_verifies\<close>) and a limiter that lets a first request pass, a token that the tool prints, on a clock below
  \<open>2\<^sup>53\<close> seconds, is accepted by a gateway process that has just started, whatever its environment, for a first request from
  any client in the 24 hours after it: the admin area is served, and a complete transaction is published to the topic and
  accepted. From then on the same requests are refused with 401 and nothing is published.
\<close>

theorem devtoken_opens_gateway:
  fixes gp :: "('r, 'l) gateway_process" and fetch :: "string \<Rightarrow> (nat \<times> 'j option) option"
  assumes "jwt_verifies sign lib" "devtoken_main sign t1 t2 = Some tok" "t1 + 86400 \<le> 2 ^ 53" "t2 \<le> 2 ^ 53"
    and "gp = gateway_main limit written env"
    and "rq_Authorization r = ''Bearer '' @ tok" "fst (lib_Allow lib now (lib_NewLimiter lib (limit 50) 100))"
    and "gateway_serve lib fetch NetOk now r (gp_gateway gp) = (gw', status, body)"
  shows "(rq_Path r = ''/admin'' \<longrightarrow> (status, body) = (if now < t1 + 86400 then (200, GwAdmin) else (401, GwInvalidToken)))
    \<and> (rq_Path r = ''/submit'' \<and> rq_Method r = MethodPost \<and> rq_Body r = Some txn \<and> fields_ok txn \<longrightarrow>
        (gw_topic gw', status, body) = (if now < t1 + 86400 then (written @ [(t_TxnID txn, txn)], 202, GwAccepted (t_TxnID txn))
          else (written, 401, GwInvalidToken)))"
proof -
  let ?gw = "gp_gateway gp"
  have new: "gw_topic ?gw = written" "ip_limiters (gw_tracker ?gw) = Map.empty" "ip_r (gw_tracker ?gw) = limit 50" "ip_b (gw_tracker ?gw) = 100"
    by (simp_all add: assms(5) gateway_main_def Let_def NewIPTracker_def)
  have "snd (IPTracker_RateLimit lib now r (gw_tracker ?gw))" using assms(7) by (simp add: rate_limit_decision new)
  then obtain t' where t': "IPTracker_RateLimit lib now r (gw_tracker ?gw) = (t', True)"
    by (metis prod.collapse)
  have paths: "clean_path ''/admin''" "clean_path ''/submit''" by code_simp+
  have auth: "RequireAuth lib now r = (if now < t1 + 86400 then Inr (devtoken_claims t1 t2) else Inl (401, GwInvalidToken :: 'j gateway_body))"
    by (rule devtoken_auth [OF assms(1-4,6)])
  have role: "RequireRole ''admin'' (Some (devtoken_claims t1 t2)) = (None :: (nat \<times> 'j gateway_body) option)"
    unfolding role_admits by (simp add: devtoken_claims_def)
  have "(status, body) = (if now < t1 + 86400 then (200, GwAdmin) else (401, GwInvalidToken))" if "rq_Path r = ''/admin''"
    using assms(8) that by (auto simp: gateway_serve_def paths t' auth protected_mux_def role Let_def split: if_splits)
  moreover have "(gw_topic gw', status, body) = (if now < t1 + 86400 then (written @ [(t_TxnID txn, txn)], 202, GwAccepted (t_TxnID txn))
          else (written, 401, GwInvalidToken))"
    if "rq_Path r = ''/submit''" "rq_Method r = MethodPost" "rq_Body r = Some txn" "fields_ok txn"
  proof -
    have "TransactionHandler_HandleSubmit NetOk r written = (written @ [(t_TxnID txn, txn)], 202, GwAccepted (t_TxnID txn) :: 'j gateway_body)"
      using that unfolding TransactionHandler_HandleSubmit_def fields_ok_guard Producer_Publish_def Let_def by simp
    with assms(8) that(1) show ?thesis
      by (auto simp: gateway_serve_def paths t' auth protected_mux_def new Let_def split: if_splits)
  qed
  ultimately show ?thesis by blast
qed

section \<open>A library\<close>

text \<open>
  A library that signs, under any key without a bar in it, any claims of the shape the development tool makes: the token is the
  key and the two times in decimal, with bars between. It parses by splitting at the bars.
\<close>

definition tool_claims :: "int \<Rightarrow> int \<Rightarrow> string \<rightharpoonup> claim" where
  "tool_claims e i = [''sub'' \<mapsto> StringClaim ''loadtester'', ''role'' \<mapsto> StringClaim ''admin'',
     ''exp'' \<mapsto> NumberClaim e, ''iat'' \<mapsto> NumberClaim i]"

definition example_sign :: "string \<Rightarrow> (string \<rightharpoonup> claim) \<Rightarrow> string option" where
  "example_sign key claims =
     (case (claims ''exp'', claims ''iat'') of
        (Some (NumberClaim e), Some (NumberClaim i)) \<Rightarrow>
          if claims = tool_claims e i \<and> CHR ''|'' \<notin> set key then Some (key @ ''|'' @ fmt_d e @ ''|'' @ fmt_d i) else None
      | _ \<Rightarrow> None)"

definition example_jwt :: "(nat, int) gateway_lib" where
  "example_jwt = example_lib\<lparr>lib_Parse := (\<lambda>key now tok.
     case Split tok (CHR ''|'') of
       [k, es, is] \<Rightarrow>
         (case (Sscanf_d es, Sscanf_d is) of
            (Some e, Some i) \<Rightarrow>
              if k = key \<and> int now < e then Some \<lparr>tk_Valid = True, tk_Claims = MapClaims (tool_claims e i)\<rparr> else None
          | _ \<Rightarrow> None)
     | _ \<Rightarrow> None)\<rparr>"

lemma Split_plain: "c \<notin> set s \<Longrightarrow> Split s c = [s]"
  by (induction s) auto

lemma Split_at: "c \<notin> set s \<Longrightarrow> Split (s @ c # t) c = s # Split t c"
  by (induction s) auto

lemma dec_nat_digits: "c \<in> set (dec_nat n) \<Longrightarrow> \<exists>d < 10. c = digit d"
proof (induction n rule: dec_nat.induct)
  case (1 n)
  have "\<exists>d < 10. digit (n mod 10) = digit d" by (intro exI [of _ "n mod 10"]) simp
  with 1 show ?case by (subst (asm) (2) dec_nat.simps) (auto split: if_splits)
qed

lemma fmt_d_no_bar: "CHR ''|'' \<notin> set (fmt_d n)"
proof -
  have "digit d \<noteq> CHR ''|''" if "d < 10" for d
    using digit_cases [OF that] by (auto simp: digit_def char_of_def)
  then have "CHR ''|'' \<notin> set (dec_nat k)" for k using dec_nat_digits by metis
  then show ?thesis by (auto simp: fmt_d_def)
qed

lemma example_jwt_verifies: "jwt_verifies example_sign example_jwt"
  unfolding jwt_verifies_def
proof (intro allI impI)
  fix key claims e tok now
  assume sign: "example_sign key claims = Some tok" and plain: "plain_claims claims e"
  have e: "claims ''exp'' = Some (NumberClaim e)" using plain by (simp add: plain_claims_def)
  obtain i where i: "claims = tool_claims e i" "CHR ''|'' \<notin> set key" "tok = key @ ''|'' @ fmt_d e @ ''|'' @ fmt_d i"
    using sign e by (auto simp: example_sign_def split: option.splits claim.splits if_splits)
  have "claims ''iat'' = Some (NumberClaim i)" by (simp add: i(1) tool_claims_def)
  then have "\<bar>i\<bar> \<le> 2 ^ 53" "\<bar>e\<bar> \<le> 2 ^ 53" using plain e unfolding plain_claims_def by fastforce+
  then have "Sscanf_d (fmt_d e) = Some e" "Sscanf_d (fmt_d i) = Some i" by (auto intro!: Sscanf_fmt)
  moreover have "Split tok (CHR ''|'') = [key, fmt_d e, fmt_d i]"
    using i(2) fmt_d_no_bar by (simp add: i(3) Split_at Split_plain)
  ultimately show "lib_Parse example_jwt key now tok =
      (if int now < e then Some \<lparr>tk_Valid = True, tk_Claims = MapClaims claims\<rparr> else None)"
    by (simp add: example_jwt_def i(1))
qed

theorem devtoken_opens_gateway_witness:
  "\<exists>tok. devtoken_main example_sign 1000 1000 = Some tok
     \<and> snd (gateway_serve example_jwt (\<lambda>_. None :: (nat \<times> nat option) option) NetOk 5000
         (example_request MethodGet ''/admin'' None\<lparr>rq_Authorization := ''Bearer '' @ tok\<rparr>)
         (gp_gateway (gateway_main id [] (\<lambda>_. '''')))) = (200, GwAdmin)"
proof -
  have "devtoken_claims 1000 1000 = tool_claims 87400 1000" by (simp add: devtoken_claims_def tool_claims_def)
  then obtain tok where tok: "devtoken_main example_sign 1000 1000 = Some tok"
    by (auto simp: devtoken_main_def example_sign_def tool_claims_def)
  let ?r = "example_request MethodGet ''/admin'' None\<lparr>rq_Authorization := ''Bearer '' @ tok\<rparr>"
  obtain gw' status and body :: "nat gateway_body" where g: "gateway_serve example_jwt (\<lambda>_. None) NetOk 5000 ?r (gp_gateway (gateway_main id [] (\<lambda>_. '''')))
      = (gw', status, body)" by (metis prod_cases3)
  from devtoken_opens_gateway [OF example_jwt_verifies tok _ _ refl _ _ g]
  have "(status, body) = (200, GwAdmin)"
    by (simp add: Gateway.example_request_def example_jwt_def example_lib_def)
  then show ?thesis using g tok by auto
qed

end
