(* ===== verification/Pages.thy ===== *)
theory Pages
  imports Strconv
begin

text \<open>
  The text pages that the servers offer to Prometheus: a page is a list of lines; a metric is a help line, a
  type line and a sample, a name with labels followed by a value. \<open>scrape\<close> is how a reader finds a sample:
  the first line that starts with its name and labels.
\<close>

section \<open>Model\<close>

definition metric_lines :: "string \<Rightarrow> string \<Rightarrow> string \<Rightarrow> string \<Rightarrow> string \<Rightarrow> string list" where
  "metric_lines name help kind labels v =
     [''# HELP '' @ name @ '' '' @ help, ''# TYPE '' @ name @ '' '' @ kind, name @ labels @ '' '' @ v]"

text \<open>The label \<open>{shard="..."}\<close>; the quotation mark is character 34.\<close>

definition quoted :: "string \<Rightarrow> string" where
  "quoted s = CHR 0x22 # s @ [CHR 0x22]"

definition shard_label :: "string \<Rightarrow> string" where
  "shard_label i = ''{shard='' @ quoted i @ ''}''"

definition shard_role_label :: "string \<Rightarrow> string \<Rightarrow> string" where
  "shard_role_label i r = ''{shard='' @ quoted i @ '',role='' @ quoted r @ ''}''"

section \<open>Reading a page\<close>

fun strip_prefix :: "string \<Rightarrow> string \<Rightarrow> string option" where
  "strip_prefix [] s = Some s"
| "strip_prefix (c # cs) [] = None"
| "strip_prefix (c # cs) (d # ds) = (if c = d then strip_prefix cs ds else None)"

fun scrape :: "string \<Rightarrow> string list \<Rightarrow> string option" where
  "scrape key [] = None"
| "scrape key (line # page) =
     (case strip_prefix (key @ '' '') line of Some v \<Rightarrow> Some v | None \<Rightarrow> scrape key page)"

lemma strip_prefix_append: "strip_prefix p (p @ s) = Some s"
  by (induction p) simp_all

lemma strip_prefix_common: "strip_prefix (p @ q) (p @ s) = strip_prefix q s"
  by (induction p) simp_all

lemma strip_prefix_Some: "strip_prefix p s = Some r \<longleftrightarrow> s = p @ r"
  by (induction p s rule: strip_prefix.induct) auto

text \<open>A name that is not a prefix of another's text is not found there.\<close>

definition apart :: "string \<Rightarrow> string \<Rightarrow> bool" where
  "apart m n \<longleftrightarrow> strip_prefix m n = None \<and> strip_prefix n m = None"

lemma apart_strip: "apart m n \<Longrightarrow> strip_prefix (m @ x) (n @ y) = None"
  unfolding apart_def by (induction m n rule: strip_prefix.induct) (auto split: if_splits)

lemma scrape_here:
  assumes "name \<noteq> []" "hd name \<noteq> CHR ''#''"
  shows "scrape (name @ labels) (metric_lines name help kind labels v @ page) = Some v"
proof -
  have "strip_prefix (name @ z) (CHR ''#'' # y) = None" for y z using assms by (cases name) auto
  moreover have "strip_prefix (name @ labels @ '' '') (name @ labels @ CHR '' '' # v) = Some v"
    using strip_prefix_append [of "name @ labels @ '' ''" v] by simp
  ultimately show ?thesis by (simp add: metric_lines_def)
qed

lemma scrape_skip:
  assumes "name \<noteq> []" "hd name \<noteq> CHR ''#''" "apart name name'"
  shows "scrape (name @ labels) (metric_lines name' help kind labels' v @ page) = scrape (name @ labels) page"
proof -
  have "strip_prefix (name @ z) (CHR ''#'' # y) = None" for y z using assms by (cases name) auto
  then show ?thesis by (simp add: metric_lines_def apart_strip [OF assms(3)])
qed

end
