(* ===== verification/CoordinatorProcess.thy ===== *)
theory CoordinatorProcess
  imports Startup Pages
begin

text \<open>
  The running coordinator of \<^verbatim>\<open>cmd/coordinator/main.go\<close>: its HTTP routes over the handlers of
  \<^verbatim>\<open>coordinator/consumer/consumer.go\<close>, the metrics page, and the Kafka reader beside them. A request is its
  method, its path, what the decoder makes of its body and its query parameters; a path is taken as the client
  sends it, without the redirects of Go's \<open>ServeMux\<close>. Uptime in seconds and the text of the rate, which is
  computed in floating point, are arguments.

  One step of the process serves one request or handles one message.
\<close>

section \<open>Model\<close>

record http_request =
  rq_method :: http_method
  rq_path :: string
  rq_body :: "Transaction option"
  rq_query :: "string \<Rightarrow> string"

datatype coordinator_reply =
    CoordHealthy | CoordBody consumer_body | CoordPage "string list" | CoordNotFound

subsection \<open>Handlers for an external mux\<close>

definition HTTPConsumer_HandleSubmitDirect ::
    "net \<Rightarrow> run_env \<Rightarrow> http_request \<Rightarrow> HTTPConsumer \<Rightarrow> nodes \<Rightarrow> HTTPConsumer \<times> nodes \<times> nat \<times> consumer_body" where
  "HTTPConsumer_HandleSubmitDirect n env r c ns = HTTPConsumer_handleSubmit n env (rq_method r) (rq_body r) c ns"

definition HTTPConsumer_HandleStatusDirect :: "http_request \<Rightarrow> HTTPConsumer \<Rightarrow> nat \<times> consumer_body" where
  "HTTPConsumer_HandleStatusDirect r c = HTTPConsumer_handleStatus (rq_method r) (rq_query r ''txn_id'') c"

definition HTTPConsumer_HandleMetricsDirect :: "http_request \<Rightarrow> HTTPConsumer \<Rightarrow> nat \<times> consumer_body" where
  "HTTPConsumer_HandleMetricsDirect r c = HTTPConsumer_handleMetrics (rq_method r) c"

text \<open>The lines of the Prometheus page.\<close>

definition coordinator_page :: "string \<Rightarrow> int \<Rightarrow> HTTPConsumer \<Rightarrow> string list" where
  "coordinator_page tps uptime c =
     (case HTTPConsumer_HandlePrometheusMetrics c of (total_n, cn, an) \<Rightarrow>
        metric_lines ''coordinator_tps'' ''Transactions per second'' ''gauge'' '''' tps
      @ metric_lines ''coordinator_committed_total'' ''Total committed'' ''counter'' '''' (fmt_d (int cn))
      @ metric_lines ''coordinator_aborted_total'' ''Total aborted'' ''counter'' '''' (fmt_d (int an))
      @ metric_lines ''coordinator_uptime_seconds'' ''Uptime'' ''gauge'' '''' (fmt_d uptime))"

subsection \<open>Routes\<close>

datatype coordinator_route =
    RouteHealth | RouteSubmit | RouteStatus | RouteTransfer | RouteTransactions | RouteMetrics | RoutePrometheus

text \<open>Both consumer types register the same routes.\<close>

definition coordinator_routes :: "(string \<times> coordinator_route) list" where
  "coordinator_routes =
     [(''/health'', RouteHealth), (''/submit'', RouteSubmit), (''/status'', RouteStatus),
      (''/transfer'', RouteTransfer), (''/transactions'', RouteTransactions), (''/metrics'', RouteMetrics),
      (''/metrics/prometheus'', RoutePrometheus)]"

text \<open>The routes of a consumer that listens by itself (\<open>Start\<close>).\<close>

definition consumer_routes :: "(string \<times> coordinator_route) list" where
  "consumer_routes = [(''/submit'', RouteSubmit), (''/status'', RouteStatus)]"

text \<open>The third component is \<open>None\<close> if the handler panics.\<close>

definition serve_route ::
    "string \<Rightarrow> int \<Rightarrow> net \<Rightarrow> run_env \<Rightarrow> http_request \<Rightarrow> coordinator_route \<Rightarrow> HTTPConsumer \<Rightarrow> nodes
     \<Rightarrow> HTTPConsumer \<times> nodes \<times> (nat \<times> coordinator_reply) option" where
  "serve_route tps uptime n env r route c ns =
     (case route of
        RouteHealth \<Rightarrow> (c, ns, Some (StatusOK, CoordHealthy))
      | RouteSubmit \<Rightarrow>
          (case HTTPConsumer_HandleSubmitDirect n env r c ns of
             (c', ns', status, b) \<Rightarrow> (c', ns', Some (status, CoordBody b)))
      | RouteStatus \<Rightarrow> (c, ns, Some (map_prod id CoordBody (HTTPConsumer_HandleStatusDirect r c)))
      | RouteTransfer \<Rightarrow>
          (case HTTPConsumer_HandleTransferDirect n env (rq_method r) (rq_body r) c ns of
             (c', ns', status, b) \<Rightarrow> (c', ns', Some (status, CoordBody b)))
      | RouteTransactions \<Rightarrow>
          (c, ns, map_option (map_prod id CoordBody)
             (HTTPConsumer_HandleTransactionsDirect (rq_method r) (rq_query r ''limit'') c))
      | RouteMetrics \<Rightarrow> (c, ns, Some (map_prod id CoordBody (HTTPConsumer_HandleMetricsDirect r c)))
      | RoutePrometheus \<Rightarrow> (c, ns, Some (StatusOK, CoordPage (coordinator_page tps uptime c))))"

definition mux_serve ::
    "(string \<times> coordinator_route) list \<Rightarrow> string \<Rightarrow> int \<Rightarrow> net \<Rightarrow> run_env \<Rightarrow> http_request \<Rightarrow> HTTPConsumer \<Rightarrow> nodes
     \<Rightarrow> HTTPConsumer \<times> nodes \<times> (nat \<times> coordinator_reply) option" where
  "mux_serve routes tps uptime n env r c ns =
     (case map_of routes (rq_path r) of
        None \<Rightarrow> (c, ns, Some (StatusNotFound, CoordNotFound))
      | Some route \<Rightarrow> serve_route tps uptime n env r route c ns)"

subsection \<open>The process at work\<close>

text \<open>What reaches the process, with the network and the schedule it meets. The reader ends for good when it
  fails; a process without Kafka has none.\<close>

datatype coordinator_input =
    Request string int net run_env http_request
  | Consumed net run_env kafka_read

record coordinator_state =
  cs_process :: coordinator_process
  cs_reading :: bool

definition coordinator_serves :: "coordinator_process \<Rightarrow> coordinator_state" where
  "coordinator_serves cp = \<lparr>cs_process = cp, cs_reading = (cp_kafka cp \<noteq> None)\<rparr>"

definition coordinator_event :: "coordinator_input \<Rightarrow> coordinator_state \<times> nodes \<Rightarrow> coordinator_state \<times> nodes" where
  "coordinator_event ev st = (case st of (cs, ns) \<Rightarrow>
     case ev of
       Request tps uptime n env r \<Rightarrow>
         (case mux_serve coordinator_routes tps uptime n env r (cp_consumer (cs_process cs)) ns of
            (c', ns', _) \<Rightarrow> (cs\<lparr>cs_process := (cs_process cs)\<lparr>cp_consumer := c'\<rparr>\<rparr>, ns'))
     | Consumed n env rd \<Rightarrow>
         if \<not> cs_reading cs then (cs, ns)
         else (cs\<lparr>cs_reading := (rd \<noteq> ReadFailed)\<rparr>, KafkaConsumer_loop (cp_router (cs_process cs)) [(n, env, rd)] ns))"

definition coordinator_run :: "coordinator_input list \<Rightarrow> coordinator_state \<times> nodes \<Rightarrow> coordinator_state \<times> nodes" where
  "coordinator_run evs st = fold coordinator_event evs st"

section \<open>What the process submits\<close>

text \<open>The transfer an event asks for, if any: a well-formed one over HTTP, any message from Kafka.\<close>

definition event_txn :: "coordinator_input \<Rightarrow> Transaction option" where
  "event_txn ev =
     (case ev of
        Request tps uptime n env r \<Rightarrow>
          if rq_path r = ''/submit'' \<or> rq_path r = ''/transfer'' then rq_body r else None
      | Consumed n env (Message txn) \<Rightarrow> Some txn
      | Consumed n env _ \<Rightarrow> None)"

lemma accept_routes:
  assumes "accept_transaction label n env m body c ns = (c', ns', status, reply)"
  shows "hc_router c' = hc_router c"
    and "ns' = ns \<or> (\<exists>txn. body = Some txn \<and> ns' = fst (Router_Route n env (hc_router c) (txn\<lparr>t_State := StatePending\<rparr>) ns))"
  using assms
  by (auto simp: accept_transaction_def Let_def HTTPConsumer_addRecentTxn_def
      split: if_splits option.splits prod.splits sum.splits)

lemma coordinator_event_routes:
  assumes "coordinator_event ev (cs, ns) = (cs', ns')" "hc_router (cp_consumer (cs_process cs)) = cp_router (cs_process cs)"
  shows "cp_router (cs_process cs') = cp_router (cs_process cs)" "hc_router (cp_consumer (cs_process cs')) = cp_router (cs_process cs)"
    and "ns' = ns \<or> (\<exists>n env txn. event_txn ev = Some txn
          \<and> ns' = fst (Router_Route n env (cp_router (cs_process cs)) (txn\<lparr>t_State := StatePending\<rparr>) ns))"
proof -
  have "cp_router (cs_process cs') = cp_router (cs_process cs) \<and> hc_router (cp_consumer (cs_process cs')) = cp_router (cs_process cs)
    \<and> (ns' = ns \<or> (\<exists>n env txn. event_txn ev = Some txn
          \<and> ns' = fst (Router_Route n env (cp_router (cs_process cs)) (txn\<lparr>t_State := StatePending\<rparr>) ns)))"
  proof (cases ev)
    case (Request tps uptime n env r)
    then show ?thesis
      using assms accept_routes [of _ n env "rq_method r" "rq_body r" "cp_consumer (cs_process cs)" ns]
      by (fastforce simp: coordinator_event_def mux_serve_def serve_route_def coordinator_routes_def event_txn_def
          HTTPConsumer_HandleSubmitDirect_def HTTPConsumer_handleSubmit_def HTTPConsumer_HandleTransferDirect_def
          split: prod.splits option.splits if_splits)
  next
    case (Consumed n env rd)
    then show ?thesis
      using assms by (cases rd) (auto simp: coordinator_event_def event_txn_def split: if_splits)
  qed
  then show "cp_router (cs_process cs') = cp_router (cs_process cs)" "hc_router (cp_consumer (cs_process cs')) = cp_router (cs_process cs)"
    "ns' = ns \<or> (\<exists>n env txn. event_txn ev = Some txn
          \<and> ns' = fst (Router_Route n env (cp_router (cs_process cs)) (txn\<lparr>t_State := StatePending\<rparr>) ns))"
    by blast+
qed

definition event_txns :: "coordinator_input list \<Rightarrow> Transaction list" where
  "event_txns evs = List.map_filter event_txn evs"

lemma event_txns_Cons: "event_txns (ev # evs) = (case event_txn ev of None \<Rightarrow> [] | Some txn \<Rightarrow> [txn]) @ event_txns evs"
  by (simp add: event_txns_def List.map_filter_def split: option.split)

lemma coordinator_run_money:
  assumes "hc_router (cp_consumer (cs_process cs)) = cp_router (cs_process cs)"
    and "cluster_ok ns" "addresses_distinct (ro_shardMap (cp_router (cs_process cs)))" "deployed (ro_shardMap (cp_router (cs_process cs))) ns"
    and "distinct (map t_TxnID (event_txns evs))" "\<forall>txn \<in> set (event_txns evs). unseen (t_TxnID txn) ns"
    and "coordinator_run evs (cs, ns) = (cs', ns')"
  shows "cluster_ok ns' \<and> cluster_funds ns' \<le> cluster_funds ns"
  using assms
proof (induction evs arbitrary: cs ns)
  case (Cons ev evs)
  obtain cs1 ns1 where e: "coordinator_event ev (cs, ns) = (cs1, ns1)" by force
  note r = coordinator_event_routes [OF e Cons.prems(1)]
  have run: "coordinator_run evs (cs1, ns1) = (cs', ns')" using Cons.prems(7) by (simp add: coordinator_run_def e)
  from r(3) show ?case
  proof (elim disjE exE conjE)
    assume "ns1 = ns"
    then show ?thesis
      using Cons.IH [of cs1 ns1] Cons.prems(2-6) r(1,2) run by (auto simp: event_txns_Cons split: option.splits)
  next
    fix n env txn
    assume txn: "event_txn ev = Some txn" and ns1: "ns1 = fst (Router_Route n env (cp_router (cs_process cs)) (txn\<lparr>t_State := StatePending\<rparr>) ns)"
    have "unseen (t_TxnID (txn\<lparr>t_State := StatePending\<rparr>)) ns" using Cons.prems(6) txn by (simp add: event_txns_Cons)
    from Route_money [OF Cons.prems(2-4) this prod.collapse [symmetric], of n env]
    have money: "cluster_ok ns1 \<and> cluster_funds ns1 \<le> cluster_funds ns" by (simp add: ns1)
    have "unseen (t_TxnID u) ns1" if "u \<in> set (event_txns evs)" for u
    proof -
      have "t_TxnID txn \<notin> t_TxnID ` set (event_txns evs)" using Cons.prems(5) txn by (simp add: event_txns_Cons)
      then have "t_TxnID u \<noteq> t_TxnID txn" using that by (metis image_eqI)
      then show ?thesis
        unfolding ns1 using that Cons.prems(6) txn
        by (intro same_seen_unseen [OF Route_same_seen]) (auto simp: event_txns_Cons)
    qed
    then have "cluster_ok ns' \<and> cluster_funds ns' \<le> cluster_funds ns1"
      using Cons.prems(3,5) r(1,2) run money Route_deployed [OF Cons.prems(4)] txn
      by (intro Cons.IH [of cs1 ns1]) (auto simp: event_txns_Cons ns1)
    with money show ?thesis by linarith
  qed
qed (simp add: coordinator_run_def)

lemma main_consumer_router:
  "coordinator_main keys readable file io env = Inr cp \<Longrightarrow> hc_router (cp_consumer cp) = cp_router cp"
  by (auto simp: coordinator_main_def Let_def NewHTTPConsumer_def split: sum.splits option.splits if_splits)

text \<open>Every request is answered: no handler panics.\<close>

lemma mux_serve_answers: "snd (snd (mux_serve routes tps uptime n env r c ns)) \<noteq> None"
proof -
  have "HTTPConsumer_HandleTransactionsDirect m l c \<noteq> None" for m l
    using query_limit_pos [of 50 l] by (simp add: HTTPConsumer_HandleTransactionsDirect_def getRecentTxns_last)
  then show ?thesis
    by (auto simp: mux_serve_def serve_route_def split: option.split coordinator_route.split prod.split)
qed

section \<open>Properties\<close>

text \<open>
  C5: The running coordinator never creates money and answers every request. From a start that succeeded, on a
  cluster where the shards of its map run at addresses of their own, whatever requests reach it on whatever
  paths and whatever its Kafka reader delivers, in any order, as long as the transfers carry distinct new
  identifiers: no balance of any shard becomes negative, the cluster's total never rises, and the next
  request, whatever it is, gets an answer.
\<close>

theorem coordinator_process_never_creates_money:
  assumes "coordinator_main keys readable file io env = Inr cp"
    and "cluster_ok ns" "addresses_distinct (ro_shardMap (cp_router cp))" "deployed (ro_shardMap (cp_router cp)) ns"
    and "distinct (map t_TxnID (event_txns evs))" "\<forall>txn \<in> set (event_txns evs). unseen (t_TxnID txn) ns"
    and "coordinator_run evs (coordinator_serves cp, ns) = (cs', ns')"
  shows "cluster_ok ns' \<and> cluster_funds ns' \<le> cluster_funds ns
    \<and> snd (snd (mux_serve coordinator_routes tps uptime n renv r (cp_consumer (cs_process cs')) ns')) \<noteq> None"
proof -
  have "hc_router (cp_consumer (cs_process (coordinator_serves cp))) = cp_router (cs_process (coordinator_serves cp))"
    using main_consumer_router [OF assms(1)] by (simp add: coordinator_serves_def)
  then show ?thesis
    using coordinator_run_money [of "coordinator_serves cp" ns evs cs' ns'] assms(2-7) mux_serve_answers
    by (simp add: coordinator_serves_def)
qed

definition example_map :: "string \<rightharpoonup> ShardInfo" where
  "example_map = [''0'' \<mapsto> example_shards ! 0, ''1'' \<mapsto> example_shards ! 1]"

definition example_coordinator :: coordinator_process where
  "example_coordinator =
     (let sm = \<lparr>sm_partitions = [0 \<mapsto> example_shards ! 0, 1 \<mapsto> example_shards ! 1], sm_file = MapFile example_map, sm_io = []\<rparr>;
          r = NewRouter sm \<lparr>mp_numPartitions = 2\<rparr>
      in \<lparr>cp_addr = '':8080'', cp_router = r, cp_consumer = NewHTTPConsumer r, cp_kafka = None\<rparr>)"

lemma example_coordinator_main: "coordinator_main [''0'', ''1''] True (MapFile example_map) [] (\<lambda>_. '''') = Inr example_coordinator"
proof -
  have "Sscanf_d ''0'' = Some 0" "Sscanf_d ''1'' = Some 1" by code_simp+
  then show ?thesis
    by (simp add: coordinator_main_def LoadShardMap_def example_map_def ShardMap_PartitionCount_def Let_def
        NewPartitionMapper_def envOrDefault_def example_coordinator_def)
qed

definition example_request :: "string \<Rightarrow> Transaction option \<Rightarrow> coordinator_input" where
  "example_request path body = Request ''0.00'' 1 NetOk example_env
     \<lparr>rq_method = MethodPost, rq_path = path, rq_body = body, rq_query = (\<lambda>_. '''')\<rparr>"

theorem coordinator_process_never_creates_money_witness:
  "\<exists>cs' ns'. coordinator_run [example_request ''/transfer'' (Some (example_txn 30)), example_request ''/health'' None]
       (coordinator_serves example_coordinator, example_cluster) = (cs', ns')
     \<and> cluster_ok ns' \<and> cluster_funds ns' \<le> 300"
proof -
  let ?evs = "[example_request ''/transfer'' (Some (example_txn 30)), example_request ''/health'' None]"
  obtain cs' ns' where r: "coordinator_run ?evs (coordinator_serves example_coordinator, example_cluster) = (cs', ns')" by force
  have a: "addresses_distinct (ro_shardMap (cp_router example_coordinator))"
    "deployed (ro_shardMap (cp_router example_coordinator)) example_cluster"
    by (auto simp: addresses_distinct_def deployed_def example_coordinator_def NewRouter_def Let_def example_shards_def
        example_cluster_def split: if_splits)
  have e: "event_txns ?evs = [example_txn 30]"
    by (simp add: event_txns_Cons event_txn_def example_request_def) (simp add: event_txns_def)
  have "cluster_ok ns' \<and> cluster_funds ns' \<le> cluster_funds example_cluster"
    using coordinator_process_never_creates_money [OF example_coordinator_main example_cluster_ok(1) a _ _ r]
    by (simp add: e example_router_ok(3))
  with r show ?thesis by (simp add: example_cluster_ok(2))
qed

end
