(* ===== verification/Pipeline.thy ===== *)
theory Pipeline
  imports GatewayProcess CoordinatorProcess
begin

text \<open>
  The way of a transfer from the client to the shards: the gateway publishes it to the Kafka topic, and the reader
  of the coordinator hands the messages of the topic to the consuming loop. Of Kafka only this is used, that what is
  delivered was published: a delivery names any message that is already in the topic, so that messages may be
  reordered, delivered again (a retrying writer, a rebalanced reader) or never delivered. The gateway
  and the coordinator run side by side: a run is a sequence of requests served by the gateway and of
  deliveries, interleaved in any way. What the producer marshals is what the consumer unmarshals.
\<close>

section \<open>Model\<close>

record ('r, 'l) pipeline =
  pl_gateway :: "('r, 'l) gateway"
  pl_read :: "nat list"
  pl_coordinator :: coordinator_state
  pl_nodes :: nodes

datatype pipeline_input =
    AtGateway net nat request
  | Delivered nat net run_env

text \<open>\<open>pl_read\<close> are the positions of the messages delivered so far, in the order of their delivery.\<close>

definition pipeline_step ::
    "('r, 'l) gateway_lib \<Rightarrow> (string \<Rightarrow> (nat \<times> 'j option) option) \<Rightarrow> pipeline_input \<Rightarrow> ('r, 'l) pipeline \<Rightarrow> ('r, 'l) pipeline" where
  "pipeline_step lib fetch ev p =
     (case ev of
        AtGateway kn now r \<Rightarrow> p\<lparr>pl_gateway := fst (gateway_serve lib fetch kn now r (pl_gateway p))\<rparr>
      | Delivered k n env \<Rightarrow>
          if cs_reading (pl_coordinator p) \<and> k < length (gw_topic (pl_gateway p))
          then (case coordinator_event (Consumed n env (Message (snd (gw_topic (pl_gateway p) ! k))))
                       (pl_coordinator p, pl_nodes p) of
                  (cs, ns) \<Rightarrow> p\<lparr>pl_read := pl_read p @ [k], pl_coordinator := cs, pl_nodes := ns\<rparr>)
          else p)"

text \<open>The transfers delivered so far, in the order of their delivery.\<close>

definition delivered_txns :: "('r, 'l) pipeline \<Rightarrow> Transaction list" where
  "delivered_txns p = map (\<lambda>k. snd (gw_topic (pl_gateway p) ! k)) (pl_read p)"

definition pipeline_run ::
    "('r, 'l) gateway_lib \<Rightarrow> (string \<Rightarrow> (nat \<times> 'j option) option) \<Rightarrow> pipeline_input list \<Rightarrow> ('r, 'l) pipeline \<Rightarrow> ('r, 'l) pipeline" where
  "pipeline_run lib fetch evs p = fold (pipeline_step lib fetch) evs p"

definition pipeline_start :: "('r, 'l) gateway_process \<Rightarrow> coordinator_process \<Rightarrow> nodes \<Rightarrow> ('r, 'l) pipeline" where
  "pipeline_start gp cp ns =
     \<lparr>pl_gateway = gp_gateway gp, pl_read = [], pl_coordinator = coordinator_serves cp, pl_nodes = ns\<rparr>"

section \<open>What the coordinator has consumed\<close>

text \<open>A complete transfer that a request of the run asked for with a valid token.\<close>

definition authentic :: "('r, 'l) gateway_lib \<Rightarrow> pipeline_input set \<Rightarrow> Transaction \<Rightarrow> bool" where
  "authentic lib evs txn \<longleftrightarrow> fields_ok txn \<and> (\<exists>kn now r tok token. AtGateway kn now r \<in> evs \<and> rq_Method r = MethodPost \<and> rq_Path r = ''/submit''
     \<and> rq_Body r = Some txn \<and> rq_Authorization r = ''Bearer '' @ tok \<and> lib_Parse lib JWTSecret now tok = Some token \<and> tk_Valid token)"

lemma authentic_mono: "authentic lib evs txn \<Longrightarrow> evs \<subseteq> evs' \<Longrightarrow> authentic lib evs' txn"
  unfolding authentic_def by blast

text \<open>The coordinator is where the messages read so far have brought it, and every message is authentic.\<close>

definition pipeline_inv ::
    "('r, 'l) gateway_lib \<Rightarrow> coordinator_process \<Rightarrow> nodes \<Rightarrow> pipeline_input set \<Rightarrow> ('r, 'l) pipeline \<Rightarrow> bool" where
  "pipeline_inv lib cp ns evs p \<longleftrightarrow> (\<forall>k \<in> set (pl_read p). k < length (gw_topic (pl_gateway p)))
     \<and> (\<forall>(k, txn) \<in> set (gw_topic (pl_gateway p)). k = t_TxnID txn \<and> authentic lib evs txn)
     \<and> (\<exists>cevs. coordinator_run cevs (coordinator_serves cp, ns) = (pl_coordinator p, pl_nodes p)
          \<and> event_txns cevs = delivered_txns p)"

lemma coordinator_run_snoc: "coordinator_run (evs @ [ev]) st = coordinator_event ev (coordinator_run evs st)"
  by (simp add: coordinator_run_def)

lemma event_txns_snoc: "event_txns (evs @ [ev]) = event_txns evs @ (case event_txn ev of None \<Rightarrow> [] | Some txn \<Rightarrow> [txn])"
  by (simp add: event_txns_def List.map_filter_def split: option.split)

lemma gateway_step_inv:
  assumes "pipeline_inv lib cp ns evs p"
  shows "pipeline_inv lib cp ns (insert (AtGateway kn now r) evs) (pipeline_step lib fetch (AtGateway kn now r) p)"
proof -
  let ?evs = "insert (AtGateway kn now r) evs" and ?gw = "pl_gateway p"
  obtain gw' status body where g: "gateway_serve lib fetch kn now r ?gw = (gw', status, body)" by (metis prod_cases3)
  have old: "\<forall>(k, txn) \<in> set (gw_topic ?gw). k = t_TxnID txn \<and> authentic lib ?evs txn"
    using assms authentic_mono [of lib evs _ ?evs] by (fastforce simp: pipeline_inv_def)
  have "\<exists>new. gw_topic gw' = gw_topic ?gw @ new \<and> (\<forall>(k, txn) \<in> set new. k = t_TxnID txn \<and> authentic lib ?evs txn)"
  proof (cases "gw_topic gw' = gw_topic ?gw")
    case False
    then obtain txn claims where t: "admitted lib now r ?gw claims" "rq_Path r = ''/submit''" "rq_Method r = MethodPost"
      "rq_Body r = Some txn" "fields_ok txn" "gw_topic gw' = gw_topic ?gw @ [(t_TxnID txn, txn)]"
      using serve_publishes [OF g] by blast
    then have "authentic lib ?evs txn" unfolding authentic_def admitted_def by blast
    with t(6) show ?thesis by auto
  qed auto
  then obtain new where new: "gw_topic gw' = gw_topic ?gw @ new" "\<forall>(k, txn) \<in> set new. k = t_TxnID txn \<and> authentic lib ?evs txn" by blast
  have "map (\<lambda>k. snd ((gw_topic ?gw @ new) ! k)) (pl_read p) = map (\<lambda>k. snd (gw_topic ?gw ! k)) (pl_read p)"
    using assms by (auto simp: pipeline_inv_def nth_append)
  with assms old new show ?thesis by (auto simp: pipeline_inv_def pipeline_step_def delivered_txns_def g)
qed

lemma delivery_inv:
  assumes "pipeline_inv lib cp ns evs p"
  shows "pipeline_inv lib cp ns (insert (Delivered k n env) evs) (pipeline_step lib fetch (Delivered k n env) p)"
proof (cases "cs_reading (pl_coordinator p) \<and> k < length (gw_topic (pl_gateway p))")
  case True
  let ?topic = "gw_topic (pl_gateway p)"
  let ?ev = "Consumed n env (Message (snd (?topic ! k)))"
  obtain cs ns' where e: "coordinator_event ?ev (pl_coordinator p, pl_nodes p) = (cs, ns')" by force
  obtain cevs where c: "coordinator_run cevs (coordinator_serves cp, ns) = (pl_coordinator p, pl_nodes p)"
    "event_txns cevs = delivered_txns p"
    using assms by (auto simp: pipeline_inv_def)
  have "coordinator_run (cevs @ [?ev]) (coordinator_serves cp, ns) = (cs, ns')"
    "event_txns (cevs @ [?ev]) = delivered_txns p @ [snd (?topic ! k)]"
    by (simp_all add: coordinator_run_snoc c e event_txns_snoc event_txn_def)
  with assms True show ?thesis
    by (auto simp: pipeline_inv_def pipeline_step_def delivered_txns_def e intro: authentic_mono)
qed (use assms in \<open>auto simp: pipeline_inv_def pipeline_step_def intro: authentic_mono\<close>)

lemma pipeline_run_inv:
  "pipeline_inv lib cp ns evs0 p \<Longrightarrow> pipeline_inv lib cp ns (set evs \<union> evs0) (pipeline_run lib fetch evs p)"
proof (induction evs arbitrary: p evs0)
  case (Cons ev evs)
  have "pipeline_inv lib cp ns (insert ev evs0) (pipeline_step lib fetch ev p)"
    using gateway_step_inv [OF Cons.prems] delivery_inv [OF Cons.prems] by (cases ev) auto
  from Cons.IH [OF this] show ?case by (simp add: pipeline_run_def)
qed (simp add: pipeline_run_def)

lemma coordinator_run_idle:
  assumes "event_txns evs = []" "hc_router (cp_consumer (cs_process cs)) = cp_router (cs_process cs)"
  shows "snd (coordinator_run evs (cs, ns)) = ns"
  using assms
proof (induction evs arbitrary: cs)
  case (Cons ev evs)
  obtain cs1 ns1 where e: "coordinator_event ev (cs, ns) = (cs1, ns1)" by force
  note r = coordinator_event_routes [OF e Cons.prems(2)]
  have "event_txn ev = None" "event_txns evs = []" using Cons.prems(1) by (auto simp: event_txns_Cons split: option.splits)
  then have "ns1 = ns" using r(3) by simp
  with Cons.IH [of cs1] \<open>event_txns evs = []\<close> r(1,2) e show ?case by (simp add: coordinator_run_def)
qed (simp add: coordinator_run_def)

section \<open>Properties\<close>

text \<open>
  C6: The whole way, from the gateway to the shards. A gateway and a coordinator have started; whatever requests reach the
  gateway, however the deliveries are interleaved with them, and in whatever order and however often Kafka
  delivers what was published, the network of every run included: the coordinator is where it would be had it
  consumed the delivered transfers alone, each of which is complete and was asked for in a request with a valid
  token; without such a request no shard changes at all. On a cluster in order whose shards run at addresses of their own, and if
  the deliveries carry distinct identifiers that the shards have not seen (so no message is delivered twice and
  none is a retry of another), moreover no balance is negative and the total never rises.
\<close>

theorem pipeline_end_to_end:
  assumes "coordinator_main keys readable file io cenv = Inr cp" "gp = gateway_main limit [] genv"
    and "p = pipeline_run lib fetch evs (pipeline_start gp cp ns)"
  shows "(\<exists>cevs. coordinator_run cevs (coordinator_serves cp, ns) = (pl_coordinator p, pl_nodes p)
        \<and> event_txns cevs = delivered_txns p)
    \<and> (\<forall>txn \<in> set (delivered_txns p). authentic lib (set evs) txn)
    \<and> (pl_nodes p \<noteq> ns \<longrightarrow> (\<exists>txn. authentic lib (set evs) txn))
    \<and> (cluster_ok ns \<and> addresses_distinct (ro_shardMap (cp_router cp)) \<and> deployed (ro_shardMap (cp_router cp)) ns
        \<and> distinct (map t_TxnID (delivered_txns p)) \<and> (\<forall>txn \<in> set (delivered_txns p). unseen (t_TxnID txn) ns) \<longrightarrow>
        cluster_ok (pl_nodes p) \<and> cluster_funds (pl_nodes p) \<le> cluster_funds ns)"
proof -
  let ?topic = "gw_topic (pl_gateway p)"
  have "pipeline_inv lib cp ns {} (pipeline_start gp cp ns)"
    by (auto simp: pipeline_inv_def pipeline_start_def assms(2) gateway_main_def Let_def coordinator_run_def event_txns_def
        delivered_txns_def List.map_filter_def intro!: exI [of _ "[]"])
  from pipeline_run_inv [OF this, of evs fetch, folded assms(3)]
  have inv: "\<forall>(k, txn) \<in> set ?topic. k = t_TxnID txn \<and> authentic lib (set evs) txn" "\<forall>k \<in> set (pl_read p). k < length ?topic"
    and "\<exists>cevs. coordinator_run cevs (coordinator_serves cp, ns) = (pl_coordinator p, pl_nodes p)
      \<and> event_txns cevs = delivered_txns p"
    by (simp_all add: pipeline_inv_def)
  then obtain cevs where c: "coordinator_run cevs (coordinator_serves cp, ns) = (pl_coordinator p, pl_nodes p)"
    "event_txns cevs = delivered_txns p" by blast
  have auth: "\<forall>txn \<in> set (delivered_txns p). authentic lib (set evs) txn"
  proof
    fix txn
    assume "txn \<in> set (delivered_txns p)"
    then obtain k where k: "k \<in> set (pl_read p)" "txn = snd (?topic ! k)" by (auto simp: delivered_txns_def)
    have "?topic ! k \<in> set ?topic" using inv(2) k(1) by simp
    with inv(1) k(2) show "authentic lib (set evs) txn" by (cases "?topic ! k") auto
  qed
  have router: "hc_router (cp_consumer (cs_process (coordinator_serves cp))) = cp_router (cs_process (coordinator_serves cp))"
    using main_consumer_router [OF assms(1)] by (simp add: coordinator_serves_def)
  have "cluster_ok (pl_nodes p) \<and> cluster_funds (pl_nodes p) \<le> cluster_funds ns"
    if ok: "cluster_ok ns" and a: "addresses_distinct (ro_shardMap (cp_router cp))" "deployed (ro_shardMap (cp_router cp)) ns"
      "distinct (map t_TxnID (delivered_txns p))" "\<forall>txn \<in> set (delivered_txns p). unseen (t_TxnID txn) ns"
    using coordinator_run_money [OF router ok _ _ _ _ c(1)] a by (simp add: coordinator_serves_def c(2))
  moreover have "\<exists>txn. authentic lib (set evs) txn" if "pl_nodes p \<noteq> ns"
  proof -
    have "event_txns cevs \<noteq> []" using coordinator_run_idle [OF _ router, of cevs ns] c(1) that by auto
    then show ?thesis using auth c(2) by (cases "delivered_txns p") auto
  qed
  ultimately show ?thesis using c auth by blast
qed

lemma delivery_gateway [simp]: "pl_gateway (pipeline_step lib fetch (Delivered k n env) p) = pl_gateway p"
  by (simp add: pipeline_step_def split: prod.split)

definition kafka_env :: "string \<Rightarrow> string" where
  "kafka_env key = (if key = ''CONSUMER_TYPE'' then ''kafka'' else '''')"

definition example_consumer :: coordinator_process where
  "example_consumer = example_coordinator\<lparr>cp_kafka := Some ([''kafka:9092''], ''transactions'')\<rparr>"

lemma example_consumer_main: "coordinator_main [''0'', ''1''] True (MapFile example_map) [] kafka_env = Inr example_consumer"
proof -
  have "Split ''kafka:9092'' (CHR '','') = [''kafka:9092'']" by code_simp
  then show ?thesis
    using example_coordinator_main
    by (auto simp: coordinator_main_def Let_def envOrDefault_def kafka_env_def example_consumer_def
        dest!: sym [where t = example_coordinator] split: sum.splits option.splits if_splits) (erule ssubst, simp)
qed

theorem pipeline_end_to_end_witness:
  "\<exists>p. p = pipeline_run example_lib (\<lambda>_. None :: (nat \<times> nat option) option)
         [AtGateway NetOk 0 (Gateway.example_request MethodPost ''/submit'' (Some (example_txn 5))), Delivered 0 NetOk example_env]
         (pipeline_start (gateway_main id [] (\<lambda>_. '''')) example_consumer example_cluster)
     \<and> delivered_txns p = [example_txn 5] \<and> cluster_funds (pl_nodes p) \<le> 300"
proof -
  let ?evs = "[AtGateway NetOk 0 (Gateway.example_request MethodPost ''/submit'' (Some (example_txn 5))), Delivered 0 NetOk example_env]"
  let ?gp = "gateway_main id [] (\<lambda>_. '''')"
  let ?fetch = "\<lambda>_ :: string. None :: (nat \<times> nat option) option"
  define p where "p = pipeline_run example_lib ?fetch ?evs (pipeline_start ?gp example_consumer example_cluster)"
  have gw: "gp_gateway ?gp = example_gateway"
    by (simp add: gateway_main_def example_gateway_def Let_def envOrDefault_def)
  have "t_TxnID (example_txn 5) = ''t1''" by (simp add: example_txn_def)
  then have topic: "gw_topic (pl_gateway p) = [(''t1'', example_txn 5)]"
    by (simp add: p_def pipeline_run_def) (simp add: pipeline_step_def pipeline_start_def gw example_submit_served)
  have reading: "cs_reading (coordinator_serves example_consumer)" by (simp add: coordinator_serves_def example_consumer_def)
  have "pl_read p = [0]"
    using reading by (simp add: p_def pipeline_run_def)
      (simp add: pipeline_step_def pipeline_start_def gw example_submit_served split: prod.split)
  with topic have del: "delivered_txns p = [example_txn 5]" by (simp add: delivered_txns_def)
  have a: "addresses_distinct (ro_shardMap (cp_router example_consumer))"
    "deployed (ro_shardMap (cp_router example_consumer)) example_cluster"
    by (auto simp: addresses_distinct_def deployed_def example_consumer_def example_coordinator_def NewRouter_def Let_def
        example_shards_def example_cluster_def split: if_splits)
  have "cluster_funds (pl_nodes p) \<le> cluster_funds example_cluster"
    using pipeline_end_to_end [OF example_consumer_main refl p_def] example_cluster_ok(1) a del example_router_ok(3) by simp
  with del show ?thesis unfolding p_def [symmetric] by (simp add: example_cluster_ok(2))
qed

end
