(* ===== verification/Failover.thy ===== *)
theory Failover
  imports Messaging ShardMap
begin

text \<open>
  \<^verbatim>\<open>shard/failover\<close>: the heartbeat monitor that counts missed pings of each peer
  (\<^verbatim>\<open>heartbeat.go\<close>) and the election that promotes the replica with the longest log
  (\<^verbatim>\<open>election.go\<close>). How the network treats the coming requests is a list, as in the commit loops
  of the coordinator: an empty list means well.
\<close>

section \<open>Model\<close>

subsection \<open>Heartbeats\<close>

record HeartbeatMonitor =
  hb_shardID :: string
  hb_peerAddrs :: "string list"
  hb_missLimit :: int
  hb_missCount :: "string \<rightharpoonup> int"
  hb_onFailure :: bool

fun zero_counts :: "string list \<Rightarrow> (string \<rightharpoonup> int) \<Rightarrow> (string \<rightharpoonup> int)" where
  "zero_counts [] mc = mc"
| "zero_counts (p # ps) mc = zero_counts ps (mc(p \<mapsto> 0))"

definition NewHeartbeatMonitor :: "string \<Rightarrow> string list \<Rightarrow> int \<Rightarrow> HeartbeatMonitor" where
  "NewHeartbeatMonitor shardID peers missLimit =
     \<lparr>hb_shardID = shardID, hb_peerAddrs = peers, hb_missLimit = missLimit,
      hb_missCount = zero_counts peers Map.empty, hb_onFailure = False\<rparr>"

definition HeartbeatMonitor_OnFailure :: "HeartbeatMonitor \<Rightarrow> HeartbeatMonitor" where
  "HeartbeatMonitor_OnFailure h = h\<lparr>hb_onFailure := True\<rparr>"

definition HeartbeatMonitor_GetMissCount :: "string \<Rightarrow> HeartbeatMonitor \<Rightarrow> int" where
  "HeartbeatMonitor_GetMissCount p h = (case hb_missCount h p of None \<Rightarrow> 0 | Some n \<Rightarrow> n)"

text \<open>What one ping does to the counter of its peer, and whether the callback is invoked for it.\<close>

definition ping_update :: "string \<Rightarrow> bool \<Rightarrow> HeartbeatMonitor \<Rightarrow> HeartbeatMonitor \<times> bool" where
  "ping_update p failed h =
     (if failed then
        (let n = go_int (HeartbeatMonitor_GetMissCount p h + 1)
         in (h\<lparr>hb_missCount := (hb_missCount h)(p \<mapsto> n)\<rparr>, hb_missLimit h \<le> n \<and> hb_onFailure h))
      else (h\<lparr>hb_missCount := (hb_missCount h)(p \<mapsto> 0)\<rparr>, False))"

text \<open>The loop of \<open>pingAll\<close>: the monitor and the peers the callback is invoked with, in order.\<close>

fun ping_peers :: "string list \<Rightarrow> net list \<Rightarrow> nodes \<Rightarrow> HeartbeatMonitor \<Rightarrow> HeartbeatMonitor \<times> string list" where
  "ping_peers [] nets ns h = (h, [])"
| "ping_peers (p # ps) nets ns h =
     (case ping_update p (ShardClient_HealthCheck (case nets of [] \<Rightarrow> NetOk | n # _ \<Rightarrow> n) p ns \<noteq> None) h of
        (h', fired) \<Rightarrow>
          (case ping_peers ps (tl nets) ns h' of
             (h'', fs) \<Rightarrow> (h'', if fired then p # fs else fs)))"

definition HeartbeatMonitor_pingAll :: "net list \<Rightarrow> nodes \<Rightarrow> HeartbeatMonitor \<Rightarrow> HeartbeatMonitor \<times> string list" where
  "HeartbeatMonitor_pingAll nets ns h = ping_peers (hb_peerAddrs h) nets ns h"

subsection \<open>Elections\<close>

record ElectionManager =
  el_shardID :: string
  el_replicaSet :: "string list"
  el_shardMap :: ShardMap
  el_role :: string

datatype election_error = NoReachableReplicas string | PromoteFailed string | PromoteStatus nat string

definition NewElectionManager :: "string \<Rightarrow> string list \<Rightarrow> ShardMap \<Rightarrow> ElectionManager" where
  "NewElectionManager shardID replicas sm =
     \<lparr>el_shardID = shardID, el_replicaSet = replicas, el_shardMap = sm, el_role = ''FOLLOWER''\<rparr>"

text \<open>The loop that asks every replica for its log index; a replica that does not answer is left out.\<close>

fun query_replicas :: "string list \<Rightarrow> net list \<Rightarrow> nodes \<Rightarrow> (string \<times> uint64) list" where
  "query_replicas [] nets ns = []"
| "query_replicas (addr # addrs) nets ns =
     (case ns addr of
        Some s \<Rightarrow>
          if (case nets of [] \<Rightarrow> NetOk | n # _ \<Rightarrow> n) \<noteq> NetOk then query_replicas addrs (tl nets) ns
          else (case handleLogIndex s of
                  (status, LogIndexBody i) \<Rightarrow>
                    if status \<noteq> StatusOK then query_replicas addrs (tl nets) ns
                    else (addr, i) # query_replicas addrs (tl nets) ns
                | _ \<Rightarrow> query_replicas addrs (tl nets) ns)
      | None \<Rightarrow> query_replicas addrs (tl nets) ns)"

fun pick_best :: "string \<times> uint64 \<Rightarrow> (string \<times> uint64) list \<Rightarrow> string \<times> uint64" where
  "pick_best best [] = best"
| "pick_best best (c # cs) = pick_best (if snd best < snd c then c else best) cs"

text \<open>The loop that reassigns the partitions; a failed save is only logged.\<close>

fun reassign :: "int list \<Rightarrow> int list \<Rightarrow> ShardInfo \<Rightarrow> ShardMap \<Rightarrow> ShardMap" where
  "reassign ks [] info sm = sm"
| "reassign ks (p # ps) info sm = reassign ks ps info (fst (ShardMap_UpdatePartition ks p info sm))"

text \<open>\<open>nets\<close> are the answers to the queries and \<open>pn\<close> that to the promotion; \<open>ks\<close> is the order in
  which the shard map is visited.\<close>

definition ElectionManager_TriggerElection ::
    "net list \<Rightarrow> net \<Rightarrow> int list \<Rightarrow> ElectionManager \<Rightarrow> nodes
     \<Rightarrow> ElectionManager \<times> nodes \<times> election_error option" where
  "ElectionManager_TriggerElection nets pn ks e ns =
     (case query_replicas (el_replicaSet e) nets ns of
        [] \<Rightarrow> (e, ns, Some (NoReachableReplicas (el_shardID e)))
      | c # cs \<Rightarrow>
        (let addr = fst (pick_best c cs) in
         case ns addr of
           None \<Rightarrow> (e, ns, Some (PromoteFailed addr))
         | Some s \<Rightarrow>
             if pn = RequestLost then (e, ns, Some (PromoteFailed addr))
             else (case handlePromote MethodPost s of
                     (s', status, body) \<Rightarrow>
                       (let ns' = ns(addr \<mapsto> s') in
                        if pn = ReplyLost then (e, ns', Some (PromoteFailed addr))
                        else if status \<noteq> StatusOK then (e, ns', Some (PromoteStatus status addr))
                        else (let info = \<lparr>si_ShardID = el_shardID e, si_Address = addr, si_Role = ''PRIMARY''\<rparr>;
                                  parts = ShardMap_GetPartitionsForShard ks (el_shardID e) (el_shardMap e)
                              in (e\<lparr>el_shardMap := reassign ks parts info (el_shardMap e)\<rparr>, ns', None))))))"

text \<open>Rounds of the ticker loop; each has its own network.\<close>

fun ping_rounds :: "net list list \<Rightarrow> nodes \<Rightarrow> HeartbeatMonitor \<Rightarrow> HeartbeatMonitor \<times> string list list" where
  "ping_rounds [] ns h = (h, [])"
| "ping_rounds (nets # rounds) ns h =
     (case HeartbeatMonitor_pingAll nets ns h of
        (h1, fs) \<Rightarrow> (case ping_rounds rounds ns h1 of (h2, fss) \<Rightarrow> (h2, fs # fss)))"

section \<open>Heartbeat facts\<close>

lemma zero_counts_apply: "zero_counts ps mc p = (if p \<in> set ps then Some 0 else mc p)"
  by (induction ps arbitrary: mc) auto

definition missed :: "string \<Rightarrow> HeartbeatMonitor \<Rightarrow> int" where
  "missed p h = go_int (HeartbeatMonitor_GetMissCount p h + 1)"

definition same_settings :: "HeartbeatMonitor \<Rightarrow> HeartbeatMonitor \<Rightarrow> bool" where
  "same_settings h h' \<longleftrightarrow> hb_peerAddrs h' = hb_peerAddrs h \<and> hb_missLimit h' = hb_missLimit h
     \<and> hb_onFailure h' = hb_onFailure h"

lemma ping_update_effect:
  assumes "ping_update p failed h = (h', fired)"
  shows "same_settings h h'" "q \<noteq> p \<Longrightarrow> HeartbeatMonitor_GetMissCount q h' = HeartbeatMonitor_GetMissCount q h"
    "HeartbeatMonitor_GetMissCount p h' = (if failed then missed p h else 0)"
    "fired \<longleftrightarrow> failed \<and> hb_onFailure h \<and> hb_missLimit h \<le> missed p h"
  using assms
  by (auto simp: ping_update_def Let_def same_settings_def missed_def HeartbeatMonitor_GetMissCount_def
      split: if_splits)

text \<open>In one round a peer that is listed once is pinged once, with one outcome of the network.\<close>

definition pinged :: "net \<Rightarrow> nodes \<Rightarrow> string \<Rightarrow> HeartbeatMonitor \<Rightarrow> HeartbeatMonitor \<Rightarrow> string list \<Rightarrow> bool" where
  "pinged n ns p h h' fs \<longleftrightarrow>
     HeartbeatMonitor_GetMissCount p h' = (if ShardClient_HealthCheck n p ns \<noteq> None then missed p h else 0)
     \<and> (p \<in> set fs \<longleftrightarrow> ShardClient_HealthCheck n p ns \<noteq> None \<and> hb_onFailure h \<and> hb_missLimit h \<le> missed p h)"

lemma pinged_later:
  assumes "pinged n ns p h1 h2 fs2" "missed p h1 = missed p h" "same_settings h h1" "p \<in> set fs \<longleftrightarrow> p \<in> set fs2"
  shows "pinged n ns p h h2 fs"
  using assms by (simp add: pinged_def same_settings_def)

lemma same_settings_trans: "same_settings h h1 \<Longrightarrow> same_settings h1 h2 \<Longrightarrow> same_settings h h2"
  by (simp add: same_settings_def)

lemma ping_peers_effect:
  assumes "ping_peers ps nets ns h = (h', fs)" "distinct ps"
  shows "same_settings h h' \<and> set fs \<subseteq> set ps
    \<and> (p \<notin> set ps \<longrightarrow> HeartbeatMonitor_GetMissCount p h' = HeartbeatMonitor_GetMissCount p h)
    \<and> (p \<in> set ps \<longrightarrow> (\<exists>n \<in> insert NetOk (set nets). pinged n ns p h h' fs))"
  using assms
proof (induction ps arbitrary: nets h h' fs)
  case (Cons q ps)
  define n where "n = (case nets of [] \<Rightarrow> NetOk | n # _ \<Rightarrow> n)"
  obtain h1 fired where 1: "ping_update q (ShardClient_HealthCheck n q ns \<noteq> None) h = (h1, fired)" by force
  obtain h2 fs2 where 2: "ping_peers ps (tl nets) ns h1 = (h2, fs2)" by force
  note upd = ping_update_effect [OF 1]
  have out: "h' = h2" "fs = (if fired then q # fs2 else fs2)"
    using Cons.prems(1) 1 2 unfolding n_def by simp_all
  note IH = Cons.IH [OF 2] Cons.prems(2)
  have sub: "set (tl nets) \<subseteq> set nets" "n \<in> insert NetOk (set nets)"
    unfolding n_def by (cases nets; auto)+
  have settings: "same_settings h h2" "set fs \<subseteq> set (q # ps)"
    using IH out(2) same_settings_trans [OF upd(1)] by auto
  show ?case
  proof (cases "p = q")
    case True
    with IH have "HeartbeatMonitor_GetMissCount q h2 = HeartbeatMonitor_GetMissCount q h1" "q \<notin> set fs2" by auto
    then have "pinged n ns p h h2 fs" using True upd(3,4) out(2) by (simp add: pinged_def)
    with settings out(1) sub(2) True show ?thesis by auto
  next
    case False
    have m: "missed p h1 = missed p h" and f: "p \<in> set fs \<longleftrightarrow> p \<in> set fs2"
      using upd(2) [OF False] out(2) False by (simp_all add: missed_def)
    have "\<exists>n \<in> insert NetOk (set nets). pinged n ns p h h2 fs" if mem: "p \<in> set ps"
    proof -
      obtain n where "n \<in> insert NetOk (set (tl nets))" "pinged n ns p h1 h2 fs2" using IH mem by auto
      with sub(1) pinged_later [OF _ m upd(1) f] show ?thesis by (intro bexI [of _ n]) auto
    qed
    with settings out(1) False IH upd(2) [OF False] show ?thesis by auto
  qed
qed (simp add: same_settings_def)

lemma dead_peer_round:
  assumes "HeartbeatMonitor_pingAll nets ns h = (h', fs)" "distinct (hb_peerAddrs h)" "p \<in> set (hb_peerAddrs h)"
    and "ns p = None"
  shows "same_settings h h'" "HeartbeatMonitor_GetMissCount p h' = missed p h"
    "p \<in> set fs \<longleftrightarrow> hb_onFailure h \<and> hb_missLimit h \<le> missed p h"
proof -
  have "ShardClient_HealthCheck n p ns \<noteq> None" for n
    using assms(4) by (simp add: ShardClient_HealthCheck_def)
  with ping_peers_effect [OF assms(1) [unfolded HeartbeatMonitor_pingAll_def] assms(2), of p] assms(3)
  show "same_settings h h'" "HeartbeatMonitor_GetMissCount p h' = missed p h"
    "p \<in> set fs \<longleftrightarrow> hb_onFailure h \<and> hb_missLimit h \<le> missed p h"
    by (auto simp: pinged_def)
qed

lemma dead_peer_rounds:
  assumes "distinct (hb_peerAddrs h)" "p \<in> set (hb_peerAddrs h)" "ns p = None" "hb_onFailure h"
    and "0 \<le> HeartbeatMonitor_GetMissCount p h"
      "HeartbeatMonitor_GetMissCount p h + int (length rounds) < 2 ^ 63"
    and "ping_rounds rounds ns h = (h', fss)"
  shows "HeartbeatMonitor_GetMissCount p h' = HeartbeatMonitor_GetMissCount p h + int (length rounds)
    \<and> length fss = length rounds
    \<and> (\<forall>k < length rounds. p \<in> set (fss ! k) \<longleftrightarrow> hb_missLimit h \<le> HeartbeatMonitor_GetMissCount p h + int k + 1)"
  using assms
proof (induction rounds arbitrary: h h' fss)
  case (Cons nets rounds)
  obtain h1 fs where 1: "HeartbeatMonitor_pingAll nets ns h = (h1, fs)" by force
  obtain h2 fss2 where 2: "ping_rounds rounds ns h1 = (h2, fss2)" by force
  note rd = dead_peer_round [OF 1 Cons.prems(1-3)]
  have m: "missed p h = HeartbeatMonitor_GetMissCount p h + 1"
    unfolding missed_def by (rule go_int_id) (use Cons.prems(5,6) in auto)
  have out: "h' = h2" "fss = fs # fss2" using Cons.prems(7) 1 2 by auto
  have IH: "HeartbeatMonitor_GetMissCount p h2 = HeartbeatMonitor_GetMissCount p h1 + int (length rounds)
    \<and> length fss2 = length rounds
    \<and> (\<forall>k < length rounds. p \<in> set (fss2 ! k) \<longleftrightarrow> hb_missLimit h1 \<le> HeartbeatMonitor_GetMissCount p h1 + int k + 1)"
    by (rule Cons.IH [OF _ _ _ _ _ _ 2]) (use rd m Cons.prems in \<open>auto simp: same_settings_def\<close>)
  show ?case
    using IH rd m Cons.prems(4) unfolding out
    by (auto simp: same_settings_def nth_Cons algebra_simps split: nat.splits)
qed simp

section \<open>Election facts\<close>

lemma pick_best_max:
  "pick_best best cs \<in> set (best # cs) \<and> (\<forall>c \<in> set (best # cs). snd c \<le> snd (pick_best best cs))"
proof (induction best cs rule: pick_best.induct)
  case (2 best c cs)
  then show ?case by (cases "snd best < snd c") auto
qed simp

lemma query_replicas_live:
  "(addr, i) \<in> set (query_replicas addrs nets ns) \<Longrightarrow>
     addr \<in> set addrs \<and> (\<exists>s. ns addr = Some s \<and> i = w_nextLogID (s_walLog s))"
  by (induction addrs nets ns rule: query_replicas.induct)
    (auto simp: handleLogIndex_def WAL_NextLogID_def split: option.splits if_splits)

lemma query_replicas_complete:
  "set nets \<subseteq> {NetOk} \<Longrightarrow> addr \<in> set addrs \<Longrightarrow> ns addr = Some s \<Longrightarrow>
     (addr, w_nextLogID (s_walLog s)) \<in> set (query_replicas addrs nets ns)"
proof (induction addrs arbitrary: nets)
  case (Cons a addrs)
  have n: "(case nets of [] \<Rightarrow> NetOk | n # _ \<Rightarrow> n) = NetOk" "set (tl nets) \<subseteq> {NetOk}"
    using Cons.prems(1) by (cases nets; auto)+
  show ?case
    using Cons.IH [OF n(2) _ Cons.prems(3)] Cons.prems(2,3) n(1)
    by (cases "ns a") (auto simp: handleLogIndex_def WAL_NextLogID_def)
qed simp

lemma reassign_apply:
  "sm_partitions (reassign ks ps info sm) q = (if q \<in> set ps then Some info else sm_partitions sm q)"
  by (induction ks ps info sm rule: reassign.induct)
    (auto simp: ShardMap_UpdatePartition_def ShardMap_saveLocked_def Let_def)

section \<open>Properties\<close>

text \<open>
  C28: the heartbeat monitor detects a dead peer on time and not early: while a peer is down,
  whatever the network does to the other pings, its miss count is the number of rounds, and the
  failure callback is invoked for it in exactly the rounds from the limit on.
\<close>

theorem heartbeat_detects_dead_peer:
  assumes "distinct peers" "p \<in> set peers" "ns p = None" "length rounds < 2 ^ 63"
    and "ping_rounds rounds ns (HeartbeatMonitor_OnFailure (NewHeartbeatMonitor sid peers limit)) = (h', fss)"
  shows "HeartbeatMonitor_GetMissCount p h' = int (length rounds)
    \<and> (\<forall>k < length rounds. p \<in> set (fss ! k) \<longleftrightarrow> limit \<le> int k + 1)"
proof -
  let ?h = "HeartbeatMonitor_OnFailure (NewHeartbeatMonitor sid peers limit)"
  have z: "HeartbeatMonitor_GetMissCount p ?h = 0"
    by (simp add: HeartbeatMonitor_GetMissCount_def HeartbeatMonitor_OnFailure_def NewHeartbeatMonitor_def
        zero_counts_apply)
  have len: "int (length rounds) < 2 ^ 63" using assms(4) by simp
  show ?thesis
    using dead_peer_rounds [of ?h p ns rounds, OF _ _ assms(3) _ _ _ assms(5)] assms(1,2) len
    by (simp add: z) (simp add: HeartbeatMonitor_OnFailure_def NewHeartbeatMonitor_def)
qed

theorem heartbeat_detects_dead_peer_witness:
  "HeartbeatMonitor_GetMissCount ''f2:1'' (fst (ping_rounds [[], [NetOk, ReplyLost], []] Map.empty
     (HeartbeatMonitor_OnFailure (NewHeartbeatMonitor ''shard1'' [''f1:1'', ''f2:1''] 3)))) = 3"
  using heartbeat_detects_dead_peer [OF _ _ _ _ prod.collapse [symmetric], of "[''f1:1'', ''f2:1'']" "''f2:1''"
      Map.empty "[[], [NetOk, ReplyLost], []]" "''shard1''" 3]
  by simp


text \<open>
  C27: an election that succeeds over a reachable network promotes a live replica whose log is
  at least as long as that of every live replica, hands exactly the partitions of the failed
  shard to it and leaves the other partitions and servers alone.
\<close>

theorem election_promotes_most_advanced:
  assumes "ElectionManager_TriggerElection nets pn ks e ns = (e', ns', None)" "set nets \<subseteq> {NetOk}"
    and "visits ks (sm_partitions (el_shardMap e))"
  shows "\<exists>addr s. addr \<in> set (el_replicaSet e) \<and> ns addr = Some s
    \<and> ns' = ns(addr \<mapsto> s\<lparr>s_role := RolePrimary\<rparr>)
    \<and> (\<forall>b u. b \<in> set (el_replicaSet e) \<and> ns b = Some u \<longrightarrow> w_nextLogID (s_walLog u) \<le> w_nextLogID (s_walLog s))
    \<and> (\<forall>q. sm_partitions (el_shardMap e') q =
         (if \<exists>info. sm_partitions (el_shardMap e) q = Some info \<and> si_ShardID info = el_shardID e
          then Some \<lparr>si_ShardID = el_shardID e, si_Address = addr, si_Role = ''PRIMARY''\<rparr>
          else sm_partitions (el_shardMap e) q))"
proof -
  obtain c cs where q: "query_replicas (el_replicaSet e) nets ns = c # cs"
    using assms(1) by (auto simp: ElectionManager_TriggerElection_def split: list.splits)
  define addr where "addr = fst (pick_best c cs)"
  note best = pick_best_max [of c cs]
  then obtain i where best_i: "pick_best c cs = (addr, i)" "(addr, i) \<in> set (query_replicas (el_replicaSet e) nets ns)"
    using q unfolding addr_def by (metis prod.collapse)
  then obtain s where s: "addr \<in> set (el_replicaSet e)" "ns addr = Some s" "i = w_nextLogID (s_walLog s)"
    using query_replicas_live by metis
  have ns': "ns' = ns(addr \<mapsto> s\<lparr>s_role := RolePrimary\<rparr>)"
    and e': "el_shardMap e' = reassign ks (ShardMap_GetPartitionsForShard ks (el_shardID e) (el_shardMap e))
      \<lparr>si_ShardID = el_shardID e, si_Address = addr, si_Role = ''PRIMARY''\<rparr> (el_shardMap e)"
    using assms(1) q s(2)
    by (auto simp: ElectionManager_TriggerElection_def addr_def handlePromote_def ShardServer_Promote_def Let_def
        split: if_splits)
  have "w_nextLogID (s_walLog u) \<le> w_nextLogID (s_walLog s)" if "b \<in> set (el_replicaSet e)" "ns b = Some u" for b u
    using query_replicas_complete [of nets b "el_replicaSet e" ns u, OF assms(2) that] best q best_i(1) s(3) by fastforce
  moreover have "q \<in> set (ShardMap_GetPartitionsForShard ks (el_shardID e) (el_shardMap e)) \<longleftrightarrow>
      (\<exists>info. sm_partitions (el_shardMap e) q = Some info \<and> si_ShardID info = el_shardID e)" for q
    using assms(3) by (auto simp: ShardMap_GetPartitionsForShard_def visits_def)
  ultimately show ?thesis using s(1,2) ns' by (auto simp: e' reassign_apply)
qed

text \<open>A group of two live replicas, the second with the longer log, and a map of two partitions.\<close>

definition example_group :: nodes where
  "example_group = [''r1:1'' \<mapsto> example_shard [],
     ''r2:1'' \<mapsto> (example_shard [])\<lparr>s_walLog := (s_walLog (example_shard []))\<lparr>w_nextLogID := 7\<rparr>\<rparr>]"

definition example_election :: ElectionManager where
  "example_election = NewElectionManager ''shard1'' [''r1:1'', ''r3:1'', ''r2:1'']
     \<lparr>sm_partitions = round_robin example_shards 2, sm_file = NoFile, sm_io = [False]\<rparr>"

lemma example_election_runs:
  "snd (snd (ElectionManager_TriggerElection [] NetOk [0, 1] example_election example_group)) = None"
  by (simp add: ElectionManager_TriggerElection_def example_election_def example_group_def NewElectionManager_def
      example_shard_def handleLogIndex_def WAL_NextLogID_def handlePromote_def ShardServer_Promote_def Let_def)

theorem election_promotes_most_advanced_witness:
  "\<exists>e' ns'. ElectionManager_TriggerElection [] NetOk [0, 1] example_election example_group = (e', ns', None)
    \<and> (\<exists>info. sm_partitions (el_shardMap e') 0 = Some info \<and> si_Address info = ''r2:1'')
    \<and> sm_partitions (el_shardMap e') 1 = Some (example_shards ! 1)"
proof -
  obtain e' ns' where run: "ElectionManager_TriggerElection [] NetOk [0, 1] example_election example_group = (e', ns', None)"
    using example_election_runs by (metis prod.collapse)
  have m: "sm_partitions (el_shardMap example_election) = round_robin example_shards 2"
    "el_shardID example_election = ''shard1''" "el_replicaSet example_election = [''r1:1'', ''r3:1'', ''r2:1'']"
    by (simp_all add: example_election_def NewElectionManager_def)
  have p: "round_robin example_shards 2 0 = Some (example_shards ! 0)"
    "round_robin example_shards 2 1 = Some (example_shards ! 1)" "visits [0, 1] (round_robin example_shards 2)"
    by (auto simp: round_robin_apply visits_def round_robin_dom example_shards_def)
  obtain addr s where a: "example_group addr = Some s"
    "\<forall>b u. b \<in> set (el_replicaSet example_election) \<and> example_group b = Some u \<longrightarrow> w_nextLogID (s_walLog u) \<le> w_nextLogID (s_walLog s)"
    "\<forall>q. sm_partitions (el_shardMap e') q =
         (if \<exists>info. sm_partitions (el_shardMap example_election) q = Some info \<and> si_ShardID info = el_shardID example_election
          then Some \<lparr>si_ShardID = el_shardID example_election, si_Address = addr, si_Role = ''PRIMARY''\<rparr>
          else sm_partitions (el_shardMap example_election) q)"
    using election_promotes_most_advanced [OF run] p(3) m(1) by auto
  have "addr = ''r2:1''"
    using a(1) a(2) [rule_format, of "''r2:1''"]
    by (auto simp: m example_group_def example_shard_def split: if_splits)
  with run a(3) [rule_format, of 0] a(3) [rule_format, of 1] p m show ?thesis
    by (simp add: example_shards_def)
qed

end
