(* ===== verification/Config.thy ===== *)
theory Config
  imports Models
begin

text \<open>
  \<^verbatim>\<open>internal/config/config.go\<close>: the configuration record, its defaults, its validation and its
  loading. The configuration file is kept as what \<^verbatim>\<open>json.Unmarshal\<close> makes of it: for each key the
  value the document gives it, if any.
\<close>

section \<open>Model\<close>

record ClusterConfig =
  cc_NumShards :: int
  cc_PartitionsPerShard :: int
  cc_TotalPartitions :: int

record ShardConfig =
  sc_WALDir :: string
  sc_DataDir :: string
  sc_ReplicaCount :: int
  sc_QuorumSize :: int

record ReplicationConfig =
  rc_HeartbeatIntervalMs :: int
  rc_HeartbeatMissLimit :: int

record CoordinatorConfig =
  kc_ListenAddr :: string
  kc_ShardMapPath :: string

record PerformanceConfig =
  pc_MinTPSPerShard :: int
  pc_SingleShardLatencyP99Ms :: int
  pc_CrossShardLatencyP99Ms :: int

record Config =
  cfg_Cluster :: ClusterConfig
  cfg_Shard :: ShardConfig
  cfg_Replication :: ReplicationConfig
  cfg_Coordinator :: CoordinatorConfig
  cfg_Performance :: PerformanceConfig

definition DefaultConfig :: Config where
  "DefaultConfig =
     \<lparr>cfg_Cluster = \<lparr>cc_NumShards = 3, cc_PartitionsPerShard = 10, cc_TotalPartitions = 30\<rparr>,
      cfg_Shard = \<lparr>sc_WALDir = ''./data/wal'', sc_DataDir = ''./data/storage'',
                   sc_ReplicaCount = 2, sc_QuorumSize = 2\<rparr>,
      cfg_Replication = \<lparr>rc_HeartbeatIntervalMs = 5000, rc_HeartbeatMissLimit = 3\<rparr>,
      cfg_Coordinator = \<lparr>kc_ListenAddr = '':8080'', kc_ShardMapPath = ''./config/shard_map.json''\<rparr>,
      cfg_Performance = \<lparr>pc_MinTPSPerShard = 100, pc_SingleShardLatencyP99Ms = 50,
                         pc_CrossShardLatencyP99Ms = 200\<rparr>\<rparr>"

datatype config_error =
    NumShardsNotPositive int | TotalPartitionsNotPositive int | ReplicaCountNegative int
  | QuorumSizeNotPositive int | HeartbeatIntervalNotPositive int | HeartbeatMissLimitNotPositive int

definition Config_Validate :: "Config \<Rightarrow> config_error option" where
  "Config_Validate c =
     (if cc_NumShards (cfg_Cluster c) \<le> 0 then Some (NumShardsNotPositive (cc_NumShards (cfg_Cluster c)))
      else if cc_TotalPartitions (cfg_Cluster c) \<le> 0
        then Some (TotalPartitionsNotPositive (cc_TotalPartitions (cfg_Cluster c)))
      else if sc_ReplicaCount (cfg_Shard c) < 0 then Some (ReplicaCountNegative (sc_ReplicaCount (cfg_Shard c)))
      else if sc_QuorumSize (cfg_Shard c) \<le> 0 then Some (QuorumSizeNotPositive (sc_QuorumSize (cfg_Shard c)))
      else if rc_HeartbeatIntervalMs (cfg_Replication c) \<le> 0
        then Some (HeartbeatIntervalNotPositive (rc_HeartbeatIntervalMs (cfg_Replication c)))
      else if rc_HeartbeatMissLimit (cfg_Replication c) \<le> 0
        then Some (HeartbeatMissLimitNotPositive (rc_HeartbeatMissLimit (cfg_Replication c)))
      else None)"

subsection \<open>Loading\<close>

text \<open>The keys of a document; a missing key, or \<open>null\<close>, leaves the field as it is.\<close>

record config_doc =
  d_num_shards :: "int option"
  d_partitions_per_shard :: "int option"
  d_total_partitions :: "int option"
  d_wal_dir :: "string option"
  d_data_dir :: "string option"
  d_replica_count :: "int option"
  d_quorum_size :: "int option"
  d_heartbeat_interval_ms :: "int option"
  d_heartbeat_miss_limit :: "int option"
  d_listen_addr :: "string option"
  d_shard_map_path :: "string option"
  d_min_tps_per_shard :: "int option"
  d_single_shard_latency_p99_ms :: "int option"
  d_cross_shard_latency_p99_ms :: "int option"

datatype config_file = ConfigUnreadable | ConfigMalformed | ConfigDoc config_doc

datatype load_error = ConfigReadFailed | ConfigParseFailed | ConfigInvalid config_error

abbreviation given :: "'a option \<Rightarrow> 'a \<Rightarrow> 'a" where
  "given v dflt \<equiv> (case v of None \<Rightarrow> dflt | Some x \<Rightarrow> x)"

definition unmarshal_config :: "config_doc \<Rightarrow> Config \<Rightarrow> Config" where
  "unmarshal_config d c =
     (let cl = cfg_Cluster c; sh = cfg_Shard c; rp = cfg_Replication c; co = cfg_Coordinator c; pf = cfg_Performance c in
      \<lparr>cfg_Cluster = \<lparr>cc_NumShards = given (d_num_shards d) (cc_NumShards cl),
         cc_PartitionsPerShard = given (d_partitions_per_shard d) (cc_PartitionsPerShard cl),
         cc_TotalPartitions = given (d_total_partitions d) (cc_TotalPartitions cl)\<rparr>,
       cfg_Shard = \<lparr>sc_WALDir = given (d_wal_dir d) (sc_WALDir sh), sc_DataDir = given (d_data_dir d) (sc_DataDir sh),
         sc_ReplicaCount = given (d_replica_count d) (sc_ReplicaCount sh),
         sc_QuorumSize = given (d_quorum_size d) (sc_QuorumSize sh)\<rparr>,
       cfg_Replication = \<lparr>rc_HeartbeatIntervalMs = given (d_heartbeat_interval_ms d) (rc_HeartbeatIntervalMs rp),
         rc_HeartbeatMissLimit = given (d_heartbeat_miss_limit d) (rc_HeartbeatMissLimit rp)\<rparr>,
       cfg_Coordinator = \<lparr>kc_ListenAddr = given (d_listen_addr d) (kc_ListenAddr co),
         kc_ShardMapPath = given (d_shard_map_path d) (kc_ShardMapPath co)\<rparr>,
       cfg_Performance = \<lparr>pc_MinTPSPerShard = given (d_min_tps_per_shard d) (pc_MinTPSPerShard pf),
         pc_SingleShardLatencyP99Ms = given (d_single_shard_latency_p99_ms d) (pc_SingleShardLatencyP99Ms pf),
         pc_CrossShardLatencyP99Ms = given (d_cross_shard_latency_p99_ms d) (pc_CrossShardLatencyP99Ms pf)\<rparr>\<rparr>)"

definition Config_Load :: "config_file \<Rightarrow> load_error + Config" where
  "Config_Load f =
     (case f of
        ConfigUnreadable \<Rightarrow> Inl ConfigReadFailed
      | ConfigMalformed \<Rightarrow> Inl ConfigParseFailed
      | ConfigDoc d \<Rightarrow>
          (let cfg = unmarshal_config d DefaultConfig in
           case Config_Validate cfg of Some err \<Rightarrow> Inl (ConfigInvalid err) | None \<Rightarrow> Inr cfg))"

section \<open>Well-formed configurations\<close>

definition config_ok :: "Config \<Rightarrow> bool" where
  "config_ok c \<longleftrightarrow> 0 < cc_NumShards (cfg_Cluster c) \<and> 0 < cc_TotalPartitions (cfg_Cluster c)
     \<and> 0 \<le> sc_ReplicaCount (cfg_Shard c) \<and> 0 < sc_QuorumSize (cfg_Shard c)
     \<and> 0 < rc_HeartbeatIntervalMs (cfg_Replication c) \<and> 0 < rc_HeartbeatMissLimit (cfg_Replication c)"

lemma Validate_ok: "Config_Validate c = None \<longleftrightarrow> config_ok c"
  by (auto simp: Config_Validate_def config_ok_def)

lemma DefaultConfig_ok: "config_ok DefaultConfig"
  by (simp add: config_ok_def DefaultConfig_def)

definition empty_doc :: config_doc where
  "empty_doc = \<lparr>d_num_shards = None, d_partitions_per_shard = None, d_total_partitions = None, d_wal_dir = None,
     d_data_dir = None, d_replica_count = None, d_quorum_size = None, d_heartbeat_interval_ms = None,
     d_heartbeat_miss_limit = None, d_listen_addr = None, d_shard_map_path = None, d_min_tps_per_shard = None,
     d_single_shard_latency_p99_ms = None, d_cross_shard_latency_p99_ms = None\<rparr>"

lemma unmarshal_empty [simp]: "unmarshal_config empty_doc c = c"
  by (simp add: unmarshal_config_def empty_doc_def Let_def)

text \<open>The document that spells a configuration out.\<close>

definition config_document :: "Config \<Rightarrow> config_doc" where
  "config_document c = \<lparr>d_num_shards = Some (cc_NumShards (cfg_Cluster c)),
     d_partitions_per_shard = Some (cc_PartitionsPerShard (cfg_Cluster c)),
     d_total_partitions = Some (cc_TotalPartitions (cfg_Cluster c)), d_wal_dir = Some (sc_WALDir (cfg_Shard c)),
     d_data_dir = Some (sc_DataDir (cfg_Shard c)), d_replica_count = Some (sc_ReplicaCount (cfg_Shard c)),
     d_quorum_size = Some (sc_QuorumSize (cfg_Shard c)),
     d_heartbeat_interval_ms = Some (rc_HeartbeatIntervalMs (cfg_Replication c)),
     d_heartbeat_miss_limit = Some (rc_HeartbeatMissLimit (cfg_Replication c)),
     d_listen_addr = Some (kc_ListenAddr (cfg_Coordinator c)), d_shard_map_path = Some (kc_ShardMapPath (cfg_Coordinator c)),
     d_min_tps_per_shard = Some (pc_MinTPSPerShard (cfg_Performance c)),
     d_single_shard_latency_p99_ms = Some (pc_SingleShardLatencyP99Ms (cfg_Performance c)),
     d_cross_shard_latency_p99_ms = Some (pc_CrossShardLatencyP99Ms (cfg_Performance c))\<rparr>"

lemma unmarshal_document [simp]: "unmarshal_config (config_document c) c' = c"
  by (simp add: unmarshal_config_def config_document_def Let_def)

section \<open>Properties\<close>

text \<open>
  Loading yields well-formed configurations only, and every one of them: \<open>Load\<close> returns just
  the configurations that meet the six conditions, an empty document gives the defaults, and the
  document that spells a well-formed configuration out is loaded as that configuration.
\<close>

theorem config_load_well_formed:
  "(\<forall>f cfg. Config_Load f = Inr cfg \<longrightarrow> config_ok cfg)
    \<and> Config_Load (ConfigDoc empty_doc) = Inr DefaultConfig
    \<and> (\<forall>cfg. config_ok cfg \<longrightarrow> Config_Load (ConfigDoc (config_document cfg)) = Inr cfg)"
  using DefaultConfig_ok
  by (auto simp: Config_Load_def Let_def Validate_ok [symmetric] split: config_file.splits option.splits)

theorem config_load_well_formed_witness:
  "Config_Load (ConfigDoc (config_document (DefaultConfig\<lparr>cfg_Cluster := \<lparr>cc_NumShards = 1, cc_PartitionsPerShard = 4,
      cc_TotalPartitions = 4\<rparr>\<rparr>))) =
   Inr (DefaultConfig\<lparr>cfg_Cluster := \<lparr>cc_NumShards = 1, cc_PartitionsPerShard = 4, cc_TotalPartitions = 4\<rparr>\<rparr>)"
proof -
  have "config_ok (DefaultConfig\<lparr>cfg_Cluster := \<lparr>cc_NumShards = 1, cc_PartitionsPerShard = 4, cc_TotalPartitions = 4\<rparr>\<rparr>)"
    by (simp add: config_ok_def DefaultConfig_def)
  with config_load_well_formed show ?thesis by blast
qed

end
