(* ===== verification/ShardProcess.thy ===== *)
theory ShardProcess
  imports Startup Pages
begin

text \<open>
  The running shard of \<^verbatim>\<open>cmd/shard/main.go\<close>: the routes of \<^verbatim>\<open>shard/server/http_handler.go\<close>, the one that a
  follower adds, the metrics page, and the small accessors of \<^verbatim>\<open>shard/server/shard_server.go\<close>. A request
  carries its method, its path, what the decoders make of its body, and its query parameters; the
  orders in which the server visits its maps, its uptime and the text of its rate are arguments.
\<close>

section \<open>Model\<close>

definition ShardServer_ShardID :: "ShardServer \<Rightarrow> string" where
  "ShardServer_ShardID s = s_shardID s"

definition ShardServer_Role :: "ShardServer \<Rightarrow> string" where
  "ShardServer_Role s = s_role s"

definition ShardServer_WAL :: "ShardServer \<Rightarrow> WAL" where
  "ShardServer_WAL s = s_walLog s"

text \<open>The decoded bodies: each handler decodes the type it expects.\<close>

record shard_http =
  sq_method :: http_method
  sq_path :: string
  sq_op :: "OpRequest option"
  sq_txn :: "Transaction option"
  sq_pid :: "int option"
  sq_balances :: "(int \<times> (string \<rightharpoonup> int64)) option"
  sq_create :: "(string \<times> int64) option"
  sq_entry :: "WALEntry option"
  sq_query :: "string \<Rightarrow> string"

text \<open>The orders of \<open>GetMetrics\<close>, of the snapshot and of the copied balances.\<close>

record visit_orders =
  vo_txns :: "string list"
  vo_accounts :: "string list"
  vo_copied :: "string list"

definition shard_page :: "string \<Rightarrow> int \<Rightarrow> ShardMetrics \<Rightarrow> string list" where
  "shard_page tps uptime m =
     (let shard = shard_label (m_ShardID m) in
        metric_lines ''ledger_queue_depth'' ''Current transaction queue depth'' ''gauge''
          (shard_role_label (m_ShardID m) (m_Role m)) (fmt_d (m_QueueDepth m))
      @ metric_lines ''ledger_wal_index'' ''Current WAL log index'' ''gauge'' shard (fmt_d (uint (m_WALIndex m)))
      @ metric_lines ''ledger_tps'' ''Transactions per second'' ''gauge'' shard tps
      @ metric_lines ''ledger_committed_total'' ''Total committed transactions'' ''counter'' shard (fmt_d (sint (m_CommittedCount m)))
      @ metric_lines ''ledger_aborted_total'' ''Total aborted transactions'' ''counter'' shard (fmt_d (sint (m_AbortedCount m)))
      @ metric_lines ''ledger_account_count'' ''Number of accounts'' ''gauge'' shard (fmt_d (m_AccountCount m))
      @ metric_lines ''ledger_total_balance'' ''Total balance across all accounts'' ''gauge'' shard (fmt_d (sint (m_TotalBalance m)))
      @ metric_lines ''ledger_replication_lag'' ''Replication lag in entries'' ''gauge'' shard (fmt_d (m_ReplicationLag m))
      @ metric_lines ''ledger_uptime_seconds'' ''Shard uptime in seconds'' ''gauge'' shard (fmt_d uptime))"

definition handlePrometheusMetrics :: "string \<Rightarrow> int \<Rightarrow> string list \<Rightarrow> string list \<Rightarrow> ShardServer \<Rightarrow> string list" where
  "handlePrometheusMetrics tps uptime ts ks s = shard_page tps uptime (ShardServer_GetMetrics ts ks s)"

datatype shard_reply = ShardBody response_body | ShardPage "string list" | ShardNotFound | ShardReplicated

datatype shard_route =
    ToPrepare | ToCommit | ToAbort | ToExecute | ToBalance | ToHealth | ToMetrics | ToPrometheus | ToWAL
  | ToTransactions | ToHaltPartition | ToReceivePartition | ToResumePartition | ToPromote | ToLogIndex
  | ToCreateAccount

definition RegisterRoutes :: "(string \<times> shard_route) list" where
  "RegisterRoutes =
     [(''/prepare'', ToPrepare), (''/commit'', ToCommit), (''/abort'', ToAbort), (''/execute'', ToExecute),
      (''/balance'', ToBalance), (''/health'', ToHealth), (''/metrics'', ToMetrics),
      (''/metrics/prometheus'', ToPrometheus), (''/wal'', ToWAL), (''/transactions'', ToTransactions),
      (''/halt-partition'', ToHaltPartition), (''/receive-partition'', ToReceivePartition),
      (''/resume-partition'', ToResumePartition), (''/promote'', ToPromote), (''/log-index'', ToLogIndex),
      (''/create-account'', ToCreateAccount)]"

definition answer :: "ShardServer \<times> response \<Rightarrow> ShardServer \<times> (nat \<times> shard_reply) option" where
  "answer x = (case x of (s, status, b) \<Rightarrow> (s, Some (status, ShardBody b)))"

text \<open>\<open>None\<close>: the handler panics. The handlers index and slice nothing but the recent transactions of
  \<^verbatim>\<open>/transactions\<close>, which are cut to a length that the query gives, so the other handlers always answer.\<close>

definition serve_shard ::
    "string \<Rightarrow> int \<Rightarrow> visit_orders \<Rightarrow> shard_http \<Rightarrow> shard_route \<Rightarrow> ShardServer
     \<Rightarrow> ShardServer \<times> (nat \<times> shard_reply) option" where
  "serve_shard tps uptime vo r route s =
     (let m = sq_method r in
      case route of
        ToPrepare \<Rightarrow> answer (handlePrepare m (sq_op r) s)
      | ToCommit \<Rightarrow> answer (handleCommit m (sq_op r) s)
      | ToAbort \<Rightarrow> answer (handleAbort m (sq_op r) s)
      | ToExecute \<Rightarrow> answer (handleExecute m (sq_txn r) s)
      | ToBalance \<Rightarrow> answer (s, handleBalance m (sq_query r ''account'') s)
      | ToHealth \<Rightarrow> answer (s, handleHealth s)
      | ToMetrics \<Rightarrow> answer (s, handleMetrics (vo_txns vo) (vo_accounts vo) m s)
      | ToPrometheus \<Rightarrow>
          (s, Some (StatusOK, ShardPage (handlePrometheusMetrics tps uptime (vo_txns vo) (vo_accounts vo) s)))
      | ToWAL \<Rightarrow> answer (s, handleWAL (sq_query r ''limit'') s)
      | ToTransactions \<Rightarrow> (s, map_option (map_prod id ShardBody) (handleTransactions (sq_query r ''limit'') s))
      | ToHaltPartition \<Rightarrow> answer (handleHaltPartition (vo_accounts vo) (vo_copied vo) (sq_pid r) s)
      | ToReceivePartition \<Rightarrow> answer (handleReceivePartition (vo_copied vo) (sq_balances r) s)
      | ToResumePartition \<Rightarrow> answer (handleResumePartition (sq_pid r) s)
      | ToPromote \<Rightarrow> answer (handlePromote m s)
      | ToLogIndex \<Rightarrow> answer (s, handleLogIndex s)
      | ToCreateAccount \<Rightarrow> answer (handleCreateAccount m (sq_create r) s))"

definition shard_serve ::
    "string \<Rightarrow> int \<Rightarrow> visit_orders \<Rightarrow> shard_http \<Rightarrow> shard_process \<Rightarrow> shard_process \<times> (nat \<times> shard_reply) option" where
  "shard_serve tps uptime vo r p =
     (case map_of RegisterRoutes (sq_path r) of
        Some route \<Rightarrow>
          (case serve_shard tps uptime vo r route (sp_server p) of (s', a) \<Rightarrow> (p\<lparr>sp_server := s'\<rparr>, a))
      | None \<Rightarrow>
          if sq_path r = ''/replicate'' \<and> sp_receiver p \<noteq> None
          then (case process_replicate (sq_method r) (sq_entry r) p of (p', status) \<Rightarrow> (p', Some (status, ShardReplicated)))
          else (p, Some (StatusNotFound, ShardNotFound)))"

section \<open>What the surface can change\<close>

text \<open>The paths that may change the balances.\<close>

definition writing_paths :: "string list" where
  "writing_paths = [''/prepare'', ''/commit'', ''/abort'', ''/execute'', ''/create-account'', ''/receive-partition'']"

lemma answer_Some [simp]: "snd (answer x) \<noteq> None" "fst (answer x) = fst x"
  by (simp_all add: answer_def split: prod.split)

lemma serve_shard_answers: "snd (serve_shard tps uptime vo r route s) \<noteq> None"
proof -
  have "handleTransactions l s \<noteq> None" for l
    using query_limit_pos [of 25 l] by (simp add: handleTransactions_def GetRecentTxns_last)
  then show ?thesis by (cases route) (simp_all add: serve_shard_def)
qed

lemma shard_serve_answers: "snd (shard_serve tps uptime vo r p) \<noteq> None"
  using serve_shard_answers by (auto simp: shard_serve_def prod.case_eq_if split: option.split)

text \<open>The handlers that move partitions about touch the partition manager, \<^verbatim>\<open>/promote\<close> the role.\<close>

definition same_money :: "ShardServer \<Rightarrow> ShardServer \<Rightarrow> bool" where
  "same_money s s' \<longleftrightarrow> s_ledger s' = s_ledger s \<and> s_seenTxns s' = s_seenTxns s \<and> s_walLog s' = s_walLog s"

lemma partition_handlers_keep_money:
  "same_money s (fst (handleHaltPartition ks ks' pid s))"
  "same_money s (fst (handleResumePartition pid s))"
  "same_money s (fst (handlePromote m s))"
  by (auto simp: same_money_def handleHaltPartition_def handleResumePartition_def handlePromote_def Let_def
      ShardServer_HaltAndSnapshotPartition_def ShardServer_ResumePartition_def ShardServer_Promote_def
      split: option.split prod.split sum.split)

lemma serve_shard_keeps_money:
  assumes "route \<notin> {ToPrepare, ToCommit, ToAbort, ToExecute, ToCreateAccount, ToReceivePartition}"
  shows "same_money s (fst (serve_shard tps uptime vo r route s))"
  using assms partition_handlers_keep_money
  by (cases route) (simp_all add: serve_shard_def same_money_def)

lemma route_paths:
  "map_of RegisterRoutes path = Some route \<Longrightarrow> path \<notin> set writing_paths \<Longrightarrow>
     route \<notin> {ToPrepare, ToCommit, ToAbort, ToExecute, ToCreateAccount, ToReceivePartition}"
  by (auto simp: RegisterRoutes_def writing_paths_def split: if_splits)

lemma replicate_keeps_money:
  "process_replicate m body p = (p', status) \<Longrightarrow>
     s_ledger (sp_server p') = s_ledger (sp_server p) \<and> s_seenTxns (sp_server p') = s_seenTxns (sp_server p)"
  by (auto simp: process_replicate_def split: option.splits prod.splits)

lemma surface_keeps_money:
  assumes "sq_path r \<notin> set writing_paths" "shard_serve tps uptime vo r p = (p', a)"
  shows "s_ledger (sp_server p') = s_ledger (sp_server p) \<and> s_seenTxns (sp_server p') = s_seenTxns (sp_server p)
    \<and> (sq_path r = ''/replicate'' \<and> sp_receiver p \<noteq> None \<or> s_walLog (sp_server p') = s_walLog (sp_server p))"
proof (cases "map_of RegisterRoutes (sq_path r)")
  case None
  then show ?thesis
    using assms(2) replicate_keeps_money [of "sq_method r" "sq_entry r" p]
    by (auto simp: shard_serve_def split: if_splits prod.splits)
next
  case (Some route)
  then have "sp_server p' = fst (serve_shard tps uptime vo r route (sp_server p))"
    using assms(2) by (auto simp: shard_serve_def prod.case_eq_if)
  then show ?thesis
    using serve_shard_keeps_money [OF route_paths [OF Some assms(1)], of "sp_server p" tps uptime vo r]
    by (simp add: same_money_def)
qed

section \<open>Properties\<close>

text \<open>
  C24: The HTTP surface of a shard can change its money on six paths only. A request on any other path, of
  whatever method and body, leaves every balance and the transaction table as they are, and it leaves the log as it is unless it
  is a replicated entry on a follower. And on every path, those six included, the one slice expression of the handlers that could
  panic, the cut of \<^verbatim>\<open>/transactions\<close> to the length the request asks for, stays in range for every limit in the query.
\<close>

theorem shard_surface_keeps_money:
  assumes "shard_serve tps uptime vo r p = (p', a)"
  shows "(sq_path r \<notin> set writing_paths \<longrightarrow>
      s_ledger (sp_server p') = s_ledger (sp_server p) \<and> s_seenTxns (sp_server p') = s_seenTxns (sp_server p)
      \<and> (sq_path r = ''/replicate'' \<and> sp_receiver p \<noteq> None \<or> s_walLog (sp_server p') = s_walLog (sp_server p)))
    \<and> a \<noteq> None"
proof (intro conjI impI)
  show "a \<noteq> None" using shard_serve_answers [of tps uptime vo r p] assms by simp
next
  assume "sq_path r \<notin> set writing_paths"
  from surface_keeps_money [OF this assms]
  show "s_ledger (sp_server p') = s_ledger (sp_server p)" "s_seenTxns (sp_server p') = s_seenTxns (sp_server p)"
    "sq_path r = ''/replicate'' \<and> sp_receiver p \<noteq> None \<or> s_walLog (sp_server p') = s_walLog (sp_server p)"
    by simp_all
qed

lemma page_names:
  "apart ''ledger_total_balance'' ''ledger_queue_depth''" "apart ''ledger_total_balance'' ''ledger_wal_index''"
  "apart ''ledger_total_balance'' ''ledger_tps''" "apart ''ledger_total_balance'' ''ledger_committed_total''"
  "apart ''ledger_total_balance'' ''ledger_aborted_total''" "apart ''ledger_total_balance'' ''ledger_account_count''"
  "apart ''ledger_committed_total'' ''ledger_queue_depth''" "apart ''ledger_committed_total'' ''ledger_wal_index''"
  "apart ''ledger_committed_total'' ''ledger_tps''" "apart ''ledger_aborted_total'' ''ledger_queue_depth''"
  "apart ''ledger_aborted_total'' ''ledger_wal_index''" "apart ''ledger_aborted_total'' ''ledger_tps''"
  "apart ''ledger_aborted_total'' ''ledger_committed_total''"
  by (simp_all add: apart_def)

lemma shard_page_samples:
  "scrape (''ledger_total_balance'' @ shard_label (m_ShardID m)) (shard_page tps uptime m) = Some (fmt_d (sint (m_TotalBalance m)))"
  "scrape (''ledger_committed_total'' @ shard_label (m_ShardID m)) (shard_page tps uptime m) = Some (fmt_d (sint (m_CommittedCount m)))"
  "scrape (''ledger_aborted_total'' @ shard_label (m_ShardID m)) (shard_page tps uptime m) = Some (fmt_d (sint (m_AbortedCount m)))"
  unfolding shard_page_def Let_def append_assoc
  by (simp_all add: scrape_skip page_names scrape_here del: append_Cons append_Nil scrape.simps)

text \<open>The total is computed in \<^verbatim>\<open>int64\<close> and wraps around.\<close>

lemma total_wraps:
  assumes "visits ks (l_balances l)"
  shows "Ledger_TotalBalance ks l = word_of_int (ledger_funds l)"
proof -
  have "Ledger_TotalBalance ks l = (\<Sum>k\<in>dom (l_balances l). the (l_balances l k))"
    using assms total_foldl [of ks "l_balances l" 0] by (simp add: Ledger_TotalBalance_def visits_def)
  also have "\<dots> = (\<Sum>k\<in>dom (l_balances l). word_of_int (sint (the (l_balances l k))))" by simp
  also have "\<dots> = word_of_int (\<Sum>k\<in>dom (l_balances l). sint (the (l_balances l k)))" by (rule of_int_sum [symmetric])
  finally show ?thesis by (simp add: ledger_funds_def funds_def)
qed

text \<open>
  C23: The metrics page reports the total as a 64-bit sum. Whatever order the runtime visits the accounts in, a reader that
  looks up \<^verbatim>\<open>ledger_total_balance\<close> on the page that the shard serves and parses the value gets the sum of all balances wrapped
  around to a signed 64-bit integer: the exact sum if it is below \<open>2\<^sup>63\<close> (and not below \<open>- 2\<^sup>63\<close>), another number if it is not. Under
  \<^verbatim>\<open>ledger_committed_total\<close> the reader gets the stored 64-bit counter.
\<close>

theorem metrics_page_exact:
  assumes "visits (vo_accounts vo) (l_balances (s_ledger (sp_server p)))" "sq_path r = ''/metrics/prometheus''"
  shows "\<exists>page v w total. shard_serve tps uptime vo r p = (p, Some (200, ShardPage page))
    \<and> scrape (''ledger_total_balance'' @ shard_label (s_shardID (sp_server p))) page = Some v
    \<and> Sscanf_d v = Some total \<and> (\<exists>k. total = shard_funds (sp_server p) + k * 2 ^ 64)
    \<and> (total = shard_funds (sp_server p) \<longleftrightarrow> - (2 ^ 63) \<le> shard_funds (sp_server p) \<and> shard_funds (sp_server p) < 2 ^ 63)
    \<and> scrape (''ledger_committed_total'' @ shard_label (s_shardID (sp_server p))) page = Some w
    \<and> Sscanf_d w = Some (sint (s_committedCount (sp_server p)))"
proof -
  let ?s = "sp_server p"
  let ?m = "ShardServer_GetMetrics (vo_txns vo) (vo_accounts vo) ?s"
  have m: "m_ShardID ?m = s_shardID ?s" "m_CommittedCount ?m = s_committedCount ?s" "m_TotalBalance ?m = word_of_int (shard_funds ?s)"
    using total_wraps [OF assms(1)] by (simp_all add: ShardServer_GetMetrics_def shard_funds_def)
  define total where "total = sint (word_of_int (shard_funds ?s) :: int64)"
  have "(word_of_int total :: int64) = word_of_int (shard_funds ?s)" by (simp add: total_def)
  then have "2 ^ 64 dvd total - shard_funds ?s"
    by (simp add: word_of_int_eq_iff mod_eq_dvd_iff take_bit_eq_mod)
  then obtain k where "total - shard_funds ?s = 2 ^ 64 * k" by (rule dvdE)
  then have wraps: "\<exists>k. total = shard_funds ?s + k * 2 ^ 64" by (intro exI [of _ k]) simp
  have exact: "total = shard_funds ?s \<longleftrightarrow> - (2 ^ 63) \<le> shard_funds ?s \<and> shard_funds ?s < 2 ^ 63"
  proof -
    have range: "- (2 ^ 63) \<le> total" "total < 2 ^ 63"
      using sint_bounds64 [of "word_of_int (shard_funds ?s)"] by (simp_all add: total_def)
    consider "k = 0" | "1 \<le> k" | "k \<le> - 1" by linarith
    then show ?thesis using range \<open>total - shard_funds ?s = 2 ^ 64 * k\<close> by cases auto
  qed
  have serve: "shard_serve tps uptime vo r p = (p, Some (200, ShardPage (shard_page tps uptime ?m)))"
    using assms(2) by (simp add: shard_serve_def serve_shard_def RegisterRoutes_def handlePrometheusMetrics_def)
  have read: "Sscanf_d (fmt_d (sint x)) = Some (sint x)" for x :: int64
    using sint_bounds64 [of x] by (simp add: Sscanf_fmt)
  show ?thesis
    using serve shard_page_samples(1,2) [of ?m tps uptime] read [of "m_TotalBalance ?m"] read [of "s_committedCount ?s"] wraps exact
    by (intro exI [of _ "shard_page tps uptime ?m"] exI [of _ "fmt_d total"] exI [of _ "fmt_d (sint (s_committedCount ?s))"] exI [of _ total])
      (simp add: m total_def)
qed

definition example_process :: shard_process where
  "example_process = \<lparr>sp_addr = '':8081'', sp_server = example_shard [], sp_receiver = None\<rparr>"

definition example_get :: "string \<Rightarrow> shard_http" where
  "example_get path = \<lparr>sq_method = MethodGet, sq_path = path, sq_op = None, sq_txn = None, sq_pid = None,
     sq_balances = None, sq_create = None, sq_entry = None, sq_query = (\<lambda>_. '''')\<rparr>"

theorem shard_surface_keeps_money_witness:
  "s_ledger (sp_server (fst (shard_serve ''0.00'' 5 \<lparr>vo_txns = [], vo_accounts = [], vo_copied = []\<rparr> (example_get ''/halt-partition'') example_process)))
     = s_ledger (example_shard [])"
  using shard_surface_keeps_money [OF prod.collapse [symmetric], of "example_get ''/halt-partition''"]
  by (simp add: writing_paths_def example_get_def example_process_def)

theorem metrics_page_exact_witness:
  "\<exists>page v. shard_serve ''0.00'' 5 \<lparr>vo_txns = [], vo_accounts = [''bob'', ''alice''], vo_copied = []\<rparr>
       (example_get ''/metrics/prometheus'') example_process = (example_process, Some (200, ShardPage page))
     \<and> scrape (''ledger_total_balance'' @ shard_label ''shard1'') page = Some v \<and> Sscanf_d v = Some 150"
proof -
  have v: "visits [''bob'', ''alice''] (l_balances (s_ledger (sp_server example_process)))"
    by (simp add: visits_def example_process_def example_shard_def insert_commute)
  have i: "s_shardID (sp_server example_process) = ''shard1''" "shard_funds (sp_server example_process) = 150"
    by (simp_all add: example_process_def example_funds) (simp add: example_shard_def)
  have "sq_path (example_get ''/metrics/prometheus'') = ''/metrics/prometheus''" by (simp add: example_get_def)
  from metrics_page_exact [OF _ this, of "\<lparr>vo_txns = [], vo_accounts = [''bob'', ''alice''], vo_copied = []\<rparr>" example_process "''0.00''" 5]
  show ?thesis using v unfolding i by auto
qed

end
