(* ===== verification/LoadMonitor.thy ===== *)
theory LoadMonitor
  imports Messaging ShardMap
begin

text \<open>
  \<^verbatim>\<open>load-monitor/monitor.go\<close>: the poller that collects the metrics of every shard, the hotspot
  detector that compares commit rates, and the migration that reassigns one partition. Clock
  readings are arguments, in nanoseconds on a clock that does not run backwards; the orders in
  which maps are visited and how the network treats the requests are arguments too. Migrations are in flight
  beside the loop, as the goroutines they are.
\<close>

section \<open>Model\<close>

record MigrationEvent =
  me_PartitionID :: int
  me_FromShard :: string
  me_ToShard :: string
  me_TriggeredAt :: nat
  me_CompletedAt :: nat
  me_DurationMs :: nat
  me_TriggerQueueDepth :: int
  me_Success :: bool

record LoadMonitor =
  lm_shardMap :: ShardMap
  lm_metrics :: "string \<rightharpoonup> ShardMetrics"
  lm_prevCommitted :: "string \<rightharpoonup> int64"
  lm_thresholdDepth :: int
  lm_pollInterval :: int
  lm_cooldown :: int
  lm_migrations :: "MigrationEvent list"

definition NewLoadMonitor :: "ShardMap \<Rightarrow> int \<Rightarrow> int \<Rightarrow> int \<Rightarrow> LoadMonitor" where
  "NewLoadMonitor sm threshold interval cooldown =
     \<lparr>lm_shardMap = sm, lm_metrics = Map.empty, lm_prevCommitted = Map.empty,
      lm_thresholdDepth = threshold, lm_pollInterval = interval, lm_cooldown = cooldown,
      lm_migrations = []\<rparr>"

subsection \<open>Polling\<close>

text \<open>
  The loop over the shards: a shard that does not answer, or answers with something that is not
  a metrics object, keeps the metrics it had. \<open>ord a\<close> gives the orders in which the server at \<open>a\<close>
  visits its maps.
\<close>

fun poll_loop :: "(string \<Rightarrow> string list \<times> string list) \<Rightarrow> net list \<Rightarrow> nodes \<Rightarrow> ShardInfo list
    \<Rightarrow> (string \<rightharpoonup> ShardMetrics) \<Rightarrow> (string \<rightharpoonup> ShardMetrics)" where
  "poll_loop ord nets ns [] ms = ms"
| "poll_loop ord nets ns (shard # shards) ms =
     poll_loop ord (tl nets) ns shards
       (case ns (si_Address shard) of
          None \<Rightarrow> ms
        | Some s \<Rightarrow>
            if (case nets of [] \<Rightarrow> NetOk | n # _ \<Rightarrow> n) \<noteq> NetOk then ms
            else (case handleMetrics (fst (ord (si_Address shard))) (snd (ord (si_Address shard))) MethodGet s of
                    (status, MetricsBody metrics) \<Rightarrow> ms(si_ShardID shard \<mapsto> metrics)
                  | _ \<Rightarrow> ms))"

definition LoadMonitor_pollShards ::
    "(string \<Rightarrow> string list \<times> string list) \<Rightarrow> net list \<Rightarrow> int list \<Rightarrow> nodes \<Rightarrow> LoadMonitor \<Rightarrow> LoadMonitor" where
  "LoadMonitor_pollShards ord nets ks ns m =
     m\<lparr>lm_metrics := poll_loop ord nets ns (ShardMap_AllShards ks (lm_shardMap m)) (lm_metrics m)\<rparr>"

subsection \<open>Hotspot detection\<close>

text \<open>The local variables of \<open>checkHotspots\<close>.\<close>

record hotspots =
  hotShard :: "ShardInfo option"
  coolShard :: "ShardInfo option"
  maxRate :: int64
  minRate :: int64
  newPrev :: "string \<rightharpoonup> int64"

definition shard_rate :: "ShardMetrics \<Rightarrow> string \<Rightarrow> (string \<rightharpoonup> int64) \<Rightarrow> int64" where
  "shard_rate metrics i prev = m_CommittedCount metrics - (case prev i of None \<Rightarrow> 0 | Some c \<Rightarrow> c)"

definition scan_shard :: "(string \<rightharpoonup> ShardMetrics) \<Rightarrow> ShardInfo \<Rightarrow> hotspots \<Rightarrow> hotspots" where
  "scan_shard ms shard v =
     (case ms (si_ShardID shard) of
        None \<Rightarrow> v
      | Some metrics \<Rightarrow>
          (let rate = shard_rate metrics (si_ShardID shard) (newPrev v);
               v1 = v\<lparr>newPrev := (newPrev v)(si_ShardID shard \<mapsto> m_CommittedCount metrics)\<rparr>;
               v2 = (if maxRate v1 <s rate then v1\<lparr>maxRate := rate, hotShard := Some shard\<rparr> else v1)
           in if rate <s minRate v2 then v2\<lparr>minRate := rate, coolShard := Some shard\<rparr> else v2))"

definition scan_shards :: "(string \<rightharpoonup> ShardMetrics) \<Rightarrow> (string \<rightharpoonup> int64) \<Rightarrow> ShardInfo list \<Rightarrow> hotspots" where
  "scan_shards ms prev shards =
     fold (scan_shard ms) shards
       \<lparr>hotShard = None, coolShard = None, maxRate = - 1, minRate = 999999999, newPrev = prev\<rparr>"

text \<open>Division by two rounds towards zero.\<close>

definition half :: "int \<Rightarrow> int" where
  "half t = (if t < 0 then - (- t div 2) else t div 2)"

text \<open>The second component is the migration that is started, if any.\<close>

definition LoadMonitor_checkHotspots ::
    "int list \<Rightarrow> nat \<Rightarrow> LoadMonitor \<Rightarrow> LoadMonitor \<times> (ShardInfo \<times> ShardInfo) option" where
  "LoadMonitor_checkHotspots ks now m =
     (let v = scan_shards (lm_metrics m) (lm_prevCommitted m) (ShardMap_AllShards ks (lm_shardMap m));
          m' = m\<lparr>lm_prevCommitted := newPrev v\<rparr>
      in case (hotShard v, coolShard v) of
           (Some hot, Some cool) \<Rightarrow>
             if lm_thresholdDepth m < sint (maxRate v)
                \<and> half (lm_thresholdDepth m) < sint (maxRate v - minRate v)
                \<and> si_ShardID hot \<noteq> si_ShardID cool
             then (if lm_migrations m \<noteq> []
                      \<and> int now - int (me_CompletedAt (last (lm_migrations m))) < lm_cooldown m
                   then (m', None)
                   else (m', Some (hot, cool)))
             else (m', None)
         | _ \<Rightarrow> (m', None))"

subsection \<open>Migration\<close>

definition LoadMonitor_recordMigration ::
    "int \<Rightarrow> string \<Rightarrow> string \<Rightarrow> nat \<Rightarrow> int \<Rightarrow> bool \<Rightarrow> nat \<Rightarrow> LoadMonitor \<Rightarrow> LoadMonitor" where
  "LoadMonitor_recordMigration partID from_id to_id start triggerDepth success now m =
     m\<lparr>lm_migrations := lm_migrations m @
         [\<lparr>me_PartitionID = partID, me_FromShard = from_id, me_ToShard = to_id,
           me_TriggeredAt = start, me_CompletedAt = now,
           me_DurationMs = (now - start) div 1000000,
           me_TriggerQueueDepth = triggerDepth, me_Success = success\<rparr>]\<rparr>"

definition LoadMonitor_migratePartition ::
    "int list \<Rightarrow> nat \<Rightarrow> nat \<Rightarrow> ShardInfo \<Rightarrow> ShardInfo \<Rightarrow> LoadMonitor \<Rightarrow> LoadMonitor" where
  "LoadMonitor_migratePartition ks start now hot cool m =
     (case ShardMap_GetPartitionsForShard ks (si_ShardID hot) (lm_shardMap m) of
        [] \<Rightarrow> m
      | partID # _ \<Rightarrow>
          (let triggerDepth = (case lm_metrics m (si_ShardID hot) of
                                 None \<Rightarrow> 0 | Some metrics \<Rightarrow> sint (m_CommittedCount metrics));
               m' = m\<lparr>lm_shardMap := fst (ShardMap_UpdatePartition ks partID cool (lm_shardMap m))\<rparr>
           in LoadMonitor_recordMigration partID (si_ShardID hot) (si_ShardID cool) start triggerDepth True now m'))"

subsection \<open>Migrations in flight\<close>

text \<open>
  \<open>checkHotspots\<close> starts \<open>migratePartition\<close> with \<open>go\<close>: the migration goes on beside the loop, and later rounds and
  other migrations can overtake it between two of its accesses. A migration in flight is what it is about to do: pick
  the partition, read the load, update the table (and save it), or record the event. \<open>None\<close> is a migration that has
  returned.
\<close>

datatype migration =
    MigStart ShardInfo ShardInfo
  | MigDepth ShardInfo ShardInfo nat int
  | MigUpdate ShardInfo ShardInfo nat int int
  | MigRecord ShardInfo ShardInfo nat int int

fun migration_step :: "int list \<Rightarrow> nat \<Rightarrow> migration \<Rightarrow> LoadMonitor \<Rightarrow> migration option \<times> LoadMonitor" where
  "migration_step ks now (MigStart hot cool) m =
     ((case ShardMap_GetPartitionsForShard ks (si_ShardID hot) (lm_shardMap m) of
         [] \<Rightarrow> None
       | partID # _ \<Rightarrow> Some (MigDepth hot cool now partID)), m)"
| "migration_step ks now (MigDepth hot cool start partID) m =
     (Some (MigUpdate hot cool start partID
        (case lm_metrics m (si_ShardID hot) of None \<Rightarrow> 0 | Some metrics \<Rightarrow> sint (m_CommittedCount metrics))), m)"
| "migration_step ks now (MigUpdate hot cool start partID triggerDepth) m =
     (Some (MigRecord hot cool start partID triggerDepth),
      m\<lparr>lm_shardMap := fst (ShardMap_UpdatePartition ks partID cool (lm_shardMap m))\<rparr>)"
| "migration_step ks now (MigRecord hot cool start partID triggerDepth) m =
     (None, LoadMonitor_recordMigration partID (si_ShardID hot) (si_ShardID cool) start triggerDepth True now m)"

text \<open>
  The monitor at work: its state, the migrations in flight and the shards. The loop of \<open>Start\<close> polls and checks; a
  step of any migration may come between, and so may anything the other processes do to the shards. The monitor
  itself reads the shards' metrics and sends them nothing else.
\<close>

datatype monitor_event =
    Poll "string \<Rightarrow> string list \<times> string list" "net list" "int list"
  | Check "int list" nat
  | Migrate nat "int list" nat
  | ShardsAct nodes

type_synonym monitor_state = "LoadMonitor \<times> migration list \<times> nodes"

fun monitor_step :: "monitor_event \<Rightarrow> monitor_state \<Rightarrow> monitor_state" where
  "monitor_step (Poll ord nets ks) (m, fl, ns) = (LoadMonitor_pollShards ord nets ks ns m, fl, ns)"
| "monitor_step (Check ks now) (m, fl, ns) =
     (case LoadMonitor_checkHotspots ks now m of
        (m', None) \<Rightarrow> (m', fl, ns)
      | (m', Some (hot, cool)) \<Rightarrow> (m', fl @ [MigStart hot cool], ns))"
| "monitor_step (Migrate i ks now) (m, fl, ns) =
     (if i < length fl
      then (case migration_step ks now (fl ! i) m of
              (None, m') \<Rightarrow> (m', take i fl @ drop (Suc i) fl, ns)
            | (Some g, m') \<Rightarrow> (m', fl[i := g], ns))
      else (m, fl, ns))"
| "monitor_step (ShardsAct ns') (m, fl, ns) = (m, fl, ns')"

definition monitor_run :: "monitor_event list \<Rightarrow> monitor_state \<Rightarrow> monitor_state" where
  "monitor_run evs st = fold monitor_step evs st"

text \<open>
  One schedule of these steps, in which nothing is in flight at first and nothing overtakes the migration that
  the check starts, if it starts one. \<open>kss\<close> are the orders in which the shard map is visited by the three parts; \<open>t1\<close>, \<open>t2\<close>,
  \<open>t3\<close> the readings of the clock at the cooldown test and at the start and the end of the migration.
\<close>

abbreviation whole_migration :: "int list \<Rightarrow> nat \<Rightarrow> nat \<Rightarrow> nat \<Rightarrow> nat \<Rightarrow> monitor_event list" where
  "whole_migration ks t2 ta tb t3 \<equiv> [Migrate 0 ks t2, Migrate 0 ks ta, Migrate 0 ks tb, Migrate 0 ks t3]"

definition uninterrupted_round ::
    "(string \<Rightarrow> string list \<times> string list) \<Rightarrow> net list \<Rightarrow> int list \<times> int list \<times> int list \<Rightarrow> nat \<Rightarrow> nat \<Rightarrow> nat
     \<Rightarrow> nodes \<Rightarrow> LoadMonitor \<Rightarrow> LoadMonitor" where
  "uninterrupted_round ord nets kss t1 t2 t3 ns m =
     fst (monitor_run ([Poll ord nets (fst kss), Check (fst (snd kss)) t1] @ whole_migration (snd (snd kss)) t2 t2 t2 t3)
        (m, [], ns))"

subsection \<open>Endpoints\<close>

definition LoadMonitor_GetMetrics :: "string list \<Rightarrow> LoadMonitor \<Rightarrow> (string \<rightharpoonup> ShardMetrics)" where
  "LoadMonitor_GetMetrics is m = range_copy is (lm_metrics m) Map.empty"

definition LoadMonitor_HandleMigrations :: "LoadMonitor \<Rightarrow> MigrationEvent list" where
  "LoadMonitor_HandleMigrations m = lm_migrations m"

text \<open>The two nested loops of \<open>HandleShardMap\<close>; \<open>po i\<close> is the order in which the table is visited to
  find the partitions of shard \<open>i\<close>.\<close>

fun put_partitions :: "int list \<Rightarrow> string \<Rightarrow> (string \<rightharpoonup> string) \<Rightarrow> (string \<rightharpoonup> string)" where
  "put_partitions [] i out = out"
| "put_partitions (p # ps) i out = put_partitions ps i (out(fmt_d p \<mapsto> i))"

fun put_shards :: "(string \<Rightarrow> int list) \<Rightarrow> ShardMap \<Rightarrow> ShardInfo list \<Rightarrow> (string \<rightharpoonup> string) \<Rightarrow> (string \<rightharpoonup> string)" where
  "put_shards po sm [] out = out"
| "put_shards po sm (shard # shards) out =
     put_shards po sm shards
       (put_partitions (ShardMap_GetPartitionsForShard (po (si_ShardID shard)) (si_ShardID shard) sm) (si_ShardID shard) out)"

definition LoadMonitor_HandleShardMap :: "int list \<Rightarrow> (string \<Rightarrow> int list) \<Rightarrow> LoadMonitor \<Rightarrow> (string \<rightharpoonup> string) \<times> nat" where
  "LoadMonitor_HandleShardMap ks po m =
     (let partitions = put_shards po (lm_shardMap m) (ShardMap_AllShards ks (lm_shardMap m)) Map.empty
      in (partitions, card (dom partitions)))"

section \<open>The scan finds the extremes\<close>

text \<open>The commit rate of a shard that the next check will see: its last metrics against the
  count remembered at the previous check.\<close>

definition seen_rate :: "(string \<rightharpoonup> ShardMetrics) \<Rightarrow> (string \<rightharpoonup> int64) \<Rightarrow> string \<Rightarrow> int option" where
  "seen_rate ms prev i = map_option (\<lambda>metrics. sint (shard_rate metrics i prev)) (ms i)"

definition scan_inv :: "(string \<rightharpoonup> ShardMetrics) \<Rightarrow> (string \<rightharpoonup> int64) \<Rightarrow> ShardInfo list \<Rightarrow> hotspots \<Rightarrow> bool" where
  "scan_inv ms prev past v \<longleftrightarrow>
     (\<forall>i. newPrev v i = (if i \<in> si_ShardID ` set past \<and> ms i \<noteq> None
                         then map_option m_CommittedCount (ms i) else prev i))
     \<and> (\<forall>shard r. shard \<in> set past \<longrightarrow> seen_rate ms prev (si_ShardID shard) = Some r
          \<longrightarrow> sint (minRate v) \<le> r \<and> r \<le> sint (maxRate v))
     \<and> (\<forall>h. hotShard v = Some h \<longrightarrow> h \<in> set past \<and> seen_rate ms prev (si_ShardID h) = Some (sint (maxRate v)))
     \<and> (\<forall>c. coolShard v = Some c \<longrightarrow> c \<in> set past \<and> seen_rate ms prev (si_ShardID c) = Some (sint (minRate v)))"

lemma scan_inv_step:
  assumes "scan_inv ms prev past v" "si_ShardID shard \<notin> si_ShardID ` set past"
  shows "scan_inv ms prev (shard # past) (scan_shard ms shard v)"
proof (cases "ms (si_ShardID shard)")
  case None
  then show ?thesis
    using assms unfolding scan_inv_def scan_shard_def by (auto simp: seen_rate_def)
next
  case (Some metrics)
  have "newPrev v (si_ShardID shard) = prev (si_ShardID shard)"
    using assms by (simp add: scan_inv_def)
  then have rate: "seen_rate ms prev (si_ShardID shard) = Some (sint (shard_rate metrics (si_ShardID shard) (newPrev v)))"
    using Some by (simp add: seen_rate_def shard_rate_def)
  show ?thesis
    using assms(1) Some rate unfolding scan_inv_def scan_shard_def Let_def signed_order
    by (auto; force)
qed

lemma scan_fold:
  "scan_inv ms prev past v \<Longrightarrow> distinct (map si_ShardID shards) \<Longrightarrow>
     si_ShardID ` set past \<inter> si_ShardID ` set shards = {} \<Longrightarrow>
     scan_inv ms prev (rev shards @ past) (fold (scan_shard ms) shards v)"
proof (induction shards arbitrary: past v)
  case (Cons shard shards)
  have "scan_inv ms prev (shard # past) (scan_shard ms shard v)"
    using Cons.prems by (intro scan_inv_step) auto
  from Cons.IH [OF this] Cons.prems(2,3) show ?case by auto
qed simp

lemma scan_shards_inv:
  assumes "distinct (map si_ShardID shards)"
  shows "scan_inv ms prev (rev shards) (scan_shards ms prev shards)"
  using scan_fold [of ms prev "[]" "\<lparr>hotShard = None, coolShard = None, maxRate = - 1, minRate = 999999999,
      newPrev = prev\<rparr>", OF _ assms]
  by (simp add: scan_shards_def scan_inv_def)

text \<open>What the code promises of a migration it starts: the hottest and the coolest shard the
  monitor has metrics for, a rate above the threshold, and the cooldown over.\<close>

definition justified_migration :: "LoadMonitor \<Rightarrow> nat \<Rightarrow> ShardInfo \<Rightarrow> ShardInfo \<Rightarrow> bool" where
  "justified_migration m now hot cool \<longleftrightarrow>
     hot \<in> ran (sm_partitions (lm_shardMap m)) \<and> cool \<in> ran (sm_partitions (lm_shardMap m))
     \<and> si_ShardID hot \<noteq> si_ShardID cool
     \<and> (\<exists>h c. seen_rate (lm_metrics m) (lm_prevCommitted m) (si_ShardID hot) = Some h
          \<and> seen_rate (lm_metrics m) (lm_prevCommitted m) (si_ShardID cool) = Some c
          \<and> lm_thresholdDepth m < h \<and> (h - c < 2 ^ 63 \<longrightarrow> half (lm_thresholdDepth m) < h - c)
          \<and> (\<forall>info \<in> ran (sm_partitions (lm_shardMap m)). \<forall>r.
               seen_rate (lm_metrics m) (lm_prevCommitted m) (si_ShardID info) = Some r \<longrightarrow> c \<le> r \<and> r \<le> h))
     \<and> (lm_migrations m = [] \<or> lm_cooldown m \<le> int now - int (me_CompletedAt (last (lm_migrations m))))"

lemma all_shards_range:
  assumes "visits ks (sm_partitions sm)"
  shows "set (ShardMap_AllShards ks sm) \<subseteq> ran (sm_partitions sm)"
    and "si_ShardID ` set (ShardMap_AllShards ks sm) = si_ShardID ` ran (sm_partitions sm)"
proof -
  show "set (ShardMap_AllShards ks sm) \<subseteq> ran (sm_partitions sm)"
    by (auto simp: ShardMap_AllShards_def ran_def dest: all_shards_members)
  have "k \<in> set ks" if "sm_partitions sm k = Some info" for k info
    using assms that by (auto simp: visits_def)
  then show "si_ShardID ` set (ShardMap_AllShards ks sm) = si_ShardID ` ran (sm_partitions sm)"
    by (force simp: ShardMap_AllShards_def all_shards_ids ran_def image_iff)
qed

lemma checkHotspots_frame:
  "LoadMonitor_checkHotspots ks now m = (m', r) \<Longrightarrow> lm_shardMap m' = lm_shardMap m \<and> lm_migrations m' = lm_migrations m
     \<and> lm_metrics m' = lm_metrics m"
  by (auto simp: LoadMonitor_checkHotspots_def Let_def split: option.splits if_splits)

lemma checkHotspots_justified:
  assumes "LoadMonitor_checkHotspots ks now m = (m', Some (hot, cool))" "visits ks (sm_partitions (lm_shardMap m))"
  shows "justified_migration m now hot cool"
proof -
  define shards where "shards = ShardMap_AllShards ks (lm_shardMap m)"
  define v where "v = scan_shards (lm_metrics m) (lm_prevCommitted m) shards"
  have inv: "scan_inv (lm_metrics m) (lm_prevCommitted m) (rev shards) v"
    unfolding v_def by (rule scan_shards_inv) (simp add: shards_def ShardMap_AllShards_def all_shards_distinct)
  have sel: "hotShard v = Some hot" "coolShard v = Some cool" "lm_thresholdDepth m < sint (maxRate v)"
    "half (lm_thresholdDepth m) < sint (maxRate v - minRate v)" "si_ShardID hot \<noteq> si_ShardID cool"
    "lm_migrations m = [] \<or> lm_cooldown m \<le> int now - int (me_CompletedAt (last (lm_migrations m)))"
    using assms(1) unfolding LoadMonitor_checkHotspots_def Let_def v_def shards_def
    by (auto split: option.splits if_splits)
  have ends: "hot \<in> set shards" "cool \<in> set shards"
    "seen_rate (lm_metrics m) (lm_prevCommitted m) (si_ShardID hot) = Some (sint (maxRate v))"
    "seen_rate (lm_metrics m) (lm_prevCommitted m) (si_ShardID cool) = Some (sint (minRate v))"
    using inv sel(1,2) unfolding scan_inv_def by auto
  have bound: "sint (minRate v) \<le> r \<and> r \<le> sint (maxRate v)"
    if member: "info \<in> ran (sm_partitions (lm_shardMap m))" and
      rate: "seen_rate (lm_metrics m) (lm_prevCommitted m) (si_ShardID info) = Some r" for info r
  proof -
    obtain shard where "shard \<in> set shards" "si_ShardID shard = si_ShardID info"
      using imageI [OF member, of si_ShardID] unfolding all_shards_range(2) [OF assms(2), symmetric] shards_def by force
    with inv rate show ?thesis unfolding scan_inv_def by (metis set_rev)
  qed
  have mem: "hot \<in> ran (sm_partitions (lm_shardMap m))" "cool \<in> ran (sm_partitions (lm_shardMap m))"
    using ends(1,2) all_shards_range(1) [OF assms(2)] unfolding shards_def by auto
  have "- (2 ^ 63) \<le> sint (maxRate v) - sint (minRate v)"
    using bound [OF mem(1) ends(3)] by auto
  then have "half (lm_thresholdDepth m) < sint (maxRate v) - sint (minRate v)"
    if "sint (maxRate v) - sint (minRate v) < 2 ^ 63"
    using sel(4) sint_minus64 [OF _ that] by simp
  with sel(3,5,6) ends(3,4) bound mem show ?thesis
    unfolding justified_migration_def by blast
qed

section \<open>Migrations among the rounds\<close>

text \<open>A migration on its own is \<open>migratePartition\<close>, and a round with its migration is a schedule of the
  monitor at work.\<close>

lemma migration_alone:
  "monitor_run (whole_migration ks t2 ta tb t3) (m, [MigStart hot cool], ns) = (LoadMonitor_migratePartition ks t2 t3 hot cool m, [], ns)"
  by (auto simp: monitor_run_def LoadMonitor_migratePartition_def Let_def split: list.splits)

lemma uninterrupted_round_cases:
  "uninterrupted_round ord nets (ks1, ks2, ks3) t1 t2 t3 ns m =
     (case LoadMonitor_checkHotspots ks2 t1 (LoadMonitor_pollShards ord nets ks1 ns m) of
        (m', None) \<Rightarrow> m'
      | (m', Some (hot, cool)) \<Rightarrow> LoadMonitor_migratePartition ks3 t2 t3 hot cool m')"
proof -
  obtain m1 r where chk: "LoadMonitor_checkHotspots ks2 t1 (LoadMonitor_pollShards ord nets ks1 ns m) = (m1, r)" by force
  show ?thesis
  proof (cases r)
    case None
    then show ?thesis using chk by (simp add: monitor_run_def uninterrupted_round_def)
  next
    case (Some hc)
    then obtain hot cool where "r = Some (hot, cool)" by (cases hc) auto
    then show ?thesis
      using chk migration_alone [of ks3 t2 t2 t2 t3 m1 hot cool ns]
      by (simp add: monitor_run_def uninterrupted_round_def del: migration_step.simps)
  qed
qed

section \<open>Properties\<close>

lemma GetPartitionsForShard_hd:
  "ShardMap_GetPartitionsForShard ks i sm = p # ps \<Longrightarrow> \<exists>info. sm_partitions sm p = Some info \<and> si_ShardID info = i"
  by (auto simp: ShardMap_GetPartitionsForShard_def filter_eq_Cons_iff)

lemma migratePartition_effect:
  assumes "visits ks (sm_partitions (lm_shardMap m))" "hot \<in> ran (sm_partitions (lm_shardMap m))"
  shows "\<exists>p info d. sm_partitions (lm_shardMap m) p = Some info \<and> si_ShardID info = si_ShardID hot
    \<and> sm_partitions (lm_shardMap (LoadMonitor_migratePartition ks start now hot cool m)) = (sm_partitions (lm_shardMap m))(p \<mapsto> cool)
    \<and> lm_migrations (LoadMonitor_migratePartition ks start now hot cool m) = lm_migrations m @
        [\<lparr>me_PartitionID = p, me_FromShard = si_ShardID hot, me_ToShard = si_ShardID cool, me_TriggeredAt = start,
          me_CompletedAt = now, me_DurationMs = (now - start) div 1000000, me_TriggerQueueDepth = d, me_Success = True\<rparr>]"
proof -
  obtain p ps where ps: "ShardMap_GetPartitionsForShard ks (si_ShardID hot) (lm_shardMap m) = p # ps"
  proof (cases "ShardMap_GetPartitionsForShard ks (si_ShardID hot) (lm_shardMap m)")
    case Nil
    with assms show ?thesis
      by (auto simp: ShardMap_GetPartitionsForShard_def filter_empty_conv ran_def visits_def)
  qed
  with GetPartitionsForShard_hd [OF ps] show ?thesis
    by (auto simp: LoadMonitor_migratePartition_def LoadMonitor_recordMigration_def ShardMap_UpdatePartition_def
        ShardMap_saveLocked_def Let_def)
qed

lemma pollShards_frame:
  "lm_shardMap (LoadMonitor_pollShards ord nets ks ns m) = lm_shardMap m"
  "lm_migrations (LoadMonitor_pollShards ord nets ks ns m) = lm_migrations m"
  by (simp_all add: LoadMonitor_pollShards_def)

text \<open>
  C30: a round of the load monitor, with the migration it starts run to its end before anything else and
  none in flight before, leaves the partition table and the migration history as they
  were, or moves exactly one partition, from a shard with the highest commit rate to one with
  the lowest, with a rate above the threshold and the cooldown over, and appends exactly the
  event that describes the move.
\<close>

theorem monitor_moves_from_hottest_to_coolest:
  assumes "visits ks2 (sm_partitions (lm_shardMap m))" "visits ks3 (sm_partitions (lm_shardMap m))"
    and "uninterrupted_round ord nets (ks1, ks2, ks3) t1 t2 t3 ns m = m'"
  shows "(sm_partitions (lm_shardMap m') = sm_partitions (lm_shardMap m) \<and> lm_migrations m' = lm_migrations m)
    \<or> (\<exists>hot cool p info event. justified_migration (LoadMonitor_pollShards ord nets ks1 ns m) t1 hot cool
         \<and> sm_partitions (lm_shardMap m) p = Some info \<and> si_ShardID info = si_ShardID hot
         \<and> sm_partitions (lm_shardMap m') = (sm_partitions (lm_shardMap m))(p \<mapsto> cool)
         \<and> lm_migrations m' = lm_migrations m @ [event] \<and> me_PartitionID event = p
         \<and> me_FromShard event = si_ShardID hot \<and> me_ToShard event = si_ShardID cool)"
proof -
  define polled where "polled = LoadMonitor_pollShards ord nets ks1 ns m"
  obtain m1 r where chk: "LoadMonitor_checkHotspots ks2 t1 polled = (m1, r)" by force
  have same: "lm_shardMap m1 = lm_shardMap m" "lm_migrations m1 = lm_migrations m" "lm_shardMap polled = lm_shardMap m"
    using checkHotspots_frame [OF chk] pollShards_frame unfolding polled_def by simp_all
  show ?thesis
  proof (cases r)
    case None
    then have "m' = m1" using assms(3) chk by (simp add: uninterrupted_round_cases polled_def)
    with same show ?thesis by simp
  next
    case (Some hc)
    then obtain hot cool where r: "r = Some (hot, cool)" by (cases hc) auto
    then have m': "m' = LoadMonitor_migratePartition ks3 t2 t3 hot cool m1"
      using assms(3) chk by (simp add: uninterrupted_round_cases polled_def)
    have just: "justified_migration polled t1 hot cool"
      using checkHotspots_justified chk r assms(1) same(3) by simp
    then have hot: "hot \<in> ran (sm_partitions (lm_shardMap m1))"
      by (simp add: justified_migration_def same)
    show ?thesis
      using migratePartition_effect [of ks3 m1, OF _ hot, of t2 t3 cool] assms(2) just same(1,2)
      unfolding m' polled_def by fastforce
  qed
qed

definition example_monitor :: LoadMonitor where
  "example_monitor = NewLoadMonitor
     \<lparr>sm_partitions = [0 \<mapsto> example_shards ! 0, 1 \<mapsto> example_shards ! 1, 2 \<mapsto> example_shards ! 0,
        3 \<mapsto> example_shards ! 1], sm_file = NoFile, sm_io = []\<rparr> 5 1000000000 2000000000"

definition example_busy :: "int64 \<Rightarrow> ShardServer" where
  "example_busy n = (example_shard [])\<lparr>s_committedCount := n\<rparr>"

definition example_orders :: "string \<Rightarrow> string list \<times> string list" where
  "example_orders a = ([], [''alice'', ''bob''])"

abbreviation "kss4 \<equiv> ([0, 1, 2, 3], [0, 1, 2, 3], [0, 1, 2, 3])"

lemmas monitor_eval = uninterrupted_round_cases LoadMonitor_pollShards_def ShardMap_AllShards_def
  LoadMonitor_checkHotspots_def scan_shards_def scan_shard_def shard_rate_def Let_def half_def handleMetrics_def
  ShardServer_GetMetrics_def signed_order LoadMonitor_migratePartition_def ShardMap_GetPartitionsForShard_def
  LoadMonitor_recordMigration_def ShardMap_UpdatePartition_def ShardMap_saveLocked_def

lemma quiet_round:
  "uninterrupted_round example_orders [] kss4 0 0 0
     [''s1:8081'' \<mapsto> example_busy 0, ''s2:8082'' \<mapsto> example_busy 0] example_monitor =
   example_monitor\<lparr>lm_metrics := [''shard1'' \<mapsto> ShardServer_GetMetrics [] [''alice'', ''bob''] (example_busy 0),
       ''shard2'' \<mapsto> ShardServer_GetMetrics [] [''alice'', ''bob''] (example_busy 0)],
     lm_prevCommitted := [''shard1'' \<mapsto> 0, ''shard2'' \<mapsto> 0]\<rparr>"
  by (simp add: monitor_eval example_monitor_def NewLoadMonitor_def example_shards_def
      example_orders_def example_busy_def example_shard_def)

theorem monitor_moves_from_hottest_to_coolest_witness:
  "\<exists>cool p info. sm_partitions (lm_shardMap example_monitor) p = Some info \<and> si_ShardID info = ''shard1''
     \<and> sm_partitions (lm_shardMap (uninterrupted_round example_orders [] kss4 0 0 0
         [''s1:8081'' \<mapsto> example_busy 8, ''s2:8082'' \<mapsto> example_busy 1] example_monitor)) =
       (sm_partitions (lm_shardMap example_monitor))(p \<mapsto> cool)"
proof -
  let ?ns = "[''s1:8081'' \<mapsto> example_busy 8, ''s2:8082'' \<mapsto> example_busy 1]"
  let ?m' = "uninterrupted_round example_orders [] kss4 0 0 0 ?ns example_monitor"
  have v: "visits [0, 1, 2, 3] (sm_partitions (lm_shardMap example_monitor))"
    by (auto simp: visits_def example_monitor_def NewLoadMonitor_def)
  have moved: "map me_FromShard (lm_migrations ?m') = [''shard1'']"
    by (simp add: monitor_eval example_monitor_def NewLoadMonitor_def example_shards_def
      example_orders_def example_busy_def example_shard_def)
  have "lm_migrations example_monitor = []" by (simp add: example_monitor_def NewLoadMonitor_def)
  with monitor_moves_from_hottest_to_coolest [OF v v refl, of example_orders "[]" "[0, 1, 2, 3]" 0 0 0 ?ns] moved
  show ?thesis by (auto dest!: sym [of "''shard1''"]) blast+
qed

text \<open>
  A shard that stops answering becomes a migration target: its metrics stay what they were,
  so its rate reads zero. After a round in which both shards answered and one in which the
  second is down, a partition of the first is assigned to the address where nothing answers.
\<close>

theorem silent_shard_receives_partition:
  "let m1 = uninterrupted_round example_orders [] kss4 0 0 0
              [''s1:8081'' \<mapsto> example_busy 0, ''s2:8082'' \<mapsto> example_busy 0] example_monitor;
       ns = [''s1:8081'' \<mapsto> example_busy 8];
       m2 = uninterrupted_round example_orders [] kss4 1 2 3 ns m1
   in lm_migrations m1 = []
      \<and> map_option si_Address (ShardMap_GetShard 0 (lm_shardMap m1)) = Some ''s1:8081''
      \<and> map_option si_Address (ShardMap_GetShard 0 (lm_shardMap m2)) = Some ''s2:8082''
      \<and> ns ''s2:8082'' = None"
  unfolding Let_def quiet_round
  by (simp add: monitor_eval example_monitor_def NewLoadMonitor_def example_shards_def ShardMap_GetShard_def
      example_orders_def example_busy_def example_shard_def)

section \<open>The table endpoint\<close>

lemma put_partitions_apply:
  "put_partitions ps i out x = (if x \<in> fmt_d ` set ps then Some i else out x)"
  by (induction ps arbitrary: out) auto

lemma put_shards_apply:
  assumes "dom (sm_partitions sm) \<subseteq> go_ints" "\<And>i. visits (po i) (sm_partitions sm)" "k \<in> go_ints"
  shows "put_shards po sm shards out (fmt_d k) =
    (case sm_partitions sm k of
       Some info \<Rightarrow> if si_ShardID info \<in> si_ShardID ` set shards then Some (si_ShardID info) else out (fmt_d k)
     | None \<Rightarrow> out (fmt_d k))"
proof (induction shards arbitrary: out)
  case (Cons shard shards)
  have mem: "k' \<in> set (po i)" if "sm_partitions sm k' = Some info" for k' i info
    using assms(2) [of i] that by (auto simp: visits_def)
  have "fmt_d k \<in> fmt_d ` set (ShardMap_GetPartitionsForShard (po (si_ShardID shard)) (si_ShardID shard) sm) \<longleftrightarrow>
      (\<exists>info. sm_partitions sm k = Some info \<and> si_ShardID info = si_ShardID shard)"
    using assms(1,3) mem fmt_inj [of k] by (auto simp: ShardMap_GetPartitionsForShard_def image_iff) blast+
  then show ?case
    by (auto simp: Cons.IH put_partitions_apply split: option.split)
qed (auto split: option.split)

lemma put_shards_dom:
  "dom (put_shards po sm shards out) \<subseteq> dom out \<union> fmt_d ` dom (sm_partitions sm)"
proof (induction shards arbitrary: out)
  case (Cons shard shards)
  have "dom (put_partitions (ShardMap_GetPartitionsForShard (po (si_ShardID shard)) (si_ShardID shard) sm) (si_ShardID shard) out)
      \<subseteq> dom out \<union> fmt_d ` dom (sm_partitions sm)"
    by (auto simp: put_partitions_apply ShardMap_GetPartitionsForShard_def domIff image_iff split: if_splits) blast
  with Cons.IH show ?case by (auto; blast)
qed simp

text \<open>
  The shard-map endpoint shows the partition table as it is: under the decimal key of every
  partition the shard that owns it, nothing else, and the number of partitions as the count, in
  every order in which the table is visited.
\<close>

theorem shard_map_endpoint_exact:
  assumes "dom (sm_partitions (lm_shardMap m)) \<subseteq> go_ints" "visits ks (sm_partitions (lm_shardMap m))"
    and "\<forall>i. visits (po i) (sm_partitions (lm_shardMap m))"
    and "LoadMonitor_HandleShardMap ks po m = (partitions, n)"
  shows "(\<forall>k \<in> go_ints. partitions (fmt_d k) = map_option si_ShardID (ShardMap_GetShard k (lm_shardMap m)))
    \<and> dom partitions = fmt_d ` dom (sm_partitions (lm_shardMap m))
    \<and> n = ShardMap_PartitionCount (lm_shardMap m)"
proof -
  let ?sm = "lm_shardMap m"
  have parts: "partitions = put_shards po ?sm (ShardMap_AllShards ks ?sm) Map.empty" "n = card (dom partitions)"
    using assms(4) by (auto simp: LoadMonitor_HandleShardMap_def Let_def)
  have ids: "si_ShardID info \<in> si_ShardID ` set (ShardMap_AllShards ks ?sm)" if "sm_partitions ?sm k = Some info" for k info
    unfolding all_shards_range(2) [OF assms(2)] using that by (auto simp: ran_def)
  have at: "partitions (fmt_d k) = map_option si_ShardID (ShardMap_GetShard k ?sm)" if "k \<in> go_ints" for k
    unfolding parts(1) using put_shards_apply [OF assms(1) _ that, of po] assms(3) ids
    by (auto simp: ShardMap_GetShard_def split: option.split)
  have dm: "dom partitions = fmt_d ` dom (sm_partitions ?sm)"
  proof
    show "dom partitions \<subseteq> fmt_d ` dom (sm_partitions ?sm)"
      unfolding parts(1) using put_shards_dom [of po ?sm _ Map.empty] by simp
    show "fmt_d ` dom (sm_partitions ?sm) \<subseteq> dom partitions"
      using at assms(1) by (force simp: ShardMap_GetShard_def)
  qed
  moreover have "inj_on fmt_d (dom (sm_partitions ?sm))"
    using assms(1) by (intro inj_onI) (simp add: fmt_inj subset_iff)
  ultimately show ?thesis
    using at parts(2) by (simp add: ShardMap_PartitionCount_def card_image)
qed

theorem shard_map_endpoint_exact_witness:
  "snd (LoadMonitor_HandleShardMap [0, 1, 2, 3] (\<lambda>i. [3, 2, 1, 0]) example_monitor) = 4"
proof -
  have d: "dom (sm_partitions (lm_shardMap example_monitor)) = {0, 1, 2, 3}"
    by (auto simp: example_monitor_def NewLoadMonitor_def)
  then show ?thesis
    using shard_map_endpoint_exact [OF _ _ _ prod.collapse [symmetric], of example_monitor "[0, 1, 2, 3]" "\<lambda>i. [3, 2, 1, 0]"]
    by (simp add: visits_def go_ints_def insert_commute ShardMap_PartitionCount_def)
qed

end
