(* ===== verification/Duration.thy ===== *)
theory Duration
  imports Strconv
begin

text \<open>
  \<^verbatim>\<open>time.ParseDuration\<close> of Go's standard library, with which the load monitor and the load generator read
  their settings: a sequence of decimal numbers, each with an optional fraction and a unit. A duration is a
  count of nanoseconds. What a fraction contributes is computed by Go in floating point: \<open>fl f u k\<close> stands
  for the truncated product of \<open>f\<close> and the quotient of the unit \<open>u\<close> by \<open>10^k\<close>, for a fraction of the \<open>k\<close> digits \<open>f\<close>.
\<close>

section \<open>Model\<close>

datatype duration_error = InvalidDuration | DurationOverflow | MissingUnit | UnknownUnit string

text \<open>The two ways to write the micro sign are the bytes of U+00B5 and of U+03BC.\<close>

definition unit_ns :: "string \<Rightarrow> nat option" where
  "unit_ns u =
     (if u = ''ns'' then Some 1
      else if u = ''us'' \<or> u = [CHR 0xC2, CHR 0xB5, CHR ''s''] \<or> u = [CHR 0xCE, CHR 0xBC, CHR ''s''] then Some (10 ^ 3)
      else if u = ''ms'' then Some (10 ^ 6)
      else if u = ''s'' then Some (10 ^ 9)
      else if u = ''m'' then Some (60 * 10 ^ 9)
      else if u = ''h'' then Some (3600 * 10 ^ 9)
      else None)"

definition starts_number :: "char \<Rightarrow> bool" where
  "starts_number c \<longleftrightarrow> c = CHR ''.'' \<or> digit_val c \<noteq> None"

text \<open>The digits of a fraction: those that fit are kept, with how many they are.\<close>

fun leadingFraction :: "nat \<Rightarrow> nat \<Rightarrow> bool \<Rightarrow> string \<Rightarrow> nat \<times> nat \<times> string" where
  "leadingFraction x k overflow [] = (x, k, [])"
| "leadingFraction x k overflow (c # cs) =
     (case digit_val c of
        None \<Rightarrow> (x, k, c # cs)
      | Some d \<Rightarrow>
          if overflow then leadingFraction x k True cs
          else if (2 ^ 63 - 1) div 10 < x then leadingFraction x k True cs
          else if 2 ^ 63 < 10 * x + d then leadingFraction x k True cs
          else leadingFraction (10 * x + d) (k + 1) False cs)"

text \<open>One number with its unit, from the front of the text.\<close>

definition parse_component :: "(nat \<Rightarrow> nat \<Rightarrow> nat \<Rightarrow> nat) \<Rightarrow> string \<Rightarrow> duration_error + nat \<times> string" where
  "parse_component fl s =
     (if s = [] \<or> \<not> starts_number (hd s) then Inl InvalidDuration
      else case scan_digits 0 s of (v, s1) \<Rightarrow>
        if 2 ^ 63 < v then Inl InvalidDuration
        else (case (if s1 \<noteq> [] \<and> hd s1 = CHR ''.'' then leadingFraction 0 0 False (tl s1) else (0, 0, s1)) of
          (f, k, s2) \<Rightarrow>
            let pre = (length s1 \<noteq> length s);
                post = (s1 \<noteq> [] \<and> hd s1 = CHR ''.'' \<and> length s2 \<noteq> length (tl s1));
                u = takeWhile (\<lambda>c. \<not> starts_number c) s2;
                s3 = dropWhile (\<lambda>c. \<not> starts_number c) s2
            in if \<not> pre \<and> \<not> post then Inl InvalidDuration
               else if u = [] then Inl MissingUnit
               else (case unit_ns u of
                       None \<Rightarrow> Inl (UnknownUnit u)
                     | Some unit \<Rightarrow>
                         if 2 ^ 63 div unit < v then Inl DurationOverflow
                         else let v1 = v * unit + (if 0 < f then fl f unit k else 0)
                              in if 2 ^ 63 < v1 then Inl DurationOverflow else Inr (v1, s3))))"

text \<open>The loop over the text, and the result.\<close>

lemma fraction_shorter: "leadingFraction x k b s = (f, k', s') \<Longrightarrow> length s' \<le> length s"
  by (induction x k b s rule: leadingFraction.induct) (fastforce split: option.splits if_splits)+

lemma scan_digits_shorter: "scan_digits acc s = (n, s') \<Longrightarrow> length s' \<le> length s"
  by (induction acc s rule: scan_digits.induct) (fastforce split: option.splits)+

lemma component_shorter:
  assumes "parse_component fl s = Inr (v, s')"
  shows "length s' < length s"
proof -
  obtain n s1 where 1: "scan_digits 0 s = (n, s1)" by force
  obtain f k s2 where 2: "(if s1 \<noteq> [] \<and> hd s1 = CHR ''.'' then leadingFraction 0 0 False (tl s1) else (0, 0, s1)) = (f, k, s2)"
    by (metis prod_cases3)
  have l: "length s1 \<le> length s" "length s2 \<le> length s1"
    using scan_digits_shorter [OF 1] 2 fraction_shorter [of 0 0 False "tl s1" f k s2] by (auto split: if_splits)
  have u: "takeWhile (\<lambda>c. \<not> starts_number c) s2 \<noteq> []" "s' = dropWhile (\<lambda>c. \<not> starts_number c) s2"
    using assms 1 2 by (auto simp: parse_component_def Let_def split: if_splits option.splits)
  have "length (takeWhile (\<lambda>c. \<not> starts_number c) s2) + length s' = length s2"
    unfolding u(2) by (metis length_append takeWhile_dropWhile_id)
  moreover have "0 < length (takeWhile (\<lambda>c. \<not> starts_number c) s2)" using u(1) by simp
  ultimately show ?thesis using l by linarith
qed

function duration_loop :: "(nat \<Rightarrow> nat \<Rightarrow> nat \<Rightarrow> nat) \<Rightarrow> string \<Rightarrow> nat \<Rightarrow> duration_error + nat" where
  "duration_loop fl s d =
     (if s = [] then Inr d
      else case parse_component fl s of
        Inl e \<Rightarrow> Inl e
      | Inr (v, s') \<Rightarrow> if 2 ^ 63 < d + v then Inl DurationOverflow else duration_loop fl s' (d + v))"
  by auto

termination
  by (relation "measure (\<lambda>(fl, s, d). length s)") (auto dest: component_shorter)

declare duration_loop.simps [simp del]

definition ParseDuration :: "(nat \<Rightarrow> nat \<Rightarrow> nat \<Rightarrow> nat) \<Rightarrow> string \<Rightarrow> duration_error + int" where
  "ParseDuration fl text =
     (case scan_sign text of (neg, s) \<Rightarrow>
        if s = ''0'' then Inr 0
        else if s = [] then Inl InvalidDuration
        else (case duration_loop fl s 0 of
                Inl e \<Rightarrow> Inl e
              | Inr d \<Rightarrow> if neg then Inr (- int d) else if 2 ^ 63 - 1 < d then Inl DurationOverflow else Inr (int d)))"

section \<open>Facts\<close>

text \<open>A result is always a 64-bit count.\<close>

lemma duration_loop_bound: "duration_loop fl s d = Inr d' \<Longrightarrow> d \<le> 2 ^ 63 \<Longrightarrow> d' \<le> 2 ^ 63"
proof (induction fl s d rule: duration_loop.induct)
  case (1 fl s d)
  then show ?case by (auto simp: duration_loop.simps [of fl s d] split: if_splits sum.splits)
qed

lemma ParseDuration_bounds: "ParseDuration fl s = Inr d \<Longrightarrow> - (2 ^ 63) \<le> d \<and> d < 2 ^ 63"
  by (auto simp: ParseDuration_def split: if_splits sum.splits prod.splits dest!: duration_loop_bound)

text \<open>Reading back what is written with whole numbers.\<close>

lemma unit_chars:
  assumes "unit_ns u = Some ns"
  shows "u \<noteq> []" "\<forall>c \<in> set u. \<not> starts_number c" "0 < ns"
  using assms by (auto simp: unit_ns_def starts_number_def digit_val_def split: if_splits)

lemma digit_starts: "d < 10 \<Longrightarrow> starts_number (digit d)"
  by (simp add: starts_number_def)

lemma scan_number: "(rest = [] \<or> digit_val (hd rest) = None) \<Longrightarrow> scan_digits 0 (dec_nat n @ rest) = (n, rest)"
  using scan_digits_append [OF scan_dec_nat, of n rest] by (cases rest) simp_all

definition ends_unit :: "string \<Rightarrow> bool" where
  "ends_unit rest \<longleftrightarrow> rest = [] \<or> starts_number (hd rest)"

lemma parse_whole:
  assumes "unit_ns u = Some ns" "n * ns \<le> 2 ^ 63" "ends_unit rest"
  shows "parse_component fl (dec_nat n @ u @ rest) = Inr (n * ns, rest)"
proof -
  note u = unit_chars [OF assms(1)]
  have hd: "\<not> starts_number (hd (u @ rest))" using u by (cases u) auto
  then have scan: "scan_digits 0 (dec_nat n @ u @ rest) = (n, u @ rest)"
    by (intro scan_number) (simp add: starts_number_def)
  obtain d cs where "d < 10" "dec_nat n = digit d # cs" using dec_nat_hd by blast
  then have start: "starts_number (hd (dec_nat n @ u @ rest))" "dec_nat n @ u @ rest \<noteq> []" "dec_nat n \<noteq> []"
    using digit_starts by simp_all
  have tw: "takeWhile (\<lambda>c. \<not> starts_number c) (u @ rest) = u" "dropWhile (\<lambda>c. \<not> starts_number c) (u @ rest) = rest"
    using u(2) assms(3) by (cases rest; auto simp: ends_unit_def takeWhile_append dropWhile_append)+
  have n: "n \<le> 2 ^ 63 div ns" using assms(2) u(3) by (simp add: less_eq_div_iff_mult_less_eq)
  then have "n \<le> 2 ^ 63" using div_le_dividend order_trans by blast
  moreover have "hd (u @ rest) \<noteq> CHR ''.''" using hd by (auto simp: starts_number_def)
  ultimately show ?thesis
    using n start assms(1,2) u(1) unfolding parse_component_def scan by (simp add: tw Let_def)
qed

definition duration_text :: "(nat \<times> string) list \<Rightarrow> string" where
  "duration_text cs = concat (map (\<lambda>(n, u). dec_nat n @ u) cs)"

definition duration_value :: "(nat \<times> string) list \<Rightarrow> nat" where
  "duration_value cs = sum_list (map (\<lambda>(n, u). n * the (unit_ns u)) cs)"

lemma duration_text_ends: "ends_unit (duration_text cs)"
proof (cases cs)
  case (Cons c cs')
  obtain n u where c: "c = (n, u)" by (cases c)
  obtain d ds where "d < 10" "dec_nat n = digit d # ds" using dec_nat_hd by blast
  then show ?thesis using Cons digit_starts by (simp add: duration_text_def ends_unit_def c)
qed (simp add: duration_text_def ends_unit_def)

lemma duration_loop_text:
  "\<forall>(n, u) \<in> set cs. unit_ns u \<noteq> None \<Longrightarrow> d + duration_value cs \<le> 2 ^ 63 \<Longrightarrow>
   duration_loop fl (duration_text cs) d = Inr (d + duration_value cs)"
proof (induction cs arbitrary: d)
  case (Cons c cs)
  obtain n u ns where c: "c = (n, u)" "unit_ns u = Some ns" using Cons.prems(1) by (cases c) auto
  have v: "duration_value (c # cs) = n * ns + duration_value cs" by (simp add: duration_value_def c)
  have t: "duration_text (c # cs) = dec_nat n @ u @ duration_text cs" by (simp add: duration_text_def c)
  have "parse_component fl (duration_text (c # cs)) = Inr (n * ns, duration_text cs)"
    unfolding t using Cons.prems(2) v by (intro parse_whole [OF c(2) _ duration_text_ends]) linarith
  moreover have "duration_text (c # cs) \<noteq> []" using unit_chars(1) [OF c(2)] by (simp add: t)
  ultimately show ?case
    using Cons.IH [of "d + n * ns"] Cons.prems v by (simp add: duration_loop.simps [of fl "duration_text (c # cs)" d] add.assoc)
qed (simp add: duration_loop.simps duration_text_def duration_value_def)

text \<open>
  Durations are read as they are written. A text of one or more whole numbers, each with a unit, such as
  \<^verbatim>\<open>2s\<close> or \<^verbatim>\<open>1h30m\<close>, parses to the sum of the components in nanoseconds, if that fits in 64 bits, whatever the
  floating-point arithmetic does with fractions.
\<close>

lemma parse_duration_text:
  assumes "cs \<noteq> []" "\<forall>(n, u) \<in> set cs. unit_ns u \<noteq> None" "duration_value cs < 2 ^ 63"
  shows "ParseDuration fl (duration_text cs) = Inr (int (duration_value cs))"
proof -
  obtain n u cs' where cs: "cs = (n, u) # cs'" using assms(1) by (cases cs) auto
  then obtain ns where u: "unit_ns u = Some ns" using assms(2) by auto
  obtain d ds where d: "d < 10" "dec_nat n = digit d # ds" using dec_nat_hd by blast
  have t: "duration_text cs = digit d # ds @ u @ duration_text cs'" by (simp add: duration_text_def cs d)
  have "scan_sign (duration_text cs) = (False, duration_text cs)" using digit_not_special [OF d(1)] by (simp add: scan_sign_def t)
  moreover have "duration_text cs \<noteq> ''0''" "duration_text cs \<noteq> []" using unit_chars(1) [OF u] by (simp_all add: t)
  ultimately show ?thesis
    using duration_loop_text [OF assms(2), of 0 fl] assms(3) by (simp add: ParseDuration_def)
qed

end
