(* ===== verification/MonitorProcess.thy ===== *)
theory MonitorProcess
  imports LoadMonitor CoordinatorProcess Duration
begin

text \<open>
  \<^verbatim>\<open>cmd/load-monitor/main.go\<close>: the process around the load monitor of \<^verbatim>\<open>load-monitor/monitor.go\<close>. It reads its
  settings, loads the shard map, runs the polling loop and serves five paths. A \<^verbatim>\<open>log.Fatalf\<close> is a value of
  \<open>monitor_fatal\<close>. The texts of the rates, which are computed in floating point, are an argument of the page.
\<close>

section \<open>Model\<close>

datatype monitor_fatal =
    InvalidPollInterval duration_error | InvalidThreshold string | InvalidCooldown duration_error
  | MonitorMapNotLoaded map_error

record monitor_process =
  mp_addr :: string
  mp_monitor :: LoadMonitor

definition monitor_main ::
    "(nat \<Rightarrow> nat \<Rightarrow> nat \<Rightarrow> nat) \<Rightarrow> string list \<Rightarrow> bool \<Rightarrow> map_file \<Rightarrow> bool list \<Rightarrow> (string \<Rightarrow> string) \<Rightarrow> monitor_fatal + monitor_process" where
  "monitor_main fl keys readable file io env =
     (let thresholdStr = envOrDefault env ''HOTSPOT_THRESHOLD'' ''5'' in
      case ParseDuration fl (envOrDefault env ''POLL_INTERVAL'' ''1s'') of
        Inl e \<Rightarrow> Inl (InvalidPollInterval e)
      | Inr pollInterval \<Rightarrow>
     (case Atoi thresholdStr of
        None \<Rightarrow> Inl (InvalidThreshold thresholdStr)
      | Some threshold \<Rightarrow>
     (case ParseDuration fl (envOrDefault env ''MIGRATION_COOLDOWN'' ''2s'') of
        Inl e \<Rightarrow> Inl (InvalidCooldown e)
      | Inr cooldown \<Rightarrow>
     (case LoadShardMap keys readable file io of
        Inl e \<Rightarrow> Inl (MonitorMapNotLoaded e)
      | Inr sm \<Rightarrow>
          Inr \<lparr>mp_addr = envOrDefault env ''MONITOR_ADDR'' '':8090'',
               mp_monitor = NewLoadMonitor sm threshold pollInterval cooldown\<rparr>))))"

text \<open>The page: two samples per shard that has metrics, in the order \<open>ks\<close>, and the number of migrations.\<close>

definition LoadMonitor_HandlePrometheusMetrics :: "(string \<Rightarrow> string) \<Rightarrow> string list \<Rightarrow> LoadMonitor \<Rightarrow> string list" where
  "LoadMonitor_HandlePrometheusMetrics tps ks m =
     concat (map (\<lambda>i. case lm_metrics m i of
         None \<Rightarrow> []
       | Some metrics \<Rightarrow>
           [''monitor_queue_depth'' @ shard_label i @ '' '' @ fmt_d (m_QueueDepth metrics),
            ''monitor_tps'' @ shard_label i @ '' '' @ tps i]) ks)
     @ [''monitor_migration_total '' @ fmt_d (int (length (lm_migrations m)))]"

datatype monitor_reply =
    MonitorHealthy | MonitorMetrics "string \<rightharpoonup> ShardMetrics" | MonitorMigrations "MigrationEvent list"
  | MonitorPage "string list" | MonitorShardMap "string \<rightharpoonup> string" nat | MonitorNotFound

definition LoadMonitor_HandleHealth :: monitor_reply where
  "LoadMonitor_HandleHealth = MonitorHealthy"

definition monitor_serve ::
    "(string \<Rightarrow> string) \<Rightarrow> string list \<Rightarrow> int list \<Rightarrow> (string \<Rightarrow> int list) \<Rightarrow> string \<Rightarrow> monitor_process \<Rightarrow> nat \<times> monitor_reply" where
  "monitor_serve tps ks ps po path p =
     (let m = mp_monitor p in
      if path = ''/health'' then (StatusOK, LoadMonitor_HandleHealth)
      else if path = ''/metrics'' then (StatusOK, MonitorMetrics (LoadMonitor_GetMetrics ks m))
      else if path = ''/migrations'' then (StatusOK, MonitorMigrations (LoadMonitor_HandleMigrations m))
      else if path = ''/metrics/prometheus'' then (StatusOK, MonitorPage (LoadMonitor_HandlePrometheusMetrics tps ks m))
      else if path = ''/shard-map'' then (case LoadMonitor_HandleShardMap ps po m of (t, n) \<Rightarrow> (StatusOK, MonitorShardMap t n))
      else (StatusNotFound, MonitorNotFound))"

section \<open>Runs of the monitor\<close>

text \<open>A run as the runtime can produce it: every order visits the table, and the clock does not run
  backwards.\<close>

fun events_ok :: "(int \<rightharpoonup> ShardInfo) \<Rightarrow> nat \<Rightarrow> monitor_event list \<Rightarrow> bool" where
  "events_ok ps now [] = True"
| "events_ok ps now (Check ks t # evs) = (now \<le> t \<and> visits ks ps \<and> events_ok ps t evs)"
| "events_ok ps now (Migrate i ks t # evs) = (now \<le> t \<and> visits ks ps \<and> events_ok ps t evs)"
| "events_ok ps now (ev # evs) = events_ok ps now evs"

text \<open>No check for hotspots comes while a migration is in flight.\<close>

fun no_overtaking :: "monitor_event list \<Rightarrow> monitor_state \<Rightarrow> bool" where
  "no_overtaking [] st = True"
| "no_overtaking (ev # evs) st =
     ((case ev of Check ks t \<Rightarrow> fst (snd st) = [] | _ \<Rightarrow> True) \<and> no_overtaking evs (monitor_step ev st))"

text \<open>Migrations in a history are at least the cooldown apart.\<close>

fun spaced :: "int \<Rightarrow> MigrationEvent list \<Rightarrow> bool" where
  "spaced c [] = True"
| "spaced c [e] = True"
| "spaced c (e # e' # es) = (c \<le> int (me_TriggeredAt e') - int (me_CompletedAt e) \<and> spaced c (e' # es))"

lemma spaced_snoc:
  "spaced c (es @ [e]) \<longleftrightarrow> spaced c es \<and> (es = [] \<or> c \<le> int (me_TriggeredAt e) - int (me_CompletedAt (last es)))"
  by (induction c es rule: spaced.induct) auto

text \<open>What is in flight: from which shard to which, since when and, once it is picked, which partition.\<close>

fun mig_shards :: "migration \<Rightarrow> ShardInfo \<times> ShardInfo" where
  "mig_shards (MigStart hot cool) = (hot, cool)"
| "mig_shards (MigDepth hot cool t k) = (hot, cool)"
| "mig_shards (MigUpdate hot cool t k d) = (hot, cool)"
| "mig_shards (MigRecord hot cool t k d) = (hot, cool)"

fun mig_begun :: "nat \<Rightarrow> migration \<Rightarrow> nat" where
  "mig_begun now (MigStart hot cool) = now"
| "mig_begun now (MigDepth hot cool t k) = t"
| "mig_begun now (MigUpdate hot cool t k d) = t"
| "mig_begun now (MigRecord hot cool t k d) = t"

fun mig_partition :: "migration \<Rightarrow> int option" where
  "mig_partition (MigStart hot cool) = None"
| "mig_partition (MigDepth hot cool t k) = Some k"
| "mig_partition (MigUpdate hot cool t k d) = Some k"
| "mig_partition (MigRecord hot cool t k d) = Some k"

definition shards_ok :: "(int \<rightharpoonup> ShardInfo) \<Rightarrow> ShardInfo \<times> ShardInfo \<Rightarrow> bool" where
  "shards_ok ps w \<longleftrightarrow> fst w \<in> ran ps \<and> snd w \<in> ran ps \<and> si_ShardID (fst w) \<noteq> si_ShardID (snd w)"

definition flight_ok :: "(int \<rightharpoonup> ShardInfo) \<Rightarrow> nat \<Rightarrow> migration \<Rightarrow> bool" where
  "flight_ok ps now g \<longleftrightarrow> shards_ok ps (mig_shards g) \<and> mig_begun now g \<le> now
     \<and> (\<forall>k. mig_partition g = Some k \<longrightarrow> k \<in> dom ps)"

text \<open>A recorded migration: a partition of the table, from one of its shards to another one.\<close>

definition event_ok :: "(int \<rightharpoonup> ShardInfo) \<Rightarrow> MigrationEvent \<Rightarrow> bool" where
  "event_ok ps e \<longleftrightarrow> me_PartitionID e \<in> dom ps \<and> me_FromShard e \<in> si_ShardID ` ran ps \<and> me_ToShard e \<in> si_ShardID ` ran ps
     \<and> me_FromShard e \<noteq> me_ToShard e \<and> me_TriggeredAt e \<le> me_CompletedAt e"

definition monitor_inv :: "LoadMonitor \<Rightarrow> nat \<Rightarrow> monitor_state \<Rightarrow> bool" where
  "monitor_inv m0 now st = (case st of (m, fl, ns) \<Rightarrow>
     let ps = sm_partitions (lm_shardMap m0) in
     dom (sm_partitions (lm_shardMap m)) = dom ps \<and> ran (sm_partitions (lm_shardMap m)) \<subseteq> ran ps
   \<and> lm_cooldown m = lm_cooldown m0 \<and> (\<forall>g \<in> set fl. flight_ok ps now g) \<and> (\<forall>e \<in> set (lm_migrations m). event_ok ps e))"

definition spaced_inv :: "nat \<Rightarrow> monitor_state \<Rightarrow> bool" where
  "spaced_inv now st = (case st of (m, fl, ns) \<Rightarrow>
     spaced (lm_cooldown m) (lm_migrations m) \<and> length fl \<le> 1
   \<and> (\<forall>g \<in> set fl. lm_migrations m = []
        \<or> lm_cooldown m \<le> int (mig_begun now g) - int (me_CompletedAt (last (lm_migrations m)))))"

lemma cooldown_frame:
  "lm_cooldown (LoadMonitor_pollShards ord nets ks ns m) = lm_cooldown m"
  "LoadMonitor_checkHotspots ks now m = (m', r) \<Longrightarrow> lm_cooldown m' = lm_cooldown m"
  by (auto simp: LoadMonitor_pollShards_def LoadMonitor_checkHotspots_def Let_def split: option.splits if_splits)

lemma mig_begun_mono: "now \<le> t \<Longrightarrow> mig_begun now g \<le> mig_begun t g"
  by (cases g) auto

lemma flight_ok_later: "flight_ok ps now g \<Longrightarrow> now \<le> t \<Longrightarrow> flight_ok ps t g"
  by (cases g) (auto simp: flight_ok_def)

text \<open>One step of a migration.\<close>

lemma migration_step_ok:
  assumes "migration_step ks t g m = (r, m')" "flight_ok ps now g" "now \<le> t"
    and "dom (sm_partitions (lm_shardMap m)) = dom ps" "ran (sm_partitions (lm_shardMap m)) \<subseteq> ran ps"
    and "\<forall>e \<in> set (lm_migrations m). event_ok ps e"
  shows "dom (sm_partitions (lm_shardMap m')) = dom ps" "ran (sm_partitions (lm_shardMap m')) \<subseteq> ran ps"
    "lm_cooldown m' = lm_cooldown m" "\<forall>e \<in> set (lm_migrations m'). event_ok ps e" "\<And>g'. r = Some g' \<Longrightarrow> flight_ok ps t g'"
proof -
  have sub: "dom ((sm_partitions (lm_shardMap m))(k \<mapsto> cool)) = dom ps" "ran ((sm_partitions (lm_shardMap m))(k \<mapsto> cool)) \<subseteq> ran ps"
    if "k \<in> dom ps" "cool \<in> ran ps" for k cool
    using that assms(4,5) by (auto simp: ran_def split: if_splits)
  have hd: "\<exists>info. ps k = Some info" if "ShardMap_GetPartitionsForShard ks i (lm_shardMap m) = k # kr" for i k kr
    using GetPartitionsForShard_hd [OF that] assms(4) by auto
  have upd: "sm_partitions (fst (ShardMap_UpdatePartition ks k c sm)) = (sm_partitions sm)(k \<mapsto> c)" for k c sm
    by (simp add: ShardMap_UpdatePartition_def ShardMap_saveLocked_def Let_def split: prod.splits bool.splits list.splits)
  note step = assms(1,2) and sh = flight_ok_def shards_ok_def LoadMonitor_recordMigration_def
  have "sm_partitions (lm_shardMap m') = sm_partitions (lm_shardMap m)
    \<or> (\<exists>k \<in> dom ps. \<exists>cool \<in> ran ps. sm_partitions (lm_shardMap m') = (sm_partitions (lm_shardMap m))(k \<mapsto> cool))"
  proof (cases g)
    case (MigUpdate hot cool start k d)
    then have "k \<in> dom ps" "cool \<in> ran ps" "lm_shardMap m' = fst (ShardMap_UpdatePartition ks k cool (lm_shardMap m))"
      using step by (auto simp: sh)
    then show ?thesis using upd by metis
  qed (use step in \<open>auto simp: sh\<close>)
  then show "dom (sm_partitions (lm_shardMap m')) = dom ps" "ran (sm_partitions (lm_shardMap m')) \<subseteq> ran ps"
    using sub assms(4,5) by metis+
  show "lm_cooldown m' = lm_cooldown m" using step by (cases g) (auto simp: sh)
  show "\<forall>e \<in> set (lm_migrations m'). event_ok ps e"
    using step assms(3,6) by (cases g) (auto simp: sh event_ok_def)
  show "flight_ok ps t g'" if "r = Some g'" for g'
    using step assms(3) hd that by (cases g) (auto simp: flight_ok_def split: list.splits)
qed

lemma check_ok:
  assumes "LoadMonitor_checkHotspots ks t m = (m', r)" "visits ks (sm_partitions (lm_shardMap m))"
  shows "lm_shardMap m' = lm_shardMap m" "lm_migrations m' = lm_migrations m" "lm_cooldown m' = lm_cooldown m"
    "\<And>hot cool. r = Some (hot, cool) \<Longrightarrow> shards_ok (sm_partitions (lm_shardMap m)) (hot, cool)
      \<and> (lm_migrations m = [] \<or> lm_cooldown m \<le> int t - int (me_CompletedAt (last (lm_migrations m))))"
  using checkHotspots_frame [OF assms(1)] cooldown_frame(2) [OF assms(1)] checkHotspots_justified [of ks t m m'] assms
  by (auto simp: justified_migration_def shards_ok_def)

lemma monitor_inv_later: "monitor_inv m0 now st \<Longrightarrow> now \<le> t \<Longrightarrow> monitor_inv m0 t st"
  by (auto simp: monitor_inv_def Let_def intro: flight_ok_later)

lemma spaced_inv_later:
  assumes "spaced_inv now st" "now \<le> t"
  shows "spaced_inv t st"
proof -
  obtain m fl ns where st: "st = (m, fl, ns)" by (cases st)
  have "c \<le> int (mig_begun t g) - x" if "c \<le> int (mig_begun now g) - x" for c x g
    using mig_begun_mono [OF assms(2), of g] that by linarith
  then show ?thesis using assms(1) by (auto simp: st spaced_inv_def)
qed

lemma monitor_inv_check:
  assumes "monitor_inv m0 now (m, fl, ns)" "now \<le> t" "visits ks (sm_partitions (lm_shardMap m0))"
  shows "monitor_inv m0 t (monitor_step (Check ks t) (m, fl, ns))"
    and "spaced_inv now (m, fl, ns) \<Longrightarrow> fl = [] \<Longrightarrow> spaced_inv t (monitor_step (Check ks t) (m, fl, ns))"
proof -
  let ?ps = "sm_partitions (lm_shardMap m0)"
  obtain m' r where chk: "LoadMonitor_checkHotspots ks t m = (m', r)" by force
  have v: "visits ks (sm_partitions (lm_shardMap m))" using assms(1,3) by (simp add: monitor_inv_def Let_def visits_def)
  note ok = check_ok [OF chk v]
  have "shards_ok ?ps (hot, cool)" if "r = Some (hot, cool)" for hot cool
    using ok(4) [OF that] assms(1) by (auto simp: monitor_inv_def Let_def shards_ok_def)
  then show "monitor_inv m0 t (monitor_step (Check ks t) (m, fl, ns))"
    using monitor_inv_later [OF assms(1,2)] chk ok(1-3)
    by (auto simp: monitor_inv_def Let_def flight_ok_def split: option.splits)
  show "spaced_inv t (monitor_step (Check ks t) (m, fl, ns))" if "spaced_inv now (m, fl, ns)" "fl = []"
    using that chk ok by (auto simp: spaced_inv_def split: option.splits)
qed

lemma monitor_inv_migrate:
  assumes "monitor_inv m0 now (m, fl, ns)" "now \<le> t"
  shows "monitor_inv m0 t (monitor_step (Migrate i ks t) (m, fl, ns))"
proof (cases "i < length fl")
  case True
  let ?ps = "sm_partitions (lm_shardMap m0)"
  obtain r m' where st: "migration_step ks t (fl ! i) m = (r, m')" by force
  have fl: "flight_ok ?ps now (fl ! i)" using assms(1) True by (simp add: monitor_inv_def Let_def)
  have inv: "dom (sm_partitions (lm_shardMap m)) = dom ?ps" "ran (sm_partitions (lm_shardMap m)) \<subseteq> ran ?ps"
    "\<forall>e \<in> set (lm_migrations m). event_ok ?ps e" "lm_cooldown m = lm_cooldown m0"
    using assms(1) by (simp_all add: monitor_inv_def Let_def)
  note ok = migration_step_ok [OF st fl assms(2) inv(1-3)]
  have old: "\<forall>g \<in> set fl. flight_ok ?ps t g" using monitor_inv_later [OF assms] by (simp add: monitor_inv_def Let_def)
  have "\<forall>g \<in> set (take i fl @ drop (Suc i) fl). flight_ok ?ps t g" using old by (auto dest: in_set_takeD in_set_dropD)
  moreover have "\<forall>g \<in> set (fl[i := g']). flight_ok ?ps t g" if "r = Some g'" for g'
    using old ok(5) [OF that] set_update_subset_insert [of fl i g'] by auto
  ultimately show ?thesis
    using True st ok(1-4) inv(4) by (cases r) (simp_all add: monitor_inv_def Let_def)
qed (use monitor_inv_later [OF assms] in simp)

lemma spaced_inv_migrate:
  assumes "spaced_inv now (m, fl, ns)" "now \<le> t"
  shows "spaced_inv t (monitor_step (Migrate i ks t) (m, fl, ns))"
proof (cases "i < length fl")
  case True
  then obtain g where g: "fl = [g]" "i = 0" using assms(1) by (cases fl) (auto simp: spaced_inv_def)
  show ?thesis
    using assms unfolding g
    by (cases g) (auto simp: spaced_inv_def spaced_snoc LoadMonitor_recordMigration_def split: list.splits)
qed (use spaced_inv_later [OF assms] in simp)

lemma monitor_inv_run:
  "monitor_inv m0 now st \<Longrightarrow> events_ok (sm_partitions (lm_shardMap m0)) now evs \<Longrightarrow>
     (\<exists>later. monitor_inv m0 later (monitor_run evs st))
     \<and> (spaced_inv now st \<and> no_overtaking evs st \<longrightarrow> (\<exists>later. spaced_inv later (monitor_run evs st)))"
proof (induction evs arbitrary: now st)
  case (Cons ev evs)
  obtain m fl ns where st: "st = (m, fl, ns)" by (cases st)
  have "\<exists>t. monitor_inv m0 t (monitor_step ev st) \<and> events_ok (sm_partitions (lm_shardMap m0)) t evs
      \<and> (spaced_inv now st \<and> no_overtaking (ev # evs) st \<longrightarrow> spaced_inv t (monitor_step ev st))"
  proof (cases ev)
    case (Poll ord nets ks)
    then show ?thesis
      using Cons.prems cooldown_frame(1) [of ord nets ks ns m] pollShards_frame [of ord nets ks ns m]
      by (intro exI [of _ now]) (auto simp: st monitor_inv_def spaced_inv_def Let_def)
  next
    case (Check ks t)
    then show ?thesis
      using Cons.prems monitor_inv_check [of m0 now m fl ns t ks] by (intro exI [of _ t]) (auto simp: st simp del: monitor_step.simps)
  next
    case (Migrate i ks t)
    then show ?thesis
      using Cons.prems monitor_inv_migrate [of m0 now m fl ns t i ks] spaced_inv_migrate [of now m fl ns t i ks]
      by (intro exI [of _ t]) (auto simp: st simp del: monitor_step.simps)
  next
    case (ShardsAct ns')
    then show ?thesis
      using Cons.prems by (intro exI [of _ now]) (auto simp: st monitor_inv_def spaced_inv_def)
  qed
  then obtain t where "monitor_inv m0 t (monitor_step ev st)" "events_ok (sm_partitions (lm_shardMap m0)) t evs"
    "spaced_inv now st \<and> no_overtaking (ev # evs) st \<longrightarrow> spaced_inv t (monitor_step ev st)" by blast
  with Cons.IH [of t "monitor_step ev st"] show ?case by (simp add: monitor_run_def)
qed (auto simp: monitor_run_def)

section \<open>Properties\<close>

lemma monitor_start_inv:
  assumes "monitor_main fl keys readable file io env = Inr p"
  shows "monitor_inv (mp_monitor p) now (mp_monitor p, [], ns)" "spaced_inv now (mp_monitor p, [], ns)"
    and "ParseDuration fl (envOrDefault env ''MIGRATION_COOLDOWN'' ''2s'') = Inr (lm_cooldown (mp_monitor p))"
  using assms
  by (auto simp: monitor_main_def Let_def monitor_inv_def spaced_inv_def NewLoadMonitor_def split: sum.splits option.splits)

text \<open>
  C31: The load monitor keeps to its table, and to its cooldown when nothing overtakes a migration. Once it has
  started, whatever the shards answer, and however its polls, its checks and the steps of the migrations in flight
  interleave on a clock that does not run backwards: the table has the partitions it was loaded with, each assigned to a
  shard of the loaded table, and every recorded migration is of such a partition, between two different shards of the
  table. If moreover no check for hotspots comes while a migration is in flight, two migrations are never closer
  together than the cooldown that is read from the environment (or its default of two seconds).
\<close>

theorem monitor_process_keeps_settings:
  assumes "monitor_main fl keys readable file io env = Inr p"
    and "events_ok (sm_partitions (lm_shardMap (mp_monitor p))) now evs"
    and "monitor_run evs (mp_monitor p, [], ns) = (m, flight, ns')"
  shows "dom (sm_partitions (lm_shardMap m)) = dom (sm_partitions (lm_shardMap (mp_monitor p)))
    \<and> ran (sm_partitions (lm_shardMap m)) \<subseteq> ran (sm_partitions (lm_shardMap (mp_monitor p)))
    \<and> (\<forall>e \<in> set (lm_migrations m). event_ok (sm_partitions (lm_shardMap (mp_monitor p))) e)
    \<and> (\<exists>cooldown. ParseDuration fl (envOrDefault env ''MIGRATION_COOLDOWN'' ''2s'') = Inr cooldown
        \<and> (no_overtaking evs (mp_monitor p, [], ns) \<longrightarrow> spaced cooldown (lm_migrations m)))"
proof -
  let ?m = "mp_monitor p"
  note start = monitor_start_inv [OF assms(1)]
  note run = monitor_inv_run [OF start(1) [of now ns] assms(2), unfolded assms(3)]
  obtain later where inv: "monitor_inv ?m later (m, flight, ns')" using run by blast
  then have cd: "lm_cooldown m = lm_cooldown ?m" by (simp add: monitor_inv_def Let_def)
  have "spaced (lm_cooldown ?m) (lm_migrations m)" if "no_overtaking evs (?m, [], ns)"
    using run start(2) [of now ns] that cd by (auto simp: spaced_inv_def)
  with inv start(3) show ?thesis by (simp add: monitor_inv_def Let_def)
qed

text \<open>
  When a check overtakes a migration, the cooldown does not hold: the history has nothing of a migration
  that is in flight, so the check starts another one. Here the second round comes while the first migration has not
  been recorded, and both are recorded within ten nanoseconds, against a cooldown of two seconds.
\<close>

abbreviation example_load :: "int64 \<Rightarrow> nodes" where
  "example_load n \<equiv> [''s1:8081'' \<mapsto> example_busy n, ''s2:8082'' \<mapsto> example_busy 0]"

definition example_overtaken :: "monitor_event list" where
  "example_overtaken =
     [Poll example_orders [] [0, 1, 2, 3], Check [0, 1, 2, 3] 1, ShardsAct (example_load 20), Poll example_orders [] [0, 1, 2, 3],
      Check [0, 1, 2, 3] 2] @ whole_migration [0, 1, 2, 3] 3 4 5 6 @ whole_migration [0, 1, 2, 3] 7 8 9 10"

lemma overtaken_migrations_ignore_cooldown:
  "map (\<lambda>e. (me_PartitionID e, me_TriggeredAt e, me_CompletedAt e))
     (lm_migrations (fst (monitor_run example_overtaken (example_monitor, [], example_load 8)))) = [(0, 3, 6), (2, 7, 10)]"
  "lm_cooldown example_monitor = 2000000000"
  by (simp_all add: example_overtaken_def monitor_run_def monitor_eval example_monitor_def NewLoadMonitor_def example_shards_def
      example_orders_def example_busy_def example_shard_def)



subsection \<open>Witnesses\<close>

definition example_monitor_process :: monitor_process where
  "example_monitor_process = \<lparr>mp_addr = '':8090'',
     mp_monitor = NewLoadMonitor (ro_shardMap (cp_router example_coordinator)) 5 1000000000 2000000000\<rparr>"

lemma example_monitor_main:
  "monitor_main fl [''0'', ''1''] True (MapFile example_map) [] (\<lambda>_. '''') = Inr example_monitor_process"
proof -
  have "Sscanf_d ''0'' = Some 0" "Sscanf_d ''1'' = Some 1" "Atoi ''5'' = Some 5" by code_simp+
  moreover have "duration_text [(1, ''s'')] = ''1s''" "duration_text [(2, ''s'')] = ''2s''" by code_simp+
  then have "ParseDuration fl ''1s'' = Inr 1000000000" "ParseDuration fl ''2s'' = Inr 2000000000"
    using parse_duration_text [of "[(1, ''s'')]" fl] parse_duration_text [of "[(2, ''s'')]" fl]
    by (simp_all add: duration_value_def unit_ns_def)
  ultimately show ?thesis
    by (simp add: monitor_main_def LoadShardMap_def example_map_def envOrDefault_def Let_def example_monitor_process_def
        example_coordinator_def NewRouter_def)
qed

definition example_events :: "monitor_event list" where
  "example_events = [Poll example_orders [] [0, 1], Check [0, 1] 10, Migrate 0 [0, 1] 11, Migrate 0 [0, 1] 12, Migrate 0 [0, 1] 13,
     Migrate 0 [0, 1] 14, ShardsAct (example_load 20), Poll example_orders [] [0, 1], Check [0, 1] 20]"

theorem monitor_process_keeps_settings_witness:
  "no_overtaking example_events (mp_monitor example_monitor_process, [], example_load 8)
   \<and> (\<exists>m. fst (monitor_run example_events (mp_monitor example_monitor_process, [], example_load 8)) = m
       \<and> length (lm_migrations m) = 1 \<and> spaced 2000000000 (lm_migrations m)
       \<and> dom (sm_partitions (lm_shardMap m)) = {0, 1})"
proof -
  let ?m = "mp_monitor example_monitor_process"
  obtain m flight ns' where run: "monitor_run example_events (?m, [], example_load 8) = (m, flight, ns')" by (metis prod_cases3)
  note eval = example_events_def monitor_run_def monitor_eval example_monitor_process_def NewLoadMonitor_def example_shards_def
    example_orders_def example_busy_def example_shard_def example_coordinator_def NewRouter_def
  have quiet: "no_overtaking example_events (?m, [], example_load 8)" by (simp add: eval)
  have "length (lm_migrations (fst (monitor_run example_events (?m, [], example_load 8)))) = 1" by (simp add: eval)
  then have one: "length (lm_migrations m) = 1" by (simp add: run)
  have d: "dom (sm_partitions (lm_shardMap ?m)) = {0, 1}"
    by (auto simp: example_monitor_process_def NewLoadMonitor_def example_coordinator_def NewRouter_def Let_def)
  have ok: "events_ok (sm_partitions (lm_shardMap ?m)) 0 example_events"
    by (simp add: example_events_def visits_def d insert_commute)
  have "duration_text [(2, ''s'')] = ''2s''" by code_simp
  then have cd: "ParseDuration (\<lambda>a b c. 0) (envOrDefault (\<lambda>_. '''') ''MIGRATION_COOLDOWN'' ''2s'') = Inr 2000000000"
    using parse_duration_text [of "[(2, ''s'')]" "\<lambda>a b c. 0"] by (simp add: envOrDefault_def duration_value_def unit_ns_def)
  from monitor_process_keeps_settings [OF example_monitor_main [of "\<lambda>a b c. 0"] ok run] cd quiet d one show ?thesis
    by (simp add: run)
qed



end
