(* ===== verification/LoadGen.thy ===== *)
theory LoadGen
  imports CoordinatorProcess Duration
begin

text \<open>
  \<^verbatim>\<open>cmd/loadgen/main.go\<close>: the load generator. It seeds an account \<^verbatim>\<open>__bank__\<close> on every shard, creates the
  accounts \<^verbatim>\<open>user0\<close>, \<^verbatim>\<open>user1\<close>, \<dots> on every shard, fills each with a transfer from the bank that it submits to
  the coordinator, and then submits random transfers until its time is up. The base URL is taken to be the
  coordinator's, as its default is. How the network treats each request, in which order the shards are
  visited, what the random numbers are and what the clock says are arguments.
\<close>

section \<open>Model\<close>

text \<open>\<open>Atoi\<close> with its error ignored: zero for a text that is not a number, the nearest 64-bit number for one
  that is out of range.\<close>

fun scan_uint :: "nat \<Rightarrow> string \<Rightarrow> nat option" where
  "scan_uint acc [] = Some acc"
| "scan_uint acc (c # cs) =
     (case digit_val c of
        None \<Rightarrow> None
      | Some d \<Rightarrow> if 2 ^ 64 \<le> 10 * acc + d then Some (2 ^ 64 - 1) else scan_uint (10 * acc + d) cs)"

definition Atoi_value :: "string \<Rightarrow> int" where
  "Atoi_value s =
     (case scan_sign s of (neg, cs) \<Rightarrow>
        if cs = [] then 0
        else case scan_uint 0 cs of
          None \<Rightarrow> 0
        | Some n \<Rightarrow> if neg then - int (min n (2 ^ 63)) else int (min n (2 ^ 63 - 1)))"

record loadgen =
  lg_numAccounts :: int
  lg_numWorkers :: int
  lg_duration :: int
  lg_shardAddrs :: "string list"

definition loadgen_env :: "(nat \<Rightarrow> nat \<Rightarrow> nat \<Rightarrow> nat) \<Rightarrow> (string \<Rightarrow> string) \<Rightarrow> loadgen" where
  "loadgen_env fl env =
     \<lparr>lg_numAccounts = Atoi_value (envOrDefault env ''NUM_ACCOUNTS'' ''1000''),
      lg_numWorkers = Atoi_value (envOrDefault env ''NUM_WORKERS'' ''100''),
      lg_duration = (case ParseDuration fl (envOrDefault env ''DURATION'' ''10s'') of Inl e \<Rightarrow> 0 | Inr d \<Rightarrow> d),
      lg_shardAddrs = [envOrDefault env ''SHARD1_ADDR'' ''shard1:8081'', envOrDefault env ''SHARD2_ADDR'' ''shard2:8082'',
                       envOrDefault env ''SHARD3_ADDR'' ''shard3:8083'']\<rparr>"

definition totalSystemBalance :: "loadgen \<Rightarrow> int64" where
  "totalSystemBalance lg = word_of_int (lg_numAccounts lg) * 1000"

definition user :: "int \<Rightarrow> string" where
  "user i = ''user'' @ fmt_d i"

subsection \<open>Seeding\<close>

datatype direct_error = CreateRequestFailed | CreateStatus nat

definition seedAccountDirect :: "net \<Rightarrow> string \<Rightarrow> string \<Rightarrow> int64 \<Rightarrow> nodes \<Rightarrow> nodes \<times> direct_error option" where
  "seedAccountDirect n addr a x ns =
     (case ns addr of
        None \<Rightarrow> (ns, Some CreateRequestFailed)
      | Some s \<Rightarrow>
          if n = RequestLost then (ns, Some CreateRequestFailed)
          else (case handleCreateAccount MethodPost (Some (a, x)) s of
                  (s', status, _) \<Rightarrow>
                    (ns(addr \<mapsto> s'),
                     if n = ReplyLost then Some CreateRequestFailed
                     else if 400 \<le> status then Some (CreateStatus status) else None)))"

text \<open>A loop over the shards, each with what the network does to its request.\<close>

fun seed_shards :: "(net \<times> string) list \<Rightarrow> string \<Rightarrow> int64 \<Rightarrow> nodes \<Rightarrow> nodes" where
  "seed_shards [] a x ns = ns"
| "seed_shards ((n, addr) # rest) a x ns = seed_shards rest a x (fst (seedAccountDirect n addr a x ns))"

definition seed_bank :: "loadgen \<Rightarrow> (net \<times> string) list \<Rightarrow> nodes \<Rightarrow> nodes" where
  "seed_bank lg visits_order ns = seed_shards visits_order ''__bank__'' (totalSystemBalance lg) ns"

text \<open>\<open>client.Do\<close> with a POST to \<^verbatim>\<open>/submit\<close>: the status if an answer arrives.\<close>

definition post_submit ::
    "net \<Rightarrow> net \<Rightarrow> run_env \<Rightarrow> Transaction \<Rightarrow> HTTPConsumer \<Rightarrow> nodes \<Rightarrow> HTTPConsumer \<times> nodes \<times> nat option" where
  "post_submit np n env txn c ns =
     (if np = RequestLost then (c, ns, None)
      else case HTTPConsumer_handleSubmit n env MethodPost (Some txn) c ns of
        (c', ns', status, _) \<Rightarrow> (c', ns', if np = ReplyLost then None else Some status))"

definition seed_txn :: "int \<Rightarrow> Transaction" where
  "seed_txn i = \<lparr>t_TxnID = ''seed-'' @ user i, t_Source = ''__bank__'', t_Destination = user i, t_Amount = 1000,
     t_State = StatePending\<rparr>"

text \<open>What the seeding of one account meets: the creations, and the submission.\<close>

record seed_meets =
  sd_creates :: "(net \<times> string) list"
  sd_post :: net
  sd_net :: net
  sd_env :: run_env

type_synonym counts = "int \<times> int"

definition seed_user :: "int \<Rightarrow> seed_meets \<Rightarrow> HTTPConsumer \<times> nodes \<times> counts \<Rightarrow> HTTPConsumer \<times> nodes \<times> counts" where
  "seed_user i sd st = (case st of (c, ns, successCount, failCount) \<Rightarrow>
     (case post_submit (sd_post sd) (sd_net sd) (sd_env sd) (seed_txn i) c (seed_shards (sd_creates sd) (user i) 0 ns) of
        (c', ns', r) \<Rightarrow>
          (case r of
             None \<Rightarrow> (c', ns', successCount, failCount + 1)
           | Some status \<Rightarrow>
               if 200 \<le> status \<and> status < 300 then (c', ns', successCount + 1, failCount)
               else (c', ns', successCount, failCount + 1))))"

definition seed_users :: "loadgen \<Rightarrow> (int \<Rightarrow> seed_meets) \<Rightarrow> HTTPConsumer \<times> nodes \<times> counts \<Rightarrow> HTTPConsumer \<times> nodes \<times> counts" where
  "seed_users lg sd st = fold (\<lambda>i. seed_user (int i) (sd (int i))) [0 ..< nat (lg_numAccounts lg)] st"

subsection \<open>The attack\<close>

text \<open>One iteration of a worker: its number, the three random numbers, the clock in nanoseconds, and what
  the request meets. The random numbers are those of \<open>rand.Intn(numAccounts)\<close>, twice, and \<open>rand.Intn(10)\<close>.\<close>

record iteration =
  it_worker :: int
  it_src :: int
  it_dst :: int
  it_amount :: int
  it_nano :: int
  it_post :: net
  it_net :: net
  it_env :: run_env

definition attack_txn :: "iteration \<Rightarrow> Transaction option" where
  "attack_txn it =
     (if user (it_src it) = user (it_dst it) then None
      else Some \<lparr>t_TxnID = ''w'' @ fmt_d (it_worker it) @ ''-'' @ fmt_d (it_nano it),
                 t_Source = user (it_src it), t_Destination = user (it_dst it),
                 t_Amount = word_of_int (it_amount it + 1), t_State = StatePending\<rparr>)"

definition attack_step :: "iteration \<Rightarrow> HTTPConsumer \<times> nodes \<times> counts \<Rightarrow> HTTPConsumer \<times> nodes \<times> counts" where
  "attack_step it st = (case st of (c, ns, txnSuccess, txnErr) \<Rightarrow>
     (case attack_txn it of
        None \<Rightarrow> (c, ns, txnSuccess, txnErr)
      | Some txn \<Rightarrow>
          (case post_submit (it_post it) (it_net it) (it_env it) txn c ns of
             (c', ns', r) \<Rightarrow>
               if r = None \<or> (\<exists>status. r = Some status \<and> 400 \<le> status) then (c', ns', txnSuccess, txnErr + 1)
               else (c', ns', txnSuccess + 1, txnErr))))"

text \<open>The workers' iterations in the order in which the coordinator serves their requests. \<open>None\<close>: \<open>rand.Intn\<close>
  panics when there is no account.\<close>

definition attack :: "loadgen \<Rightarrow> iteration list \<Rightarrow> HTTPConsumer \<times> nodes \<Rightarrow> (HTTPConsumer \<times> nodes \<times> counts) option" where
  "attack lg its st =
     (if its \<noteq> [] \<and> lg_numAccounts lg \<le> 0 then None
      else Some (fold attack_step its (fst st, snd st, 0, 0)))"

section \<open>Seeding\<close>

lemma create_post:
  assumes "ns addr = Some s" "wal_healthy (s_walLog s)" "l_balances (s_ledger s) a = None" "0 \<le> sint x" "n \<noteq> RequestLost" "a \<noteq> []"
  obtains s' where "fst (seedAccountDirect n addr a x ns) = ns(addr \<mapsto> s')"
    "l_balances (s_ledger s') = (l_balances (s_ledger s))(a \<mapsto> x)"
proof -
  have "\<not> x <s 0" using assms(4) by (simp add: signed_order)
  then obtain s' where s': "ShardServer_CreateAccountWithWAL a x s = (s', None)"
    using assms(2,3)
    by (auto simp: ShardServer_CreateAccountWithWAL_def Let_def log_effect_simps Ledger_AccountExists_def Ledger_CreateAccount_def)
  have "fst (seedAccountDirect n addr a x ns) = ns(addr \<mapsto> s')"
    using assms(1,5,6) s' by (simp add: seedAccountDirect_def handleCreateAccount_def)
  moreover have "l_balances (s_ledger s') = (l_balances (s_ledger s))(a \<mapsto> x)" using Create_log [OF assms(2) s'] by simp
  ultimately show ?thesis by (rule that)
qed

text \<open>Creating an account on each of a list of shards that have none adds its balance once per shard.\<close>

lemma seed_shards_funds:
  assumes "cluster_ok ns" "distinct (map snd vs)" "0 \<le> sint x" "a \<noteq> []"
    and "cluster_funds ns + int (length vs) * sint x < 2 ^ 63"
    and "\<forall>(n, addr) \<in> set vs. n \<noteq> RequestLost \<and> (\<exists>s. ns addr = Some s \<and> wal_healthy (s_walLog s) \<and> l_balances (s_ledger s) a = None)"
  shows "cluster_ok (seed_shards vs a x ns) \<and> cluster_funds (seed_shards vs a x ns) = cluster_funds ns + int (length vs) * sint x"
  using assms
proof (induction vs arbitrary: ns)
  case (Cons v vs)
  obtain n addr where v: "v = (n, addr)" by (cases v)
  obtain s where s: "ns addr = Some s" "wal_healthy (s_walLog s)" "l_balances (s_ledger s) a = None" "n \<noteq> RequestLost"
    using Cons.prems(6) v by auto
  obtain s' where s': "fst (seedAccountDirect n addr a x ns) = ns(addr \<mapsto> s')"
    "l_balances (s_ledger s') = (l_balances (s_ledger s))(a \<mapsto> x)"
    by (rule create_post [of ns addr s a x n]) (use s Cons.prems(3,4) in auto)
  have "Ledger_CreateAccount a x (s_ledger s) = (s_ledger s', None)"
    using s(3) s'(2) Cons.prems(3) by (simp add: Ledger_CreateAccount_def signed_order)
  moreover have "ledger_ok (s_ledger s)" "shard_funds s \<le> cluster_funds ns"
    using Cons.prems(1) s(1) shard_funds_le_cluster by (auto simp: cluster_ok_def shard_ok_def)
  moreover have "0 \<le> int (length vs) * sint x" using Cons.prems(3) by simp
  ultimately have f: "shard_ok s'" "shard_funds s' = shard_funds s + sint x"
    using CreateAccount_ok [of "s_ledger s" a x "s_ledger s'"] Cons.prems(5)
    by (auto simp: shard_ok_def shard_funds_def algebra_simps)
  define ns1 where "ns1 = ns(addr \<mapsto> s')"
  have fits: "0 \<le> int (length vs) * sint x" "cluster_funds ns + sint x + int (length vs) * sint x < 2 ^ 63"
    using Cons.prems(3,5) by (simp_all add: algebra_simps)
  have "finite (dom ns)" using Cons.prems(1) by (simp add: cluster_ok_def)
  then have cf: "cluster_funds ns1 = cluster_funds ns + sint x" using cluster_update [of ns addr s s'] s(1) f(2) by (simp add: ns1_def)
  have ok: "cluster_ok ns1" unfolding ns1_def by (rule cluster_ok_update [OF Cons.prems(1) s(1) f(1)]) (use f(2) fits in linarith)
  have d: "distinct (map snd vs)" "addr \<notin> snd ` set vs" using Cons.prems(2) by (simp_all add: v)
  have rest: "\<forall>(n, addr) \<in> set vs. n \<noteq> RequestLost \<and> (\<exists>s. ns1 addr = Some s \<and> wal_healthy (s_walLog s) \<and> l_balances (s_ledger s) a = None)"
  proof clarify
    fix n' addr' assume m: "(n', addr') \<in> set vs"
    then have "addr' \<noteq> addr" using d(2) by force
    then show "n' \<noteq> RequestLost \<and> (\<exists>s. ns1 addr' = Some s \<and> wal_healthy (s_walLog s) \<and> l_balances (s_ledger s) a = None)"
      using Cons.prems(6) m by (auto simp: ns1_def)
  qed
  have "cluster_funds ns1 + int (length vs) * sint x < 2 ^ 63" unfolding cf by (rule fits(2))
  from Cons.IH [OF ok d(1) Cons.prems(3,4) this rest] show ?case using cf by (simp add: v s'(1) ns1_def [symmetric] algebra_simps)
qed simp

section \<open>The attack\<close>

lemma user_inj: "0 \<le> i \<Longrightarrow> 0 \<le> j \<Longrightarrow> i < 2 ^ 63 \<Longrightarrow> j < 2 ^ 63 \<Longrightarrow> user i = user j \<longleftrightarrow> i = j"
  using fmt_d_inj [of i j] by (auto simp: user_def)

lemma dec_nat_no_dash: "CHR ''-'' \<notin> set (dec_nat n)"
proof (induction n rule: dec_nat.induct)
  case (1 n)
  then show ?case
    using digit_not_special [of n] digit_not_special [of "n mod 10"] by (auto simp: dec_nat.simps [of n])
qed

text \<open>Worker and time can be read off an identifier.\<close>

lemma attack_id_inj:
  assumes "0 \<le> w" "0 \<le> t" "0 \<le> w'" "0 \<le> t'" "w < 2 ^ 63" "w' < 2 ^ 63" "t < 2 ^ 63" "t' < 2 ^ 63"
    and "''w'' @ fmt_d w @ ''-'' @ fmt_d t = ''w'' @ fmt_d w' @ ''-'' @ fmt_d t'"
  shows "w = w' \<and> t = t'"
proof -
  have split: "takeWhile (\<lambda>c. c \<noteq> CHR ''-'') (fmt_d v @ CHR ''-'' # s) = fmt_d v"
    "dropWhile (\<lambda>c. c \<noteq> CHR ''-'') (fmt_d v @ CHR ''-'' # s) = CHR ''-'' # s" if "0 \<le> v" for v s
  proof -
    have "\<forall>c \<in> set (fmt_d v). c \<noteq> CHR ''-''" using that dec_nat_no_dash by (auto simp: fmt_d_def)
    then show "takeWhile (\<lambda>c. c \<noteq> CHR ''-'') (fmt_d v @ CHR ''-'' # s) = fmt_d v"
      "dropWhile (\<lambda>c. c \<noteq> CHR ''-'') (fmt_d v @ CHR ''-'' # s) = CHR ''-'' # s"
      by (simp_all add: takeWhile_append dropWhile_append)
  qed
  have e: "fmt_d w @ CHR ''-'' # fmt_d t = fmt_d w' @ CHR ''-'' # fmt_d t'" using assms(9) by simp
  have "fmt_d w = fmt_d w'" using split(1) [OF assms(1), of "fmt_d t"] split(1) [OF assms(3), of "fmt_d t'"] e by simp
  moreover have "fmt_d t = fmt_d t'" using split(2) [OF assms(1), of "fmt_d t"] split(2) [OF assms(3), of "fmt_d t'"] e by simp
  ultimately show ?thesis using fmt_d_inj [of w w'] fmt_d_inj [of t t'] assms(1-8) by auto
qed

text \<open>The numbers an iteration draws, and the clock it reads.\<close>

definition draws_ok :: "loadgen \<Rightarrow> iteration \<Rightarrow> bool" where
  "draws_ok lg it \<longleftrightarrow> 0 \<le> it_src it \<and> it_src it < lg_numAccounts lg \<and> 0 \<le> it_dst it \<and> it_dst it < lg_numAccounts lg
     \<and> 0 \<le> it_amount it \<and> it_amount it < 10 \<and> 0 \<le> it_worker it \<and> it_worker it < 2 ^ 63 \<and> 0 \<le> it_nano it \<and> it_nano it < 2 ^ 63"

lemma attack_txn_valid:
  assumes "draws_ok lg it" "attack_txn it = Some txn"
  shows "validateTransaction txn = None" "sint (t_Amount txn) \<in> {1..10}"
    and "t_Source txn \<in> user ` {0..<lg_numAccounts lg}" "t_Destination txn \<in> user ` {0..<lg_numAccounts lg}"
proof -
  have "0 \<le> it_amount it" "it_amount it < 10" using assms(1) by (auto simp: draws_ok_def)
  then have "it_amount it = 0 \<or> it_amount it = 1 \<or> it_amount it = 2 \<or> it_amount it = 3 \<or> it_amount it = 4
    \<or> it_amount it = 5 \<or> it_amount it = 6 \<or> it_amount it = 7 \<or> it_amount it = 8 \<or> it_amount it = 9" by arith
  then have a: "sint (word_of_int (it_amount it + 1) :: int64) \<in> {1..10}" by (elim disjE) simp_all
  have t: "t_TxnID txn \<noteq> []" "t_Source txn = user (it_src it)" "t_Destination txn = user (it_dst it)"
    "t_Amount txn = word_of_int (it_amount it + 1)" "user (it_src it) \<noteq> user (it_dst it)"
    using assms(2) by (auto simp: attack_txn_def split: if_splits)
  then show "validateTransaction txn = None" "sint (t_Amount txn) \<in> {1..10}"
    using a by (auto simp: validate_ok) (auto simp: user_def)
  show "t_Source txn \<in> user ` {0..<lg_numAccounts lg}" "t_Destination txn \<in> user ` {0..<lg_numAccounts lg}"
    using assms(1) t(2,3) by (auto simp: draws_ok_def)
qed

definition attack_txns :: "iteration list \<Rightarrow> Transaction list" where
  "attack_txns its = List.map_filter attack_txn its"

lemma attack_txns_Cons: "attack_txns (it # its) = (case attack_txn it of None \<Rightarrow> [] | Some txn \<Rightarrow> [txn]) @ attack_txns its"
  by (simp add: attack_txns_def List.map_filter_def split: option.split)

text \<open>Different workers or different times give different identifiers.\<close>

lemma attack_ids_distinct:
  "\<forall>it \<in> set its. draws_ok lg it \<Longrightarrow> distinct (map (\<lambda>it. (it_worker it, it_nano it)) its) \<Longrightarrow>
   distinct (map t_TxnID (attack_txns its))
   \<and> (\<forall>txn \<in> set (attack_txns its). \<exists>it \<in> set its. t_TxnID txn = ''w'' @ fmt_d (it_worker it) @ ''-'' @ fmt_d (it_nano it))"
proof (induction its)
  case (Cons it its)
  show ?case
  proof (cases "attack_txn it")
    case None
    then show ?thesis using Cons by (auto simp: attack_txns_Cons)
  next
    case (Some txn)
    then have id: "t_TxnID txn = ''w'' @ fmt_d (it_worker it) @ ''-'' @ fmt_d (it_nano it)"
      by (auto simp: attack_txn_def split: if_splits)
    have "t_TxnID u \<noteq> t_TxnID txn" if u: "u \<in> set (attack_txns its)" for u
    proof
      assume eq: "t_TxnID u = t_TxnID txn"
      obtain it' where it': "it' \<in> set its" "t_TxnID u = ''w'' @ fmt_d (it_worker it') @ ''-'' @ fmt_d (it_nano it')"
        using Cons.IH Cons.prems u by auto
      then have "draws_ok lg it" "draws_ok lg it'" using Cons.prems(1) by simp_all
      then have "it_worker it' = it_worker it \<and> it_nano it' = it_nano it"
        using attack_id_inj [of "it_worker it'" "it_nano it'" "it_worker it" "it_nano it"] eq it'(2) id
        unfolding draws_ok_def by (simp only:)
      then show False using Cons.prems(2) it'(1) by (force simp: image_iff)
    qed
    then show ?thesis using Cons Some id by (force simp: attack_txns_Cons)
  qed
qed (simp add: attack_txns_def List.map_filter_def)

lemma post_submit_routes:
  assumes "post_submit np n env txn c ns = (c', ns', r)"
  shows "hc_router c' = hc_router c"
    and "ns' = ns \<or> ns' = fst (Router_Route n env (hc_router c) (txn\<lparr>t_State := StatePending\<rparr>) ns)"
proof -
  obtain c1 ns1 status b where a: "accept_transaction ''coordinator'' n env MethodPost (Some txn) c ns = (c1, ns1, status, b)"
    by (metis prod_cases4)
  show "hc_router c' = hc_router c" "ns' = ns \<or> ns' = fst (Router_Route n env (hc_router c) (txn\<lparr>t_State := StatePending\<rparr>) ns)"
    using assms a accept_routes [OF a] by (auto simp: post_submit_def HTTPConsumer_handleSubmit_def split: if_splits)
qed

lemma attack_step_routes:
  assumes "attack_step it (c, ns, k) = (c', ns', k')"
  shows "hc_router c' = hc_router c"
    and "ns' = ns \<or> (\<exists>n env txn. attack_txn it = Some txn \<and> ns' = fst (Router_Route n env (hc_router c) (txn\<lparr>t_State := StatePending\<rparr>) ns))"
    and "fst k' + snd k' = fst k + snd k + (if attack_txn it = None then 0 else 1)"
proof -
  obtain a b where k: "k = (a, b)" by (cases k)
  have "hc_router c' = hc_router c
    \<and> (ns' = ns \<or> (\<exists>n env txn. attack_txn it = Some txn \<and> ns' = fst (Router_Route n env (hc_router c) (txn\<lparr>t_State := StatePending\<rparr>) ns)))
    \<and> fst k' + snd k' = fst k + snd k + (if attack_txn it = None then 0 else 1)"
  proof (cases "attack_txn it")
    case (Some txn)
    obtain c1 ns1 r where p: "post_submit (it_post it) (it_net it) (it_env it) txn c ns = (c1, ns1, r)" by (metis prod_cases3)
    have "c' = c1" "ns' = ns1" "fst k' + snd k' = a + b + 1"
      using assms Some p by (auto simp: attack_step_def k split: if_splits)
    then show ?thesis using post_submit_routes [OF p] Some k by auto
  qed (use assms k in \<open>simp add: attack_step_def\<close>)
  then show "hc_router c' = hc_router c"
    "ns' = ns \<or> (\<exists>n env txn. attack_txn it = Some txn \<and> ns' = fst (Router_Route n env (hc_router c) (txn\<lparr>t_State := StatePending\<rparr>) ns))"
    "fst k' + snd k' = fst k + snd k + (if attack_txn it = None then 0 else 1)" by blast+
qed

lemma attack_money:
  assumes "cluster_ok ns" "addresses_distinct (ro_shardMap (hc_router c))" "deployed (ro_shardMap (hc_router c)) ns"
    and "distinct (map t_TxnID (attack_txns its))" "\<forall>txn \<in> set (attack_txns its). unseen (t_TxnID txn) ns"
    and "fold attack_step its (c, ns, k) = (c', ns', k')"
  shows "cluster_ok ns' \<and> cluster_funds ns' \<le> cluster_funds ns \<and> fst k' + snd k' = fst k + snd k + int (length (attack_txns its))"
  using assms
proof (induction its arbitrary: c ns k)
  case (Cons it its)
  obtain c1 ns1 k1 where e: "attack_step it (c, ns, k) = (c1, ns1, k1)" by (metis prod_cases3)
  note r = attack_step_routes [OF e]
  have run: "fold attack_step its (c1, ns1, k1) = (c', ns', k')" using Cons.prems(6) e by simp
  have rest: "distinct (map t_TxnID (attack_txns its))" "\<forall>txn \<in> set (attack_txns its). unseen (t_TxnID txn) ns"
    using Cons.prems(4,5) by (auto simp: attack_txns_Cons split: option.splits)
  have n: "int (length (attack_txns (it # its))) = (if attack_txn it = None then 0 else 1) + int (length (attack_txns its))"
    by (simp add: attack_txns_Cons split: option.split)
  from r(2) show ?case
  proof (elim disjE exE conjE)
    assume "ns1 = ns"
    then show ?thesis using Cons.IH [of ns1 c1 k1] Cons.prems(1-3) rest run r(1,3) n by simp
  next
    fix m env txn
    assume txn: "attack_txn it = Some txn" and ns1: "ns1 = fst (Router_Route m env (hc_router c) (txn\<lparr>t_State := StatePending\<rparr>) ns)"
    have "unseen (t_TxnID (txn\<lparr>t_State := StatePending\<rparr>)) ns" using Cons.prems(5) txn by (simp add: attack_txns_Cons)
    from Route_money [OF Cons.prems(1-3) this prod.collapse [symmetric], of m env]
    have money: "cluster_ok ns1 \<and> cluster_funds ns1 \<le> cluster_funds ns" by (simp add: ns1)
    have "unseen (t_TxnID u) ns1" if u: "u \<in> set (attack_txns its)" for u
    proof -
      have "t_TxnID txn \<notin> t_TxnID ` set (attack_txns its)" using Cons.prems(4) txn by (simp add: attack_txns_Cons)
      then have "t_TxnID u \<noteq> t_TxnID (txn\<lparr>t_State := StatePending\<rparr>)" using u by (simp add: image_iff) metis
      then show ?thesis unfolding ns1 using rest(2) u by (intro same_seen_unseen [OF Route_same_seen]) auto
    qed
    then have "cluster_ok ns' \<and> cluster_funds ns' \<le> cluster_funds ns1 \<and> fst k' + snd k' = fst k1 + snd k1 + int (length (attack_txns its))"
      using money Cons.prems(2) r(1) rest(1) run Route_deployed [OF Cons.prems(3)] by (intro Cons.IH [of ns1 c1 k1]) (auto simp: ns1)
    with money r(3) n show ?thesis by simp
  qed
qed (simp add: attack_txns_def List.map_filter_def)

section \<open>Properties\<close>

text \<open>
  The generator puts three times the money it announces into the system. When the requests that seed the bank
  reach three shards that have no such account and whose logs work, the cluster's total rises by three times
  the number that is printed at the end as the expected total: the bank gets the whole amount on each shard,
  and the transfers that follow only move it.
\<close>

theorem bank_seeded_on_every_shard:
  assumes "lg = loadgen_env fl env" "cluster_ok ns" "distinct (map snd vs)" "length vs = 3" "set (map snd vs) = set (lg_shardAddrs lg)"
    and "\<forall>(n, addr) \<in> set vs. n \<noteq> RequestLost
      \<and> (\<exists>s. ns addr = Some s \<and> wal_healthy (s_walLog s) \<and> l_balances (s_ledger s) ''__bank__'' = None)"
    and "0 \<le> lg_numAccounts lg" "cluster_funds ns + 3 * (lg_numAccounts lg * 1000) < 2 ^ 63"
  shows "sint (totalSystemBalance lg) = lg_numAccounts lg * 1000
    \<and> cluster_ok (seed_bank lg vs ns)
    \<and> cluster_funds (seed_bank lg vs ns) = cluster_funds ns + 3 * sint (totalSystemBalance lg)"
proof -
  have "0 \<le> cluster_funds ns"
    unfolding cluster_funds_def using assms(2) by (intro sum_nonneg shard_funds_nonneg) (auto simp: cluster_ok_def)
  then have n: "0 \<le> lg_numAccounts lg * 1000" "lg_numAccounts lg * 1000 < 2 ^ 63" using assms(7,8) by auto
  have "totalSystemBalance lg = word_of_int (lg_numAccounts lg * 1000)" by (simp add: totalSystemBalance_def)
  then have t: "sint (totalSystemBalance lg) = lg_numAccounts lg * 1000"
    using sint_in_range [of "lg_numAccounts lg * 1000"] n by simp
  have "cluster_ok (seed_bank lg vs ns) \<and> cluster_funds (seed_bank lg vs ns) = cluster_funds ns + int (length vs) * sint (totalSystemBalance lg)"
    unfolding seed_bank_def by (rule seed_shards_funds) (use assms t n in auto)
  then show ?thesis using t assms(4) by simp
qed

text \<open>
  The attack asks only for what the system accepts, and it creates no money. With at least one
  account, the workers never panic; every transfer they submit is well formed, between two different seeded
  accounts and of 1 to 10; different workers or different times give different identifiers, so that if these
  are new, no balance becomes negative and the cluster's total never rises; and successes and errors add
  up to the requests made.
\<close>

theorem attack_well_formed_and_safe:
  assumes "0 < lg_numAccounts lg" "\<forall>it \<in> set its. draws_ok lg it" "distinct (map (\<lambda>it. (it_worker it, it_nano it)) its)"
    and "cluster_ok ns" "addresses_distinct (ro_shardMap (hc_router c))" "deployed (ro_shardMap (hc_router c)) ns"
    and "\<forall>txn \<in> set (attack_txns its). unseen (t_TxnID txn) ns"
  shows "\<exists>c' ns' txnSuccess txnErr. attack lg its (c, ns) = Some (c', ns', txnSuccess, txnErr)
    \<and> (\<forall>txn \<in> set (attack_txns its). validateTransaction txn = None \<and> sint (t_Amount txn) \<in> {1..10}
         \<and> t_Source txn \<in> user ` {0..<lg_numAccounts lg} \<and> t_Destination txn \<in> user ` {0..<lg_numAccounts lg})
    \<and> cluster_ok ns' \<and> cluster_funds ns' \<le> cluster_funds ns
    \<and> txnSuccess + txnErr = int (length (attack_txns its))"
proof -
  obtain c' ns' s e where r: "fold attack_step its (c, ns, 0, 0) = (c', ns', s, e)" by (metis prod_cases4)
  have "\<exists>it. draws_ok lg it \<and> attack_txn it = Some txn" if "txn \<in> set (attack_txns its)" for txn
    using that assms(2) by (auto simp: attack_txns_def List.map_filter_def split: option.splits)
  then have "\<forall>txn \<in> set (attack_txns its). validateTransaction txn = None \<and> sint (t_Amount txn) \<in> {1..10}
         \<and> t_Source txn \<in> user ` {0..<lg_numAccounts lg} \<and> t_Destination txn \<in> user ` {0..<lg_numAccounts lg}"
    using attack_txn_valid by blast
  moreover have "cluster_ok ns' \<and> cluster_funds ns' \<le> cluster_funds ns \<and> s + e = int (length (attack_txns its))"
    using attack_money [OF assms(4-6) conjunct1 [OF attack_ids_distinct [OF assms(2,3)]] assms(7) r] by simp
  ultimately show ?thesis using r assms(1) by (simp add: attack_def)
qed

subsection \<open>Witnesses\<close>

definition example_three :: nodes where
  "example_three = [''shard1:8081'' \<mapsto> example_shard [], ''shard2:8082'' \<mapsto> example_shard [], ''shard3:8083'' \<mapsto> example_shard []]"

definition example_visits :: "(net \<times> string) list" where
  "example_visits = [(NetOk, ''shard2:8082''), (ReplyLost, ''shard1:8081''), (NetOk, ''shard3:8083'')]"

lemma atoi_1000: "Atoi_value ''1000'' = 1000"
  by (simp add: Atoi_value_def scan_sign_def digit_val_def)

theorem bank_seeded_on_every_shard_witness:
  "cluster_funds (seed_bank (loadgen_env (\<lambda>f u k. 0) (\<lambda>_. '''')) example_visits example_three) = 450 + 3 * 1000000
   \<and> sint (totalSystemBalance (loadgen_env (\<lambda>f u k. 0) (\<lambda>_. ''''))) = 1000000"
proof -
  let ?lg = "loadgen_env (\<lambda>f u k. 0) (\<lambda>_. '''')"
  have "Atoi_value ''1000'' = 1000" by (rule atoi_1000)
  then have lg: "lg_numAccounts ?lg = 1000" "lg_shardAddrs ?lg = [''shard1:8081'', ''shard2:8082'', ''shard3:8083'']"
    by (simp_all add: loadgen_env_def envOrDefault_def)
  have ok: "cluster_ok example_three" "cluster_funds example_three = 450"
    by (auto simp: cluster_ok_def example_three_def cluster_funds_def example_funds example_ok split: if_splits)
  have v: "distinct (map snd example_visits)" "length example_visits = 3" "set (map snd example_visits) = set (lg_shardAddrs ?lg)"
    unfolding lg by (auto simp: example_visits_def)
  have "wal_healthy (s_walLog (example_shard []))" "l_balances (s_ledger (example_shard [])) ''__bank__'' = None"
    by (simp_all add: wal_healthy_def example_shard_def)
  then have "\<forall>(n, addr) \<in> set example_visits. n \<noteq> RequestLost
      \<and> (\<exists>s. example_three addr = Some s \<and> wal_healthy (s_walLog s) \<and> l_balances (s_ledger s) ''__bank__'' = None)"
    by (simp add: example_visits_def example_three_def)
  from bank_seeded_on_every_shard [OF refl ok(1) v this] show ?thesis by (simp add: lg ok(2))
qed

definition example_iteration :: "int \<Rightarrow> int \<Rightarrow> iteration" where
  "example_iteration w t = \<lparr>it_worker = w, it_src = 3, it_dst = 7, it_amount = 9, it_nano = t, it_post = NetOk, it_net = NetOk, it_env = example_env\<rparr>"

theorem attack_well_formed_and_safe_witness:
  "\<exists>c' ns' s e. attack (loadgen_env (\<lambda>f u k. 0) (\<lambda>_. '''')) [example_iteration 1 23, example_iteration 12 3]
       (cp_consumer example_coordinator, example_cluster) = Some (c', ns', s, e) \<and> cluster_funds ns' \<le> 300 \<and> s + e = 2"
proof -
  let ?lg = "loadgen_env (\<lambda>f u k. 0) (\<lambda>_. '''')"
  let ?its = "[example_iteration 1 23, example_iteration 12 3]"
  have "Atoi_value ''1000'' = 1000" by (rule atoi_1000)
  then have lg: "lg_numAccounts ?lg = 1000" by (simp add: loadgen_env_def envOrDefault_def)
  have u: "user 3 \<noteq> user 7" using user_inj [of 3 7] by simp
  have a: "addresses_distinct (ro_shardMap (hc_router (cp_consumer example_coordinator)))"
    "deployed (ro_shardMap (hc_router (cp_consumer example_coordinator))) example_cluster"
    by (auto simp: addresses_distinct_def deployed_def example_coordinator_def NewRouter_def NewHTTPConsumer_def Let_def
        example_shards_def example_cluster_def split: if_splits)
  have n: "length (attack_txns ?its) = 2" using u by (simp add: attack_txns_Cons attack_txn_def example_iteration_def attack_txns_def List.map_filter_def)
  have d: "\<forall>it \<in> set ?its. draws_ok ?lg it" by (simp add: draws_ok_def lg example_iteration_def)
  have i: "distinct (map (\<lambda>it. (it_worker it, it_nano it)) ?its)" by (simp add: example_iteration_def)
  have p: "0 < lg_numAccounts ?lg" by (simp add: lg)
  have "\<forall>txn \<in> set (attack_txns ?its). unseen (t_TxnID txn) example_cluster" using example_router_ok(3) by blast
  from attack_well_formed_and_safe [OF p d i example_cluster_ok(1) a this] show ?thesis
    unfolding n example_cluster_ok(2) by auto
qed

end
