(* ===== verification/Seed.thy ===== *)
theory Seed
  imports Startup
begin

text \<open>
  \<^verbatim>\<open>cmd/seed/main.go\<close>: the tool that creates the accounts \<^verbatim>\<open>user0\<close>, \<^verbatim>\<open>user1\<close>, \<dots> on the shards that own them,
  retrying each request with an exponential back-off. How the network treats the requests of one account
  is an argument, one \<open>net\<close> per attempt; the waiting of the rate limiter has no effect on the state.
  The body of a request is what the shard's decoder makes of it, and the URL is taken to be well formed.
\<close>

section \<open>Model\<close>

record seedJob =
  sj_accountID :: string
  sj_url :: string
  sj_body :: "string \<times> int64"

datatype seed_error = SeedStatus nat | RetryableStatus nat | SeedRequestFailed

definition envIntOrDefault :: "(string \<Rightarrow> string) \<Rightarrow> string \<Rightarrow> int \<Rightarrow> int" where
  "envIntOrDefault env key fallback =
     (let v = envOrDefault env key '''' in
      if v = '''' then fallback else case Atoi v of None \<Rightarrow> fallback | Some parsed \<Rightarrow> parsed)"

definition shouldRetry :: "nat \<Rightarrow> bool" where
  "shouldRetry statusCode \<longleftrightarrow> statusCode = 408 \<or> statusCode = 429 \<or> 500 \<le> statusCode"

text \<open>In nanoseconds; \<open>r\<close> is what \<^verbatim>\<open>rand.Intn(125)\<close> returns. The shift and the product are those of
  64-bit integers.\<close>

definition backoff :: "int \<Rightarrow> nat \<Rightarrow> int64" where
  "backoff attempt r =
     (let base = 150000000;
          delay = base * push_bit (nat (attempt - 1)) 1;
          delay' = (if 2000000000 <s delay then 2000000000 else delay)
      in delay' + of_nat r * 1000000)"

definition rewriteShardAddr :: "string \<Rightarrow> string \<Rightarrow> string" where
  "rewriteShardAddr addr hostOverride =
     (if hostOverride = '''' then addr
      else case SplitN2 addr (CHR '':'') of
        [_, port] \<Rightarrow> hostOverride @ '':'' @ port
      | _ \<Rightarrow> addr)"

text \<open>\<open>client.Do\<close> with a POST to \<^verbatim>\<open>/create-account\<close>: the shard after it, and the status if an answer arrives.\<close>

definition post_create :: "net \<Rightarrow> seedJob \<Rightarrow> ShardServer \<Rightarrow> ShardServer \<times> nat option" where
  "post_create n job s =
     (case n of
        RequestLost \<Rightarrow> (s, None)
      | ReplyLost \<Rightarrow> (fst (handleCreateAccount MethodPost (Some (sj_body job)) s), None)
      | NetOk \<Rightarrow> (case handleCreateAccount MethodPost (Some (sj_body job)) s of (s', status, _) \<Rightarrow> (s', Some status)))"

function seed_attempts ::
    "(int \<Rightarrow> net) \<Rightarrow> seedJob \<Rightarrow> int \<Rightarrow> int \<Rightarrow> seed_error option \<Rightarrow> ShardServer \<Rightarrow> ShardServer \<times> seed_error option" where
  "seed_attempts nets job maxRetries attempt lastErr s =
     (if attempt \<le> maxRetries then
        (case post_create (nets attempt) job s of
           (s', Some status) \<Rightarrow>
             if status < 300 then (s', None)
             else if \<not> shouldRetry status then (s', Some (SeedStatus status))
             else seed_attempts nets job maxRetries (attempt + 1) (Some (RetryableStatus status)) s'
         | (s', None) \<Rightarrow> seed_attempts nets job maxRetries (attempt + 1) (Some SeedRequestFailed) s')
      else (s, lastErr))"
  by auto

termination
  by (relation "measure (\<lambda>(nets, job, maxRetries, attempt, lastErr, s). nat (maxRetries + 1 - attempt))") auto

declare seed_attempts.simps [simp del]

definition seedAccount :: "(int \<Rightarrow> net) \<Rightarrow> seedJob \<Rightarrow> int \<Rightarrow> ShardServer \<Rightarrow> ShardServer \<times> seed_error option" where
  "seedAccount nets job maxRetries s = seed_attempts nets job maxRetries 1 None s"

text \<open>The goroutine that makes the jobs: one entry per account, the job or why there is none.\<close>

definition seed_job :: "ShardMap \<Rightarrow> PartitionMapper \<Rightarrow> string \<Rightarrow> int64 \<Rightarrow> nat \<Rightarrow> (string \<times> map_error) + seedJob" where
  "seed_job sm mapper hostOverride startingBalance i =
     (let accountID = ''user'' @ fmt_d (int i) in
      case ShardMap_GetShardForAccount accountID mapper sm of
        Inl err \<Rightarrow> Inl (accountID, err)
      | Inr shardInfo \<Rightarrow>
          Inr \<lparr>sj_accountID = accountID,
               sj_url = ''http://'' @ rewriteShardAddr (si_Address shardInfo) hostOverride @ ''/create-account'',
               sj_body = (accountID, startingBalance)\<rparr>)"

definition seed_jobs ::
    "ShardMap \<Rightarrow> PartitionMapper \<Rightarrow> string \<Rightarrow> int64 \<Rightarrow> int \<Rightarrow> ((string \<times> map_error) + seedJob) list" where
  "seed_jobs sm mapper hostOverride startingBalance numAccounts =
     map (seed_job sm mapper hostOverride startingBalance) [0 ..< nat numAccounts]"

section \<open>Retrying\<close>

lemma create_on_working_log:
  assumes "wal_healthy (s_walLog s)" "l_balances (s_ledger s) a = None" "0 \<le>s x"
  obtains s1 where "ShardServer_CreateAccountWithWAL a x s = (s1, None)"
    "l_balances (s_ledger s1) = (l_balances (s_ledger s))(a \<mapsto> x)"
proof -
  have "\<not> x <s 0" using assms(3) by (simp add: word_sle_eq word_sless_alt)
  then obtain s1 where "ShardServer_CreateAccountWithWAL a x s = (s1, None)"
    using assms(1,2)
    by (auto simp: ShardServer_CreateAccountWithWAL_def Let_def log_effect_simps Ledger_AccountExists_def Ledger_CreateAccount_def)
  with Create_log [OF assms(1) this] show ?thesis by (intro that [of s1]) simp_all
qed

lemma post_existing:
  assumes "sj_body job = (a, x)" "a \<noteq> []" "l_balances (s_ledger s) a \<noteq> None"
  shows "post_create n job s = (s, if n = NetOk then Some 200 else None)"
  using assms
  by (cases n) (auto simp: post_create_def handleCreateAccount_def ShardServer_CreateAccountWithWAL_def Ledger_AccountExists_def)

lemma post_new:
  assumes "sj_body job = (a, x)" "a \<noteq> []" "ShardServer_CreateAccountWithWAL a x s = (s1, None)"
  shows "post_create n job s = (if n = RequestLost then s else s1, if n = NetOk then Some 201 else None)"
  using assms by (cases n) (auto simp: post_create_def handleCreateAccount_def)

definition reached :: "(int \<Rightarrow> net) \<Rightarrow> int \<Rightarrow> int \<Rightarrow> bool" where
  "reached nets i m \<longleftrightarrow> (\<exists>k \<in> {i..m}. nets k \<noteq> RequestLost)"

definition answered :: "(int \<Rightarrow> net) \<Rightarrow> int \<Rightarrow> int \<Rightarrow> bool" where
  "answered nets i m \<longleftrightarrow> (\<exists>k \<in> {i..m}. nets k = NetOk)"

lemma attempts_unfold:
  "i \<le> m \<Longrightarrow> reached nets i m \<longleftrightarrow> nets i \<noteq> RequestLost \<or> reached nets (i + 1) m"
  "i \<le> m \<Longrightarrow> answered nets i m \<longleftrightarrow> nets i = NetOk \<or> answered nets (i + 1) m"
  "m < i \<Longrightarrow> \<not> reached nets i m" "m < i \<Longrightarrow> \<not> answered nets i m"
proof -
  assume "i \<le> m"
  then have "{i..m} = insert i {i + 1..m}" by auto
  then show "reached nets i m \<longleftrightarrow> nets i \<noteq> RequestLost \<or> reached nets (i + 1) m"
    "answered nets i m \<longleftrightarrow> nets i = NetOk \<or> answered nets (i + 1) m"
    by (simp_all add: reached_def answered_def)
qed (auto simp: reached_def answered_def)

definition give_up :: "int \<Rightarrow> int \<Rightarrow> seed_error option \<Rightarrow> seed_error option" where
  "give_up i m lastErr = (if i \<le> m then Some SeedRequestFailed else lastErr)"

lemma attempts_existing:
  assumes "sj_body job = (a, x)" "a \<noteq> []" "l_balances (s_ledger s) a \<noteq> None"
  shows "seed_attempts nets job m i e s = (s, if answered nets i m then None else give_up i m e)"
proof (induction "nat (m + 1 - i)" arbitrary: i e)
  case 0
  then show ?case by (simp add: seed_attempts.simps attempts_unfold give_up_def)
next
  case (Suc d)
  then have le: "i \<le> m" and ih: "seed_attempts nets job m (i + 1) (Some SeedRequestFailed) s
      = (s, if answered nets (i + 1) m then None else Some SeedRequestFailed)"
    by (simp_all add: give_up_def)
  show ?case
    using ih le by (simp add: seed_attempts.simps [of _ _ _ i] post_existing [OF assms] attempts_unfold give_up_def)
qed

lemma attempts_new:
  assumes "sj_body job = (a, x)" "a \<noteq> []" "ShardServer_CreateAccountWithWAL a x s = (s1, None)"
    and "l_balances (s_ledger s1) a \<noteq> None"
  shows "seed_attempts nets job m i e s =
    (if reached nets i m then s1 else s, if answered nets i m then None else give_up i m e)"
proof (induction "nat (m + 1 - i)" arbitrary: i e)
  case 0
  then show ?case by (simp add: seed_attempts.simps attempts_unfold give_up_def)
next
  case (Suc d)
  then have le: "i \<le> m" and ih: "seed_attempts nets job m (i + 1) (Some SeedRequestFailed) s
      = (if reached nets (i + 1) m then s1 else s, if answered nets (i + 1) m then None else Some SeedRequestFailed)"
    by (simp_all add: give_up_def)
  show ?case
    using ih le attempts_existing [OF assms(1,2,4)]
    by (simp add: seed_attempts.simps [of _ _ _ i] post_new [OF assms(1-3)] attempts_unfold give_up_def)
qed

text \<open>
  Seeding one account always returns, and creates the account at most once. Whatever the network does
  to the attempts, the retry loop ends; it reports success exactly when one of the at most
  \<open>maxRetries\<close> requests was answered; and the account holds exactly the starting balance as soon as one
  request reached the shard, even if every answer was lost, while no other balance changes.
\<close>

theorem seed_account_once:
  assumes "wal_healthy (s_walLog s)" "l_balances (s_ledger s) a = None" "0 \<le>s x"
    and "sj_body job = (a, x)" "a \<noteq> []" "1 \<le> maxRetries"
  shows "\<exists>s'. seedAccount nets job maxRetries s = (s', if \<exists>k \<in> {1..maxRetries}. nets k = NetOk then None else Some SeedRequestFailed)
    \<and> l_balances (s_ledger s') = (if \<exists>k \<in> {1..maxRetries}. nets k \<noteq> RequestLost
        then (l_balances (s_ledger s))(a \<mapsto> x) else l_balances (s_ledger s))"
proof -
  obtain s1 where s1: "ShardServer_CreateAccountWithWAL a x s = (s1, None)"
    "l_balances (s_ledger s1) = (l_balances (s_ledger s))(a \<mapsto> x)"
    by (rule create_on_working_log [OF assms(1-3)])
  have "l_balances (s_ledger s1) a \<noteq> None" by (simp add: s1(2))
  note at = attempts_new [OF assms(4,5) s1(1) this, of nets maxRetries 1 None, folded seedAccount_def]
  show ?thesis using s1(2) assms(6) by (auto simp: at reached_def answered_def give_up_def)
qed

theorem seed_account_once_witness:
  "\<exists>s'. seedAccount (\<lambda>k. if k < 3 then ReplyLost else NetOk)
      \<lparr>sj_accountID = ''user7'', sj_url = ''http://localhost:8081/create-account'', sj_body = (''user7'', 10000)\<rparr> 6 (example_shard []) = (s', None)
    \<and> l_balances (s_ledger s') ''user7'' = Some 10000"
proof -
  have "\<exists>k::int \<in> {1..6}. (if k < 3 then ReplyLost else NetOk) = NetOk" "\<exists>k::int \<in> {1..6}. (if k < 3 then ReplyLost else NetOk) \<noteq> RequestLost"
    by (rule bexI [of _ 5]; simp)+
  then show ?thesis
    using seed_account_once [of "example_shard []" "''user7''" 10000
        "\<lparr>sj_accountID = ''user7'', sj_url = ''http://localhost:8081/create-account'', sj_body = (''user7'', 10000)\<rparr>" 6
        "\<lambda>k. if k < 3 then ReplyLost else NetOk"]
    by (auto simp: example_shard_def wal_healthy_def word_sle_eq)
qed

section \<open>The back-off\<close>

lemma backoff_cases: "n < 36 \<Longrightarrow> sint ((if 2000000000 <s (150000000 :: int64) * push_bit n 1 then 2000000000 else 150000000 * push_bit n 1) :: int64)
    = min (150000000 * 2 ^ n) 2000000000"
proof -
  assume n: "n < 36"
  have "push_bit n (1 :: int64) = 2 ^ n" by (simp add: push_bit_eq_mult)
  moreover have "sint ((150000000 :: int64) * 2 ^ n) = 150000000 * 2 ^ n"
  proof -
    have "(150000000 :: int) * 2 ^ n \<le> 150000000 * 2 ^ 35" using n by (intro mult_left_mono power_increasing) auto
    then have "signed_take_bit 63 (150000000 * 2 ^ n :: int) = 150000000 * 2 ^ n"
      by (intro signed_take_bit_int_eq_self) (auto intro: order_trans [of _ 0])
    moreover have "sint (word_of_int (150000000 * 2 ^ n) :: int64) = signed_take_bit 63 (150000000 * 2 ^ n)"
      by (subst signed_of_int) simp
    ultimately show ?thesis by simp
  qed
  ultimately show ?thesis by (simp add: word_sless_alt min_def)
qed

text \<open>
  The back-off is bounded: for the first 36 attempts the delay is 150 ms doubled with each attempt,
  cut at two seconds, plus the jitter, so it is never more than 2.125 seconds and never negative.
\<close>

theorem backoff_bounded:
  assumes "1 \<le> attempt" "attempt \<le> 36" "r < 125"
  shows "sint (backoff attempt r) = min (150000000 * 2 ^ nat (attempt - 1)) 2000000000 + int r * 1000000
    \<and> 150000000 \<le> sint (backoff attempt r) \<and> sint (backoff attempt r) < 2125000000"
proof -
  define m :: int where "m = min (150000000 * 2 ^ nat (attempt - 1)) 2000000000"
  have m: "150000000 \<le> m" "m \<le> 2000000000" by (simp_all add: m_def)
  define d where "d = ((if 2000000000 <s (150000000 :: int64) * push_bit (nat (attempt - 1)) 1 then 2000000000
    else 150000000 * push_bit (nat (attempt - 1)) 1) :: int64)"
  have b: "backoff attempt r = d + of_nat r * 1000000" by (simp add: backoff_def Let_def d_def)
  have d: "sint d = m" unfolding d_def m_def by (rule backoff_cases) (use assms in linarith)
  have "sint (word_of_int (int r * 1000000) :: int64) = signed_take_bit 63 (int r * 1000000)"
    by (subst signed_of_int) simp
  also have "\<dots> = int r * 1000000" using assms(3) by (intro signed_take_bit_int_eq_self) auto
  finally have j: "sint (of_nat r * 1000000 :: int64) = int r * 1000000" by simp
  have "sint (backoff attempt r) = m + int r * 1000000"
    unfolding b using sint_plus64 [of d "of_nat r * 1000000"] d j m assms(3) by simp
  then show ?thesis using assms(3) m by (simp add: m_def [symmetric])
qed

theorem backoff_bounded_witness: "sint (backoff 5 100) = 2100000000"
  using backoff_bounded [of 5 100] by simp

text \<open>With more retries the product wraps around: before the 38th attempt the delay is negative, and
  from the 58th on it is the jitter alone, so the tool hardly waits any more.\<close>

lemma backoff_wraps: "sint (backoff 37 0) < 0" "sint (backoff 58 7) = 7000000"
  by code_simp+

section \<open>The jobs\<close>

text \<open>The account of an entry, whether it became a job or not.\<close>

definition job_account :: "(string \<times> map_error) + seedJob \<Rightarrow> string" where
  "job_account j = (case j of Inl (a, _) \<Rightarrow> a | Inr job \<Rightarrow> sj_accountID job)"

lemma job_account_seed [simp]: "job_account (seed_job sm mapper host bal i) = ''user'' @ fmt_d (int i)"
  by (simp add: job_account_def seed_job_def Let_def split: sum.split)

text \<open>
  The seeding plan is complete and free of duplicates: one entry for each requested account, no account
  twice, and every job is addressed to the shard that the map assigns the account to.
\<close>

theorem seed_jobs_complete:
  assumes "0 \<le> numAccounts" "numAccounts < 2 ^ 63"
  shows "length (seed_jobs sm mapper host bal numAccounts) = nat numAccounts
    \<and> distinct (map job_account (seed_jobs sm mapper host bal numAccounts))
    \<and> (\<forall>job. Inr job \<in> set (seed_jobs sm mapper host bal numAccounts) \<longrightarrow> sj_body job = (sj_accountID job, bal)
        \<and> (\<exists>info. ShardMap_GetShardForAccount (sj_accountID job) mapper sm = Inr info
            \<and> sj_url job = ''http://'' @ rewriteShardAddr (si_Address info) host @ ''/create-account''))"
proof (intro conjI)
  have "i = j" if "i < nat numAccounts" "j < nat numAccounts" "fmt_d (int i) = fmt_d (int j)" for i j
    using fmt_d_inj [OF _ _ _ _ that(3)] that(1,2) assms by simp
  then show "distinct (map job_account (seed_jobs sm mapper host bal numAccounts))"
    by (auto simp: seed_jobs_def distinct_map comp_def inj_on_def)
  show "\<forall>job. Inr job \<in> set (seed_jobs sm mapper host bal numAccounts) \<longrightarrow> sj_body job = (sj_accountID job, bal)
        \<and> (\<exists>info. ShardMap_GetShardForAccount (sj_accountID job) mapper sm = Inr info
            \<and> sj_url job = ''http://'' @ rewriteShardAddr (si_Address info) host @ ''/create-account'')"
    by (auto simp: seed_jobs_def seed_job_def Let_def split: sum.splits)
qed (simp add: seed_jobs_def)

lemma rewrite_keeps_port:
  assumes "CHR '':'' \<notin> set host" "new \<noteq> []"
  shows "rewriteShardAddr (host @ '':'' @ port) new = new @ '':'' @ port"
proof -
  have "dropWhile (\<lambda>x. x \<noteq> CHR '':'') (host @ CHR '':'' # port) = CHR '':'' # port"
    using assms(1) by (induction host) auto
  then show ?thesis using assms(2) by (simp add: rewriteShardAddr_def SplitN2_def)
qed

end
