(* ===== verification/SeedProcess.thy ===== *)
theory SeedProcess
  imports Seed
begin

text \<open>
  The whole run of \<^verbatim>\<open>cmd/seed/main.go\<close>: the settings, the workers that take the jobs from a channel, and the
  loop that counts the results and decides the exit code. A worker handles one job at a time, and the jobs
  are of different accounts, so the order in which they are handled is all that the number of workers
  changes: it is an argument, any arrangement of the jobs. Every shard is reached at the address in the
  job's URL. The channels, the rate limiter and what is printed while the run goes on have no
  effect on the state.
\<close>

section \<open>Model\<close>

record seed_config =
  sc_numAccounts :: int
  sc_startingBalance :: int
  sc_hostOverride :: string
  sc_workerCount :: int
  sc_maxRetries :: int
  sc_requestsPerSecond :: int

definition seed_settings :: "(string \<Rightarrow> string) \<Rightarrow> seed_config" where
  "seed_settings env =
     \<lparr>sc_numAccounts = envIntOrDefault env ''NUM_ACCOUNTS'' 1000,
      sc_startingBalance = envIntOrDefault env ''STARTING_BALANCE'' 10000,
      sc_hostOverride = envOrDefault env ''SHARD_HOST'' ''localhost'',
      sc_workerCount = max (envIntOrDefault env ''SEED_WORKERS'' 12) 1,
      sc_maxRetries = max (envIntOrDefault env ''SEED_RETRIES'' 6) 1,
      sc_requestsPerSecond = envIntOrDefault env ''SEED_RPS'' 60\<rparr>"

text \<open>\<open>SeedTickerPanic\<close>: above a thousand million requests a second the interval is zero, and \<^verbatim>\<open>time.NewTicker\<close> panics.\<close>

datatype seed_fatal = SeedMapNotLoaded map_error | SeedMapEmpty | SeedMapperPanic | SeedTickerPanic

text \<open>The host and port of a URL.\<close>

definition url_host :: "string \<Rightarrow> string" where
  "url_host url = takeWhile (\<lambda>c. c \<noteq> CHR ''/'') (drop (length ''http://'') url)"

text \<open>One job of a worker; \<open>nets\<close> is what the network does to the attempts for an account. Without a server
  at the address every attempt fails.\<close>

definition run_job :: "(string \<Rightarrow> int \<Rightarrow> net) \<Rightarrow> int \<Rightarrow> seedJob \<Rightarrow> nodes \<Rightarrow> nodes \<times> seed_error option" where
  "run_job nets maxRetries job ns =
     (let addr = url_host (sj_url job) in
      case ns addr of
        None \<Rightarrow> (ns, Some SeedRequestFailed)
      | Some s \<Rightarrow>
          (case seedAccount (nets (sj_accountID job)) job maxRetries s of (s', r) \<Rightarrow> (ns(addr \<mapsto> s'), r)))"

text \<open>The loop over the results: the nodes, the successes and the failures.\<close>

fun collect_results ::
    "(string \<Rightarrow> int \<Rightarrow> net) \<Rightarrow> int \<Rightarrow> ((string \<times> map_error) + seedJob) list \<Rightarrow> nodes \<times> int \<times> int \<Rightarrow> nodes \<times> int \<times> int" where
  "collect_results nets m [] st = st"
| "collect_results nets m (Inl e # js) (ns, success, fail) = collect_results nets m js (ns, success, fail + 1)"
| "collect_results nets m (Inr job # js) (ns, success, fail) =
     (case run_job nets m job ns of
        (ns', Some err) \<Rightarrow> collect_results nets m js (ns', success, fail + 1)
      | (ns', None) \<Rightarrow> collect_results nets m js (ns', success + 1, fail))"

record seed_outcome =
  so_nodes :: nodes
  so_success :: int
  so_fail :: int
  so_totalBalance :: int64
  so_exit :: int

text \<open>\<open>arrange\<close> is the order in which the workers handle the jobs.\<close>

definition seed_main ::
    "string list \<Rightarrow> bool \<Rightarrow> map_file \<Rightarrow> bool list \<Rightarrow> (string \<Rightarrow> string) \<Rightarrow> (string \<Rightarrow> int \<Rightarrow> net)
     \<Rightarrow> (((string \<times> map_error) + seedJob) list \<Rightarrow> ((string \<times> map_error) + seedJob) list) \<Rightarrow> nodes
     \<Rightarrow> seed_fatal + seed_outcome" where
  "seed_main keys readable file io env nets arrange ns =
     (let sc = seed_settings env in
      case LoadShardMap keys readable file io of
        Inl e \<Rightarrow> Inl (SeedMapNotLoaded e)
      | Inr sm \<Rightarrow>
          (let totalPartitions = ShardMap_PartitionCount sm in
           if totalPartitions = 0 then Inl SeedMapEmpty
           else case NewPartitionMapper (int totalPartitions) of
             None \<Rightarrow> Inl SeedMapperPanic
           | Some mapper \<Rightarrow>
               if 0 < sc_requestsPerSecond sc \<and> 1000000000 div sc_requestsPerSecond sc \<le> 0 then Inl SeedTickerPanic
               else (case collect_results nets (sc_maxRetries sc)
                       (arrange (seed_jobs sm mapper (sc_hostOverride sc) (word_of_int (sc_startingBalance sc)) (sc_numAccounts sc)))
                       (ns, 0, 0) of
                  (ns', success, fail) \<Rightarrow>
                    Inr \<lparr>so_nodes = ns', so_success = success, so_fail = fail,
                         so_totalBalance = word_of_int success * word_of_int (sc_startingBalance sc),
                         so_exit = (if 0 < fail then 1 else 0)\<rparr>)))"

section \<open>A job\<close>

definition job_ok :: "int64 \<Rightarrow> nodes \<Rightarrow> seedJob \<Rightarrow> bool" where
  "job_ok x ns job \<longleftrightarrow> sj_accountID job \<noteq> [] \<and> sj_body job = (sj_accountID job, x)
     \<and> ns (url_host (sj_url job)) \<noteq> None"

text \<open>Working logs, and no account of the jobs exists yet.\<close>

definition seedable :: "string set \<Rightarrow> nodes \<Rightarrow> bool" where
  "seedable accounts ns \<longleftrightarrow> (\<forall>addr s. ns addr = Some s \<longrightarrow> wal_healthy (s_walLog s) \<and> (\<forall>a \<in> accounts. l_balances (s_ledger s) a = None))"

lemma run_job_effect:
  assumes "cluster_ok ns" "seedable (insert (sj_accountID job) as) ns" "sj_accountID job \<notin> as" "job_ok x ns job"
    and "0 \<le> sint x" "cluster_funds ns + sint x < 2 ^ 63" "\<exists>k \<in> {1..m}. nets (sj_accountID job) k = NetOk" "1 \<le> m"
  obtains ns' s' where "run_job nets m job ns = (ns', None)" "cluster_ok ns'" "cluster_funds ns' = cluster_funds ns + sint x"
    "seedable as ns'" "ns' = ns(url_host (sj_url job) \<mapsto> s')" "l_balances (s_ledger s') (sj_accountID job) = Some x"
    "\<forall>b y s. ns (url_host (sj_url job)) = Some s \<and> l_balances (s_ledger s) b = Some y \<longrightarrow> l_balances (s_ledger s') b = Some y"
proof -
  let ?a = "sj_accountID job" and ?addr = "url_host (sj_url job)"
  obtain s where s: "ns ?addr = Some s" using assms(4) by (auto simp: job_ok_def)
  then have h: "wal_healthy (s_walLog s)" "l_balances (s_ledger s) ?a = None" using assms(2) by (auto simp: seedable_def)
  have "0 \<le>s x" using assms(5) by (simp add: word_sle_eq)
  then obtain s1 where s1: "ShardServer_CreateAccountWithWAL ?a x s = (s1, None)"
    "l_balances (s_ledger s1) = (l_balances (s_ledger s))(?a \<mapsto> x)"
    by (rule create_on_working_log [OF h])
  have job: "sj_body job = (?a, x)" "?a \<noteq> []" using assms(4) by (simp_all add: job_ok_def)
  have "l_balances (s_ledger s1) ?a \<noteq> None" by (simp add: s1(2))
  note at = attempts_new [OF job s1(1) this, of "nets ?a" m 1 None, folded seedAccount_def]
  have "answered (nets ?a) 1 m" "reached (nets ?a) 1 m" using assms(7) unfolding answered_def reached_def by force+
  then have run: "run_job nets m job ns = (ns(?addr \<mapsto> s1), None)" by (simp add: run_job_def s at)
  have "Ledger_CreateAccount ?a x (s_ledger s) = (s_ledger s1, None)"
    using h(2) s1(2) assms(5) by (simp add: Ledger_CreateAccount_def signed_order)
  moreover have "ledger_ok (s_ledger s)" "shard_funds s \<le> cluster_funds ns"
    using assms(1) s shard_funds_le_cluster by (auto simp: cluster_ok_def shard_ok_def)
  ultimately have f: "shard_ok s1" "shard_funds s1 = shard_funds s + sint x"
    using CreateAccount_ok [of "s_ledger s" ?a x "s_ledger s1"] assms(6) by (auto simp: shard_ok_def shard_funds_def)
  have cf: "cluster_funds (ns(?addr \<mapsto> s1)) = cluster_funds ns + sint x"
    using cluster_update [of ns ?addr s s1] s f(2) assms(1) by (simp add: cluster_ok_def)
  have ok: "cluster_ok (ns(?addr \<mapsto> s1))"
    by (rule cluster_ok_update [OF assms(1) s f(1)]) (use f(2) assms(6) in linarith)
  have "wal_healthy (s_walLog s1)"
    using Create_log [OF h(1) s1(1)] h(1) by (simp add: step_healthy)
  then have "seedable as (ns(?addr \<mapsto> s1))"
    using assms(2,3) s s1(2) by (auto simp: seedable_def)
  then show ?thesis
    using s h(2) s1(2) by (intro that [OF run ok cf _ refl]) auto
qed

section \<open>The run\<close>


definition holds_balance :: "int64 \<Rightarrow> nodes \<Rightarrow> seedJob \<Rightarrow> bool" where
  "holds_balance x ns job \<longleftrightarrow> (\<exists>s. ns (url_host (sj_url job)) = Some s \<and> l_balances (s_ledger s) (sj_accountID job) = Some x)"

lemma collect_all:
  assumes "cluster_ok ns" "seedable (sj_accountID ` set jobs) ns" "distinct (map sj_accountID jobs)" "\<forall>job \<in> set jobs. job_ok x ns job"
    and "0 \<le> sint x" "cluster_funds ns + int (length jobs) * sint x < 2 ^ 63" "1 \<le> m"
    and "\<forall>job \<in> set jobs. \<exists>k \<in> {1..m}. nets (sj_accountID job) k = NetOk" "\<forall>job \<in> set past. holds_balance x ns job"
  shows "\<exists>ns'. collect_results nets m (map Inr jobs) (ns, k, f) = (ns', k + int (length jobs), f)
    \<and> cluster_ok ns' \<and> cluster_funds ns' = cluster_funds ns + int (length jobs) * sint x
    \<and> (\<forall>job \<in> set past \<union> set jobs. holds_balance x ns' job)"
  using assms
proof (induction jobs arbitrary: ns k past)
  case (Cons job jobs)
  let ?as = "sj_accountID ` set jobs"
  have nn: "0 \<le> int (length jobs) * sint x" using Cons.prems(5) by simp
  then have fits: "cluster_funds ns + sint x < 2 ^ 63" "cluster_funds ns + sint x + int (length jobs) * sint x < 2 ^ 63"
    using Cons.prems(6) by (simp_all add: algebra_simps)
  have new: "sj_accountID job \<notin> ?as" "seedable (insert (sj_accountID job) ?as) ns" "job_ok x ns job"
    "\<exists>k \<in> {1..m}. nets (sj_accountID job) k = NetOk"
    using Cons.prems(2-4,8) by simp_all
  obtain ns1 s1 where r: "run_job nets m job ns = (ns1, None)" "cluster_ok ns1" "cluster_funds ns1 = cluster_funds ns + sint x"
    "seedable ?as ns1" "ns1 = ns(url_host (sj_url job) \<mapsto> s1)" "l_balances (s_ledger s1) (sj_accountID job) = Some x"
    and keep: "\<forall>b y s. ns (url_host (sj_url job)) = Some s \<and> l_balances (s_ledger s) b = Some y \<longrightarrow> l_balances (s_ledger s1) b = Some y"
    by (rule run_job_effect [where ns = ns and job = job and as = ?as and x = x and m = m and nets = nets,
          OF Cons.prems(1) new(2,1,3) Cons.prems(5) fits(1) new(4) Cons.prems(7)])
  have past: "\<forall>j \<in> set (job # past). holds_balance x ns1 j"
    using Cons.prems(9) r(5,6) keep unfolding holds_balance_def by (auto; metis)
  have ok: "\<forall>j \<in> set jobs. job_ok x ns1 j" using Cons.prems(4) r(5) by (auto simp: job_ok_def)
  have "distinct (map sj_accountID jobs)" "\<forall>job \<in> set jobs. \<exists>k \<in> {1..m}. nets (sj_accountID job) k = NetOk"
    "cluster_funds ns1 + int (length jobs) * sint x < 2 ^ 63"
    using Cons.prems(3,8) fits(2) r(3) by simp_all
  from Cons.IH [OF r(2,4) this(1) ok Cons.prems(5) this(3) Cons.prems(7) this(2) past, of "k + 1"]
  show ?case using r(1,3) by (auto simp: algebra_simps)
qed auto

section \<open>Properties\<close>

text \<open>
  C29: The seeding tool seeds every account once and says so. On a map whose partitions are numbered from zero, with
  working shards at the addresses the jobs name and none of the accounts there yet, if the network answers
  at least one of the attempts for each account, then however the workers share the jobs: the tool
  exits with 0, reports every account as a success and none as a failure, the shard that owns an account
  holds exactly the starting balance for it, and the cluster's total rises by exactly the total that is printed.
\<close>

theorem seed_run_complete:
  assumes "LoadShardMap keys readable file io = Inr sm" "dom (sm_partitions sm) = {0..<int p}" "0 < p" "int p < 2 ^ 63"
    and "sc = seed_settings env" "sc_requestsPerSecond sc \<le> 1000000000" "x = word_of_int (sc_startingBalance sc)" "mp = \<lparr>mp_numPartitions = int p\<rparr>"
    and "jobs = seed_jobs sm mp (sc_hostOverride sc) x (sc_numAccounts sc)" "mset (arrange jobs) = mset jobs"
    and "0 \<le> sc_numAccounts sc" "sc_numAccounts sc < 2 ^ 63"
    and "0 \<le> sc_startingBalance sc" "cluster_funds ns + sc_numAccounts sc * sc_startingBalance sc < 2 ^ 63" "sc_startingBalance sc < 2 ^ 63"
    and "cluster_ok ns" "seedable (job_account ` set jobs) ns"
    and "\<forall>job. Inr job \<in> set jobs \<longrightarrow> ns (url_host (sj_url job)) \<noteq> None \<and> (\<exists>k \<in> {1..sc_maxRetries sc}. nets (sj_accountID job) k = NetOk)"
  shows "\<exists>out. seed_main keys readable file io env nets arrange ns = Inr out
    \<and> so_exit out = 0 \<and> so_success out = sc_numAccounts sc \<and> so_fail out = 0
    \<and> cluster_ok (so_nodes out) \<and> cluster_funds (so_nodes out) = cluster_funds ns + sint (so_totalBalance out)
    \<and> (\<forall>job. Inr job \<in> set jobs \<longrightarrow> holds_balance x (so_nodes out) job)"
proof -
  have x: "sint x = sc_startingBalance sc" using sint_in_range [of "sc_startingBalance sc"] assms(7,13,15) by simp
  have "\<exists>job. j = Inr job" if jm: "j \<in> set jobs" for j
  proof -
    obtain i where j: "j = seed_job sm mp (sc_hostOverride sc) x i" using jm assms(9) by (auto simp: seed_jobs_def)
    have "mapper_ok mp" using assms(3,4,8) by (simp add: mapper_ok_def)
    then have "PartitionMapper_GetPartition (''user'' @ fmt_d (int i)) mp \<in> dom (sm_partitions sm)"
      using GetPartition_range [of mp "''user'' @ fmt_d (int i)"] assms(2,8) by auto
    then show ?thesis using j by (auto simp: seed_job_def ShardMap_GetShardForAccount_def Let_def split: option.splits)
  qed
  moreover have "set (arrange jobs) = set jobs" using assms(10) mset_eq_setD by blast
  ultimately have "\<exists>js. arrange jobs = map Inr js" unfolding ex_map_conv by simp
  then obtain js where js: "arrange jobs = map Inr js" ..
  have c: "length jobs = nat (sc_numAccounts sc)" "distinct (map job_account jobs)"
    "\<forall>job. Inr job \<in> set jobs \<longrightarrow> sj_body job = (sj_accountID job, x)"
    using seed_jobs_complete [OF assms(11,12), of sm mp "sc_hostOverride sc" x] unfolding assms(9) by blast+
  have set_js: "set jobs = Inr ` set js" using \<open>set (arrange jobs) = set jobs\<close> js by simp
  have len: "length js = nat (sc_numAccounts sc)" using assms(10) js c(1) by (metis length_map size_mset)
  have "distinct (map job_account (arrange jobs))" using c(2) assms(10) by (metis mset_eq_imp_distinct_iff mset_map)
  then have d: "distinct (map sj_accountID js)" by (simp add: js comp_def job_account_def)
  have ids: "sj_accountID ` set js = job_account ` set jobs" by (simp add: set_js image_image job_account_def)
  have jok: "\<forall>job \<in> set js. job_ok x ns job"
  proof
    fix job assume "job \<in> set js"
    then have "sj_accountID job \<in> job_account ` set jobs" "Inr job \<in> set jobs" using ids set_js by blast+
    moreover have "[] \<notin> job_account ` set jobs" by (auto simp: assms(9) seed_jobs_def)
    ultimately show "job_ok x ns job" using c(3) assms(18) unfolding job_ok_def by metis
  qed
  have nets: "\<forall>job \<in> set js. \<exists>k \<in> {1..sc_maxRetries sc}. nets (sj_accountID job) k = NetOk"
    using assms(18) set_js by blast
  have m: "1 \<le> sc_maxRetries sc" by (simp add: assms(5) seed_settings_def)
  obtain ns' where r: "collect_results nets (sc_maxRetries sc) (arrange jobs) (ns, 0, 0) = (ns', int (length js), 0)"
    "cluster_ok ns'" "cluster_funds ns' = cluster_funds ns + int (length js) * sint x" "\<forall>job \<in> set js. holds_balance x ns' job"
    using collect_all [OF assms(16) assms(17) [folded ids] d jok _ _ m nets, of "[]" 0 0] x assms(11,13,14) len js by auto
  have "sint (word_of_int (int (length js)) * x) = int (length js) * sint x"
  proof -
    have "0 \<le> cluster_funds ns"
      unfolding cluster_funds_def using assms(16) by (intro sum_nonneg shard_funds_nonneg) (auto simp: cluster_ok_def)
    moreover have "0 \<le> sc_numAccounts sc * sc_startingBalance sc" using assms(11,13) by simp
    ultimately show ?thesis
      using sint_in_range [of "sc_numAccounts sc * sc_startingBalance sc"] assms(7,11,14) len x by simp
  qed
  moreover have "\<not> (0 < sc_requestsPerSecond sc \<and> 1000000000 div sc_requestsPerSecond sc \<le> 0)"
    using assms(6) pos_imp_zdiv_pos_iff [of "sc_requestsPerSecond sc" 1000000000] by auto
  ultimately show ?thesis
    using r assms(3,5-9) len assms(11) assms(1,2) set_js
    by (auto simp: seed_main_def Let_def ShardMap_PartitionCount_def NewPartitionMapper_def)
qed

definition example_seed_env :: "string \<Rightarrow> string" where
  "example_seed_env key = (if key = ''NUM_ACCOUNTS'' then ''2'' else '''')"

definition example_seed_map :: ShardMap where
  "example_seed_map = \<lparr>sm_partitions = [0 \<mapsto> example_shards ! 0], sm_file = MapFile [''0'' \<mapsto> example_shards ! 0], sm_io = []\<rparr>"

definition example_retries :: "string \<Rightarrow> int \<Rightarrow> net" where
  "example_retries a k = (if k = 1 then RequestLost else if k = 2 then ReplyLost else NetOk)"

lemma example_seed_settings:
  "seed_settings example_seed_env = \<lparr>sc_numAccounts = 2, sc_startingBalance = 10000, sc_hostOverride = ''localhost'',
     sc_workerCount = 12, sc_maxRetries = 6, sc_requestsPerSecond = 60\<rparr>"
proof -
  have "Atoi ''2'' = Some 2" by code_simp
  then show ?thesis by (simp add: seed_settings_def envIntOrDefault_def envOrDefault_def example_seed_env_def)
qed

theorem seed_run_complete_witness:
  "\<exists>out. seed_main [''0''] True (MapFile [''0'' \<mapsto> example_shards ! 0]) [] example_seed_env example_retries rev
      [''localhost:8081'' \<mapsto> example_shard []] = Inr out
    \<and> so_exit out = 0 \<and> so_success out = 2 \<and> cluster_funds (so_nodes out) = 150 + sint (so_totalBalance out)"
proof -
  let ?jobs = "seed_jobs example_seed_map \<lparr>mp_numPartitions = int 1\<rparr> ''localhost'' 10000 2"
  let ?ns = "[''localhost:8081'' \<mapsto> example_shard []]"
  have l: "LoadShardMap [''0''] True (MapFile [''0'' \<mapsto> example_shards ! 0]) [] = Inr example_seed_map"
  proof -
    have "Sscanf_d ''0'' = Some 0" by code_simp
    then show ?thesis by (simp add: LoadShardMap_def example_seed_map_def)
  qed
  have d: "dom (sm_partitions example_seed_map) = {0..<int 1}" by (auto simp: example_seed_map_def)
  have ok: "cluster_ok ?ns" "cluster_funds ?ns = 150"
    by (auto simp: cluster_ok_def cluster_funds_def example_funds example_ok split: if_splits)
  have "url_host (sj_url job) = ''localhost:8081''" if "Inr job \<in> set ?jobs" for job
    using that by (auto simp: seed_jobs_def seed_job_def Let_def ShardMap_GetShardForAccount_def example_seed_map_def
      rewriteShardAddr_def SplitN2_def example_shards_def url_host_def split: option.splits if_splits)
  moreover have "\<exists>k \<in> {1..6}. example_retries a k = NetOk" for a by (intro bexI [of _ 3]) (simp_all add: example_retries_def)
  ultimately have jobs: "\<forall>job. Inr job \<in> set ?jobs \<longrightarrow> ?ns (url_host (sj_url job)) \<noteq> None
      \<and> (\<exists>k \<in> {1..6}. example_retries (sj_accountID job) k = NetOk)"
    by simp
  have "job_account ` set ?jobs = {''user0'', ''user1''}"
  proof -
    have "fmt_d 0 = ''0''" "fmt_d 1 = ''1''" by code_simp+
    then show ?thesis by (simp add: seed_jobs_def upt_rec numeral_2_eq_2)
  qed
  then have new: "seedable (job_account ` set ?jobs) ?ns"
    by (simp add: seedable_def wal_healthy_def example_shard_def)
  show ?thesis
    using seed_run_complete [of "[''0'']" True "MapFile [''0'' \<mapsto> example_shards ! 0]" "[]" example_seed_map 1
        "seed_settings example_seed_env" example_seed_env 10000 "\<lparr>mp_numPartitions = int 1\<rparr>" ?jobs rev ?ns example_retries]
      l d new jobs ok by (auto simp: example_seed_settings)
qed

end
