(* ===== verification/FaultProxy.thy ===== *)
theory FaultProxy
  imports Strings Models
begin

text \<open>
  \<^verbatim>\<open>cmd/fault-proxy/main.go\<close>: the service that stops and starts containers for fault injection. The Docker
  client is a parameter, the record \<open>docker_lib\<close>: the calls the program makes, on an abstract state of the
  Docker engine.
\<close>

section \<open>Model\<close>

record container =
  ct_ID :: string
  ct_Names :: "string list"

record 'd docker_lib =
  dk_ContainerList :: "'d \<Rightarrow> container list option"
  dk_ContainerStop :: "string \<Rightarrow> 'd \<Rightarrow> 'd \<times> bool"
  dk_ContainerStart :: "string \<Rightarrow> 'd \<Rightarrow> 'd \<times> bool"
  dk_Running :: "string \<Rightarrow> 'd \<Rightarrow> bool option"

datatype proxy_body =
    PxHealthy | PxNoRoute | PxError string | PxListFailed | PxNotFoundError string | PxStopFailed | PxStartFailed | PxInspectFailed
  | PxDone string string | PxNotFound string | PxState string string bool
  | PxStates "string \<rightharpoonup> string \<times> bool"

definition shard_names :: "string list" where
  "shard_names = concat (map (\<lambda>n. [n, n @ ''a'', n @ ''b'']) [''shard1'', ''shard2'', ''shard3''])"

definition allowedContainers :: "string list" where
  "allowedContainers = shard_names @ [''coordinator'', ''coordinator2'', ''load-monitor'', ''api-gateway'']"

definition name_matches :: "string \<Rightarrow> string \<Rightarrow> bool" where
  "name_matches name n \<longleftrightarrow>
     (let cleanName = TrimPrefix n ''/'' in
      cleanName = name \<or> HasSuffix cleanName (''-'' @ name) \<or> HasSuffix cleanName (''-'' @ name @ ''-1''))"

text \<open>The two nested loops: the first container one of whose names matches.\<close>

fun find_name :: "string \<Rightarrow> container list \<Rightarrow> string option" where
  "find_name name [] = None"
| "find_name name (c # cs) = (if list_ex (name_matches name) (ct_Names c) then Some (ct_ID c) else find_name name cs)"

definition findContainer :: "'d docker_lib \<Rightarrow> string \<Rightarrow> 'd \<Rightarrow> proxy_body + string" where
  "findContainer cli name d =
     (case dk_ContainerList cli d of
        None \<Rightarrow> Inl PxListFailed
      | Some containers \<Rightarrow>
          (case find_name name containers of None \<Rightarrow> Inl (PxNotFoundError name) | Some i \<Rightarrow> Inr i))"

definition handle_kill :: "'d docker_lib \<Rightarrow> http_method \<Rightarrow> string \<Rightarrow> 'd \<Rightarrow> 'd \<times> nat \<times> proxy_body" where
  "handle_kill cli m name d =
     (if m \<noteq> MethodPost then (d, 405, PxError ''method not allowed'')
      else if name \<notin> set allowedContainers then (d, 403, PxError ''container not in allowlist'')
      else case findContainer cli name d of
        Inl err \<Rightarrow> (d, 404, err)
      | Inr containerID \<Rightarrow>
          (case dk_ContainerStop cli containerID d of
             (d', False) \<Rightarrow> (d', 500, PxStopFailed)
           | (d', True) \<Rightarrow> (d', 200, PxDone ''stopped'' name)))"

definition handle_restart :: "'d docker_lib \<Rightarrow> http_method \<Rightarrow> string \<Rightarrow> 'd \<Rightarrow> 'd \<times> nat \<times> proxy_body" where
  "handle_restart cli m name d =
     (if m \<noteq> MethodPost then (d, 405, PxError ''method not allowed'')
      else if name \<notin> set allowedContainers then (d, 403, PxError ''container not in allowlist'')
      else case findContainer cli name d of
        Inl err \<Rightarrow> (d, 404, err)
      | Inr containerID \<Rightarrow>
          (case dk_ContainerStart cli containerID d of
             (d', False) \<Rightarrow> (d', 500, PxStartFailed)
           | (d', True) \<Rightarrow> (d', 200, PxDone ''started'' name)))"

text \<open>One entry of the answer without a name: the status and whether the container runs.\<close>

definition container_state :: "'d docker_lib \<Rightarrow> 'd \<Rightarrow> string \<Rightarrow> string \<times> bool" where
  "container_state cli d name =
     (case findContainer cli name d of
        Inl err \<Rightarrow> (''not_found'', False)
      | Inr containerID \<Rightarrow>
          (case dk_Running cli containerID d of
             None \<Rightarrow> (''error'', False)
           | Some running \<Rightarrow> (if running then ''running'' else ''stopped'', running)))"

definition handle_status :: "'d docker_lib \<Rightarrow> string \<Rightarrow> 'd \<Rightarrow> nat \<times> proxy_body" where
  "handle_status cli name d =
     (if name = '''' then
        (200, PxStates (\<lambda>n. if n \<in> set allowedContainers then Some (container_state cli d n) else None))
      else if name \<notin> set allowedContainers then (403, PxError ''container not in allowlist'')
      else case findContainer cli name d of
        Inl err \<Rightarrow> (200, PxNotFound name)
      | Inr containerID \<Rightarrow>
          (case dk_Running cli containerID d of
             None \<Rightarrow> (500, PxInspectFailed)
           | Some running \<Rightarrow> (200, PxState (if running then ''running'' else ''stopped'') name running)))"

text \<open>The routes; \<open>name\<close> is the query parameter \<^verbatim>\<open>container\<close>.\<close>

definition proxy_serve :: "'d docker_lib \<Rightarrow> http_method \<times> string \<times> string \<Rightarrow> 'd \<Rightarrow> 'd \<times> nat \<times> proxy_body" where
  "proxy_serve cli rq d =
     (case rq of (m, path, name) \<Rightarrow>
        if path = ''/health'' then (d, 200, PxHealthy)
        else if path = ''/kill'' then handle_kill cli m name d
        else if path = ''/restart'' then handle_restart cli m name d
        else if path = ''/status'' then (d, handle_status cli name d)
        else (d, 404, PxNoRoute))"

definition proxy_run :: "'d docker_lib \<Rightarrow> (http_method \<times> string \<times> string) list \<Rightarrow> 'd \<Rightarrow> 'd" where
  "proxy_run cli rqs d = fold (\<lambda>rq d. fst (proxy_serve cli rq d)) rqs d"

section \<open>Properties\<close>

lemma find_name_first:
  "find_name name cs = Some i \<Longrightarrow>
     \<exists>c n. c \<in> set cs \<and> ct_ID c = i \<and> n \<in> set (ct_Names c) \<and> name_matches name n"
  by (induction cs) (auto simp: list_ex_iff split: if_splits)

lemma find_name_none: "find_name name cs = None \<longleftrightarrow> (\<forall>c \<in> set cs. \<forall>n \<in> set (ct_Names c). \<not> name_matches name n)"
  by (induction cs) (auto simp: list_ex_iff)

text \<open>A container that the service may touch: one of its names, without the slash Docker prepends, is an allowed
  service, or ends in a dash and the service, or in a dash, the service and \<^verbatim>\<open>-1\<close>.\<close>

definition may_touch :: "'d docker_lib \<Rightarrow> 'd \<Rightarrow> string \<Rightarrow> bool" where
  "may_touch cli d i \<longleftrightarrow> (\<exists>cs c n name. dk_ContainerList cli d = Some cs \<and> c \<in> set cs \<and> ct_ID c = i \<and> n \<in> set (ct_Names c)
     \<and> name \<in> set allowedContainers
     \<and> (TrimPrefix n ''/'' = name \<or> (\<exists>r. TrimPrefix n ''/'' = r @ ''-'' @ name) \<or> (\<exists>r. TrimPrefix n ''/'' = r @ ''-'' @ name @ ''-1'')))"

lemma find_may_touch:
  assumes "name \<in> set allowedContainers" "findContainer cli name d = Inr i"
  shows "may_touch cli d i"
proof -
  obtain cs where cs: "dk_ContainerList cli d = Some cs" "find_name name cs = Some i"
    using assms(2) by (auto simp: findContainer_def split: option.splits)
  from find_name_first [OF cs(2)] obtain c n where
    c: "c \<in> set cs" "ct_ID c = i" "n \<in> set (ct_Names c)" "name_matches name n" by blast
  have "TrimPrefix n ''/'' = name \<or> (\<exists>r. TrimPrefix n ''/'' = r @ ''-'' @ name) \<or> (\<exists>r. TrimPrefix n ''/'' = r @ ''-'' @ name @ ''-1'')"
    using c(4) by (auto simp: name_matches_def HasSuffix_iff Let_def)
  with cs(1) c(1-3) assms(1) show ?thesis unfolding may_touch_def by blast
qed

lemma serve_touches:
  "fst (proxy_serve cli rq d) = d
   \<or> (\<exists>i. may_touch cli d i \<and> fst (proxy_serve cli rq d) \<in> {fst (dk_ContainerStop cli i d), fst (dk_ContainerStart cli i d)})"
proof -
  obtain m path name where rq: "rq = (m, path, name)" by (metis prod_cases3)
  have "fst (handle_kill cli m name d) = d \<or> (\<exists>i. may_touch cli d i \<and> fst (handle_kill cli m name d) = fst (dk_ContainerStop cli i d))"
    using find_may_touch [of name cli d] by (auto simp: handle_kill_def split: sum.split prod.split bool.split)
  moreover have "fst (handle_restart cli m name d) = d \<or> (\<exists>i. may_touch cli d i \<and> fst (handle_restart cli m name d) = fst (dk_ContainerStart cli i d))"
    using find_may_touch [of name cli d] by (auto simp: handle_restart_def split: sum.split prod.split bool.split)
  ultimately show ?thesis by (auto simp: proxy_serve_def rq)
qed

text \<open>
  C34: Fault injection is confined to the allow-list. Whatever requests the service handles one after another, on whatever
  paths, in whatever number and order, it stops and starts only containers whose names match an allowed service: any property
  of the Docker engine that survives stopping and starting those survives every run of the service.
\<close>

theorem proxy_confined_to_allowlist:
  assumes "\<And>d i. P d \<Longrightarrow> may_touch cli d i \<Longrightarrow> P (fst (dk_ContainerStop cli i d)) \<and> P (fst (dk_ContainerStart cli i d))"
    and "P d"
  shows "P (proxy_run cli rqs d)"
  using assms(2)
proof (induction rqs arbitrary: d)
  case (Cons rq rqs)
  have "P (fst (proxy_serve cli rq d))" using serve_touches [of cli rq d] assms(1) [OF Cons.prems] Cons.prems by auto
  from Cons.IH [OF this] show ?case by (simp add: proxy_run_def)
qed (simp add: proxy_run_def)

text \<open>The first match in Docker's listing is taken, not the best one: a container of another project whose
  name ends the same way is stopped although the named container exists.\<close>

lemma suffix_match_picks_other_project:
  "find_name ''shard1''
     [\<lparr>ct_ID = ''c1'', ct_Names = [''/staging-shard1'']\<rparr>, \<lparr>ct_ID = ''c2'', ct_Names = [''/shard1'']\<rparr>] = Some ''c1''"
  by code_simp

text \<open>An engine with two containers, whose state is the list of the stopped ones.\<close>

definition example_docker :: "string list docker_lib" where
  "example_docker = \<lparr>dk_ContainerList = (\<lambda>d. Some [\<lparr>ct_ID = ''db'', ct_Names = [''/app-postgres-1'']\<rparr>, \<lparr>ct_ID = ''c1'', ct_Names = [''/app-shard1-1'']\<rparr>]),
     dk_ContainerStop = (\<lambda>i d. (i # d, True)), dk_ContainerStart = (\<lambda>i d. (removeAll i d, True)),
     dk_Running = (\<lambda>i d. Some (i \<notin> set d))\<rparr>"

theorem proxy_confined_to_allowlist_witness:
  "''db'' \<notin> set (proxy_run example_docker [(MethodPost, ''/kill'', ''shard1''), (MethodPost, ''/kill'', ''postgres'')] [])"
proof (rule proxy_confined_to_allowlist)
  fix d i
  assume d: "''db'' \<notin> set d" and m: "may_touch example_docker d i"
  have "\<not> list_ex (\<lambda>name. name_matches name ''/app-postgres-1'') allowedContainers" by code_simp
  then have "i \<noteq> ''db''"
    using m by (auto simp: may_touch_def example_docker_def list_ex_iff name_matches_def HasSuffix_iff Let_def)
  with d show "''db'' \<notin> set (fst (dk_ContainerStop example_docker i d)) \<and> ''db'' \<notin> set (fst (dk_ContainerStart example_docker i d))"
    by (auto simp: example_docker_def)
qed simp

end
