(* ===== verification/Spec2Isabelle.thy ===== *)
theory Spec2Isabelle
  imports ClusterRoute Redelivery Pipeline Failover Config ShardProcess MonitorProcess LoadGen SeedProcess FaultProxy
begin

text \<open>
  A verification library for the sharded ledger service (module \<^verbatim>\<open>ledger-service\<close>, Go).

  \<^bold>\<open>The program.\<close> Clients submit transfers to an API gateway (\<^verbatim>\<open>api\<close>, \<^verbatim>\<open>cmd/api\<close>), which authenticates and
  throttles them and publishes the transfers to a Kafka topic, or directly to a coordinator. Accounts
  are hashed into partitions (\<^verbatim>\<open>shared/utils/hash.go\<close>), partitions are assigned to shard servers
  (\<^verbatim>\<open>coordinator/shardmap\<close>). The coordinator validates (\<^verbatim>\<open>coordinator/consumer\<close>), routes
  (\<^verbatim>\<open>coordinator/router\<close>) and sends a transfer to one shard or runs two-phase commit over two
  (\<^verbatim>\<open>coordinator/twopc\<close>), talking HTTP (\<^verbatim>\<open>messaging\<close>, \<^verbatim>\<open>shard/server/http_handler.go\<close>). A shard
  (\<^verbatim>\<open>shard/server\<close>) keeps balances in a ledger (\<^verbatim>\<open>shard/ledger\<close>), logs before it applies (\<^verbatim>\<open>shard/wal\<close>),
  replicates to followers (\<^verbatim>\<open>shard/replication\<close>), checkpoints to a store (\<^verbatim>\<open>storage\<close>) and rebuilds itself
  from its log (\<^verbatim>\<open>shard/recovery\<close>). Heartbeats and an election (\<^verbatim>\<open>shard/failover\<close>) replace a dead leader, a
  load monitor (\<^verbatim>\<open>load-monitor\<close>) moves partitions away from busy shards, and tools seed accounts
  (\<^verbatim>\<open>cmd/seed\<close>), generate load (\<^verbatim>\<open>cmd/loadgen\<close>), print tokens (\<^verbatim>\<open>cmd/devtoken\<close>) and inject faults
  (\<^verbatim>\<open>cmd/fault-proxy\<close>). Each part but the libraries is a process of its own under \<^verbatim>\<open>cmd\<close>.

  \<^bold>\<open>How it is modelled.\<close> A Go method is a function that takes the state and returns it updated
  with what the method returns; every early return is a branch, every error a value. A struct is a
  record, an enumeration a datatype, an \<^verbatim>\<open>int64\<close> a 64-bit word whose arithmetic wraps; an \<^verbatim>\<open>int\<close> that only
  counts is an \<open>int\<close>. What the environment decides is an argument or part of the state, so that a theorem
  holds for every environment: how the disk answers the coming writes (\<open>w_faults\<close>, \<open>js_faults\<close>, \<open>sm_io\<close>),
  what the followers answer (\<open>pr_acks\<close>), what the network does to each request (\<open>net\<close>: delivered, lost,
  or the reply lost), how goroutines interleave (a schedule), in which order the runtime visits a map (a
  list with \<open>visits\<close>), what the clock shows and which random numbers are drawn. What Go computes in floating
  point for display, a rate on a metrics page, is an argument too. Third-party packages (JWT, rate limiter, Docker client) are records of functions
  that the definitions take. Loops are recursive functions that terminate on every input, so no theorem
  depends on fuel: the commit retries run down the counter of \<open>committer\<close> from three, the seeding loop
  the attempts left.

  \<^bold>\<open>The theories\<close>, each with the files it models:

  \<^item> \<open>Prelude\<close>, \<open>Strconv\<close>, \<open>Strings\<close>: maps visited in any order, sums of balances, signed 64-bit arithmetic;
    what the program uses of \<^verbatim>\<open>strconv\<close>, \<^verbatim>\<open>fmt\<close> and \<^verbatim>\<open>strings\<close>, with printing and parsing shown inverse.
  \<^item> \<open>Models\<close> (\<^verbatim>\<open>shared/constants\<close>, \<^verbatim>\<open>shared/models\<close>), \<open>Hash\<close> (\<^verbatim>\<open>shared/utils\<close>): the vocabulary, and SHA-256 with
    the partition mapper; every account has a valid partition. \<open>HashValues\<close> computes digests in the logic: the
    example of the standard comes out, and the partitions of the accounts in the examples.
  \<^item> \<open>Ledger\<close>, \<open>Wal\<close>, \<open>Storage\<close>, \<open>Partition\<close>, \<open>Replication\<close>, \<open>Recovery\<close>: the parts of a shard. Transfers conserve
    money exactly and do not overflow; a log reads back what was written, unless a line reaches the 64 KB limit of the scanner
    (\<open>LongLine\<close>, which makes \<^verbatim>\<open>ReadAll\<close> fail), and reopens where it stopped;
    the store implements the locale \<open>storage_engine\<close>, the counterpart of the Go interface; the quorum loop
    equals counting and success means that a quorum holds the entry; recovery refines replaying the
    committed records in order.
  \<^item> \<open>ShardServer\<close>, \<open>ShardBehaviour\<close>, \<open>HttpHandler\<close> (\<^verbatim>\<open>shard/server\<close>): the node. Its three participant operations
    implement the locale \<open>participant\<close>; execution conserves funds and is idempotent, PREPARE is all or
    nothing, COMMIT delivers once, ABORT gives back.
  \<^item> \<open>CrashSafety\<close>: runs of a shard as an inductive relation (\<open>shard_run\<close>) with a history of reservations, and the
    invariant that the log explains the balances; a restart restores them. A run has executions that succeed, are
    rejected or fail in replication, prepares, commits that succeed or fail, aborts, creations, checkpoints and restarts at rest, on a
    working log. It leaves out what breaks the invariant: a success after a failed attempt that left records, and a restart with a prepared
    debit, for which the last theorems show what happens; \<^verbatim>\<open>ReceivePartition\<close>, which sets balances without logging them;
    and a COMMIT of a debit that is not prepared or with another operation, which no coordinator sends.
  \<^item> \<open>Concurrency\<close>: single-shard executions split at their locks and interleaved in every way. Alone, the
    steps are the function of \<open>ShardServer\<close>; together they simulate atomic transfers (locale \<open>simulation\<close>),
    conserve funds, and leave a log that explains the balances up to the transfers not yet marked.
  \<^item> \<open>Handlers\<close>: all handlers of a shard, the participant operations of two-phase commit and the creation of
    accounts included, split at their locks and interleaved in every way. Alone, their steps are the functions
    of \<open>ShardServer\<close>; together they refine an escrow machine in which the money of a transaction is
    reserved, released, settled or deposited at most once (locale \<open>forward_simulation\<close>, which \<open>simulation\<close>
    gives), and its balance sheet holds at every moment. Money is settled or deposited only on a COMMIT and released only on
    an ABORT (\<open>licensed\<close>), and at rest the transaction table fits where it is (\<open>idle_match\<close>).
  \<^item> \<open>Messaging\<close> (\<^verbatim>\<open>messaging\<close>), \<open>ShardMap\<close>, \<open>TwoPC\<close>, \<open>Router\<close>, \<open>Consumer\<close> (\<^verbatim>\<open>coordinator\<close>): remote calls over a lossy
    network (locale \<open>remote_call\<close>), the partition table and its file, the commit protocol with its two
    goroutines interleaved in every way, and the entry points. No sequence of submissions creates money;
    a credit implies its debit; with a working network a possible transfer commits.
  \<^item> \<open>Cluster\<close>, \<open>ClusterFunds\<close>, \<open>ClusterRoute\<close>: the submissions of any number of coordinators and the handlers of all shards as one
    concurrent system, message by message; requests are lost, served late or given up on. Atomic commitment
    holds at every moment, every schedule ends with every submission answered, and the balances with the
    amounts on their way add up to the same total (each shard through the escrow machine of \<open>Handlers\<close>). Every run
    of \<open>Router_Route\<close>, in which a request is served as a whole, is one of these schedules.
  \<^item> \<open>Redelivery\<close>: a transfer submitted any number of times. Where its two shards stand determines the money;
    a last submission over a working network settles it exactly, and the case in which a submission
    after the answer COMMITTED creates money.
  \<^item> \<open>Failover\<close> (\<^verbatim>\<open>shard/failover\<close>), \<open>LoadMonitor\<close> (\<^verbatim>\<open>load-monitor\<close>): when a dead peer is reported, which replica is
    promoted, which partition is moved where. A migration is a goroutine of the monitor: its steps interleave with later
    rounds and other migrations (\<open>monitor_run\<close>), and a round that nothing overtakes is one schedule.
  \<^item> \<open>Config\<close> (\<^verbatim>\<open>internal/config\<close>): well-formed configurations. \<open>Gateway\<close> (\<^verbatim>\<open>api\<close>, the routing of \<^verbatim>\<open>cmd/api\<close>) and
    \<open>GatewayProcess\<close> (\<^verbatim>\<open>cmd/api\<close>, \<^verbatim>\<open>cmd/devtoken\<close>): admission of requests, isolation of the limiters (locale
    \<open>keyed_cells\<close>), and the life of a development token with a JWT library that gives back what it signed (\<open>jwt_verifies\<close>, asked
    for claims that survive the encoding: ASCII texts, numbers up to \<open>2\<^sup>53\<close>, no \<^verbatim>\<open>nbf\<close>).
  \<^item> \<open>Startup\<close> (\<^verbatim>\<open>cmd/shard\<close>, \<^verbatim>\<open>cmd/coordinator\<close>): how the processes start and restart, what a promoted follower is
    left with. \<open>Pages\<close>, \<open>ShardProcess\<close> and \<open>CoordinatorProcess\<close>: the routes of the running processes and their
    metrics pages, read back by a scraper; what requests can change, and that each is answered.
  \<^item> \<open>Pipeline\<close>: the gateway, the topic and the coordinator side by side, from the request to the shards. Of Kafka it is
    used only that what is delivered was published: deliveries come in any order and any number of times.
  \<^item> \<open>Duration\<close> (\<^verbatim>\<open>time.ParseDuration\<close>), \<open>MonitorProcess\<close> (\<^verbatim>\<open>cmd/load-monitor\<close>): the load monitor as a process keeps to
    its settings, the cooldown as long as no check overtakes a migration; the schedule that breaks it otherwise; and what a saved
    migration does to a restarted coordinator and to transfers of the accounts concerned.
  \<^item> \<open>Seed\<close>, \<open>SeedProcess\<close> (\<^verbatim>\<open>cmd/seed\<close>), \<open>LoadGen\<close> (\<^verbatim>\<open>cmd/loadgen\<close>), \<open>FaultProxy\<close> (\<^verbatim>\<open>cmd/fault-proxy\<close>): the retry loop, its
    back-off and a whole seeding run; the seeding and the attack of the load generator; the confinement of
    fault injection.

  \<^bold>\<open>Bounds.\<close> Conservation statements assume that the funds of a shard fit into 63 bits (\<open>shard_ok\<close>,
  \<open>cluster_ok\<close>), which the operations keep. Partition numbers are 64-bit integers. The back-off is bounded
  for 36 attempts; the default is six.

  \<^bold>\<open>Not modelled.\<close> Wall-clock fields that no code reads back, log and progress output, opening sockets, signals and
  shutting down; the pacing of the seeding tool and of the heartbeats, whose rounds are steps here; the wire format of the JSON bodies, which encode and decode to
  the same records; and the inside of the third-party packages.

  \<^bold>\<open>Limits.\<close> A shard that crashes is followed by recovery in \<open>CrashSafety\<close> (one operation at a time) and
  \<open>Concurrency\<close> (single-shard executions); in \<open>Cluster\<close> a shard may stop for ever but does not come back with the
  state its log gives it, since \<open>crash_forgets_reservation\<close> shows that the reservations are then gone.
\<close>

end
